(* ===== verification/Prelude.thy ===== *)
theory Prelude
  imports Main "HOL-Library.Word" "HOL-Library.Monad_Syntax"
begin

text \<open>
  What the components share: the machine's integer types, the null pointer, the RAM window of
  \<^verbatim>\<open>Software/linker.ld\<close>, and generic lemmas about the option monad (whose \<open>None\<close> is an access the
  machine traps on, or a loop that does not return) and about singly linked pointer chains.
\<close>

unbundle bit_operations_syntax

type_synonym u8 = "8 word"
type_synonym u16 = "16 word"
type_synonym u32 = "32 word"
type_synonym u64 = "64 word"

text \<open>A pointer of RV32 is a 32-bit word; \<open>size_t\<close> and \<open>uintptr_t\<close> have the same width.\<close>

type_synonym addr = "32 word"

abbreviation NULL :: addr where
  "NULL \<equiv> 0"

named_theorems kernel_simps \<open>rewrite rules of the kernel's accessors and updaters\<close>
named_theorems queue_simps \<open>rewrite rules of the pointer chains\<close>

section \<open>RAM\<close>

text \<open>\<^verbatim>\<open>RAM (w!x) : ORIGIN = 0x50000000, LENGTH = 4 * 4K\<close> of linker.ld.\<close>

definition RAM_START :: addr where
  "RAM_START = 0x50000000"

definition RAM_END :: addr where
  "RAM_END = 0x50004000"

section \<open>The option monad\<close>

lemma bind_SomeE:
  assumes "Option.bind m f = Some y"
  obtains x where "m = Some x" and "f x = Some y"
  using assms by (cases m) auto

lemma bind_eq_Some: "(Option.bind m f = Some y) = (\<exists>x. m = Some x \<and> f x = Some y)"
  by (cases m) auto

section \<open>Pointer chains\<close>

text \<open>
  \<open>chain nx p xs q\<close>: following \<open>nx\<close> from \<open>p\<close> one meets the addresses \<open>xs\<close>, none of them null,
  and then stands at \<open>q\<close>.
\<close>

primrec chain :: "(addr \<Rightarrow> addr) \<Rightarrow> addr \<Rightarrow> addr list \<Rightarrow> addr \<Rightarrow> bool" where
  "chain nx p [] q = (p = q)"
| "chain nx p (x # xs) q = (p = x \<and> x \<noteq> NULL \<and> chain nx (nx x) xs q)"

lemma chain_append [queue_simps]:
  "chain nx p (xs @ ys) q = (\<exists>r. chain nx p xs r \<and> chain nx r ys q)"
  by (induction xs arbitrary: p) auto

lemma chain_frame [queue_simps]:
  "a \<notin> set xs \<Longrightarrow> chain (nx(a := b)) p xs q = chain nx p xs q"
  by (induction xs arbitrary: p) auto

lemma chain_cong:
  "(\<And>x. x \<in> set xs \<Longrightarrow> nx x = ny x) \<Longrightarrow> chain nx p xs q = chain ny p xs q"
  by (induction xs arbitrary: p) auto

lemma chain_not_null: "chain nx p xs q \<Longrightarrow> NULL \<notin> set xs"
  by (induction xs arbitrary: p) auto

lemma chain_null [simp]: "chain nx NULL xs NULL = (xs = [])"
  by (cases xs) auto

lemma chain_start: "chain nx p xs NULL \<Longrightarrow> (p = NULL) = (xs = [])"
  by (cases xs) auto

lemma chain_unique: "chain nx p xs NULL \<Longrightarrow> chain nx p ys NULL \<Longrightarrow> xs = ys"
proof (induction xs arbitrary: p ys)
  case Nil
  then show ?case by (cases ys) auto
next
  case (Cons x xs)
  then show ?case by (cases ys) auto
qed

section \<open>Unsigned words as naturals\<close>

lemma unat_less_2p32 [simp]: "unat (w :: u32) < 4294967296"
  using unsigned_less [of w] by simp

lemma unat_add_small:
  fixes a b :: u32
  assumes "unat a + unat b < 4294967296"
  shows "unat (a + b) = unat a + unat b"
  using assms by (simp add: unat_word_ariths)

lemma unat_of_nat_u32: "n < 4294967296 \<Longrightarrow> unat (of_nat n :: u32) = n"
  by (simp add: unat_of_nat take_bit_nat_eq_self)

lemma of_nat_u32_inj:
  "m < 4294967296 \<Longrightarrow> n < 4294967296 \<Longrightarrow> (of_nat m :: u32) = of_nat n \<longleftrightarrow> m = n"
  by (metis unat_of_nat_u32)

end
