(* ===== verification/Heap_Allocator.thy ===== *)
theory Heap_Allocator
  imports Prelude
begin

text \<open>
  The kernel's first-fit allocator, \<^verbatim>\<open>Software/src/kernel/mem_alloc/heap_allocator.c\<close>.
  The heap is an array of 64-byte blocks. A segment is a run of blocks that starts with a
  \<open>struct mem_segment\<close> header; the free segments form a doubly linked list in address order.
  The headers are modelled as a total store over addresses (the RAM read as headers); reading
  or writing a header outside the RAM window is a bus fault, the value \<open>None\<close>.
\<close>

section \<open>State and operations\<close>

record mem_segment =
  seg_blocks :: u32
  seg_next :: addr
  seg_prev :: addr

record heap =
  seg :: "addr \<Rightarrow> mem_segment"
  head_segment :: addr

definition KMEM_BLOCK_SIZE :: u32 where
  "KMEM_BLOCK_SIZE = 64"

definition sizeof_mem_segment :: u32 where
  "sizeof_mem_segment = 12"

definition mapped :: "addr \<Rightarrow> bool" where
  "mapped p \<longleftrightarrow> RAM_START \<le> p \<and> p \<le> RAM_END - sizeof_mem_segment"

definition get_seg :: "addr \<Rightarrow> 'a heap_scheme \<Rightarrow> mem_segment option" where
  "get_seg p h = (if mapped p then Some (seg h p) else None)"

definition upd_seg :: "addr \<Rightarrow> (mem_segment \<Rightarrow> mem_segment) \<Rightarrow> 'a heap_scheme \<Rightarrow> 'a heap_scheme option" where
  "upd_seg p f h = (if mapped p then Some (h\<lparr>seg := (seg h)(p := f (seg h p))\<rparr>) else None)"

definition get_blocks :: "addr \<Rightarrow> 'a heap_scheme \<Rightarrow> u32 option" where
  "get_blocks p h = map_option seg_blocks (get_seg p h)"

definition get_next :: "addr \<Rightarrow> 'a heap_scheme \<Rightarrow> addr option" where
  "get_next p h = map_option seg_next (get_seg p h)"

definition get_prev :: "addr \<Rightarrow> 'a heap_scheme \<Rightarrow> addr option" where
  "get_prev p h = map_option seg_prev (get_seg p h)"

definition set_blocks :: "addr \<Rightarrow> u32 \<Rightarrow> 'a heap_scheme \<Rightarrow> 'a heap_scheme option" where
  "set_blocks p v = upd_seg p (\<lambda>r. r\<lparr>seg_blocks := v\<rparr>)"

definition set_next :: "addr \<Rightarrow> addr \<Rightarrow> 'a heap_scheme \<Rightarrow> 'a heap_scheme option" where
  "set_next p v = upd_seg p (\<lambda>r. r\<lparr>seg_next := v\<rparr>)"

definition set_prev :: "addr \<Rightarrow> addr \<Rightarrow> 'a heap_scheme \<Rightarrow> 'a heap_scheme option" where
  "set_prev p v = upd_seg p (\<lambda>r. r\<lparr>seg_prev := v\<rparr>)"

text \<open>\<open>HEAP_START\<close> and \<open>HEAP_END\<close> are addresses the linker script assigns.\<close>

definition kheap_init :: "addr \<Rightarrow> addr \<Rightarrow> 'a heap_scheme \<Rightarrow> 'a heap_scheme option" where
  "kheap_init HEAP_START HEAP_END h = do {
     let bytes = HEAP_END - HEAP_START;
     let blocks = bytes div KMEM_BLOCK_SIZE;
     h \<leftarrow> set_blocks HEAP_START blocks h;
     h \<leftarrow> set_prev HEAP_START NULL h;
     set_next HEAP_START NULL h
   }"

definition calculate_blocks :: "u32 \<Rightarrow> u32" where
  "calculate_blocks bytes =
     (let bytes = bytes + sizeof_mem_segment;
          blocks = bytes div KMEM_BLOCK_SIZE
      in if bytes mod KMEM_BLOCK_SIZE \<noteq> 0 then blocks + 1 else blocks)"

text \<open>The search loop of \<open>kheap_alloc\<close>: the first segment with enough blocks, or null.\<close>

partial_function (option) find_valid :: "u32 \<Rightarrow> addr \<Rightarrow> 'a heap_scheme \<Rightarrow> addr option" where
  "find_valid blocks valid_segment h =
     (if valid_segment = NULL then Some NULL
      else do {
        n \<leftarrow> get_blocks valid_segment h;
        if blocks \<le> n then Some valid_segment
        else do {
          nx \<leftarrow> get_next valid_segment h;
          find_valid blocks nx h
        }
      })"

definition kheap_alloc :: "u32 \<Rightarrow> 'a heap_scheme \<Rightarrow> (addr \<times> 'a heap_scheme) option" where
  "kheap_alloc bytes h = do {
     let blocks = calculate_blocks bytes;
     valid_segment \<leftarrow> find_valid blocks (head_segment h) h;
     if valid_segment = NULL then Some (NULL, h)
     else do {
       vblocks \<leftarrow> get_blocks valid_segment h;
       let remaining_blocks = vblocks - blocks;
       h \<leftarrow> (if remaining_blocks > 0 then do {
               let new_segment = valid_segment + blocks * KMEM_BLOCK_SIZE;
               h \<leftarrow> set_blocks new_segment remaining_blocks h;
               vnext \<leftarrow> get_next valid_segment h;
               h \<leftarrow> set_next new_segment vnext h;
               vprev \<leftarrow> get_prev valid_segment h;
               h \<leftarrow> set_prev new_segment vprev h;
               nnext \<leftarrow> get_next new_segment h;
               h \<leftarrow> (if nnext \<noteq> NULL then set_prev nnext new_segment h else Some h);
               nprev \<leftarrow> get_prev new_segment h;
               h \<leftarrow> (if nprev \<noteq> NULL then set_next nprev new_segment h
                     else Some (h\<lparr>head_segment := new_segment\<rparr>));
               set_blocks valid_segment blocks h
             } else do {
               vprev \<leftarrow> get_prev valid_segment h;
               vnext \<leftarrow> get_next valid_segment h;
               h \<leftarrow> (if vprev \<noteq> NULL then set_next vprev vnext h
                     else Some (h\<lparr>head_segment := vnext\<rparr>));
               vnext \<leftarrow> get_next valid_segment h;
               vprev \<leftarrow> get_prev valid_segment h;
               if vnext \<noteq> NULL then set_prev vnext vprev h else Some h
             });
       h \<leftarrow> set_prev valid_segment NULL h;
       h \<leftarrow> set_next valid_segment NULL h;
       Some (valid_segment + sizeof_mem_segment, h)
     }
   }"

definition try_join_next_segment :: "addr \<Rightarrow> 'a heap_scheme \<Rightarrow> 'a heap_scheme option" where
  "try_join_next_segment segment h = do {
     nx \<leftarrow> get_next segment h;
     if nx = NULL then Some h
     else do {
       n \<leftarrow> get_blocks segment h;
       if segment + n * KMEM_BLOCK_SIZE \<noteq> nx then Some h
       else do {
         m \<leftarrow> get_blocks nx h;
         h \<leftarrow> set_blocks segment (n + m) h;
         nx \<leftarrow> get_next segment h;
         nn \<leftarrow> get_next nx h;
         h \<leftarrow> set_next segment nn h;
         if nn \<noteq> NULL then set_prev nn segment h else Some h
       }
     }
   }"

text \<open>The loop that \<open>kheap_dealloc\<close> and \<open>kheap_try_expand\<close> share: the last free segment that
  does not lie after \<open>segment\<close>, or null.\<close>

partial_function (option) find_prev :: "addr \<Rightarrow> addr \<Rightarrow> addr \<Rightarrow> 'a heap_scheme \<Rightarrow> addr option" where
  "find_prev segment prev_segment cur h =
     (if cur = NULL then Some prev_segment
      else if segment < cur then Some prev_segment
      else do {
        nx \<leftarrow> get_next cur h;
        find_prev segment cur nx h
      })"

definition kheap_dealloc :: "addr \<Rightarrow> 'a heap_scheme \<Rightarrow> 'a heap_scheme option" where
  "kheap_dealloc ptr h = do {
     let segment = ptr - sizeof_mem_segment;
     prev_segment \<leftarrow> find_prev segment NULL (head_segment h) h;
     h \<leftarrow> set_prev segment prev_segment h;
     nx \<leftarrow> (if prev_segment \<noteq> NULL then get_next prev_segment h else Some (head_segment h));
     h \<leftarrow> set_next segment nx h;
     h \<leftarrow> (if prev_segment \<noteq> NULL then set_next prev_segment segment h
           else Some (h\<lparr>head_segment := segment\<rparr>));
     nx \<leftarrow> get_next segment h;
     h \<leftarrow> (if nx \<noteq> NULL then set_prev nx segment h else Some h);
     h \<leftarrow> try_join_next_segment segment h;
     pv \<leftarrow> get_prev segment h;
     if pv \<noteq> NULL then try_join_next_segment pv h else Some h
   }"

definition kheap_try_expand :: "addr \<Rightarrow> u32 \<Rightarrow> 'a heap_scheme \<Rightarrow> (bool \<times> 'a heap_scheme) option" where
  "kheap_try_expand ptr bytes h = do {
     let segment = ptr - sizeof_mem_segment;
     let new_blocks = calculate_blocks bytes;
     old_blocks \<leftarrow> get_blocks segment h;
     if old_blocks = new_blocks then Some (True, h)
     else if old_blocks < new_blocks then do {
       let diff_blocks = new_blocks - old_blocks;
       let surplus_segment = segment + new_blocks * KMEM_BLOCK_SIZE;
       h \<leftarrow> set_blocks surplus_segment diff_blocks h;
       h \<leftarrow> kheap_dealloc (surplus_segment + sizeof_mem_segment) h;
       h \<leftarrow> set_blocks segment new_blocks h;
       Some (True, h)
     } else do {
       prev_segment \<leftarrow> find_prev segment NULL (head_segment h) h;
       next_segment \<leftarrow> (if prev_segment \<noteq> NULL then get_next prev_segment h else Some (head_segment h));
       if next_segment \<noteq> segment + old_blocks * KMEM_BLOCK_SIZE then Some (False, h)
       else do {
         nblocks \<leftarrow> get_blocks next_segment h;
         if nblocks + old_blocks < new_blocks then Some (False, h)
         else if nblocks + old_blocks = new_blocks then do {
           h \<leftarrow> set_blocks segment new_blocks h;
           nn \<leftarrow> get_next next_segment h;
           h \<leftarrow> (if nn \<noteq> NULL then set_prev nn segment h else Some (h\<lparr>head_segment := segment\<rparr>));
           Some (True, h)
         } else do {
           let diff_blocks = new_blocks - old_blocks;
           let surplus_segment = segment + new_blocks * KMEM_BLOCK_SIZE;
           nblocks \<leftarrow> get_blocks next_segment h;
           h \<leftarrow> set_blocks surplus_segment (nblocks - diff_blocks) h;
           nn \<leftarrow> get_next next_segment h;
           h \<leftarrow> (if nn \<noteq> NULL then set_prev nn surplus_segment h
                 else Some (h\<lparr>head_segment := surplus_segment\<rparr>));
           h \<leftarrow> set_blocks segment new_blocks h;
           Some (True, h)
         }
       }
     }
   }"

section \<open>The accessors on mapped headers\<close>

lemma get_mapped [kernel_simps]:
  assumes "mapped p"
  shows "get_blocks p h = Some (seg_blocks (seg h p))"
    and "get_next p h = Some (seg_next (seg h p))"
    and "get_prev p h = Some (seg_prev (seg h p))"
  using assms by (simp_all add: get_blocks_def get_next_def get_prev_def get_seg_def)

lemma set_mapped [kernel_simps]:
  assumes "mapped p"
  shows "set_blocks p v h = Some (h\<lparr>seg := (seg h)(p := (seg h p)\<lparr>seg_blocks := v\<rparr>)\<rparr>)"
    and "set_next p v h = Some (h\<lparr>seg := (seg h)(p := (seg h p)\<lparr>seg_next := v\<rparr>)\<rparr>)"
    and "set_prev p v h = Some (h\<lparr>seg := (seg h)(p := (seg h p)\<lparr>seg_prev := v\<rparr>)\<rparr>)"
  using assms by (simp_all add: set_blocks_def set_next_def set_prev_def upd_seg_def)

lemma mapped_nonnull [simp]: "\<not> mapped NULL"
  by (simp add: mapped_def RAM_START_def)

lemma heap_upd_commute [kernel_simps]:
  "h\<lparr>head_segment := a, seg := g\<rparr> = h\<lparr>seg := g, head_segment := a\<rparr>"
  by simp

end
