(* ===== verification/Heap_List.thy ===== *)
theory Heap_List
  imports Heap_Allocator
begin

text \<open>
  The allocator's blocks and its free list: block addresses, well-formed free lists (sorted, with a
  gap between neighbours), their pointer representation, and the surgery lemma all operations share.
\<close>

section \<open>Block addresses\<close>

definition heap_ok :: "addr \<Rightarrow> nat \<Rightarrow> bool" where
  "heap_ok hs N \<longleftrightarrow> RAM_START \<le> hs \<and> unat hs + 64 * N \<le> unat RAM_END"

definition baddr :: "addr \<Rightarrow> nat \<Rightarrow> addr" where
  "baddr hs i = hs + of_nat i * KMEM_BLOCK_SIZE"

lemma unat_baddr:
  assumes "heap_ok hs N" and "i \<le> N"
  shows "unat (baddr hs i) = unat hs + 64 * i"
proof -
  have b: "unat hs + 64 * i \<le> 1342193664"
    using assms by (simp add: heap_ok_def RAM_END_def)
  have "of_nat i * KMEM_BLOCK_SIZE = (of_nat (64 * i) :: u32)"
    by (simp add: KMEM_BLOCK_SIZE_def)
  then show ?thesis
    using b unat_of_nat_u32 [of "64 * i"]
    by (simp add: baddr_def unat_add_small)
qed

lemma baddr_add: "baddr hs i + of_nat n * KMEM_BLOCK_SIZE = baddr hs (i + n)"
  by (simp add: baddr_def algebra_simps)

lemma baddr_eq:
  assumes "heap_ok hs N" and "i \<le> N" and "j \<le> N"
  shows "baddr hs i = baddr hs j \<longleftrightarrow> i = j"
  using unat_baddr [OF assms(1,2)] unat_baddr [OF assms(1,3)] by (metis add_left_cancel mult_cancel1 zero_neq_numeral)

lemma baddr_less:
  assumes "heap_ok hs N" and "i \<le> N" and "j \<le> N"
  shows "baddr hs i < baddr hs j \<longleftrightarrow> i < j"
  unfolding word_less_nat_alt unat_baddr [OF assms(1,2)] unat_baddr [OF assms(1,3)] by simp

lemma baddr_mapped:
  assumes "heap_ok hs N" and "i < N"
  shows "mapped (baddr hs i)"
proof -
  have "unat (baddr hs i) = unat hs + 64 * i"
    using assms by (simp add: unat_baddr)
  then show ?thesis
    using assms
    by (simp add: mapped_def word_le_nat_alt heap_ok_def RAM_START_def RAM_END_def sizeof_mem_segment_def)
qed

lemma baddr_nonnull:
  assumes "heap_ok hs N" and "i \<le> N"
  shows "baddr hs i \<noteq> NULL"
proof
  assume "baddr hs i = NULL"
  then have "unat hs + 64 * i = 0" using unat_baddr [OF assms] by simp
  then show False using assms by (simp add: heap_ok_def RAM_START_def word_le_nat_alt)
qed

section \<open>Free lists\<close>

fun wf_free :: "nat \<Rightarrow> nat \<Rightarrow> (nat \<times> nat) list \<Rightarrow> bool" where
  "wf_free lo N [] = True"
| "wf_free lo N ((i, n) # xs) = (lo \<le> i \<and> 0 < n \<and> i + n \<le> N \<and> wf_free (Suc (i + n)) N xs)"

definition cells :: "(nat \<times> nat) list \<Rightarrow> nat set" where
  "cells xs = (\<Union>(i, n)\<in>set xs. {i..<i + n})"

fun fseg :: "addr \<Rightarrow> (addr \<Rightarrow> mem_segment) \<Rightarrow> addr \<Rightarrow> addr \<Rightarrow> (nat \<times> nat) list \<Rightarrow> addr \<Rightarrow> bool" where
  "fseg hs sg prv cur [] q = (cur = q)"
| "fseg hs sg prv cur ((i, n) # xs) q =
     (cur = baddr hs i \<and> seg_blocks (sg cur) = of_nat n \<and> seg_prev (sg cur) = prv
      \<and> fseg hs sg cur (seg_next (sg cur)) xs q)"

definition last_addr :: "addr \<Rightarrow> addr \<Rightarrow> (nat \<times> nat) list \<Rightarrow> addr" where
  "last_addr hs prv xs = (if xs = [] then prv else baddr hs (fst (last xs)))"

lemma cells_simps [simp]:
  "cells [] = {}" "cells ((i, n) # xs) = {i..<i + n} \<union> cells xs"
  "cells (xs @ ys) = cells xs \<union> cells ys"
  by (auto simp: cells_def)

lemma last_addr_simps [simp]:
  "last_addr hs prv [] = prv"
  "last_addr hs prv ((i, n) # xs) = last_addr hs (baddr hs i) xs"
  "last_addr hs prv (xs @ [(i, n)]) = baddr hs i"
  by (auto simp: last_addr_def)

lemma fseg_append:
  "fseg hs sg prv cur (xs @ ys) q =
     (\<exists>r. fseg hs sg prv cur xs r \<and> fseg hs sg (last_addr hs prv xs) r ys q)"
  by (induction hs sg prv cur xs q rule: fseg.induct) auto

lemma fseg_frame:
  "a \<notin> (\<lambda>x. baddr hs (fst x)) ` set xs \<Longrightarrow> fseg hs (sg(a := r)) prv cur xs q = fseg hs sg prv cur xs q"
  by (induction hs sg prv cur xs q rule: fseg.induct) auto

lemma wf_free_mem: "wf_free lo N xs \<Longrightarrow> (i, n) \<in> set xs \<Longrightarrow> lo \<le> i \<and> 0 < n \<and> i + n \<le> N"
proof (induction lo N xs rule: wf_free.induct)
  case (2 lo N j m xs)
  then show ?case by fastforce
qed simp

lemma wf_free_weaken: "wf_free lo N xs \<Longrightarrow> lo' \<le> lo \<Longrightarrow> wf_free lo' N xs"
  by (cases xs) auto

lemma wf_free_append:
  "wf_free lo N (xs @ ys) =
     (wf_free lo N xs \<and> wf_free (if xs = [] then lo else Suc (fst (last xs) + snd (last xs))) N ys)"
  by (induction lo N xs rule: wf_free.induct) (auto simp: wf_free_weaken)

lemma wf_free_snoc_below:
  "wf_free lo N (xs @ [(j, m)]) \<Longrightarrow> (i, n) \<in> set xs \<Longrightarrow> i + n < j"
proof (induction lo N xs rule: wf_free.induct)
  case (2 lo N k l xs)
  then show ?case by (auto dest: wf_free_mem)
qed simp

lemma cells_bound: "wf_free lo N xs \<Longrightarrow> c \<in> cells xs \<Longrightarrow> lo \<le> c \<and> c < N"
  by (auto simp: cells_def dest: wf_free_mem)

text \<open>The free list is determined by its set of free blocks.\<close>

lemma wf_free_canonical:
  "wf_free lo N xs \<Longrightarrow> wf_free lo' N ys \<Longrightarrow> cells xs = cells ys \<Longrightarrow> xs = ys"
proof (induction xs arbitrary: lo lo' ys)
  case Nil
  then show ?case by (cases ys) auto
next
  case (Cons x xs)
  obtain i n where x: "x = (i, n)" by force
  have "i \<in> cells (x # xs)" using Cons.prems(1) x by simp
  then have i0: "i \<in> cells ys" by (simp only: Cons.prems(3))
  then obtain j m ys' where ys: "ys = (j, m) # ys'" by (cases ys) auto
  have w1: "wf_free (Suc (i + n)) N xs" "0 < n" and w2: "wf_free (Suc (j + m)) N ys'" "0 < m"
    using Cons.prems x ys by auto
  have eq: "{i..<i + n} \<union> cells xs = {j..<j + m} \<union> cells ys'"
    using Cons.prems(3) x ys by simp
  have bx: "\<And>c. c \<in> cells xs \<Longrightarrow> i + n < c" and by': "\<And>c. c \<in> cells ys' \<Longrightarrow> j + m < c"
    using cells_bound [OF w1(1)] cells_bound [OF w2(1)] by (auto simp: Suc_le_eq)
  have "i = j"
  proof -
    have "j \<in> {i..<i + n} \<union> cells xs" using eq w2(2) by auto
    then have "i \<le> j" using bx by fastforce
    moreover have "i \<in> {j..<j + m} \<union> cells ys'" using eq w1(2) by auto
    then have "j \<le> i" using by' by fastforce
    ultimately show ?thesis by simp
  qed
  moreover have "n = m"
  proof (rule antisym)
    have nx: "i + n \<notin> {j..<j + m} \<union> cells ys'"
      using eq [symmetric] bx by fastforce
    show "m \<le> n" using nx \<open>i = j\<close> by auto
    have ny: "j + m \<notin> {i..<i + n} \<union> cells xs"
      using eq by' by fastforce
    show "n \<le> m" using ny \<open>i = j\<close> by auto
  qed
  moreover have "cells xs = cells ys'"
  proof -
    have "cells xs \<inter> {i..<i + n} = {}" and "cells ys' \<inter> {i..<i + n} = {}"
      using bx by' \<open>i = j\<close> \<open>n = m\<close> by fastforce+
    with eq \<open>i = j\<close> \<open>n = m\<close> show ?thesis by blast
  qed
  ultimately show ?case using Cons.IH [OF w1(1) w2(1)] x ys by simp
qed

definition free_list :: "addr \<Rightarrow> nat \<Rightarrow> 'a heap_scheme \<Rightarrow> (nat \<times> nat) list \<Rightarrow> bool" where
  "free_list hs N h xs \<longleftrightarrow> heap_ok hs N \<and> wf_free 0 N xs \<and> fseg hs (seg h) NULL (head_segment h) xs NULL"

lemma heap_ok_N: "heap_ok hs N \<Longrightarrow> N < 67108864"
  by (simp add: heap_ok_def RAM_END_def)

lemma fseg_cases_next:
  assumes "heap_ok hs N" and "wf_free lo N xs" and "fseg hs sg prv cur xs NULL"
  shows "cur = NULL \<longleftrightarrow> xs = []"
  using assms baddr_nonnull [OF assms(1), of "fst (hd xs)"] by (cases xs) auto

end
