(* ===== verification/Heap_Correct.thy ===== *)
theory Heap_Correct
  imports Heap_List
begin

text \<open>
  Correctness of \<open>kheap_alloc\<close> and \<open>kheap_dealloc\<close>: the free list is the canonical (sorted, maximally
  coalesced) representation of the set of free blocks, so the allocator refines a map from start
  blocks to the sizes of the segments handed out.
\<close>

section \<open>Allocation\<close>

lemma find_valid_fseg:
  assumes "heap_ok hs N"
  shows "wf_free lo N xs \<Longrightarrow> fseg hs (seg h) prv cur xs NULL \<Longrightarrow>
    find_valid b cur h = Some (case find (\<lambda>x. unat b \<le> snd x) xs of None \<Rightarrow> NULL | Some x \<Rightarrow> baddr hs (fst x))"
proof (induction xs arbitrary: lo prv cur)
  case Nil
  then show ?case by (simp add: find_valid.simps)
next
  case (Cons x xs)
  obtain i n where x: "x = (i, n)" by force
  have i: "i + n \<le> N" "0 < n" and w: "wf_free (Suc (i + n)) N xs"
    and cur: "cur = baddr hs i" and bl: "seg_blocks (seg h cur) = of_nat n"
    and f: "fseg hs (seg h) cur (seg_next (seg h cur)) xs NULL"
    using Cons.prems x by auto
  have m: "mapped cur" using baddr_mapped [OF assms, of i] i cur by simp
  then have nz: "cur \<noteq> NULL" using mapped_nonnull by metis
  have le: "b \<le> of_nat n \<longleftrightarrow> unat b \<le> n"
    using i heap_ok_N [OF assms] unat_of_nat_u32 [of n] by (simp add: word_le_nat_alt)
  show ?case
    using Cons.IH [OF w f] m nz le bl x cur
    by (subst find_valid.simps) (simp add: kernel_simps)
qed

text \<open>Side conditions of the frame rule: which nodes a list has.\<close>

lemma baddr_not_node:
  assumes "heap_ok hs N" and "wf_free lo N xs" and "a \<le> N" and "\<And>i n. (i, n) \<in> set xs \<Longrightarrow> i \<noteq> a"
  shows "baddr hs a \<notin> (\<lambda>x. baddr hs (fst x)) ` set xs"
proof
  assume "baddr hs a \<in> (\<lambda>x. baddr hs (fst x)) ` set xs"
  then obtain i n where m: "(i, n) \<in> set xs" and e: "baddr hs a = baddr hs i" by auto
  have "i \<le> N" using wf_free_mem [OF assms(2) m] by simp
  then show False using assms(1,3,4) m e baddr_eq by metis
qed

lemma fseg_frame_below:
  assumes "heap_ok hs N" and "wf_free lo N xs" and "a < lo" and "a \<le> N"
  shows "fseg hs (sg(baddr hs a := r)) prv cur xs q = fseg hs sg prv cur xs q"
  using assms by (intro fseg_frame baddr_not_node [where N = N and lo = lo]) (auto dest: wf_free_mem)

lemma fseg_frame_above:
  assumes "heap_ok hs N" and "wf_free lo N (xs @ [(j, m)])" and "j \<le> a" and "a \<le> N"
  shows "fseg hs (sg(baddr hs a := r)) prv cur xs q = fseg hs sg prv cur xs q"
  using assms
  by (intro fseg_frame baddr_not_node [where N = N and lo = lo])
     (fastforce dest: wf_free_snoc_below simp: wf_free_append)+


lemma fseg_cong:
  assumes "\<And>j q. (j, q) \<in> set xs \<Longrightarrow> g (baddr hs j) = sg (baddr hs j)"
  shows "fseg hs g prv cur xs q = fseg hs sg prv cur xs q"
  using assms
proof (induction xs arbitrary: prv cur)
  case (Cons x xs)
  obtain i n where x: "x = (i, n)" by force
  have "g (baddr hs i) = sg (baddr hs i)" using Cons.prems [of i n] x by simp
  moreover have "fseg hs g p c xs q = fseg hs sg p c xs q" for p c
    using Cons.prems by (intro Cons.IH) auto
  ultimately show ?case using x by (cases "cur = baddr hs i") auto
qed simp

lemma fseg_retarget:
  assumes "fseg hs sg prv cur us r"
    and "\<And>j q. (j, q) \<in> set us \<Longrightarrow> g (baddr hs j) =
          (if baddr hs j = last_addr hs prv us then (sg (baddr hs j))\<lparr>seg_next := c\<rparr> else sg (baddr hs j))"
    and "distinct (map (\<lambda>x. baddr hs (fst x)) us)"
  shows "fseg hs g prv (if us = [] then c else cur) us c"
  using assms
proof (induction us arbitrary: prv cur)
  case Nil
  then show ?case by simp
next
  case (Cons x us)
  obtain i n where x: "x = (i, n)" by force
  show ?case
  proof (cases "us = []")
    case True
    then show ?thesis using Cons.prems(1) Cons.prems(2) [of i n] x
      by (cases "cur = baddr hs i") simp_all
  next
    case False
    have ne: "baddr hs i \<noteq> last_addr hs (baddr hs i) us"
      using Cons.prems(3) x False by (auto simp: last_addr_def)
    have "fseg hs g (baddr hs i) (seg_next (sg (baddr hs i))) us c"
      using Cons.IH [of "baddr hs i" "seg_next (sg (baddr hs i))"] Cons.prems x False by auto
    moreover have "g (baddr hs i) = sg (baddr hs i)"
      using Cons.prems(2) [of i n] ne x by simp
    ultimately show ?thesis using Cons.prems(1) x by auto
  qed
qed

lemma fseg_reprev:
  assumes "fseg hs sg prv nx ys q"
    and "\<And>j m. (j, m) \<in> set ys \<Longrightarrow> g (baddr hs j) =
          (if baddr hs j = nx then (sg (baddr hs j))\<lparr>seg_prev := d\<rparr> else sg (baddr hs j))"
    and "distinct (map (\<lambda>x. baddr hs (fst x)) ys)"
  shows "fseg hs g d nx ys q"
proof (cases ys)
  case Nil
  then show ?thesis using assms(1) by simp
next
  case (Cons y zs)
  obtain j m where y: "y = (j, m)" by force
  have "fseg hs sg (baddr hs j) (seg_next (sg (baddr hs j))) zs q"
    using assms(1) Cons y by auto
  moreover have "\<And>a b. (a, b) \<in> set zs \<Longrightarrow> g (baddr hs a) = sg (baddr hs a)"
    using assms Cons y by (auto, metis (no_types, lifting) fst_conv image_eqI)
  then have "fseg hs sg prv' cur' zs q = fseg hs g prv' cur' zs q" for prv' cur'
    using fseg_cong by metis
  moreover have "g (baddr hs j) = (sg (baddr hs j))\<lparr>seg_prev := d\<rparr>"
    using assms(1) assms(2) [of j m] Cons y by simp
  ultimately show ?thesis using assms(1) Cons y by auto
qed

definition first_addr :: "addr \<Rightarrow> (nat \<times> nat) list \<Rightarrow> addr" where
  "first_addr hs ys = (case ys of [] \<Rightarrow> NULL | y # _ \<Rightarrow> baddr hs (fst y))"

lemma fseg_replace:
  assumes fs: "fseg hs sg NULL h0 (us @ ms @ ys) NULL"
    and us: "\<And>j q. (j, q) \<in> set us \<Longrightarrow> g (baddr hs j) =
          (if baddr hs j = last_addr hs NULL us then (sg (baddr hs j))\<lparr>seg_next := c\<rparr> else sg (baddr hs j))"
    and ys: "\<And>j q. (j, q) \<in> set ys \<Longrightarrow> g (baddr hs j) =
          (if baddr hs j = first_addr hs ys then (sg (baddr hs j))\<lparr>seg_prev := last_addr hs (last_addr hs NULL us) ms'\<rparr>
           else sg (baddr hs j))"
    and mid: "fseg hs g (last_addr hs NULL us) c ms' (first_addr hs ys)"
    and dist: "distinct (map (\<lambda>x. baddr hs (fst x)) us)" "distinct (map (\<lambda>x. baddr hs (fst x)) ys)"
  shows "fseg hs g NULL (if us = [] then c else h0) (us @ ms' @ ys) NULL"
proof -
  obtain r s where r: "fseg hs sg NULL h0 us r" and s: "fseg hs sg (last_addr hs (last_addr hs NULL us) ms) s ys NULL"
    using fs by (auto simp: fseg_append)
  have "s = first_addr hs ys" using s by (cases ys) (auto simp: first_addr_def)
  then have "fseg hs g (last_addr hs (last_addr hs NULL us) ms') (first_addr hs ys) ys NULL"
    using fseg_reprev [OF s _ dist(2), of g] ys by simp
  moreover have "fseg hs g NULL (if us = [] then c else h0) us c"
    using fseg_retarget [OF r _ dist(1), of g c] us by simp
  ultimately show ?thesis using mid by (auto simp: fseg_append)
qed

lemma wf_free_distinct:
  assumes "heap_ok hs N"
  shows "wf_free lo N xs \<Longrightarrow> distinct (map (\<lambda>x. baddr hs (fst x)) xs)"
proof (induction xs arbitrary: lo)
  case (Cons x xs)
  obtain i n where x: "x = (i, n)" by force
  have w: "wf_free (Suc (i + n)) N xs" "i \<le> N" using Cons.prems x by auto
  have "baddr hs i \<notin> (\<lambda>x. baddr hs (fst x)) ` set xs"
    by (rule baddr_not_node [OF assms w]) (use wf_free_mem [OF w(1)] in force)
  then show ?case using Cons.IH [OF w(1)] x by simp
qed simp


lemma wf_free_mid:
  assumes "wf_free 0 N (us @ (i, n) # ys)"
  shows "i + n \<le> N" and "0 < n" and "wf_free 0 N us" and "wf_free (Suc (i + n)) N ys"
    and "\<And>j q. (j, q) \<in> set us \<Longrightarrow> j + q < i" and "\<And>j q. (j, q) \<in> set ys \<Longrightarrow> i + n < j \<and> j < N"
proof -
  show "i + n \<le> N" "0 < n" "wf_free 0 N us" and w: "wf_free (Suc (i + n)) N ys"
    using assms by (auto simp: wf_free_append)
  show "\<And>j q. (j, q) \<in> set us \<Longrightarrow> j + q < i"
    using assms wf_free_snoc_below [of 0 N us i n] by (auto simp: wf_free_append)
  show "\<And>j q. (j, q) \<in> set ys \<Longrightarrow> i + n < j \<and> j < N"
    using wf_free_mem [OF w] by fastforce
qed

text \<open>What one split computes, whatever the neighbours are.\<close>

lemma kheap_alloc_compute_split:
  assumes fv: "find_valid (calculate_blocks bytes) (head_segment h) h = Some v" and v: "mapped v"
    and new: "new = v + calculate_blocks bytes * KMEM_BLOCK_SIZE" "mapped new" "new \<noteq> v"
    and rem: "r = seg_blocks (seg h v) - calculate_blocks bytes" "r > 0"
    and nx: "nx = seg_next (seg h v)" "nx \<noteq> NULL \<Longrightarrow> mapped nx \<and> nx \<noteq> v \<and> nx \<noteq> new"
    and pv: "pv = seg_prev (seg h v)" "pv \<noteq> NULL \<Longrightarrow> mapped pv \<and> pv \<noteq> v \<and> pv \<noteq> new"
    and ne: "nx \<noteq> NULL \<Longrightarrow> pv \<noteq> NULL \<Longrightarrow> nx \<noteq> pv"
  shows "kheap_alloc bytes h = Some (v + sizeof_mem_segment,
    h\<lparr>seg := (\<lambda>p. if p = v then (seg h v)\<lparr>seg_blocks := calculate_blocks bytes, seg_next := NULL, seg_prev := NULL\<rparr>
                  else if p = new then (seg h new)\<lparr>seg_blocks := r, seg_next := nx, seg_prev := pv\<rparr>
                  else if p = nx \<and> p \<noteq> NULL then (seg h p)\<lparr>seg_prev := new\<rparr>
                  else if p = pv \<and> p \<noteq> NULL then (seg h p)\<lparr>seg_next := new\<rparr>
                  else seg h p),
      head_segment := (if pv = NULL then new else head_segment h)\<rparr>)"
proof -
  have "v \<noteq> NULL" "new \<noteq> NULL" using v new(2) mapped_nonnull by metis+
  then show ?thesis
    using fv v new rem nx pv ne
    by (cases "nx = NULL"; cases "pv = NULL")
       (auto simp: kheap_alloc_def kernel_simps Let_def fun_eq_iff)
qed


lemma kheap_alloc_compute_exact:
  assumes fv: "find_valid (calculate_blocks bytes) (head_segment h) h = Some v" and v: "mapped v"
    and rem: "seg_blocks (seg h v) = calculate_blocks bytes"
    and nx: "nx = seg_next (seg h v)" "nx \<noteq> NULL \<Longrightarrow> mapped nx \<and> nx \<noteq> v"
    and pv: "pv = seg_prev (seg h v)" "pv \<noteq> NULL \<Longrightarrow> mapped pv \<and> pv \<noteq> v"
    and ne: "nx \<noteq> NULL \<Longrightarrow> pv \<noteq> NULL \<Longrightarrow> nx \<noteq> pv"
  shows "kheap_alloc bytes h = Some (v + sizeof_mem_segment,
    h\<lparr>seg := (\<lambda>p. if p = v then (seg h v)\<lparr>seg_next := NULL, seg_prev := NULL\<rparr>
                  else if p = nx \<and> p \<noteq> NULL then (seg h p)\<lparr>seg_prev := pv\<rparr>
                  else if p = pv \<and> p \<noteq> NULL then (seg h p)\<lparr>seg_next := nx\<rparr>
                  else seg h p),
      head_segment := (if pv = NULL then nx else head_segment h)\<rparr>)"
proof -
  have "v \<noteq> NULL" using v mapped_nonnull by metis
  then show ?thesis
    using fv v rem nx pv ne
    by (cases "nx = NULL"; cases "pv = NULL")
       (auto simp: kheap_alloc_def kernel_simps Let_def fun_eq_iff)
qed

text \<open>The neighbours of a segment of the free list.\<close>

lemma free_list_at:
  assumes fl: "free_list hs N h (us @ (i, n) # ys)"
  shows "seg_blocks (seg h (baddr hs i)) = of_nat n"
    and "seg_next (seg h (baddr hs i)) = first_addr hs ys"
    and "seg_prev (seg h (baddr hs i)) = last_addr hs NULL us"
proof -
  have fs: "fseg hs (seg h) NULL (head_segment h) (us @ (i, n) # ys) NULL"
    using fl by (simp add: free_list_def)
  then show "seg_blocks (seg h (baddr hs i)) = of_nat n"
    and "seg_prev (seg h (baddr hs i)) = last_addr hs NULL us"
    and "seg_next (seg h (baddr hs i)) = first_addr hs ys"
    by (auto simp: fseg_append first_addr_def split: list.splits)
qed

lemma neighbour_gen:
  assumes ok: "heap_ok hs N" and U: "\<forall>x\<in>set us. fst x < i" "i \<le> N"
    and Y: "\<forall>x\<in>set ys. e < fst x \<and> fst x < N" "i \<le> Suc e"
  shows "first_addr hs ys \<noteq> NULL \<Longrightarrow> mapped (first_addr hs ys)"
    and "a \<le> e \<Longrightarrow> a \<le> N \<Longrightarrow> first_addr hs ys \<noteq> baddr hs a"
    and "last_addr hs NULL us \<noteq> NULL \<Longrightarrow> mapped (last_addr hs NULL us)"
    and "i \<le> a \<Longrightarrow> a \<le> N \<Longrightarrow> last_addr hs NULL us \<noteq> baddr hs a"
    and "first_addr hs ys \<noteq> NULL \<Longrightarrow> first_addr hs ys \<noteq> last_addr hs NULL us"
    and "(last_addr hs NULL us = NULL) = (us = [])"
proof -
  note nn = baddr_nonnull [OF ok]
  have F: "first_addr hs ys = NULL \<or> (\<exists>k. first_addr hs ys = baddr hs k \<and> e < k \<and> k < N)"
    using Y(1) by (cases ys) (force simp: first_addr_def)+
  have L: "us = [] \<or> (\<exists>k. last_addr hs NULL us = baddr hs k \<and> k < i)"
    using U(1) by (cases us rule: rev_cases) (fastforce simp: last_addr_def)+
  show "first_addr hs ys \<noteq> NULL \<Longrightarrow> mapped (first_addr hs ys)"
    using F baddr_mapped [OF ok] by fastforce
  show "a \<le> e \<Longrightarrow> a \<le> N \<Longrightarrow> first_addr hs ys \<noteq> baddr hs a"
    using F baddr_eq [OF ok, of _ a] nn [of a] by fastforce
  show "last_addr hs NULL us \<noteq> NULL \<Longrightarrow> mapped (last_addr hs NULL us)"
    using L U(2) baddr_mapped [OF ok] by fastforce
  show "i \<le> a \<Longrightarrow> a \<le> N \<Longrightarrow> last_addr hs NULL us \<noteq> baddr hs a"
    using L nn [of a] baddr_eq [OF ok, of _ a] by fastforce
  show "first_addr hs ys \<noteq> NULL \<Longrightarrow> first_addr hs ys \<noteq> last_addr hs NULL us"
    using F L baddr_eq [OF ok] U(2) Y(2) by fastforce
  show "(last_addr hs NULL us = NULL) = (us = [])"
    using L nn U(2) by fastforce
qed

lemma neighbour_addr:
  assumes ok: "heap_ok hs N" and wf: "wf_free 0 N (us @ (i, n) # ys)"
  shows "first_addr hs ys \<noteq> NULL \<Longrightarrow> mapped (first_addr hs ys)"
    and "a \<le> i + n \<Longrightarrow> first_addr hs ys \<noteq> baddr hs a"
    and "last_addr hs NULL us \<noteq> NULL \<Longrightarrow> mapped (last_addr hs NULL us)"
    and "i \<le> a \<Longrightarrow> a \<le> N \<Longrightarrow> last_addr hs NULL us \<noteq> baddr hs a"
    and "first_addr hs ys \<noteq> NULL \<Longrightarrow> first_addr hs ys \<noteq> last_addr hs NULL us"
    and "(last_addr hs NULL us = NULL) = (us = [])"
proof -
  note W = wf_free_mid [OF wf]
  have u: "\<forall>x\<in>set us. fst x < i" and y: "\<forall>x\<in>set ys. i + n < fst x \<and> fst x < N"
    using W(5,6) by fastforce+
  have iN: "i \<le> N" "i \<le> Suc (i + n)" using W(1) by auto
  note G = neighbour_gen [OF ok u iN(1) y iN(2)]
  show "first_addr hs ys \<noteq> NULL \<Longrightarrow> mapped (first_addr hs ys)"
    and "a \<le> i + n \<Longrightarrow> first_addr hs ys \<noteq> baddr hs a"
    and "last_addr hs NULL us \<noteq> NULL \<Longrightarrow> mapped (last_addr hs NULL us)"
    and "i \<le> a \<Longrightarrow> a \<le> N \<Longrightarrow> last_addr hs NULL us \<noteq> baddr hs a"
    and "first_addr hs ys \<noteq> NULL \<Longrightarrow> first_addr hs ys \<noteq> last_addr hs NULL us"
    and "(last_addr hs NULL us = NULL) = (us = [])"
    using G(1,3,5,6) G(2) [where a = a] G(4) [where a = a] W(1) by simp_all
qed

lemma find_valid_first:
  assumes fl: "free_list hs N h (us @ (i, n) # ys)"
    and small: "\<forall>x\<in>set us. snd x < b" and b: "b \<le> n" "calculate_blocks bytes = of_nat b"
  shows "find_valid (calculate_blocks bytes) (head_segment h) h = Some (baddr hs i)"
proof -
  have ok: "heap_ok hs N" and wf: "wf_free 0 N (us @ (i, n) # ys)"
    and fs: "fseg hs (seg h) NULL (head_segment h) (us @ (i, n) # ys) NULL"
    using fl by (auto simp: free_list_def)
  have "unat (of_nat b :: u32) = b"
    using b wf_free_mid(1) [OF wf] heap_ok_N [OF ok] by (auto intro!: unat_of_nat_u32)
  moreover have "List.find (\<lambda>x. b \<le> snd x) (us @ (i, n) # ys) = Some (i, n)"
    using small b(1) by (induction us) auto
  ultimately show ?thesis using find_valid_fseg [OF ok wf fs, of "of_nat b"] b(2) by simp
qed

lemma kheap_alloc_split:
  assumes fl: "free_list hs N h (us @ (i, n) # ys)"
    and small: "\<forall>x\<in>set us. snd x < b" and b: "0 < b" "b < n" "calculate_blocks bytes = of_nat b"
  shows "\<exists>h'. kheap_alloc bytes h = Some (baddr hs i + sizeof_mem_segment, h')
    \<and> free_list hs N h' (us @ (i + b, n - b) # ys)
    \<and> seg_blocks (seg h' (baddr hs i)) = of_nat b
    \<and> (\<forall>p. p \<noteq> baddr hs i \<and> p \<noteq> baddr hs (i + b) \<longrightarrow> seg_blocks (seg h' p) = seg_blocks (seg h p))
    \<and> heap.more h' = heap.more h"
proof -
  have ok: "heap_ok hs N" and wf: "wf_free 0 N (us @ (i, n) # ys)"
    and fs: "fseg hs (seg h) NULL (head_segment h) (us @ (i, n) # ys) NULL"
    using fl by (auto simp: free_list_def)
  note W = wf_free_mid [OF wf]
  note A = free_list_at [OF fl]
  note C = neighbour_addr [OF ok wf]
  let ?new = "baddr hs (i + b)" and ?v = "baddr hs i"
  let ?nx = "first_addr hs ys" and ?pv = "last_addr hs NULL us"
  have fv: "find_valid (calculate_blocks bytes) (head_segment h) h = Some ?v"
    using find_valid_first [OF fl] small b by simp
  have rem: "(of_nat (n - b) :: u32) = seg_blocks (seg h ?v) - calculate_blocks bytes"
    using b A(1) by (simp add: of_nat_diff)
  have rem0: "(of_nat (n - b) :: u32) > 0"
    using b W(1) heap_ok_N [OF ok] unat_of_nat_u32 [of "n - b"] by (simp add: word_less_nat_alt)
  have ne: "?new \<noteq> ?v" and mp: "mapped ?v" "mapped ?new"
    using baddr_eq [OF ok, of "i + b" i] baddr_mapped [OF ok] W(1,2) b by auto
  have new: "?new = ?v + calculate_blocks bytes * KMEM_BLOCK_SIZE"
    using b(3) baddr_add [of hs i b] by simp
  have ib: "i \<le> i + b" "i + b \<le> i + n" using b by auto
  define g where "g = (\<lambda>p. if p = ?v then (seg h ?v)\<lparr>seg_blocks := of_nat b, seg_next := NULL, seg_prev := NULL\<rparr>
      else if p = ?new then (seg h ?new)\<lparr>seg_blocks := of_nat (n - b), seg_next := ?nx, seg_prev := ?pv\<rparr>
      else if p = ?nx \<and> p \<noteq> NULL then (seg h p)\<lparr>seg_prev := ?new\<rparr>
      else if p = ?pv \<and> p \<noteq> NULL then (seg h p)\<lparr>seg_next := ?new\<rparr> else seg h p)"
  define h' where "h' = h\<lparr>seg := g, head_segment := (if us = [] then ?new else head_segment h)\<rparr>"
  have "kheap_alloc bytes h = Some (?v + sizeof_mem_segment, h')"
    unfolding h'_def g_def C(6) [symmetric] b(3) [symmetric]
    by (rule kheap_alloc_compute_split [OF fv mp(1) new mp(2) ne rem rem0])
       (use C ib W(1) A in auto)
  moreover have "free_list hs N h' (us @ (i + b, n - b) # ys)"
  proof -
    have "wf_free 0 N (us @ (i + b, n - b) # ys)"
      using wf b by (auto simp: wf_free_append intro: wf_free_weaken)
    moreover have "fseg hs g NULL (if us = [] then ?new else head_segment h) (us @ [(i + b, n - b)] @ ys) NULL"
    proof (rule fseg_replace)
      show "fseg hs (seg h) NULL (head_segment h) (us @ [(i, n)] @ ys) NULL" using fs by simp
      show "fseg hs g ?pv ?new [(i + b, n - b)] ?nx" using ne by (simp add: g_def)
      show "distinct (map (\<lambda>x. baddr hs (fst x)) us)" "distinct (map (\<lambda>x. baddr hs (fst x)) ys)"
        using wf_free_distinct [OF ok] W(3,4) by auto
    next
      fix j q assume "(j, q) \<in> set us"
      then have "j + q < i" by (rule W(5))
      then show "g (baddr hs j) = (if baddr hs j = ?pv then (seg h (baddr hs j))\<lparr>seg_next := ?new\<rparr> else seg h (baddr hs j))"
        using baddr_eq [OF ok, of j] W(1) b C(2) [of j] baddr_nonnull [OF ok, of j] by (simp add: g_def)
    next
      fix j q assume "(j, q) \<in> set ys"
      then have "i + n < j \<and> j < N" by (rule W(6))
      then show "g (baddr hs j) = (if baddr hs j = ?nx then (seg h (baddr hs j))\<lparr>seg_prev := last_addr hs ?pv [(i + b, n - b)]\<rparr> else seg h (baddr hs j))"
        using baddr_eq [OF ok, of j] W(1) b C(4) [of j] baddr_nonnull [OF ok, of j] by (simp add: g_def)
    qed
    ultimately show ?thesis using ok by (simp add: free_list_def h'_def)
  qed
  moreover have "seg_blocks (seg h' ?v) = of_nat b"
    and "heap.more h' = heap.more h"
    and "\<forall>p. p \<noteq> ?v \<and> p \<noteq> ?new \<longrightarrow> seg_blocks (seg h' p) = seg_blocks (seg h p)"
    by (auto simp: h'_def g_def)
  ultimately show ?thesis by blast
qed

lemma kheap_alloc_exact:
  assumes fl: "free_list hs N h (us @ (i, n) # ys)"
    and small: "\<forall>x\<in>set us. snd x < n" and b: "calculate_blocks bytes = of_nat n"
  shows "\<exists>h'. kheap_alloc bytes h = Some (baddr hs i + sizeof_mem_segment, h')
    \<and> free_list hs N h' (us @ ys)
    \<and> (\<forall>p. seg_blocks (seg h' p) = seg_blocks (seg h p))
    \<and> heap.more h' = heap.more h"
proof -
  have ok: "heap_ok hs N" and wf: "wf_free 0 N (us @ (i, n) # ys)"
    and fs: "fseg hs (seg h) NULL (head_segment h) (us @ (i, n) # ys) NULL"
    using fl by (auto simp: free_list_def)
  note W = wf_free_mid [OF wf]
  note A = free_list_at [OF fl]
  note C = neighbour_addr [OF ok wf]
  let ?v = "baddr hs i" and ?nx = "first_addr hs ys" and ?pv = "last_addr hs NULL us"
  have fv: "find_valid (calculate_blocks bytes) (head_segment h) h = Some ?v"
    using find_valid_first [OF fl] small b by simp
  have mp: "mapped ?v" using baddr_mapped [OF ok] W(1,2) by simp
  have rem: "seg_blocks (seg h ?v) = calculate_blocks bytes" using A(1) b by simp
  define g where "g = (\<lambda>p. if p = ?v then (seg h ?v)\<lparr>seg_next := NULL, seg_prev := NULL\<rparr>
      else if p = ?nx \<and> p \<noteq> NULL then (seg h p)\<lparr>seg_prev := ?pv\<rparr>
      else if p = ?pv \<and> p \<noteq> NULL then (seg h p)\<lparr>seg_next := ?nx\<rparr> else seg h p)"
  define h' where "h' = h\<lparr>seg := g, head_segment := (if us = [] then ?nx else head_segment h)\<rparr>"
  have "kheap_alloc bytes h = Some (?v + sizeof_mem_segment, h')"
    unfolding h'_def g_def C(6) [symmetric]
    by (rule kheap_alloc_compute_exact [OF fv mp rem]) (use C W(1) A in auto)
  moreover have "free_list hs N h' (us @ ys)"
  proof -
    have "wf_free 0 N (us @ ys)"
      using wf by (auto simp: wf_free_append intro: wf_free_weaken)
    moreover have "fseg hs g NULL (if us = [] then ?nx else head_segment h) (us @ [] @ ys) NULL"
    proof (rule fseg_replace)
      show "fseg hs (seg h) NULL (head_segment h) (us @ [(i, n)] @ ys) NULL" using fs by simp
      show "fseg hs g ?pv ?nx [] ?nx" by simp
      show "distinct (map (\<lambda>x. baddr hs (fst x)) us)" "distinct (map (\<lambda>x. baddr hs (fst x)) ys)"
        using wf_free_distinct [OF ok] W(3,4) by auto
    next
      fix j q assume "(j, q) \<in> set us"
      then have "j + q < i" by (rule W(5))
      then show "g (baddr hs j) = (if baddr hs j = ?pv then (seg h (baddr hs j))\<lparr>seg_next := ?nx\<rparr> else seg h (baddr hs j))"
        using baddr_eq [OF ok, of j] W(1) C(2) [of j] baddr_nonnull [OF ok, of j] by (simp add: g_def)
    next
      fix j q assume "(j, q) \<in> set ys"
      then have "i + n < j \<and> j < N" by (rule W(6))
      then show "g (baddr hs j) = (if baddr hs j = ?nx then (seg h (baddr hs j))\<lparr>seg_prev := last_addr hs ?pv []\<rparr> else seg h (baddr hs j))"
        using baddr_eq [OF ok, of j] W(1) C(4) [of j] baddr_nonnull [OF ok, of j] by (simp add: g_def)
    qed
    ultimately show ?thesis using ok by (simp add: free_list_def h'_def)
  qed
  moreover have "heap.more h' = heap.more h"
    and "\<forall>p. seg_blocks (seg h' p) = seg_blocks (seg h p)"
    by (auto simp: h'_def g_def)
  ultimately show ?thesis by blast
qed

lemma kheap_alloc_none:
  assumes fl: "free_list hs N h xs" and small: "\<forall>x\<in>set xs. snd x < unat (calculate_blocks bytes)"
  shows "kheap_alloc bytes h = Some (NULL, h)"
proof -
  have ok: "heap_ok hs N" and wf: "wf_free 0 N xs"
    and fs: "fseg hs (seg h) NULL (head_segment h) xs NULL"
    using fl by (auto simp: free_list_def)
  have "List.find (\<lambda>x. unat (calculate_blocks bytes) \<le> snd x) xs = None"
    using small by (auto simp: find_None_iff)
  then have "find_valid (calculate_blocks bytes) (head_segment h) h = Some NULL"
    using find_valid_fseg [OF ok wf fs] by simp
  then show ?thesis by (simp add: kheap_alloc_def Let_def)
qed

section \<open>The allocator refines a map of allocated segments\<close>

definition used :: "(nat \<rightharpoonup> nat) \<Rightarrow> nat set" where
  "used A = {c. \<exists>i n. A i = Some n \<and> i \<le> c \<and> c < i + n}"

definition free_cells :: "nat \<Rightarrow> (nat \<rightharpoonup> nat) \<Rightarrow> nat set" where
  "free_cells N A = {0..<N} - used A"

definition wf_alloc :: "nat \<Rightarrow> (nat \<rightharpoonup> nat) \<Rightarrow> bool" where
  "wf_alloc N A \<longleftrightarrow> (\<forall>i n. A i = Some n \<longrightarrow> 0 < n \<and> i + n \<le> N)
     \<and> (\<forall>i n j m. A i = Some n \<longrightarrow> A j = Some m \<longrightarrow> i \<noteq> j \<longrightarrow> {i..<i + n} \<inter> {j..<j + m} = {})"

text \<open>
  \<open>heap_inv hs N A h\<close>: the heap of \<open>N\<close> blocks from address \<open>hs\<close> on has handed out exactly the
  segments of \<open>A\<close> (start block to size); they are disjoint, their headers record their sizes, and
  the free list holds every other block.
\<close>

definition heap_inv :: "addr \<Rightarrow> nat \<Rightarrow> (nat \<rightharpoonup> nat) \<Rightarrow> 'a heap_scheme \<Rightarrow> bool" where
  "heap_inv hs N A h \<longleftrightarrow> wf_alloc N A
     \<and> (\<forall>i n. A i = Some n \<longrightarrow> seg_blocks (seg h (baddr hs i)) = of_nat n)
     \<and> (\<exists>xs. free_list hs N h xs \<and> cells xs = free_cells N A)"

text \<open>The abstract first fit: the lowest block at which \<open>b\<close> consecutive blocks are free.\<close>

definition fits :: "nat \<Rightarrow> (nat \<rightharpoonup> nat) \<Rightarrow> nat \<Rightarrow> nat \<Rightarrow> bool" where
  "fits N A b i \<longleftrightarrow> {i..<i + b} \<subseteq> free_cells N A"

lemma used_upd: "i \<notin> dom A \<Longrightarrow> used (A(i \<mapsto> b)) = used A \<union> {i..<i + b}"
  by (auto simp: used_def)

lemma free_cells_upd: "i \<notin> dom A \<Longrightarrow> free_cells N (A(i \<mapsto> b)) = free_cells N A - {i..<i + b}"
  by (auto simp: free_cells_def used_upd)

lemma wf_alloc_upd:
  assumes "wf_alloc N A" and "fits N A b i" and "0 < b"
  shows "wf_alloc N (A(i \<mapsto> b))" and "i \<notin> dom A"
proof -
  have sub: "{i..<i + b} \<subseteq> {0..<N}" and dis: "{i..<i + b} \<inter> used A = {}"
    using assms(2) unfolding fits_def free_cells_def by blast+
  show "i \<notin> dom A"
    using assms dis by (fastforce simp: used_def wf_alloc_def)
  have "i + b - 1 \<in> {0..<N}" by (rule subsetD [OF sub]) (use assms(3) in auto)
  then have "i + b \<le> N" using assms(3) by simp
  moreover have "{i..<i + b} \<inter> {j..<j + m} = {}" if "A j = Some m" for j m
    using dis that by (fastforce simp: used_def)
  ultimately show "wf_alloc N (A(i \<mapsto> b))"
    using assms(1,3) by (fastforce simp: wf_alloc_def)
qed


lemma run_in_free_list:
  assumes "wf_free lo N xs" and "{i..<i + b} \<subseteq> cells xs" and "0 < b"
  shows "\<exists>j n. (j, n) \<in> set xs \<and> j \<le> i \<and> i + b \<le> j + n"
  using assms
proof (induction xs arbitrary: lo)
  case Nil
  then show ?case by auto
next
  case (Cons x xs)
  obtain j n where x: "x = (j, n)" by force
  have w: "wf_free (Suc (j + n)) N xs" using Cons.prems x by simp
  have sub: "\<And>c. i \<le> c \<Longrightarrow> c < i + b \<Longrightarrow> (j \<le> c \<and> c < j + n) \<or> c \<in> cells xs"
    using Cons.prems(2) x by auto
  have rest: "\<And>c. c \<in> cells xs \<Longrightarrow> j + n < c" using cells_bound [OF w] by (auto simp: Suc_le_eq)
  show ?case
  proof (cases "i < j + n")
    case True
    have "i \<notin> cells xs" using rest True by fastforce
    then have "j \<le> i" using sub [of i] Cons.prems(3) by auto
    moreover have "i + b \<le> j + n"
    proof (rule ccontr)
      assume "\<not> i + b \<le> j + n"
      then have "j + n \<in> cells xs" using sub [of "j + n"] True by auto
      then show False using rest by blast
    qed
    ultimately show ?thesis using x by auto
  next
    case False
    then have "{i..<i + b} \<subseteq> cells xs" using sub by fastforce
    then show ?thesis using Cons.IH [OF w] Cons.prems(3) by auto
  qed
qed

lemma fits_iff:
  assumes "cells xs = free_cells N A" and "wf_free 0 N xs" and "0 < b"
  shows "fits N A b i \<longleftrightarrow> (\<exists>j n. (j, n) \<in> set xs \<and> j \<le> i \<and> i + b \<le> j + n)"
proof
  assume "fits N A b i"
  then show "\<exists>j n. (j, n) \<in> set xs \<and> j \<le> i \<and> i + b \<le> j + n"
    using run_in_free_list [OF assms(2) _ assms(3)] assms(1) by (simp add: fits_def)
next
  assume "\<exists>j n. (j, n) \<in> set xs \<and> j \<le> i \<and> i + b \<le> j + n"
  then show "fits N A b i" by (force simp: fits_def cells_def simp flip: assms(1))
qed

lemma Least_fits:
  assumes c: "cells (us @ (i, n) # ys) = free_cells N A" and w: "wf_free 0 N (us @ (i, n) # ys)"
    and "0 < b" "b \<le> n" and small: "\<forall>x\<in>set us. snd x < b"
  shows "(LEAST i. fits N A b i) = i" and "fits N A b i"
proof -
  show f: "fits N A b i"
    unfolding fits_iff [OF c w assms(3)] using assms(4) by (intro exI [of _ i] exI [of _ n]) simp
  show "(LEAST i. fits N A b i) = i"
  proof (rule Least_equality)
    show "fits N A b i" by (rule f)
  next
    fix j assume "fits N A b j"
    then obtain k m where km: "(k, m) \<in> set (us @ (i, n) # ys)" "k \<le> j" "j + b \<le> k + m"
      using fits_iff [OF c w assms(3)] by blast
    have "(k, m) \<notin> set us" using small km by fastforce
    then show "i \<le> j" using km wf_free_mid(6) [OF w] by fastforce
  qed
qed

lemma heap_inv_ok: "heap_inv hs N A h \<Longrightarrow> heap_ok hs N"
  by (auto simp: heap_inv_def free_list_def)

lemma heap_invI:
  assumes "wf_alloc N A" "\<And>i n. A i = Some n \<Longrightarrow> seg_blocks (seg h (baddr hs i)) = of_nat n"
    and "free_list hs N h xs" "cells xs = free_cells N A"
  shows "heap_inv hs N A h"
  using assms by (auto simp: heap_inv_def)

lemma wf_alloc_block:
  "wf_alloc N A \<Longrightarrow> A i = Some n \<Longrightarrow> i < N \<and> 0 < n \<and> i + n \<le> N"
  by (fastforce simp: wf_alloc_def)

lemma allocated_not_free: "wf_alloc N A \<Longrightarrow> A j = Some m \<Longrightarrow> j \<notin> free_cells N A"
  by (fastforce simp: free_cells_def used_def wf_alloc_def)

lemma kheap_alloc_heap_inv:
  assumes inv: "heap_inv hs N A h" and b: "b = unat (calculate_blocks bytes)" "0 < b"
  shows "if \<exists>i. fits N A b i
         then \<exists>h'. kheap_alloc bytes h = Some (baddr hs (LEAST i. fits N A b i) + sizeof_mem_segment, h')
                \<and> heap_inv hs N (A((LEAST i. fits N A b i) \<mapsto> b)) h' \<and> heap.more h' = heap.more h
         else kheap_alloc bytes h = Some (NULL, h)"
proof -
  obtain xs where fl: "free_list hs N h xs" and c: "cells xs = free_cells N A"
    and wfA: "wf_alloc N A" and hd: "\<And>i n. A i = Some n \<Longrightarrow> seg_blocks (seg h (baddr hs i)) = of_nat n"
    using inv by (auto simp: heap_inv_def)
  have ok: "heap_ok hs N" and w: "wf_free 0 N xs" using fl by (auto simp: free_list_def)
  have cb: "calculate_blocks bytes = of_nat b" using b by simp
  show ?thesis
  proof (cases "\<exists>x\<in>set xs. b \<le> snd x")
    case False
    then have "\<not> (\<exists>i. fits N A b i)" using fits_iff [OF c w b(2)] by fastforce
    moreover have "kheap_alloc bytes h = Some (NULL, h)"
      using kheap_alloc_none [OF fl] False b by force
    ultimately show ?thesis by simp
  next
    case True
    then obtain us x ys where xs: "xs = us @ x # ys" and bx: "b \<le> snd x" and sm: "\<forall>x\<in>set us. \<not> b \<le> snd x"
      using split_list_first_prop [OF True] by auto
    obtain i n where x: "x = (i, n)" by force
    have sm': "\<forall>x\<in>set us. snd x < b" using sm by auto
    note L = Least_fits [OF c [unfolded xs x] w [unfolded xs x] b(2) bx [unfolded x snd_conv] sm']
    note W = wf_alloc_upd [OF wfA L(2) b(2)]
    note M = wf_free_mid [OF w [unfolded xs x]]
    have ex: "\<exists>i. fits N A b i" using L(2) by blast
    have other: "A j = Some m \<Longrightarrow> j \<noteq> i \<and> j \<noteq> i + b \<and> j < N" if "b < n" for j m
      using allocated_not_free [OF wfA, of j m] c xs x W(2) wf_alloc_block [OF wfA, of j m] that by auto
    show ?thesis
    proof (cases "b = n")
      case True
      obtain h' where h': "kheap_alloc bytes h = Some (baddr hs i + sizeof_mem_segment, h')"
        "free_list hs N h' (us @ ys)" "\<forall>p. seg_blocks (seg h' p) = seg_blocks (seg h p)" "heap.more h' = heap.more h"
        using kheap_alloc_exact [of hs N h us i n ys bytes] fl xs x sm' True cb by auto
      have "heap_inv hs N (A(i \<mapsto> b)) h'"
      proof (rule heap_invI [OF W(1) _ h'(2)])
        show "cells (us @ ys) = free_cells N (A(i \<mapsto> b))"
          using c xs x M(5,6) True unfolding free_cells_upd [OF W(2)] c [symmetric]
          by (fastforce simp: cells_def)
        show "\<And>j m. (A(i \<mapsto> b)) j = Some m \<Longrightarrow> seg_blocks (seg h' (baddr hs j)) = of_nat m"
          using h'(3) hd free_list_at(1) [of hs N h us i n ys] fl xs x True by (auto split: if_splits)
      qed
      then show ?thesis using ex L(1) h' by auto
    next
      case False
      then have bn: "b < n" using bx x by simp
      obtain h' where h': "kheap_alloc bytes h = Some (baddr hs i + sizeof_mem_segment, h')"
        "free_list hs N h' (us @ (i + b, n - b) # ys)" "seg_blocks (seg h' (baddr hs i)) = of_nat b"
        "\<forall>p. p \<noteq> baddr hs i \<and> p \<noteq> baddr hs (i + b) \<longrightarrow> seg_blocks (seg h' p) = seg_blocks (seg h p)"
        "heap.more h' = heap.more h"
        using kheap_alloc_split [of hs N h us i n ys b bytes] fl xs x sm' bn b(2) cb by auto
      have "heap_inv hs N (A(i \<mapsto> b)) h'"
      proof (rule heap_invI [OF W(1) _ h'(2)])
        show "cells (us @ (i + b, n - b) # ys) = free_cells N (A(i \<mapsto> b))"
          using c xs x M(5,6) bn unfolding free_cells_upd [OF W(2)] c [symmetric]
          by (fastforce simp: cells_def)
        show "(A(i \<mapsto> b)) j = Some m \<Longrightarrow> seg_blocks (seg h' (baddr hs j)) = of_nat m" for j m
          using h'(3,4) hd [of j m] other [OF bn, of j m] baddr_eq [OF ok, of j] M(1) bn
          by (auto split: if_splits)
      qed
      then show ?thesis using ex L(1) h' by auto
    qed
  qed
qed

section \<open>Deallocation\<close>

fun join_next :: "nat \<Rightarrow> nat \<Rightarrow> (nat \<times> nat) list \<Rightarrow> (nat \<times> nat) list" where
  "join_next i n [] = [(i, n)]"
| "join_next i n ((k, m) # zs) = (if i + n = k then (i, n + m) # zs else (i, n) # (k, m) # zs)"

lemma cells_join_next: "cells (join_next i n ys) = {i..<i + n} \<union> cells ys"
  by (cases "(i, n, ys)" rule: join_next.cases) (auto simp: ivl_disj_un)

lemma join_next_head: "\<exists>m zs. join_next i n ys = (i, m) # zs"
  by (cases "(i, n, ys)" rule: join_next.cases) auto

lemma find_prev_fseg:
  assumes ok: "heap_ok hs N" and i: "i \<le> N" and ys: "\<forall>x\<in>set ys. i < fst x"
  shows "wf_free lo N (us @ ys) \<Longrightarrow> \<forall>x\<in>set us. fst x < i \<Longrightarrow>
    fseg hs (seg h) prv cur (us @ ys) NULL \<Longrightarrow>
    find_prev (baddr hs i) prv cur h = Some (last_addr hs prv us)"
proof (induction us arbitrary: lo prv cur)
  case Nil
  show ?case
  proof (cases ys)
    case Nil
    then show ?thesis using Nil.prems by (simp add: find_prev.simps)
  next
    case (Cons y zs)
    obtain j m where y: "y = (j, m)" by force
    have "i < j" "j \<le> N" "cur = baddr hs j"
      using ys Cons y Nil.prems by auto
    then have "baddr hs i < cur" using baddr_less [OF ok] by simp
    then show ?thesis by (simp add: find_prev.simps)
  qed
next
  case (Cons x us)
  obtain j m where x: "x = (j, m)" by force
  have j: "j + m \<le> N" "0 < m" and w: "wf_free (Suc (j + m)) N (us @ ys)" and cur: "cur = baddr hs j"
    and f: "fseg hs (seg h) cur (seg_next (seg h cur)) (us @ ys) NULL"
    using Cons.prems x by auto
  have ji: "j < i" using Cons.prems(2) x by simp
  have "\<not> baddr hs i < cur" using baddr_less [OF ok, of i j] ji j i cur by simp
  moreover have "mapped cur" using baddr_mapped [OF ok, of j] j cur by simp
  moreover have "cur \<noteq> NULL" using baddr_nonnull [OF ok, of j] j cur by simp
  moreover have "find_prev (baddr hs i) cur (seg_next (seg h cur)) h = Some (last_addr hs cur us)"
    using Cons.IH [OF w _ f] Cons.prems(2) by simp
  ultimately show ?case using x cur by (subst find_prev.simps) (simp add: kernel_simps)
qed

lemma try_join_compute:
  assumes s: "mapped s" "s \<noteq> NULL" and nx: "nx = seg_next (seg h s)" "nx \<noteq> NULL \<Longrightarrow> mapped nx \<and> nx \<noteq> s"
    and nn: "nx \<noteq> NULL \<Longrightarrow> nn = seg_next (seg h nx)" "nx \<noteq> NULL \<Longrightarrow> nn \<noteq> NULL \<Longrightarrow> mapped nn \<and> nn \<noteq> s"
  shows "try_join_next_segment s h = Some
    (if nx \<noteq> NULL \<and> s + seg_blocks (seg h s) * KMEM_BLOCK_SIZE = nx
     then h\<lparr>seg := (\<lambda>p. if p = s then (seg h s)\<lparr>seg_blocks := seg_blocks (seg h s) + seg_blocks (seg h nx), seg_next := nn\<rparr>
                        else if p = nn \<and> p \<noteq> NULL then (seg h p)\<lparr>seg_prev := s\<rparr> else seg h p)\<rparr>
     else h)"
  using s nx nn
  by (cases "nx = NULL"; cases "nn = NULL")
     (auto simp: try_join_next_segment_def kernel_simps fun_eq_iff)

definition link_seg :: "(addr \<Rightarrow> mem_segment) \<Rightarrow> addr \<Rightarrow> addr \<Rightarrow> addr \<Rightarrow> addr \<Rightarrow> mem_segment" where
  "link_seg sg s pv nx p =
     (if p = s then (sg s)\<lparr>seg_next := nx, seg_prev := pv\<rparr>
      else if p = nx \<and> p \<noteq> NULL then (sg p)\<lparr>seg_prev := s\<rparr>
      else if p = pv \<and> p \<noteq> NULL then (sg p)\<lparr>seg_next := s\<rparr> else sg p)"

lemma kheap_dealloc_compute:
  assumes pv: "find_prev s NULL (head_segment h) h = Some pv" and s: "mapped s"
    and pvm: "pv \<noteq> NULL \<Longrightarrow> mapped pv \<and> pv \<noteq> s"
    and nx: "(if pv \<noteq> NULL then seg_next (seg h pv) else head_segment h) = nx"
      "nx \<noteq> NULL \<Longrightarrow> mapped nx \<and> nx \<noteq> s \<and> nx \<noteq> pv"
  shows "kheap_dealloc (s + sizeof_mem_segment) h =
    do {
      h \<leftarrow> try_join_next_segment s (h\<lparr>seg := link_seg (seg h) s pv nx,
           head_segment := (if pv = NULL then s else head_segment h)\<rparr>);
      pv \<leftarrow> get_prev s h;
      if pv \<noteq> NULL then try_join_next_segment pv h else Some h
    }"
proof -
  have s0: "s \<noteq> NULL" using s mapped_nonnull by metis
  define g where "g = (seg h)(s := (seg h s)\<lparr>seg_prev := pv, seg_next := nx\<rparr>)"
  have L: "link_seg (seg h) s pv nx =
    (let g = (if pv \<noteq> NULL then g(pv := (g pv)\<lparr>seg_next := s\<rparr>) else g)
     in if nx \<noteq> NULL then g(nx := (g nx)\<lparr>seg_prev := s\<rparr>) else g)"
    using pvm nx(2) s0 by (auto simp: link_seg_def fun_eq_iff g_def Let_def)
  have pvm': "pv \<noteq> NULL \<Longrightarrow> s \<noteq> pv" and nx': "nx \<noteq> NULL \<Longrightarrow> s \<noteq> nx \<and> pv \<noteq> nx"
    using pvm nx(2) by auto
  show ?thesis
    unfolding L using s0 s pvm pvm' nx nx' pv
    by (cases "nx = NULL"; cases "pv = NULL")
       (simp_all add: kheap_dealloc_def kernel_simps Let_def g_def)
qed


lemma fseg_at:
  assumes "fseg hs sg NULL c (us @ (i, n) # ys) NULL"
  shows "seg_blocks (sg (baddr hs i)) = of_nat n"
    and "seg_next (sg (baddr hs i)) = first_addr hs ys"
    and "seg_prev (sg (baddr hs i)) = last_addr hs NULL us"
  using assms by (auto simp: fseg_append first_addr_def split: list.splits)

lemma try_join_fseg:
  assumes ok: "heap_ok hs N" and fs: "fseg hs (seg h) NULL (head_segment h) (us @ (i, n) # ys) NULL"
    and us: "wf_free 0 N us" "\<forall>x\<in>set us. fst x < i"
    and n: "0 < n" "i + n \<le> N" and ys: "wf_free (i + n) N ys"
  shows "\<exists>h'. try_join_next_segment (baddr hs i) h = Some h'
    \<and> fseg hs (seg h') NULL (head_segment h') (us @ join_next i n ys) NULL
    \<and> (\<forall>p. p \<noteq> baddr hs i \<longrightarrow> seg_blocks (seg h' p) = seg_blocks (seg h p)) \<and> heap.more h' = heap.more h"
proof -
  let ?v = "baddr hs i" and ?nx = "first_addr hs ys" and ?pv = "last_addr hs NULL us"
  note A = fseg_at [OF fs]
  have v: "mapped ?v" "?v \<noteq> NULL" using baddr_mapped [OF ok, of i] baddr_nonnull [OF ok, of i] n by auto
  have ym: "\<forall>x\<in>set ys. i < fst x \<and> fst x < N" using wf_free_mem [OF ys] n by fastforce
  have iN: "i \<le> N" using n by simp
  show ?thesis
  proof (cases "\<exists>m zs. ys = (i + n, m) # zs")
    case False
    have "?nx \<noteq> baddr hs (i + n)" if "?nx \<noteq> NULL"
    proof (cases ys)
      case Nil
      then show ?thesis using that by (simp add: first_addr_def)
    next
      case (Cons y zs)
      obtain k m where y: "y = (k, m)" by force
      have "k < N" "k \<noteq> i + n" using ym False Cons y by auto
      then show ?thesis using baddr_eq [OF ok, of k "i + n"] n Cons y by (simp add: first_addr_def)
    qed
    then have "try_join_next_segment ?v h = Some h"
      using v A by (auto simp: try_join_next_segment_def kernel_simps baddr_add)
    moreover have "join_next i n ys = (i, n) # ys"
      using False by (cases "(i, n, ys)" rule: join_next.cases) auto
    ultimately show ?thesis using fs by auto
  next
    case True
    then obtain m zs where yz: "ys = (i + n, m) # zs" by blast
    let ?k = "baddr hs (i + n)" and ?nn = "first_addr hs zs"
    have wz: "wf_free (Suc (i + n + m)) N zs" "0 < m" "i + n + m \<le> N" using ys yz by auto
    have nxk: "?nx = ?k" using yz by (simp add: first_addr_def)
    have k: "mapped ?k" "?k \<noteq> ?v" "?k \<noteq> NULL"
      using baddr_mapped [OF ok, of "i + n"] baddr_eq [OF ok, of "i + n" i] baddr_nonnull [OF ok, of "i + n"] wz n by auto
    have fs': "fseg hs (seg h) NULL (head_segment h) ((us @ [(i, n)]) @ (i + n, m) # zs) NULL"
      using fs yz by simp
    note B = fseg_at [OF fs']
    have zm: "\<forall>x\<in>set zs. i + n + m < fst x \<and> fst x < N" using wf_free_mem [OF wz(1)] by fastforce
    have le: "i \<le> Suc (i + n + m)" by simp
    note D = neighbour_gen [OF ok us(2) iN zm le]
    define g where "g = (\<lambda>p. if p = ?v then (seg h ?v)\<lparr>seg_blocks := of_nat n + of_nat m, seg_next := ?nn\<rparr>
        else if p = ?nn \<and> p \<noteq> NULL then (seg h p)\<lparr>seg_prev := ?v\<rparr> else seg h p)"
    have nnv: "?nn \<noteq> NULL \<Longrightarrow> mapped ?nn \<and> ?nn \<noteq> ?v" using D(1) D(2) [where a = i] n by simp
    have "try_join_next_segment ?v h = Some (h\<lparr>seg := g\<rparr>)"
      using try_join_compute [OF v, of ?k h ?nn] A B k nxk nnv baddr_add [of hs i n]
      by (simp add: g_def cong: if_cong)
    moreover have "fseg hs g NULL (if us = [] then ?v else head_segment h) (us @ [(i, n + m)] @ zs) NULL"
    proof (rule fseg_replace)
      show "fseg hs (seg h) NULL (head_segment h) (us @ [(i, n), (i + n, m)] @ zs) NULL" using fs yz by simp
      show "fseg hs g ?pv ?v [(i, n + m)] ?nn" using A by (simp add: g_def)
      show "distinct (map (\<lambda>x. baddr hs (fst x)) us)" "distinct (map (\<lambda>x. baddr hs (fst x)) zs)"
        using wf_free_distinct [OF ok] us(1) wz(1) by auto
    next
      fix j q assume "(j, q) \<in> set us"
      moreover from this have "j < i" using us(2) by fastforce
      moreover from this fs have "seg_next (seg h ?pv) = ?v"
        using \<open>(j, q) \<in> set us\<close> by (cases us rule: rev_cases) (auto simp: fseg_append)
      ultimately show "g (baddr hs j) = (if baddr hs j = ?pv then (seg h (baddr hs j))\<lparr>seg_next := ?v\<rparr> else seg h (baddr hs j))"
        using baddr_eq [OF ok, of j] n D(2) [where a = j] by (auto simp: g_def)
    next
      fix j q assume "(j, q) \<in> set zs"
      then have "i + n + m < j \<and> j < N" using zm by fastforce
      then show "g (baddr hs j) = (if baddr hs j = ?nn then (seg h (baddr hs j))\<lparr>seg_prev := last_addr hs ?pv [(i, n + m)]\<rparr> else seg h (baddr hs j))"
        using baddr_eq [OF ok, of j] n baddr_nonnull [OF ok, of j] by (auto simp: g_def)
    qed
    moreover have "(if us = [] then ?v else head_segment h) = head_segment h" using fs by auto
    ultimately show ?thesis
      using yz by (intro exI [of _ "h\<lparr>seg := g\<rparr>"]) (auto simp: g_def)
  qed
qed


lemma wf_free_join_next:
  assumes "wf_free lo N us" "\<And>j q. (j, q) \<in> set us \<Longrightarrow> j + q < i" "lo \<le> i" "0 < n" "i + n \<le> N"
    and "wf_free (i + n) N ys"
  shows "wf_free lo N (us @ join_next i n ys)"
proof -
  have "wf_free i N (join_next i n ys)"
    using assms by (cases "(i, n, ys)" rule: join_next.cases) (auto simp: wf_free_weaken)
  moreover have "us \<noteq> [] \<Longrightarrow> fst (last us) + snd (last us) < i"
    using assms(2) [of "fst (last us)" "snd (last us)"] by simp
  ultimately show ?thesis
    using assms(1,3) wf_free_weaken by (fastforce simp: wf_free_append)
qed

lemma kheap_dealloc_free_list:
  assumes fl: "free_list hs N h (us @ ys)" and n: "0 < n" "i + n \<le> N"
    and us: "\<forall>x\<in>set us. fst x + snd x \<le> i" and ys: "\<forall>x\<in>set ys. i + n \<le> fst x"
    and bl: "seg_blocks (seg h (baddr hs i)) = of_nat n"
  shows "\<exists>h' zs. kheap_dealloc (baddr hs i + sizeof_mem_segment) h = Some h'
    \<and> free_list hs N h' zs \<and> cells zs = cells (us @ ys) \<union> {i..<i + n}
    \<and> (\<forall>p. p \<noteq> baddr hs i \<and> p \<noteq> last_addr hs NULL us \<longrightarrow> seg_blocks (seg h' p) = seg_blocks (seg h p))
    \<and> heap.more h' = heap.more h"
proof -
  let ?v = "baddr hs i" and ?nx = "first_addr hs ys" and ?pv = "last_addr hs NULL us"
  have ok: "heap_ok hs N" and w: "wf_free 0 N (us @ ys)"
    and fs: "fseg hs (seg h) NULL (head_segment h) (us @ ys) NULL"
    using fl by (auto simp: free_list_def)
  have wu: "wf_free 0 N us" and wy0: "\<exists>lo. wf_free lo N ys" using w by (auto simp: wf_free_append)
  have wy: "wf_free (i + n) N ys"
    using wy0 ys by (cases ys) auto
  have um: "\<forall>x\<in>set us. fst x < i" using us wf_free_mem [OF wu] by fastforce
  have ym: "\<forall>x\<in>set ys. i < fst x \<and> fst x < N" using wf_free_mem [OF wy] n by fastforce
  have iN: "i \<le> N" "i < N" using n by auto
  note C = neighbour_gen [OF ok um iN(1) ym le_SucI [OF order_refl]]
  have v: "mapped ?v" "?v \<noteq> NULL" using baddr_mapped [OF ok, of i] baddr_nonnull [OF ok, of i] iN by auto
  have fp: "find_prev ?v NULL (head_segment h) h = Some ?pv"
    using find_prev_fseg [OF ok iN(1) _ w um fs] ym by blast
  have nx: "(if ?pv \<noteq> NULL then seg_next (seg h ?pv) else head_segment h) = ?nx"
    using fs C(6) by (cases us rule: rev_cases) (auto simp: fseg_append first_addr_def split: list.splits)
  define h1 where "h1 = h\<lparr>seg := link_seg (seg h) ?v ?pv ?nx, head_segment := (if ?pv = NULL then ?v else head_segment h)\<rparr>"
  have f1: "fseg hs (seg h1) NULL (head_segment h1) (us @ (i, n) # ys) NULL"
  proof -
    have "fseg hs (seg h1) NULL (if us = [] then ?v else head_segment h) (us @ [(i, n)] @ ys) NULL"
    proof (rule fseg_replace)
      show "fseg hs (seg h) NULL (head_segment h) (us @ [] @ ys) NULL" using fs by simp
      show "fseg hs (seg h1) ?pv ?v [(i, n)] ?nx" using bl by (simp add: h1_def link_seg_def)
      show "distinct (map (\<lambda>x. baddr hs (fst x)) us)" "distinct (map (\<lambda>x. baddr hs (fst x)) ys)"
        using wf_free_distinct [OF ok] wu wy by auto
    next
      fix j q assume "(j, q) \<in> set us"
      then have "j < i" using um by fastforce
      then show "seg h1 (baddr hs j) = (if baddr hs j = ?pv then (seg h (baddr hs j))\<lparr>seg_next := ?v\<rparr> else seg h (baddr hs j))"
        using baddr_eq [OF ok, of j] iN C(2) [where a = j] baddr_nonnull [OF ok, of j] by (auto simp: h1_def link_seg_def)
    next
      fix j q assume "(j, q) \<in> set ys"
      then have "i < j \<and> j < N" using ym by fastforce
      then show "seg h1 (baddr hs j) = (if baddr hs j = ?nx then (seg h (baddr hs j))\<lparr>seg_prev := last_addr hs ?pv [(i, n)]\<rparr> else seg h (baddr hs j))"
        using baddr_eq [OF ok, of j] iN C(4) [where a = j] baddr_nonnull [OF ok, of j] by (auto simp: h1_def link_seg_def)
    qed
    then show ?thesis using C(6) by (simp add: h1_def)
  qed
  have b1: "\<And>p. seg_blocks (seg h1 p) = seg_blocks (seg h p)" by (simp add: h1_def link_seg_def)
  obtain h2 where h2: "try_join_next_segment ?v h1 = Some h2"
    "fseg hs (seg h2) NULL (head_segment h2) (us @ join_next i n ys) NULL"
    "\<And>p. p \<noteq> ?v \<Longrightarrow> seg_blocks (seg h2 p) = seg_blocks (seg h1 p)" "heap.more h2 = heap.more h1"
    using try_join_fseg [OF ok f1 wu um n wy] by blast
  have pv2: "get_prev ?v h2 = Some ?pv"
  proof -
    obtain m zs where "join_next i n ys = (i, m) # zs"
      using join_next_head by blast
    then show ?thesis using fseg_at(3) [of hs "seg h2"] h2(2) v by (simp add: kernel_simps)
  qed
  have dk: "kheap_dealloc (?v + sizeof_mem_segment) h = (if ?pv \<noteq> NULL then try_join_next_segment ?pv h2 else Some h2)"
    using kheap_dealloc_compute [OF fp v(1) _ nx] C v h2(1) pv2 iN
    unfolding h1_def by simp
  have cl: "cells (us @ join_next i n ys) = cells (us @ ys) \<union> {i..<i + n}"
    by (auto simp: cells_join_next)
  show ?thesis
  proof (cases us rule: rev_cases)
    case Nil
    have "wf_free 0 N (us @ join_next i n ys)"
      using wf_free_join_next [of 0 N us i n ys] n wy Nil by simp
    then have "free_list hs N h2 (us @ join_next i n ys)" using ok h2(2) by (simp add: free_list_def)
    moreover have "kheap_dealloc (?v + sizeof_mem_segment) h = Some h2" using dk Nil by simp
    moreover have "heap.more h2 = heap.more h" using h2(4) by (simp add: h1_def)
    ultimately show ?thesis using cl h2(3) b1
      by (intro exI [of _ h2] exI [of _ "us @ join_next i n ys"]) simp
  next
    case (snoc vs x)
    obtain j q where x: "x = (j, q)" by force
    have pvj: "?pv = baddr hs j" using snoc x by simp
    have jq: "j + q \<le> i" "0 < q" using us wf_free_mem [OF wu, of j q] snoc x by auto
    have f2: "fseg hs (seg h2) NULL (head_segment h2) (vs @ (j, q) # join_next i n ys) NULL"
      using h2(2) snoc x by simp
    have wj: "wf_free (j + q) N (join_next i n ys)"
      using wf_free_join_next [of i N "[]" i n ys] n wy jq by (simp add: wf_free_weaken)
    have wv: "wf_free 0 N vs" "\<And>k m. (k, m) \<in> set vs \<Longrightarrow> k + m < j"
      using wu snoc x wf_free_snoc_below by (auto simp: wf_free_append)
    then have vm: "\<forall>x\<in>set vs. fst x < j" by fastforce
    have jN: "j + q \<le> N" "0 \<le> j" using jq n by auto
    obtain h3 where h3: "try_join_next_segment (baddr hs j) h2 = Some h3"
      "fseg hs (seg h3) NULL (head_segment h3) (vs @ join_next j q (join_next i n ys)) NULL"
      "\<And>p. p \<noteq> baddr hs j \<Longrightarrow> seg_blocks (seg h3 p) = seg_blocks (seg h2 p)" "heap.more h3 = heap.more h2"
      using try_join_fseg [OF ok f2 wv(1) vm jq(2) jN(1) wj] by blast
    have "free_list hs N h3 (vs @ join_next j q (join_next i n ys))"
      using wf_free_join_next [OF wv jN(2) jq(2) jN(1) wj] ok h3(2) by (simp add: free_list_def)
    moreover have "cells (vs @ join_next j q (join_next i n ys)) = cells (us @ ys) \<union> {i..<i + n}"
      using snoc x by (auto simp: cells_join_next)
    moreover have "kheap_dealloc (?v + sizeof_mem_segment) h = Some h3" using dk pvj h3(1) C(6) snoc by auto
    moreover have "heap.more h3 = heap.more h" using h3(4) h2(4) by (simp add: h1_def)
    ultimately show ?thesis using h3(3) h2(3) b1 pvj by metis
  qed
qed


lemma free_list_before_after:
  assumes w: "wf_free lo N xs" and d: "cells xs \<inter> {i..<i + n} = {}" and n: "0 < n"
  shows "\<exists>us ys. xs = us @ ys \<and> (\<forall>x\<in>set us. fst x + snd x \<le> i) \<and> (\<forall>x\<in>set ys. i + n \<le> fst x)"
  using w d
proof (induction xs arbitrary: lo)
  case Nil
  then show ?case by simp
next
  case (Cons x xs)
  obtain j q where x: "x = (j, q)" by force
  have w: "wf_free (Suc (j + q)) N xs" "0 < q" using Cons.prems x by auto
  have d: "{j..<j + q} \<inter> {i..<i + n} = {}" "cells xs \<inter> {i..<i + n} = {}"
    using Cons.prems(2) unfolding x cells_simps by blast+
  show ?case
  proof (cases "j < i")
    case True
    have "j + q \<le> i"
    proof (rule ccontr)
      assume "\<not> j + q \<le> i"
      then have "i \<in> {j..<j + q} \<inter> {i..<i + n}" using True n by simp
      then show False using d(1) by blast
    qed
    moreover obtain us ys where "xs = us @ ys" "\<forall>x\<in>set us. fst x + snd x \<le> i" "\<forall>x\<in>set ys. i + n \<le> fst x"
      using Cons.IH [OF w(1) d(2)] by blast
    ultimately show ?thesis using x by (intro exI [of _ "x # us"] exI [of _ ys]) auto
  next
    case False
    have "j \<notin> {i..<i + n}" using d(1) w(2) by (auto simp: disjoint_iff)
    then have "i + n \<le> j" using False by simp
    moreover have "\<forall>y\<in>set xs. j < fst y" using wf_free_mem [OF w(1)] by fastforce
    ultimately have "\<forall>y\<in>set (x # xs). i + n \<le> fst y" using x by fastforce
    then show ?thesis by (metis append_Nil empty_iff list.set(1))
  qed
qed

lemma used_block: "A i = Some n \<Longrightarrow> {i..<i + n} \<subseteq> used A"
  by (simp add: subset_iff used_def) blast

lemma used_del:
  assumes "wf_alloc N A" and "A i = Some n"
  shows "used (A(i := None)) = used A - {i..<i + n}"
proof -
  have d: "{j..<j + m} \<inter> {i..<i + n} = {}" if "A j = Some m" "j \<noteq> i" for j m
    using assms that unfolding wf_alloc_def by blast
  show ?thesis
  proof (intro equalityI subsetI)
    fix c assume "c \<in> used (A(i := None))"
    then obtain j m where j: "A j = Some m" "j \<noteq> i" "c \<in> {j..<j + m}"
      by (auto simp: used_def split: if_splits)
    then show "c \<in> used A - {i..<i + n}" using d [OF j(1,2)] used_block [of A j m] by blast
  next
    fix c assume c: "c \<in> used A - {i..<i + n}"
    then obtain j m where "A j = Some m" "j \<le> c" "c < j + m" by (auto simp: used_def)
    moreover from this c assms(2) have "j \<noteq> i" by auto
    ultimately show "c \<in> used (A(i := None))" by (auto simp: used_def)
  qed
qed

lemma wf_alloc_del: "wf_alloc N A \<Longrightarrow> wf_alloc N (A(i := None))"
  by (auto simp: wf_alloc_def)

lemma kheap_dealloc_heap_inv:
  assumes inv: "heap_inv hs N A h" and A: "A i = Some n"
  shows "\<exists>h'. kheap_dealloc (baddr hs i + sizeof_mem_segment) h = Some h'
    \<and> heap_inv hs N (A(i := None)) h' \<and> heap.more h' = heap.more h"
proof -
  obtain xs where fl: "free_list hs N h xs" and c: "cells xs = free_cells N A"
    and wfA: "wf_alloc N A" and hd: "\<And>i n. A i = Some n \<Longrightarrow> seg_blocks (seg h (baddr hs i)) = of_nat n"
    using inv by (auto simp: heap_inv_def)
  have ok: "heap_ok hs N" and w: "wf_free 0 N xs" using fl by (auto simp: free_list_def)
  have n: "0 < n" "i + n \<le> N" using wf_alloc_block [OF wfA A] by auto
  have "cells xs \<inter> {i..<i + n} = {}" using used_block [of A i n, OF A] c by (auto simp: free_cells_def)
  then obtain us ys where xs: "xs = us @ ys" and us: "\<forall>x\<in>set us. fst x + snd x \<le> i" and ys: "\<forall>x\<in>set ys. i + n \<le> fst x"
    using free_list_before_after [OF w _ n(1)] by meson
  obtain h' zs where h': "kheap_dealloc (baddr hs i + sizeof_mem_segment) h = Some h'"
    "free_list hs N h' zs" "cells zs = cells xs \<union> {i..<i + n}" "heap.more h' = heap.more h"
    "\<And>p. p \<noteq> baddr hs i \<Longrightarrow> p \<noteq> last_addr hs NULL us \<Longrightarrow> seg_blocks (seg h' p) = seg_blocks (seg h p)"
    using kheap_dealloc_free_list [OF fl [unfolded xs] n us ys hd [OF A]] xs by blast
  have "heap_inv hs N (A(i := None)) h'"
  proof (rule heap_invI [OF wf_alloc_del [OF wfA] _ h'(2)])
    show "cells zs = free_cells N (A(i := None))"
      unfolding h'(3) c free_cells_def used_del [OF wfA A] using used_block [of A i n, OF A] n by auto
  next
    fix j m assume "(A(i := None)) j = Some m"
    then have j: "A j = Some m" "j \<noteq> i" by (auto split: if_splits)
    have jN: "j < N" using wf_alloc_block [OF wfA j(1)] by simp
    have "baddr hs j \<noteq> last_addr hs NULL us"
    proof
      assume e: "baddr hs j = last_addr hs NULL us"
      then obtain vs k q where "us = vs @ [(k, q)]" "baddr hs j = baddr hs k"
        using baddr_nonnull [OF ok, of j] jN by (cases us rule: rev_cases) auto
      moreover from this have k: "(k, q) \<in> set xs" using xs by simp
      ultimately have "j = k" using baddr_eq [OF ok, of j k] wf_free_mem [OF w k] jN by simp
      then have "j \<in> cells xs" using k wf_free_mem [OF w k] by (force simp: cells_def)
      then show False using allocated_not_free [OF wfA j(1)] c by simp
    qed
    then show "seg_blocks (seg h' (baddr hs j)) = of_nat m"
      using h'(5) hd [OF j(1)] baddr_eq [OF ok, of j i] j(2) jN n by simp
  qed
  then show ?thesis using h' by blast
qed

end
