(* ===== verification/Heap_Runs.thy ===== *)
theory Heap_Runs
  imports Heap_Correct
begin

text \<open>
  Sizes, initialisation and the runs of a client of the heap.
\<close>

section \<open>Sizes\<close>

lemma ceil_div_64: "(a + 63) div 64 = a div 64 + (if a mod 64 = 0 then 0 else 1 :: nat)"
proof -
  have "(64 * q + r + 63) div 64 = q + (if r = 0 then 0 else 1)" if "r < 64" for q r :: nat
    using that by (auto intro!: div_nat_eqI)
  from this [of "a mod 64" "a div 64"] show ?thesis by simp
qed

lemma unat_calculate_blocks:
  assumes "unat bytes + 12 < 4294967296"
  shows "unat (calculate_blocks bytes) = (unat bytes + 75) div 64"
proof -
  have u: "unat (bytes + sizeof_mem_segment) = unat bytes + 12"
    using assms unat_add_small [of bytes sizeof_mem_segment] by (simp add: sizeof_mem_segment_def)
  have d: "unat ((bytes + sizeof_mem_segment) div KMEM_BLOCK_SIZE) = (unat bytes + 12) div 64"
    and m: "unat ((bytes + sizeof_mem_segment) mod KMEM_BLOCK_SIZE) = (unat bytes + 12) mod 64"
    using u by (simp_all add: unat_div unat_mod KMEM_BLOCK_SIZE_def)
  have m0: "(bytes + sizeof_mem_segment) mod KMEM_BLOCK_SIZE \<noteq> 0 \<longleftrightarrow> (unat bytes + 12) mod 64 \<noteq> 0"
    using m by (metis unat_eq_zero)
  have small: "(unat bytes + 12) div 64 < 67108864" using assms by simp
  show ?thesis
    using d m0 small unat_add_small [of "(bytes + sizeof_mem_segment) div KMEM_BLOCK_SIZE" 1]
      ceil_div_64 [of "unat bytes + 12"]
    by (auto simp: calculate_blocks_def Let_def add.commute)
qed

lemma calculate_blocks_pos: "unat bytes + 12 < 4294967296 \<Longrightarrow> 0 < unat (calculate_blocks bytes)"
  by (simp add: unat_calculate_blocks)

lemma calculate_blocks_holds:
  "unat bytes + 12 < 4294967296 \<Longrightarrow> unat bytes + 12 \<le> 64 * unat (calculate_blocks bytes)"
  by (simp add: unat_calculate_blocks)

lemma mapped_data_nonnull:
  assumes "mapped p" shows "p + sizeof_mem_segment \<noteq> NULL"
proof
  assume z: "p + sizeof_mem_segment = NULL"
  have "unat (p + sizeof_mem_segment) = unat p + 12"
    using assms by (intro unat_add_small [of p sizeof_mem_segment, unfolded sizeof_mem_segment_def, simplified, folded sizeof_mem_segment_def])
       (simp add: mapped_def word_le_nat_alt RAM_END_def sizeof_mem_segment_def)
  then show False using z by simp
qed

section \<open>Initialisation\<close>

lemma kheap_init_heap_inv:
  assumes "RAM_START \<le> HS" "HE \<le> RAM_END" "unat HS + 64 \<le> unat HE" "head_segment h = HS"
  shows "\<exists>h'. kheap_init HS HE h = Some h' \<and> heap_inv HS ((unat HE - unat HS) div 64) Map.empty h'"
proof -
  let ?N = "(unat HE - unat HS) div 64"
  have le: "HS \<le> HE" using assms(3) by (simp add: word_le_nat_alt)
  have N: "0 < ?N" "64 * ?N \<le> unat HE - unat HS" using assms(3) by auto
  have "unat HE \<le> unat RAM_END" using assms(2) by (simp add: word_le_nat_alt)
  then have ok: "heap_ok HS ?N" using assms(1,3) N by (simp add: heap_ok_def)
  have b0: "baddr HS 0 = HS" by (simp add: baddr_def)
  have mp: "mapped HS" using baddr_mapped [OF ok N(1)] b0 by simp
  have "unat ((HE - HS) div KMEM_BLOCK_SIZE) = ?N"
    using unat_sub [OF le] by (simp add: unat_div KMEM_BLOCK_SIZE_def)
  moreover have "unat (of_nat ?N :: u32) = ?N"
    using unat_less_2p32 [of HE] by (intro unat_of_nat_u32) linarith
  ultimately have bl: "(HE - HS) div KMEM_BLOCK_SIZE = of_nat ?N" by (metis unsigned_word_eqI)
  define h' where "h' = h\<lparr>seg := (seg h)(HS := (seg h HS)\<lparr>seg_blocks := of_nat ?N, seg_prev := NULL, seg_next := NULL\<rparr>)\<rparr>"
  have "kheap_init HS HE h = Some h'"
    using mp bl by (simp add: kheap_init_def kernel_simps Let_def h'_def)
  moreover have "free_list HS ?N h' [(0, ?N)]"
    using ok N assms(4) b0 by (simp add: free_list_def h'_def)
  then have "heap_inv HS ?N Map.empty h'"
    by (intro heap_invI [where xs = "[(0, ?N)]"]) (auto simp: wf_alloc_def free_cells_def used_def)
  ultimately show ?thesis by blast
qed


section \<open>Every run of a client\<close>

text \<open>
  The states a client can bring the heap to, with the client's ledger of live pointers and the
  sizes it asked for: it starts from \<open>kheap_init\<close>, asks for blocks (of a size that does not wrap
  around in \<open>calculate_blocks\<close>) and gives back pointers it holds.
\<close>

inductive heap_reach :: "addr \<Rightarrow> addr \<Rightarrow> heap \<Rightarrow> (addr \<rightharpoonup> u32) \<Rightarrow> bool" for HS HE where
  boot: "head_segment h = HS \<Longrightarrow> kheap_init HS HE h = Some h' \<Longrightarrow> heap_reach HS HE h' Map.empty"
| alloc: "heap_reach HS HE h L \<Longrightarrow> unat n + 12 < 4294967296 \<Longrightarrow> kheap_alloc n h = Some (p, h') \<Longrightarrow>
    heap_reach HS HE h' (if p = NULL then L else L(p \<mapsto> n))"
| dealloc: "heap_reach HS HE h L \<Longrightarrow> p \<in> dom L \<Longrightarrow> kheap_dealloc p h = Some h' \<Longrightarrow>
    heap_reach HS HE h' (L(p := None))"

end
