(* ===== verification/Interfaces.thy ===== *)
theory Interfaces
  imports Prelude
begin

text \<open>
  The contracts one part of the kernel relies on another for, as locales: a FIFO of threads (what
  dispatching needs of the scheduler) and an allocator of memory segments (what creating and
  destroying kernel objects needs of the heap).
\<close>

section \<open>A FIFO of threads\<close>

text \<open>
  \<open>rep s xs\<close>: in state \<open>s\<close> the queue holds \<open>xs\<close>, front first; \<open>can s a\<close>: \<open>a\<close> is a thread that may be
  queued.
\<close>

locale fifo =
  fixes push :: "addr \<Rightarrow> 's \<Rightarrow> 's option"
    and pop :: "'s \<Rightarrow> (addr \<times> 's) option"
    and rep :: "'s \<Rightarrow> addr list \<Rightarrow> bool"
    and can :: "'s \<Rightarrow> addr \<Rightarrow> bool"
  assumes push_rep: "rep s xs \<Longrightarrow> can s a \<Longrightarrow> a \<notin> set xs \<Longrightarrow> \<exists>s'. push a s = Some s' \<and> rep s' (xs @ [a])"
    and push_can: "rep s xs \<Longrightarrow> can s a \<Longrightarrow> a \<notin> set xs \<Longrightarrow> push a s = Some s' \<Longrightarrow> can s b \<Longrightarrow> a \<noteq> b \<Longrightarrow> can s' b"
    and pop_empty: "rep s [] \<Longrightarrow> pop s = Some (NULL, s)"
    and pop_rep: "rep s (x # xs) \<Longrightarrow> \<exists>s'. pop s = Some (x, s') \<and> rep s' xs \<and> can s' x"
begin

fun push_list :: "addr list \<Rightarrow> 's \<Rightarrow> 's option" where
  "push_list [] s = Some s"
| "push_list (a # as) s = do { s \<leftarrow> push a s; push_list as s }"

fun pop_times :: "nat \<Rightarrow> 's \<Rightarrow> (addr list \<times> 's) option" where
  "pop_times 0 s = Some ([], s)"
| "pop_times (Suc n) s = do { (x, s) \<leftarrow> pop s; (xs, s) \<leftarrow> pop_times n s; Some (x # xs, s) }"

lemma push_list_rep:
  "rep s xs \<Longrightarrow> \<forall>a\<in>set as. can s a \<Longrightarrow> distinct as \<Longrightarrow> set as \<inter> set xs = {} \<Longrightarrow>
     \<exists>s'. push_list as s = Some s' \<and> rep s' (xs @ as)"
proof (induction as arbitrary: s xs)
  case Nil
  then show ?case by simp
next
  case (Cons a as)
  obtain s1 where s1: "push a s = Some s1" "rep s1 (xs @ [a])"
    using push_rep [OF Cons.prems(1), of a] Cons.prems by auto
  have "\<forall>b\<in>set as. can s1 b"
    using push_can [OF Cons.prems(1) _ _ s1(1)] Cons.prems(2-4) by auto
  moreover have "distinct as" "set as \<inter> set (xs @ [a]) = {}" using Cons.prems by auto
  ultimately have "\<exists>s'. push_list as s1 = Some s' \<and> rep s' ((xs @ [a]) @ as)"
    using Cons.IH [OF s1(2)] by blast
  then show ?case using s1(1) by simp
qed

lemma pop_times_rep:
  "rep s (xs @ ys) \<Longrightarrow> \<exists>s'. pop_times (length xs) s = Some (xs, s') \<and> rep s' ys"
proof (induction xs arbitrary: s)
  case Nil
  then show ?case by simp
next
  case (Cons x xs)
  then have "rep s (x # (xs @ ys))" by simp
  from pop_rep [OF this] obtain s1 where s1: "pop s = Some (x, s1)" "rep s1 (xs @ ys)" by blast
  then show ?case using Cons.IH [OF s1(2)] by auto
qed

text \<open>First in, first out.\<close>

lemma fifo_order:
  assumes "rep s []" and "\<forall>a\<in>set as. can s a" and "distinct as"
  shows "\<exists>s1 s2. push_list as s = Some s1 \<and> pop_times (length as) s1 = Some (as, s2) \<and> rep s2 []"
proof -
  obtain s1 where s1: "push_list as s = Some s1" "rep s1 as"
    using push_list_rep [OF assms(1,2,3)] by auto
  then show ?thesis using pop_times_rep [of s1 as "[]"] by auto
qed

text \<open>One turn of round robin: the running thread goes to the back, the front one is taken.\<close>

definition rotate_one :: "addr \<Rightarrow> 's \<Rightarrow> (addr \<times> 's) option" where
  "rotate_one a s = do { s \<leftarrow> push a s; pop s }"

lemma rotate_one_rep:
  assumes "rep s xs" and "can s a" and "a \<notin> set xs"
  shows "\<exists>s'. rotate_one a s = Some (hd (xs @ [a]), s') \<and> rep s' (tl (xs @ [a])) \<and> can s' (hd (xs @ [a]))"
proof -
  obtain s1 where s1: "push a s = Some s1" "rep s1 (xs @ [a])" using push_rep [OF assms] by blast
  obtain y ys where y: "xs @ [a] = y # ys" by (cases xs) auto
  obtain s2 where "pop s1 = Some (y, s2)" "rep s2 ys" "can s2 y"
    using pop_rep s1(2) y by metis
  then show ?thesis using s1 y by (simp add: rotate_one_def)
qed

end

section \<open>An allocator of segments\<close>

text \<open>
  \<open>inv L h\<close>: in heap \<open>h\<close> the live segments are those of the ledger \<open>L\<close>, from pointers to sizes.
\<close>

locale segment_allocator =
  fixes alloc :: "u32 \<Rightarrow> 'h \<Rightarrow> (addr \<times> 'h) option"
    and dealloc :: "addr \<Rightarrow> 'h \<Rightarrow> 'h option"
    and inv :: "(addr \<rightharpoonup> nat) \<Rightarrow> 'h \<Rightarrow> bool"
    and good :: "u32 \<Rightarrow> bool"
    and size_of :: "u32 \<Rightarrow> nat"
  assumes alloc_inv: "inv L h \<Longrightarrow> good n \<Longrightarrow>
      alloc n h = Some (NULL, h) \<or>
      (\<exists>p h'. alloc n h = Some (p, h') \<and> p \<noteq> NULL \<and> L p = None \<and> inv (L(p \<mapsto> size_of n)) h')"
    and dealloc_inv: "inv L h \<Longrightarrow> L p = Some m \<Longrightarrow> \<exists>h'. dealloc p h = Some h' \<and> inv (L(p := None)) h'"
begin

lemma allocE:
  assumes "inv L h" and "good n"
  obtains (none) "alloc n h = Some (NULL, h)"
  | (some) p h' where "alloc n h = Some (p, h')" "p \<noteq> NULL" "L p = None" "inv (L(p \<mapsto> size_of n)) h'"
  using alloc_inv [OF assms] by blast

lemma deallocE:
  assumes "inv L h" and "L p = Some m"
  obtains h' where "dealloc p h = Some h'" "inv (L(p := None)) h'"
  using dealloc_inv [OF assms] by blast

text \<open>Giving back what was just taken restores the ledger.\<close>

lemma rollback:
  assumes "inv L h" and "good n" and "alloc n h = Some (p, h1)" and "p \<noteq> NULL"
  shows "\<exists>h2. dealloc p h1 = Some h2 \<and> inv L h2"
proof -
  from assms(1,2) show ?thesis
  proof (cases rule: allocE)
    case none
    then show ?thesis using assms(3,4) by simp
  next
    case (some q h')
    then have q: "q = p" "h' = h1" using assms(3) by auto
    have "L(p \<mapsto> size_of n, p := None) = L" using some(3) q by (simp add: fun_upd_idem)
    then show ?thesis using dealloc_inv [of "L(p \<mapsto> size_of n)" h1 p] some(4) q by auto
  qed
qed

end

section \<open>A pool of slots\<close>

text \<open>\<open>rep s xs\<close>: in state \<open>s\<close> the slots \<open>xs\<close> are free and are handed out in this order; \<open>slots\<close> are all of them.\<close>

locale slot_pool =
  fixes grab :: "'s \<Rightarrow> (addr \<times> 's) option"
    and give :: "addr \<Rightarrow> 's \<Rightarrow> (bool \<times> 's) option"
    and rep :: "'s \<Rightarrow> addr list \<Rightarrow> bool"
    and slots :: "addr set"
  assumes grab_rep: "rep s (x # xs) \<Longrightarrow> \<exists>s'. grab s = Some (x, s') \<and> rep s' xs"
    and grab_empty: "rep s [] \<Longrightarrow> grab s = Some (NULL, s)"
    and give_rep: "rep s xs \<Longrightarrow> x \<in> slots \<Longrightarrow> x \<notin> set xs \<Longrightarrow> \<exists>s'. give x s = Some (True, s') \<and> rep s' (x # xs)"
begin

fun grab_times :: "nat \<Rightarrow> 's \<Rightarrow> (addr list \<times> 's) option" where
  "grab_times 0 s = Some ([], s)"
| "grab_times (Suc n) s = do { (x, s) \<leftarrow> grab s; (xs, s) \<leftarrow> grab_times n s; Some (x # xs, s) }"

lemma grab_times_rep: "rep s (xs @ ys) \<Longrightarrow> \<exists>s'. grab_times (length xs) s = Some (xs, s') \<and> rep s' ys"
proof (induction xs arbitrary: s)
  case (Cons x xs)
  then have "rep s (x # (xs @ ys))" by simp
  from grab_rep [OF this] obtain s1 where s1: "grab s = Some (x, s1)" "rep s1 (xs @ ys)" by blast
  then show ?case using Cons.IH [OF s1(2)] by auto
qed simp

text \<open>Last in, first out: what was given is the next to be grabbed.\<close>

lemma give_grab:
  assumes "rep s xs" and "x \<in> slots" and "x \<notin> set xs"
  shows "\<exists>s1 s2. give x s = Some (True, s1) \<and> grab s1 = Some (x, s2) \<and> rep s2 xs"
  using give_rep [OF assms] grab_rep by blast

end

end
