(* ===== verification/Heap_Ledger.thy ===== *)
theory Heap_Ledger
  imports Heap_Runs Interfaces
begin

text \<open>
  The heap provides the interface of a segment allocator: what a client sees is a ledger of live
  pointers and their sizes in blocks.
\<close>

section \<open>The ledger of live pointers\<close>

definition data_of :: "addr \<Rightarrow> nat \<Rightarrow> addr" where
  "data_of HS i = baddr HS i + sizeof_mem_segment"

definition holds :: "addr \<Rightarrow> nat \<Rightarrow> (addr \<rightharpoonup> nat) \<Rightarrow> heap \<Rightarrow> bool" where
  "holds HS N L h \<longleftrightarrow> (\<exists>A. heap_inv HS N A h
     \<and> (\<forall>p n. L p = Some n \<longleftrightarrow> (\<exists>i. p = data_of HS i \<and> A i = Some n)))"

text \<open>Sizes for which \<open>calculate_blocks\<close> does not wrap around.\<close>

definition good_size :: "u32 \<Rightarrow> bool" where
  "good_size n \<longleftrightarrow> unat n + 12 < 4294967296"

lemma data_of_inj:
  assumes "heap_ok HS N" "i \<le> N" "j \<le> N"
  shows "data_of HS i = data_of HS j \<longleftrightarrow> i = j"
  using baddr_eq [OF assms] by (simp add: data_of_def)

lemma data_of_nonnull: "heap_ok HS N \<Longrightarrow> i < N \<Longrightarrow> data_of HS i \<noteq> NULL"
  using mapped_data_nonnull [OF baddr_mapped] by (simp add: data_of_def)

lemma unat_data_of:
  assumes "heap_ok HS N" and "i < N"
  shows "unat (data_of HS i) = unat HS + 64 * i + 12"
proof -
  have b: "unat HS + 64 * N \<le> 1342193664" using assms(1) by (simp add: heap_ok_def RAM_END_def)
  have "64 * i \<le> 64 * N" using assms(2) by simp
  then have "unat HS + 64 * i + 12 < 4294967296" using b by linarith
  then show ?thesis
    using unat_baddr [OF assms(1), of i] assms(2) unat_add_small [of "baddr HS i" sizeof_mem_segment]
    by (simp add: data_of_def sizeof_mem_segment_def)
qed

lemma holds_heap:
  assumes "holds HS N L h" and "L p = Some n"
  shows "\<exists>A i. heap_inv HS N A h \<and> p = data_of HS i \<and> A i = Some n \<and> i < N \<and> 0 < n \<and> i + n \<le> N"
  using assms wf_alloc_block unfolding holds_def heap_inv_def by blast

lemma holds_alloc:
  assumes L: "holds HS N L h" and n: "good_size n"
  shows "kheap_alloc n h = Some (NULL, h) \<or>
      (\<exists>p h'. kheap_alloc n h = Some (p, h') \<and> p \<noteq> NULL \<and> L p = None
         \<and> holds HS N (L(p \<mapsto> unat (calculate_blocks n))) h')"
proof -
  let ?b = "unat (calculate_blocks n)"
  obtain A where A: "heap_inv HS N A h" "\<forall>p n. L p = Some n \<longleftrightarrow> (\<exists>i. p = data_of HS i \<and> A i = Some n)"
    using L by (auto simp: holds_def)
  have b: "0 < ?b" using n calculate_blocks_pos by (simp add: good_size_def)
  have ok: "heap_ok HS N" by (rule heap_inv_ok [OF A(1)])
  note K = kheap_alloc_heap_inv [OF A(1) refl b]
  show ?thesis
  proof (cases "\<exists>i. fits N A ?b i")
    case False
    then show ?thesis using K by simp
  next
    case True
    let ?i = "LEAST i. fits N A ?b i"
    have fit: "fits N A ?b ?i" by (rule LeastI_ex [OF True])
    obtain h' where h': "kheap_alloc n h = Some (data_of HS ?i, h')" "heap_inv HS N (A(?i \<mapsto> ?b)) h'"
      using K True by (auto simp: data_of_def)
    have wf: "wf_alloc N A" using A(1) by (simp add: heap_inv_def)
    have fresh: "?i \<notin> dom A" by (rule wf_alloc_upd(2) [OF wf fit b])
    have iN: "?i < N" using wf_alloc_block [OF wf_alloc_upd(1) [OF wf fit b], of ?i ?b] by simp
    have inj: "data_of HS j = data_of HS ?i \<longleftrightarrow> j = ?i" if "A j = Some m" for j m
      using data_of_inj [OF ok, of j ?i] wf_alloc_block [OF wf that] iN by simp
    have none: "L (data_of HS ?i) = None"
    proof (rule ccontr)
      assume "L (data_of HS ?i) \<noteq> None"
      then obtain m j where "data_of HS ?i = data_of HS j" "A j = Some m" using A(2) by auto
      then show False using inj fresh by (metis domI)
    qed
    have "holds HS N (L(data_of HS ?i \<mapsto> ?b)) h'"
      unfolding holds_def
    proof (intro exI conjI allI)
      show "heap_inv HS N (A(?i \<mapsto> ?b)) h'" by (rule h'(2))
      fix p m
      show "(L(data_of HS ?i \<mapsto> ?b)) p = Some m \<longleftrightarrow> (\<exists>j. p = data_of HS j \<and> (A(?i \<mapsto> ?b)) j = Some m)"
      proof (cases "p = data_of HS ?i")
        case True
        have "m = ?b" if "data_of HS ?i = data_of HS j" "(A(?i \<mapsto> ?b)) j = Some m" for j
          using that inj [of j m] by (cases "j = ?i") auto
        then show ?thesis unfolding True fun_upd_same by (metis fun_upd_same)
      next
        case False
        then have "p = data_of HS j \<Longrightarrow> (A(?i \<mapsto> ?b)) j = A j" for j by auto
        then show ?thesis using A(2) fun_upd_other [OF False] by metis
      qed
    qed
    then show ?thesis using h'(1) none data_of_nonnull [OF ok iN] by blast
  qed
qed

lemma holds_dealloc:
  assumes L: "holds HS N L h" and p: "L p = Some m"
  shows "\<exists>h'. kheap_dealloc p h = Some h' \<and> holds HS N (L(p := None)) h'"
proof -
  obtain A where A: "heap_inv HS N A h" "\<forall>p n. L p = Some n \<longleftrightarrow> (\<exists>i. p = data_of HS i \<and> A i = Some n)"
    using L by (auto simp: holds_def)
  obtain i where i: "p = data_of HS i" "A i = Some m" using A(2) p by auto
  have ok: "heap_ok HS N" by (rule heap_inv_ok [OF A(1)])
  have wf: "wf_alloc N A" using A(1) by (simp add: heap_inv_def)
  have inj: "data_of HS j = data_of HS i \<longleftrightarrow> j = i" if "A j = Some k" for j k
    using data_of_inj [OF ok, of j i] wf_alloc_block [OF wf that] wf_alloc_block [OF wf i(2)] by simp
  obtain h' where h': "kheap_dealloc p h = Some h'" "heap_inv HS N (A(i := None)) h'"
    using kheap_dealloc_heap_inv [OF A(1) i(2)] i(1) by (auto simp: data_of_def)
  have "holds HS N (L(p := None)) h'"
    unfolding holds_def
  proof (intro exI conjI allI)
    show "heap_inv HS N (A(i := None)) h'" by (rule h'(2))
    fix q k
    show "(L(p := None)) q = Some k \<longleftrightarrow> (\<exists>j. q = data_of HS j \<and> (A(i := None)) j = Some k)"
    proof (cases "q = p")
      case True
      have "\<not> (data_of HS i = data_of HS j \<and> (A(i := None)) j = Some k)" for j
        using inj [of j k] by (cases "j = i") auto
      then show ?thesis using True i(1) by auto
    next
      case False
      then show ?thesis using A(2) i(1) by auto
    qed
  qed
  then show ?thesis using h'(1) by blast
qed

interpretation kh: segment_allocator kheap_alloc kheap_dealloc "holds HS N" good_size "\<lambda>n. unat (calculate_blocks n)"
  for HS N
  by unfold_locales (use holds_alloc holds_dealloc in blast)+

text \<open>A pointer of the ledger is in the heap; the ranges of two pointers do not overlap.\<close>

lemma holds_range:
  assumes L: "holds HS N L h" and p: "L p = Some m"
  shows "unat HS + 12 \<le> unat p" and "unat p - 12 + 64 * m \<le> unat HS + 64 * N" and "p \<noteq> NULL"
proof -
  obtain A i where i: "heap_inv HS N A h" "p = data_of HS i" "A i = Some m" "i < N" "i + m \<le> N"
    using holds_heap [OF assms] by blast
  have ok: "heap_ok HS N" by (rule heap_inv_ok [OF i(1)])
  show "unat HS + 12 \<le> unat p" "unat p - 12 + 64 * m \<le> unat HS + 64 * N"
    using unat_data_of [OF ok i(4)] i(2,5) by simp_all
  show "p \<noteq> NULL" using data_of_nonnull [OF ok i(4)] i(2) by simp
qed

lemma holds_disjoint:
  assumes L: "holds HS N L h" and p: "L p = Some m" "L q = Some k" "p \<noteq> q"
  shows "{unat p - 12..<unat p - 12 + 64 * m} \<inter> {unat q - 12..<unat q - 12 + 64 * k} = {}"
proof -
  obtain A where A: "heap_inv HS N A h" "\<forall>p n. L p = Some n \<longleftrightarrow> (\<exists>i. p = data_of HS i \<and> A i = Some n)"
    using L by (auto simp: holds_def)
  obtain i j where i: "p = data_of HS i" "A i = Some m" and j: "q = data_of HS j" "A j = Some k"
    using A(2) p by metis
  have ok: "heap_ok HS N" by (rule heap_inv_ok [OF A(1)])
  have wf: "wf_alloc N A" using A(1) by (simp add: heap_inv_def)
  have ij: "i \<noteq> j" using i j p(3) by auto
  have "{i..<i + m} \<inter> {j..<j + k} = {}" using wf i(2) j(2) ij unfolding wf_alloc_def by blast
  then have "i + m \<le> j \<or> j + k \<le> i"
    using wf_alloc_block [OF wf i(2)] wf_alloc_block [OF wf j(2)]
    by (metis Int_iff add_leE atLeastLessThan_iff empty_iff less_add_same_cancel1 linorder_not_less nat_le_linear)
  moreover have "unat p - 12 = unat HS + 64 * i" "unat q - 12 = unat HS + 64 * j"
    using unat_data_of [OF ok] wf_alloc_block [OF wf i(2)] wf_alloc_block [OF wf j(2)] i(1) j(1) by simp_all
  ultimately show ?thesis by auto
qed

section \<open>Runs and their ledgers\<close>

text \<open>The ledger of a run, with the sizes in blocks, is the ledger of the heap.\<close>

definition block_ledger :: "(addr \<rightharpoonup> u32) \<Rightarrow> addr \<rightharpoonup> nat" where
  "block_ledger L p = map_option (\<lambda>n. unat (calculate_blocks n)) (L p)"

lemma block_ledger_upd:
  "block_ledger (L(p \<mapsto> n)) = (block_ledger L)(p \<mapsto> unat (calculate_blocks n))"
  "block_ledger (L(p := None)) = (block_ledger L)(p := None)"
  by (auto simp: block_ledger_def fun_eq_iff)

lemma heap_reach_holds:
  assumes geo: "RAM_START \<le> HS" "HE \<le> RAM_END" "unat HS + 64 \<le> unat HE"
  shows "heap_reach HS HE h L \<Longrightarrow>
    holds HS ((unat HE - unat HS) div 64) (block_ledger L) h \<and> (\<forall>p n. L p = Some n \<longrightarrow> good_size n)"
proof (induction rule: heap_reach.induct)
  case (boot h h')
  then have "heap_inv HS ((unat HE - unat HS) div 64) Map.empty h'"
    using kheap_init_heap_inv [OF geo boot(1)] by auto
  then show ?case by (auto simp: holds_def block_ledger_def)
next
  case (alloc h L n p h')
  let ?N = "(unat HE - unat HS) div 64"
  have L: "holds HS ?N (block_ledger L) h" and g: "good_size n" "\<forall>p n. L p = Some n \<longrightarrow> good_size n"
    using alloc.IH alloc.hyps(2) by (auto simp: good_size_def)
  from L g(1) show ?case
  proof (cases rule: kh.allocE)
    case none
    then show ?thesis using alloc.hyps(3) L g by simp
  next
    case (some q h1)
    then have "q = p" "h1 = h'" using alloc.hyps(3) by auto
    have eq: "(if p = NULL then L else L(p \<mapsto> n)) = L(p \<mapsto> n)" using some(2) \<open>q = p\<close> by simp
    have "\<forall>r k. (L(p \<mapsto> n)) r = Some k \<longrightarrow> good_size k" using g by simp
    then show ?thesis unfolding eq block_ledger_upd using some(4) \<open>q = p\<close> \<open>h1 = h'\<close> by blast
  qed
next
  case (dealloc h L p h')
  let ?N = "(unat HE - unat HS) div 64"
  have L: "holds HS ?N (block_ledger L) h" and g: "\<forall>p n. L p = Some n \<longrightarrow> good_size n" using dealloc.IH by auto
  obtain m where m: "block_ledger L p = Some m" using dealloc.hyps(2) by (auto simp: block_ledger_def)
  from L m obtain h1 where "kheap_dealloc p h = Some h1" "holds HS ?N ((block_ledger L)(p := None)) h1"
    by (rule kh.deallocE)
  moreover from this have "h1 = h'" using dealloc.hyps(3) by simp
  moreover have "\<forall>r k. (L(p := None)) r = Some k \<longrightarrow> good_size k" using g by simp
  ultimately show ?case unfolding block_ledger_upd by blast
qed

end
