(* ===== verification/Heap_Properties.thy ===== *)
theory Heap_Properties
  imports Heap_Ledger
begin

text \<open>
  The properties of the kernel heap.
\<close>

section \<open>An example heap\<close>

text \<open>The state of the allocator after \<open>kheap_init\<close>, for a heap of 192 blocks.\<close>

definition boot_heap :: heap where
  "boot_heap = \<lparr>seg = (\<lambda>p. if p = 0x50001000 then \<lparr>seg_blocks = 192, seg_next = 0, seg_prev = 0\<rparr>
       else \<lparr>seg_blocks = 0, seg_next = 0, seg_prev = 0\<rparr>), head_segment = 0x50001000\<rparr>"

definition raw_heap :: heap where
  "raw_heap = \<lparr>seg = (\<lambda>p. \<lparr>seg_blocks = 0, seg_next = 0, seg_prev = 0\<rparr>), head_segment = 0x50001000\<rparr>"

lemma boot_heap_init: "kheap_init 0x50001000 0x50004000 raw_heap = Some boot_heap"
  by (simp add: kheap_init_def kernel_simps mapped_def RAM_START_def RAM_END_def sizeof_mem_segment_def
      KMEM_BLOCK_SIZE_def raw_heap_def boot_heap_def Let_def fun_eq_iff)

lemma boot_heap_inv: "heap_inv 0x50001000 192 Map.empty boot_heap"
proof -
  have "\<exists>h'. kheap_init 0x50001000 0x50004000 raw_heap = Some h'
      \<and> heap_inv 0x50001000 ((unat (0x50004000 :: u32) - unat (0x50001000 :: u32)) div 64) Map.empty h'"
    by (rule kheap_init_heap_inv) (simp_all add: RAM_START_def RAM_END_def raw_heap_def)
  then show ?thesis using boot_heap_init by simp
qed

lemma boot_heap_reach: "heap_reach 0x50001000 0x50004000 boot_heap Map.empty"
  by (rule heap_reach.boot [OF _ boot_heap_init]) (simp add: raw_heap_def)

lemma boot_heap_alloc:
  assumes "good_size n" "unat (calculate_blocks n) \<le> 192"
  shows "\<exists>h. kheap_alloc n boot_heap = Some (0x5000100C, h)
    \<and> heap_inv 0x50001000 192 (Map.empty(0 \<mapsto> unat (calculate_blocks n))) h"
proof -
  let ?b = "unat (calculate_blocks n)"
  have b: "0 < ?b" using assms(1) calculate_blocks_pos by (simp add: good_size_def)
  have f: "fits 192 Map.empty ?b 0" using assms(2) by (auto simp: fits_def free_cells_def used_def)
  then have l: "(LEAST i. fits 192 Map.empty ?b i) = 0" by (intro Least_equality) auto
  have ex: "\<exists>i. fits 192 Map.empty ?b i" using f by blast
  have d: "baddr 0x50001000 0 + sizeof_mem_segment = 0x5000100C" by (simp add: baddr_def sizeof_mem_segment_def)
  show ?thesis
    using kheap_alloc_heap_inv [OF boot_heap_inv refl b] unfolding if_P [OF ex] l d by blast
qed

lemma boot_free_list: "free_list 0x50001000 192 boot_heap [(0, 192)]"
proof -
  obtain xs where xs: "free_list 0x50001000 192 boot_heap xs" "cells xs = free_cells 192 Map.empty"
    using boot_heap_inv by (auto simp: heap_inv_def)
  have one: "wf_free 0 192 [(0, 192)]" by simp
  have "cells [(0, 192)] = free_cells 192 Map.empty" by (auto simp: free_cells_def used_def)
  then have "xs = [(0, 192)]"
    using wf_free_canonical [OF _ one, of 0 xs] xs by (simp add: free_list_def)
  then show ?thesis using xs(1) by simp
qed

section \<open>Runs\<close>

text \<open>
  C1: In every run of a client that asks for sizes that do not wrap around and frees only what it
  holds, no call of the allocator faults, every live range lies in the heap and holds the bytes that
  were asked for, and no two live ranges (headers included) overlap.
\<close>

theorem heap_runs_safe:
  assumes "RAM_START \<le> HS" "HE \<le> RAM_END" "unat HS + 64 \<le> unat HE" and run: "heap_reach HS HE h L"
  shows "(\<forall>p n. L p = Some n \<longrightarrow> unat HS + 12 \<le> unat p \<and> unat p + unat n \<le> unat HE \<and> kheap_dealloc p h \<noteq> None)
    \<and> (\<forall>p m q n. L p = Some m \<longrightarrow> L q = Some n \<longrightarrow> p \<noteq> q \<longrightarrow>
         {unat p - 12..<unat p + unat m} \<inter> {unat q - 12..<unat q + unat n} = {})
    \<and> (\<forall>n. good_size n \<longrightarrow> kheap_alloc n h \<noteq> None)"
proof -
  let ?N = "(unat HE - unat HS) div 64"
  have H: "holds HS ?N (block_ledger L) h" and g: "\<And>p n. L p = Some n \<Longrightarrow> good_size n"
    using heap_reach_holds [OF assms] by auto
  have room: "unat p + unat n \<le> unat p - 12 + 64 * unat (calculate_blocks n)" if "12 \<le> unat p" "good_size n" for p n :: u32
    using calculate_blocks_holds [of n] that by (simp add: good_size_def)
  have bl: "block_ledger L p = Some (unat (calculate_blocks n))" if "L p = Some n" for p n
    using that by (simp add: block_ledger_def)
  note R = holds_range [OF H bl]
  have 1: "unat HS + 12 \<le> unat p \<and> unat p + unat n \<le> unat HE \<and> kheap_dealloc p h \<noteq> None" if p: "L p = Some n" for p n
  proof (intro conjI)
    show lo: "unat HS + 12 \<le> unat p" by (rule R(1) [OF p])
    have "64 * ?N \<le> unat HE - unat HS" by simp
    then show "unat p + unat n \<le> unat HE"
      using R(2) [OF p] room [OF _ g [OF p], of p] lo assms(3) by linarith
    show "kheap_dealloc p h \<noteq> None" using H bl [OF p] by (metis kh.dealloc_inv option.distinct(1))
  qed
  moreover have "{unat p - 12..<unat p + unat m} \<inter> {unat q - 12..<unat q + unat n} = {}"
    if p: "L p = Some m" and q: "L q = Some n" and pq: "p \<noteq> q" for p m q n
    using holds_disjoint [OF H bl [OF p] bl [OF q] pq] room [OF _ g [OF p], of p] room [OF _ g [OF q], of q]
      R(1) [OF p] R(1) [OF q] by (auto simp: disjoint_iff)
  moreover have "kheap_alloc n h \<noteq> None" if "good_size n" for n
    using kh.alloc_inv [OF H that] by auto
  ultimately show ?thesis by blast
qed

theorem heap_runs_safe_witness:
  "\<exists>h. heap_reach 0x50001000 0x50004000 h [0x5000100C \<mapsto> 100] \<and> kheap_dealloc 0x5000100C h \<noteq> None"
proof -
  have g: "unat (100 :: u32) + 12 < 4294967296" by simp
  have c: "unat (calculate_blocks 100) = 2" by (simp add: unat_calculate_blocks)
  obtain h where h: "kheap_alloc 100 boot_heap = Some (0x5000100C, h)"
    using boot_heap_alloc [of 100] c g by (auto simp: good_size_def)
  have r: "heap_reach 0x50001000 0x50004000 h [0x5000100C \<mapsto> 100]"
    using heap_reach.alloc [OF boot_heap_reach g h] by simp
  show ?thesis
    using heap_runs_safe [OF _ _ _ r] r by (auto simp: RAM_START_def RAM_END_def)
qed

text \<open>
  C6: First fit. \<open>kheap_alloc\<close> returns the lowest place at which enough consecutive blocks are free and
  hands out exactly these blocks; if there is none it returns null and changes nothing.
\<close>

theorem kheap_alloc_first_fit:
  assumes "heap_inv HS N A h" and "good_size n" and "b = unat (calculate_blocks n)"
  shows "if \<exists>i. fits N A b i
    then \<exists>h'. kheap_alloc n h = Some (data_of HS (LEAST i. fits N A b i), h')
           \<and> heap_inv HS N (A((LEAST i. fits N A b i) \<mapsto> b)) h'
    else kheap_alloc n h = Some (NULL, h)"
proof -
  have "0 < b" using assms(2,3) calculate_blocks_pos by (simp add: good_size_def)
  from kheap_alloc_heap_inv [OF assms(1,3) this]
  show ?thesis unfolding data_of_def by (cases "\<exists>i. fits N A b i") (simp only: if_True, blast, simp only: if_False)
qed

theorem kheap_alloc_first_fit_witness:
  "\<exists>h. kheap_alloc 100 boot_heap = Some (0x5000100C, h) \<and> heap_inv 0x50001000 192 [0 \<mapsto> 2] h"
proof -
  have c: "unat (calculate_blocks 100) = 2" by (simp add: unat_calculate_blocks)
  have f: "fits 192 Map.empty 2 0" by (auto simp: fits_def free_cells_def used_def)
  then have l: "(LEAST i. fits 192 Map.empty 2 i) = 0" by (intro Least_equality) auto
  have d: "data_of 0x50001000 0 = 0x5000100C" by (simp add: data_of_def baddr_def sizeof_mem_segment_def)
  have ex: "\<exists>i. fits 192 Map.empty 2 i" using f by blast
  have g: "good_size 100" by (simp add: good_size_def)
  show ?thesis
    using kheap_alloc_first_fit [OF boot_heap_inv g c [symmetric]] unfolding if_P [OF ex] l d by blast
qed

text \<open>
  C7: Allocating and giving back at once restores the free list, segment by segment: the neighbours are
  joined again. A client that cannot be served changes nothing either.
\<close>

theorem kheap_alloc_dealloc_roundtrip:
  assumes inv: "heap_inv HS N A h" and xs: "free_list HS N h xs" "cells xs = free_cells N A" and n: "good_size n"
    and a: "kheap_alloc n h = Some (p, h1)" "p \<noteq> NULL"
  shows "\<exists>h2. kheap_dealloc p h1 = Some h2 \<and> free_list HS N h2 xs \<and> heap_inv HS N A h2"
proof -
  let ?b = "unat (calculate_blocks n)" and ?i = "LEAST i. fits N A (unat (calculate_blocks n)) i"
  have b: "0 < ?b" using n calculate_blocks_pos by (simp add: good_size_def)
  have wf: "wf_alloc N A" using inv by (simp add: heap_inv_def)
  have ex: "\<exists>i. fits N A ?b i" using kheap_alloc_heap_inv [OF inv refl b] a by (auto split: if_splits)
  then have p: "p = baddr HS ?i + sizeof_mem_segment" and inv1: "heap_inv HS N (A(?i \<mapsto> ?b)) h1"
    using kheap_alloc_heap_inv [OF inv refl b] a by auto
  have "?i \<notin> dom A" by (rule wf_alloc_upd(2) [OF wf LeastI_ex [OF ex] b])
  then have A: "(A(?i \<mapsto> ?b))(?i := None) = A" by auto
  obtain h2 where h2: "kheap_dealloc p h1 = Some h2" "heap_inv HS N A h2"
    using kheap_dealloc_heap_inv [OF inv1, of ?i ?b] p A by auto
  obtain ys where ys: "free_list HS N h2 ys" "cells ys = free_cells N A" using h2(2) by (auto simp: heap_inv_def)
  have "ys = xs"
    using wf_free_canonical [of 0 N ys 0 xs] ys xs by (simp add: free_list_def)
  then show ?thesis using h2 ys(1) by blast
qed

theorem kheap_alloc_dealloc_roundtrip_witness:
  "\<exists>h1 h2. kheap_alloc 100 boot_heap = Some (0x5000100C, h1) \<and> kheap_dealloc 0x5000100C h1 = Some h2
     \<and> free_list 0x50001000 192 h2 [(0, 192)]"
proof -
  have g: "good_size 100" by (simp add: good_size_def)
  have c: "unat (calculate_blocks 100) = 2" by (simp add: unat_calculate_blocks)
  obtain h where h: "kheap_alloc 100 boot_heap = Some (0x5000100C, h)"
    using boot_heap_alloc [of 100] c g by auto
  have "cells [(0, 192)] = free_cells 192 Map.empty" by (auto simp: free_cells_def used_def)
  then show ?thesis using kheap_alloc_dealloc_roundtrip [OF boot_heap_inv boot_free_list _ g h] h by auto
qed


text \<open>
  C8: Giving back a live segment frees exactly its blocks.
\<close>

theorem kheap_dealloc_frees:
  assumes "heap_inv HS N A h" and "A i = Some n"
  shows "\<exists>h'. kheap_dealloc (data_of HS i) h = Some h' \<and> heap_inv HS N (A(i := None)) h'"
  using kheap_dealloc_heap_inv [OF assms] by (auto simp: data_of_def)

theorem kheap_dealloc_frees_witness:
  "\<exists>h h'. kheap_alloc 100 boot_heap = Some (0x5000100C, h) \<and> kheap_dealloc (data_of 0x50001000 0) h = Some h'
     \<and> heap_inv 0x50001000 192 Map.empty h'"
proof -
  have c: "unat (calculate_blocks 100) = 2" by (simp add: unat_calculate_blocks)
  obtain h where h: "kheap_alloc 100 boot_heap = Some (0x5000100C, h)" "heap_inv 0x50001000 192 [0 \<mapsto> 2] h"
    using boot_heap_alloc [of 100] c by (auto simp: good_size_def)
  have e: "[0 \<mapsto> 2](0 := None) = Map.empty" by auto
  show ?thesis using kheap_dealloc_frees [OF h(2), of 0 2] h(1) unfolding e by auto
qed

text \<open>
  C9: No fragmentation remains: when a client has given back all it was given, the free list is one
  segment with all blocks of the heap, whatever the order of the calls was.
\<close>

theorem heap_all_freed:
  assumes "RAM_START \<le> HS" "HE \<le> RAM_END" "unat HS + 64 \<le> unat HE" and run: "heap_reach HS HE h Map.empty"
  shows "free_list HS ((unat HE - unat HS) div 64) h [(0, (unat HE - unat HS) div 64)]"
proof -
  let ?N = "(unat HE - unat HS) div 64"
  have H: "holds HS ?N (block_ledger Map.empty) h" using heap_reach_holds [OF assms] by blast
  then obtain A where A: "heap_inv HS ?N A h" "\<forall>p n. block_ledger Map.empty p = Some n \<longleftrightarrow> (\<exists>i. p = data_of HS i \<and> A i = Some n)"
    by (auto simp: holds_def)
  have "A i = None" for i using A(2) by (cases "A i") (auto simp: block_ledger_def)
  then have "A = Map.empty" by auto
  then obtain xs where xs: "free_list HS ?N h xs" "cells xs = free_cells ?N Map.empty"
    using A(1) by (auto simp: heap_inv_def)
  have N: "0 < ?N" using assms(3) by auto
  have one: "wf_free 0 ?N [(0, ?N)]" using N by simp
  have "cells [(0, ?N)] = free_cells ?N Map.empty" by (auto simp: free_cells_def used_def)
  then have "xs = [(0, ?N)]" using wf_free_canonical [OF _ one, of 0 xs] xs by (simp add: free_list_def)
  then show ?thesis using xs(1) by simp
qed

theorem heap_all_freed_witness:
  "\<exists>h1 h2. kheap_alloc 100 boot_heap = Some (0x5000100C, h1) \<and> kheap_dealloc 0x5000100C h1 = Some h2
     \<and> free_list 0x50001000 192 h2 [(0, 192)]"
proof -
  have g: "unat (100 :: u32) + 12 < 4294967296" by simp
  have c: "unat (calculate_blocks 100) = 2" by (simp add: unat_calculate_blocks)
  obtain h where h: "kheap_alloc 100 boot_heap = Some (0x5000100C, h)" "heap_inv 0x50001000 192 [0 \<mapsto> 2] h"
    using boot_heap_alloc [of 100] c g by (auto simp: good_size_def)
  have r: "heap_reach 0x50001000 0x50004000 h [0x5000100C \<mapsto> 100]"
    using heap_reach.alloc [OF boot_heap_reach g h(1)] by simp
  have d: "baddr 0x50001000 0 + sizeof_mem_segment = 0x5000100C" by (simp add: baddr_def sizeof_mem_segment_def)
  obtain h2 where h2: "kheap_dealloc 0x5000100C h = Some h2"
    using kheap_dealloc_heap_inv [OF h(2), of 0 2] unfolding d by auto
  have e: "[0x5000100C \<mapsto> 100 :: u32](0x5000100C := None) = Map.empty" by auto
  have "heap_reach 0x50001000 0x50004000 h2 Map.empty"
    using heap_reach.dealloc [OF r _ h2] unfolding e by simp
  from heap_all_freed [OF _ _ _ this] show ?thesis
    using h(1) h2 by (auto simp: RAM_START_def RAM_END_def)
qed

text \<open>
  C10: Sizes that wrap around. For \<open>0xFFFFFFF4\<close> bytes the block count is 0; the request succeeds, and the
  heap is lost: every later request fails.
\<close>

theorem kheap_alloc_wraps:
  assumes "free_list HS N h [(0, N)]" and "0 < N"
  shows "\<exists>h'. kheap_alloc 0xFFFFFFF4 h = Some (data_of HS 0, h') \<and> (\<forall>n. good_size n \<longrightarrow> kheap_alloc n h' = Some (NULL, h'))"
proof -
  have ok: "heap_ok HS N" and f: "fseg HS (seg h) NULL (head_segment h) [(0, N)] NULL" using assms(1) by (auto simp: free_list_def)
  have b0: "baddr HS 0 = HS" by (simp add: baddr_def)
  have mp: "mapped HS" using baddr_mapped [OF ok assms(2)] b0 by simp
  then have nn: "HS \<noteq> NULL" by auto
  have H: "head_segment h = HS" "seg_blocks (seg h HS) = of_nat N" "seg_prev (seg h HS) = NULL" "seg_next (seg h HS) = NULL"
    using f b0 by auto
  have "unat (of_nat N :: u32) = N" using heap_ok_N [OF ok] by (intro unat_of_nat_u32) simp
  then have N: "of_nat N \<noteq> (0 :: u32)" using assms(2) by (metis unat_0 not_gr_zero)
  have z: "calculate_blocks 0xFFFFFFF4 = 0"
    by (simp add: calculate_blocks_def sizeof_mem_segment_def KMEM_BLOCK_SIZE_def Let_def)
  define h' where "h' = h\<lparr>seg := (seg h)(HS := (seg h HS)\<lparr>seg_blocks := 0, seg_prev := NULL, seg_next := NULL\<rparr>), head_segment := HS\<rparr>"
  have v: "find_valid 0 HS h = Some HS" using mp nn by (subst find_valid.simps) (simp add: kernel_simps)
  have "kheap_alloc 0xFFFFFFF4 h = Some (data_of HS 0, h')"
    using mp nn N by (simp add: kheap_alloc_def z Let_def H v kernel_simps word_gt_0 data_of_def b0 h'_def fun_upd_idem)
  moreover have "kheap_alloc n h' = Some (NULL, h')" if "good_size n" for n
  proof -
    have "0 < unat (calculate_blocks n)" using that calculate_blocks_pos by (simp add: good_size_def)
    then have "0 < calculate_blocks n" by (simp add: word_less_nat_alt)
    then have "find_valid (calculate_blocks n) HS h' = Some NULL"
      using mp nn by (subst find_valid.simps, subst find_valid.simps) (simp add: kernel_simps h'_def not_le)
    then show ?thesis by (simp add: kheap_alloc_def Let_def h'_def H)
  qed
  ultimately show ?thesis by blast
qed

theorem kheap_alloc_wraps_witness:
  "\<exists>h. kheap_alloc 0xFFFFFFF4 boot_heap = Some (data_of 0x50001000 0, h) \<and> kheap_alloc 1 h = Some (NULL, h)"
  using kheap_alloc_wraps [OF boot_free_list] by (auto simp: good_size_def)

text \<open>
  Freeing the null pointer is not the no-op that \<open>free(NULL)\<close> has to be: the header would be below
  address 0, and the access faults.
\<close>

theorem kheap_dealloc_null_faults: "kheap_dealloc NULL h = None"
proof -
  have "\<not> mapped (NULL - sizeof_mem_segment)"
    by (simp add: mapped_def sizeof_mem_segment_def RAM_START_def RAM_END_def)
  then have "set_prev (NULL - sizeof_mem_segment) p h = None" for p
    by (simp add: set_prev_def upd_seg_def)
  then show ?thesis
    by (cases "find_prev (NULL - sizeof_mem_segment) NULL (head_segment h) h") (simp_all add: kheap_dealloc_def Let_def)
qed


text \<open>Two live segments of one block, the rest free; and the heap after the first one was expanded.\<close>

definition two_blocks :: heap where
  "two_blocks = boot_heap\<lparr>seg := (seg boot_heap)(0x50001000 := \<lparr>seg_blocks = 1, seg_next = 0, seg_prev = 0\<rparr>,
     0x50001040 := \<lparr>seg_blocks = 1, seg_next = 0, seg_prev = 0\<rparr>, 0x50001080 := \<lparr>seg_blocks = 190, seg_next = 0, seg_prev = 0\<rparr>),
     head_segment := 0x50001080\<rparr>"

lemma one_block: "calculate_blocks 1 = 1" "calculate_blocks 100 = 2"
  by (simp_all add: calculate_blocks_def sizeof_mem_segment_def KMEM_BLOCK_SIZE_def Let_def)

lemma example_mapped: "mapped 0x50001000" "mapped 0x50001040" "mapped 0x50001080"
  by (simp_all add: mapped_def RAM_START_def RAM_END_def sizeof_mem_segment_def)

lemma two_blocks_reached:
  "\<exists>h1. kheap_alloc 1 boot_heap = Some (0x5000100C, h1) \<and> kheap_alloc 1 h1 = Some (0x5000104C, two_blocks)"
proof -
  define h1 where "h1 = boot_heap\<lparr>seg := (seg boot_heap)(0x50001000 := \<lparr>seg_blocks = 1, seg_next = 0, seg_prev = 0\<rparr>,
     0x50001040 := \<lparr>seg_blocks = 191, seg_next = 0, seg_prev = 0\<rparr>), head_segment := 0x50001040\<rparr>"
  note D = kheap_alloc_def Let_def one_block find_valid.simps kernel_simps example_mapped boot_heap_def
    sizeof_mem_segment_def KMEM_BLOCK_SIZE_def fun_eq_iff h1_def
  have "kheap_alloc 1 boot_heap = Some (0x5000100C, h1)" by (simp add: D)
  moreover have "kheap_alloc 1 h1 = Some (0x5000104C, two_blocks)" by (simp add: D two_blocks_def)
  ultimately show ?thesis by blast
qed

lemma two_blocks_inv: "heap_inv 0x50001000 192 [0 \<mapsto> 1, 1 \<mapsto> 1] two_blocks"
proof -
  have g: "good_size 1" by (simp add: good_size_def)
  have c: "unat (calculate_blocks 1) = 1" by (simp add: one_block)
  obtain h1 where h1: "kheap_alloc 1 boot_heap = Some (0x5000100C, h1)" "heap_inv 0x50001000 192 [0 \<mapsto> 1] h1"
    using boot_heap_alloc [OF g] c by auto
  have f: "fits 192 [0 \<mapsto> 1] 1 1" by (auto simp: fits_def free_cells_def used_def)
  have n: "\<not> fits 192 [0 \<mapsto> 1] 1 0" by (auto simp: fits_def free_cells_def used_def)
  have l: "(LEAST i. fits 192 [0 \<mapsto> 1] 1 i) = 1"
    by (rule Least_equality [where P = "fits 192 [0 \<mapsto> 1] 1", OF f]) (use n in \<open>auto simp: Suc_le_eq intro: gr0I\<close>)
  have ex: "\<exists>i. fits 192 [0 \<mapsto> 1] 1 i" using f by blast
  obtain p h2 where "kheap_alloc 1 h1 = Some (p, h2)" "heap_inv 0x50001000 192 ([0 \<mapsto> 1](1 \<mapsto> 1)) h2"
    using kheap_alloc_heap_inv [OF h1(2) c [symmetric]] unfolding if_P [OF ex] l by auto
  then show ?thesis using h1(1) two_blocks_reached by auto
qed

lemma two_blocks_free: "free_list 0x50001000 192 two_blocks [(2, 190)]"
  using heap_inv_ok [OF two_blocks_inv]
  by (simp add: free_list_def two_blocks_def boot_heap_def baddr_def KMEM_BLOCK_SIZE_def)

section \<open>Expanding\<close>

text \<open>The address the loops over the free list reach in \<open>j\<close> steps.\<close>

primrec follow :: "nat \<Rightarrow> addr \<Rightarrow> heap \<Rightarrow> addr option" where
  "follow 0 p h = Some p"
| "follow (Suc j) p h = do { nx \<leftarrow> get_next p h; follow j nx h }"

lemma follow_self: "get_next p h = Some p \<Longrightarrow> follow j p h = Some p"
  by (induction j) simp_all

text \<open>The search for more blocks than a segment has that is its own successor does not end.\<close>

lemma find_valid_self:
  assumes g: "get_next c h = Some c" "get_blocks c h = Some v" and c: "c \<noteq> NULL" "\<not> b \<le> v"
  shows "find_valid b c h = None"
proof -
  have "\<not> (p = c \<and> k = h \<and> a = b)" if "find_valid a p k = Some y" for a p k y
  proof (rule find_valid.raw_induct [OF _ that])
    fix f a p k and y :: addr
    assume IH: "\<And>a p k y. f a p k = Some y \<Longrightarrow> \<not> (p = c \<and> k = h \<and> a = b)"
      and st: "(if p = NULL then Some NULL
        else do { n \<leftarrow> get_blocks p k; if a \<le> n then Some p else do { nx \<leftarrow> get_next p k; f a nx k } }) = Some y"
    show "\<not> (p = c \<and> k = h \<and> a = b)"
    proof
      assume a: "p = c \<and> k = h \<and> a = b"
      then have "f b c h = Some y" using st g c by simp
      then show False using IH by blast
    qed
  qed
  then show ?thesis by (cases "find_valid b c h") auto
qed

text \<open>
  C11: Expanding. When a live segment of \<open>k\<close> blocks lies before a live segment of \<open>d\<close> blocks, which ends where the free list begins,
  expanding the first one to \<open>k + d\<close> blocks reports success, although all the blocks it gains belong to the second one, and it gives back
  the first free segment once more: the segment becomes its own successor, so that from the head of the free list one reaches nothing else and
  never its end. Every later request for more than \<open>d\<close> blocks searches forever.
\<close>

theorem kheap_try_expand_corrupts:
  assumes inv: "heap_inv HS N A h" and A: "A i = Some k" "A (i + k) = Some d"
    and fl: "free_list HS N h ((i + k + d, n) # xs)" and b: "unat (calculate_blocks bytes) = k + d"
  shows "\<exists>h'. kheap_try_expand (data_of HS i) bytes h = Some (True, h')
    \<and> get_blocks (baddr HS i) h' = Some (of_nat (k + d)) \<and> get_blocks (baddr HS (i + k)) h' = Some (of_nat d)
    \<and> head_segment h' = baddr HS (i + k + d) \<and> get_next (head_segment h') h' = Some (head_segment h')
    \<and> (\<forall>j. follow j (head_segment h') h' = Some (head_segment h'))
    \<and> (\<forall>sz. d < unat (calculate_blocks sz) \<longrightarrow> kheap_alloc sz h' = None)"
proof -
  let ?S = "baddr HS i" and ?T = "baddr HS (i + k)" and ?F = "baddr HS (i + k + d)"
  have ok: "heap_ok HS N" and w: "wf_free 0 N ((i + k + d, n) # xs)"
    and f: "fseg HS (seg h) NULL (head_segment h) ((i + k + d, n) # xs) NULL" using fl unfolding free_list_def by blast+
  have wf: "wf_alloc N A" and hd: "seg_blocks (seg h ?S) = of_nat k" "seg_blocks (seg h ?T) = of_nat d"
    using inv A by (simp_all add: heap_inv_def)
  have kd: "0 < k" "0 < d" using wf_alloc_block [OF wf A(1)] wf_alloc_block [OF wf A(2)] by simp_all
  have r: "i + k + d < N" using w by simp
  have m: "mapped ?S" "mapped ?T" "mapped ?F" using baddr_mapped [OF ok] r by simp_all
  have nn: "?F \<noteq> NULL" using m(3) by auto
  have ne: "?S \<noteq> ?T" "?S \<noteq> ?F" "?T \<noteq> ?F" using baddr_eq [OF ok] r kd by simp_all
  have N: "N < 67108864" by (rule heap_ok_N [OF ok])
  have cb: "calculate_blocks bytes = of_nat (k + d)" unfolding b [symmetric] by simp
  have u: "unat (of_nat k :: u32) = k" "unat (of_nat d :: u32) = d" "unat (of_nat (k + d) :: u32) = k + d"
    using r N by (simp_all add: unat_of_nat_u32 del: of_nat_add)
  have cmp: "(of_nat k :: u32) \<noteq> of_nat (k + d)" "(of_nat k :: u32) < of_nat (k + d)"
    using u kd by (metis less_add_same_cancel1 less_irrefl, simp add: word_less_nat_alt del: of_nat_add)
  have sur: "?S + of_nat (k + d) * KMEM_BLOCK_SIZE = ?F" "(of_nat (k + d) :: u32) - of_nat k = of_nat d"
    using baddr_add [of HS i "k + d"] by (simp_all add: add.assoc)
  have step: "?F + of_nat d * KMEM_BLOCK_SIZE \<noteq> ?F"
  proof
    assume "?F + of_nat d * KMEM_BLOCK_SIZE = ?F"
    then have "(of_nat (64 * d) :: u32) = 0" by (simp add: KMEM_BLOCK_SIZE_def mult.commute)
    moreover have "unat (of_nat (64 * d) :: u32) = 64 * d" by (rule unat_of_nat_u32) (use r N in simp)
    ultimately have "64 * d = 0" by (metis unat_0)
    then show False using kd by simp
  qed
  have H: "head_segment h = ?F" using f by simp
  define nx where "nx = seg_next (seg h ?F)"
  have fx: "fseg HS (seg h) ?F nx xs NULL" using f unfolding fseg.simps H [symmetric] nx_def by simp
  have nx: "nx = NULL \<or> ?F < nx"
  proof (cases xs)
    case (Cons x ys)
    then have "nx = baddr HS (fst x)" "i + k + d < fst x" "fst x < N"
      using fx w by (cases x; simp)+
    then show ?thesis using baddr_less [OF ok] r by simp
  qed (use fx in simp)
  let ?h1 = "h\<lparr>seg := (seg h)(?F := (seg h ?F)\<lparr>seg_blocks := of_nat d\<rparr>)\<rparr>"
  let ?h2 = "h\<lparr>seg := (seg h)(?F := (seg h ?F)\<lparr>seg_blocks := of_nat d, seg_next := ?F, seg_prev := ?F\<rparr>)\<rparr>"
  let ?h3 = "?h2\<lparr>seg := (seg ?h2)(?S := (seg h ?S)\<lparr>seg_blocks := of_nat (k + d)\<rparr>)\<rparr>"
  have fp: "find_prev ?F NULL ?F ?h1 = Some ?F"
    using nx nn m(3) by (subst find_prev.simps, subst find_prev.simps) (auto simp: kernel_simps nx_def)
  have "kheap_dealloc (?F + sizeof_mem_segment) ?h1 = Some ?h2"
    using nn m(3) step by (simp add: kheap_dealloc_def Let_def H fp kernel_simps try_join_next_segment_def)
  then have e: "kheap_try_expand (data_of HS i) bytes h = Some (True, ?h3)"
    using m ne cmp hd by (simp add: kheap_try_expand_def data_of_def Let_def cb sur kernel_simps del: of_nat_add)
  have loop: "get_next ?F ?h3 = Some ?F" "get_blocks ?F ?h3 = Some (of_nat d)" "head_segment ?h3 = ?F"
    using m ne by (simp_all add: kernel_simps H)
  have "kheap_alloc sz ?h3 = None" if "d < unat (calculate_blocks sz)" for sz
  proof -
    have "\<not> calculate_blocks sz \<le> of_nat d" using that u(2) by (simp add: word_le_nat_alt)
    then have "find_valid (calculate_blocks sz) (head_segment ?h3) ?h3 = None"
      unfolding loop(3) by (rule find_valid_self [OF loop(1,2) nn])
    then show ?thesis unfolding kheap_alloc_def Let_def by (simp only: Option.bind.simps)
  qed
  moreover have "get_blocks ?S ?h3 = Some (of_nat (k + d))" "get_blocks ?T ?h3 = Some (of_nat d)"
    using m ne hd(2) by (simp_all add: kernel_simps del: of_nat_add)
  ultimately show ?thesis using e loop(1,3) follow_self [OF loop(1)] by (intro exI [of _ ?h3]) (simp del: of_nat_add)
qed

text \<open>Two live segments of one block at the start of the heap; the first one is expanded.\<close>

theorem kheap_try_expand_corrupts_witness:
  "\<exists>h1 h2 h3. kheap_alloc 1 boot_heap = Some (0x5000100C, h1) \<and> kheap_alloc 1 h1 = Some (0x5000104C, h2)
     \<and> kheap_try_expand 0x5000100C 100 h2 = Some (True, h3) \<and> get_next 0x50001080 h3 = Some 0x50001080 \<and> kheap_alloc 100 h3 = None"
proof -
  have d: "data_of 0x50001000 0 = 0x5000100C" "baddr 0x50001000 2 = 0x50001080"
    by (simp_all add: data_of_def baddr_def sizeof_mem_segment_def KMEM_BLOCK_SIZE_def)
  have fl: "free_list 0x50001000 192 two_blocks [(0 + 1 + 1, 190)]" using two_blocks_free by (simp add: numeral_2_eq_2)
  have c: "unat (calculate_blocks 100) = 1 + 1" by (simp add: one_block)
  have A: "[0 \<mapsto> 1, 1 \<mapsto> 1] (0 :: nat) = Some (1 :: nat)" "[0 \<mapsto> 1, 1 \<mapsto> 1] (0 + 1 :: nat) = Some (1 :: nat)" by simp_all
  have "0 + 1 + 1 = (2 :: nat)" by simp
  from kheap_try_expand_corrupts [OF two_blocks_inv A fl c, unfolded d this] obtain h3 where
    "kheap_try_expand 0x5000100C 100 two_blocks = Some (True, h3)" "head_segment h3 = 0x50001080"
    "get_next (head_segment h3) h3 = Some (head_segment h3)" "\<forall>sz. 1 < unat (calculate_blocks sz) \<longrightarrow> kheap_alloc sz h3 = None"
    by blast
  then show ?thesis using two_blocks_reached c by force
qed

end
