(* ===== verification/Bytes.thy ===== *)
theory Bytes
  imports Prelude
begin

text \<open>
  Byte memory, for the code that works on raw bytes: user buffers, strings, thread-local data. A
  load or store outside the mapped addresses, or a word access that is not aligned, traps: \<open>None\<close>.
\<close>

section \<open>Bytes and words\<close>

type_synonym ram = "addr \<rightharpoonup> u8"

definition store8 :: "addr \<Rightarrow> u8 \<Rightarrow> ram \<Rightarrow> ram option" where
  "store8 p v m = (if m p = None then None else Some (m(p \<mapsto> v)))"

definition load32 :: "addr \<Rightarrow> ram \<Rightarrow> u32 option" where
  "load32 p m = (if p mod 4 \<noteq> 0 then None else do {
     b0 \<leftarrow> m p; b1 \<leftarrow> m (p + 1); b2 \<leftarrow> m (p + 2); b3 \<leftarrow> m (p + 3);
     Some (ucast b0 OR push_bit 8 (ucast b1) OR push_bit 16 (ucast b2) OR push_bit 24 (ucast b3))
   })"

definition store32 :: "addr \<Rightarrow> u32 \<Rightarrow> ram \<Rightarrow> ram option" where
  "store32 p v m = (if p mod 4 \<noteq> 0 then None else do {
     m \<leftarrow> store8 p (ucast v) m;
     m \<leftarrow> store8 (p + 1) (ucast (drop_bit 8 v)) m;
     m \<leftarrow> store8 (p + 2) (ucast (drop_bit 16 v)) m;
     store8 (p + 3) (ucast (drop_bit 24 v)) m
   })"

lemma store8_Some: "m p \<noteq> None \<Longrightarrow> store8 p v m = Some (m(p \<mapsto> v))"
  by (simp add: store8_def)

lemma store8_dom: "store8 p v m = Some m' \<Longrightarrow> dom m' = dom m \<and> m' = m(p \<mapsto> v)"
  by (auto simp: store8_def split: if_splits)

lemma word_of_bytes:
  fixes v :: u32
  shows "ucast (ucast v :: u8) OR push_bit 8 (ucast (ucast (drop_bit 8 v) :: u8))
     OR push_bit 16 (ucast (ucast (drop_bit 16 v) :: u8)) OR push_bit 24 (ucast (ucast (drop_bit 24 v) :: u8)) = v"
proof (rule bit_word_eqI)
  fix n assume n: "n < LENGTH(32)"
  have "n < 8 \<or> 8 \<le> n \<and> n < 16 \<or> 16 \<le> n \<and> n < 24 \<or> 24 \<le> n" by linarith
  then show "bit (ucast (ucast v :: u8) OR push_bit 8 (ucast (ucast (drop_bit 8 v) :: u8))
     OR push_bit 16 (ucast (ucast (drop_bit 16 v) :: u8)) OR push_bit 24 (ucast (ucast (drop_bit 24 v) :: u8)) :: u32) n = bit v n"
    using n by (auto simp: bit_simps)
qed

lemma load32_store32:
  assumes "store32 p v m = Some m'"
  shows "load32 p m' = Some v"
proof -
  have d: "p + 1 \<noteq> p" "p + 2 \<noteq> p" "p + 3 \<noteq> p" "p + 2 \<noteq> p + 1" "p + 3 \<noteq> p + 1" "p + 3 \<noteq> p + 2" by simp_all
  have m': "m' = m(p \<mapsto> ucast v, p + 1 \<mapsto> ucast (drop_bit 8 v), p + 2 \<mapsto> ucast (drop_bit 16 v), p + 3 \<mapsto> ucast (drop_bit 24 v))"
    and a: "p mod 4 = 0"
    using assms by (auto simp: store32_def bind_eq_Some dest!: store8_dom split: if_splits)
  have "m' p = Some (ucast v)" "m' (p + 1) = Some (ucast (drop_bit 8 v))"
    "m' (p + 2) = Some (ucast (drop_bit 16 v))" "m' (p + 3) = Some (ucast (drop_bit 24 v))"
    using m' d by simp_all
  then show ?thesis using a word_of_bytes [of v] by (simp add: load32_def)
qed

end
