(* ===== verification/Kernel_State.thy ===== *)
theory Kernel_State
  imports Heap_Allocator Bytes
begin

text \<open>
  The kernel objects of \<^verbatim>\<open>Software/h/kernel/\<close> and the state the kernel keeps. Each kind of
  object has a typed store, a partial map from addresses to live objects: reading or writing a
  field through a null or dangling pointer is \<open>None\<close>.
\<close>

section \<open>Kernel objects\<close>

datatype thread_status =
    STATUS_SUCCESS | STATUS_NO_MEMORY | STATUS_TIMED_OUT | STATUS_BUSY | STATUS_ERROR

fun status_code :: "thread_status \<Rightarrow> u32" where
  "status_code STATUS_SUCCESS = 0"
| "status_code STATUS_NO_MEMORY = 1"
| "status_code STATUS_TIMED_OUT = 2"
| "status_code STATUS_BUSY = 3"
| "status_code STATUS_ERROR = 4"

datatype kthread_state = CREATED | READY | RUNNING | BLOCKED

text \<open>\<open>regs\<close> is the array of the 16 registers of RV32E; \<open>pc\<close> is a \<open>uint32_t*\<close>.\<close>

record kcontext =
  regs :: "u32 list"
  status :: u32
  pc :: addr

record kthread =
  ctx :: kcontext
  stack :: addr
  tdata :: addr
  next_thr :: addr
  waiting_on :: addr
  local_data_head :: addr
  state :: kthread_state

record kmutex =
  owner :: addr
  mq_head :: addr
  mq_tail :: addr
  lock_count :: u16
  recursive :: bool

record kcond =
  cq_head :: addr
  cq_tail :: addr

record kthread_ls =
  ls_dtor :: addr
  data_head :: addr

record kthread_ld =
  ld_storage :: addr
  ld_thread :: addr
  ld_data :: addr
  prev_thread :: addr
  next_thread :: addr
  prev_data :: addr
  next_data :: addr

section \<open>The kernel's state\<close>

text \<open>
  \<open>kheap\<close> holds the headers of the heap's segments, \<open>kram\<close> the memory the kernel and its clients use
  as raw bytes, apart from the kernel objects. \<open>kthread_main\<close> is the address of the static thread of
  \<^verbatim>\<open>thread.c\<close>. \<open>dtor_calls\<close> records the calls of user-supplied destructors, code the kernel only calls.
\<close>

record kstate =
  kheap :: heap
  kram :: ram
  thrs :: "addr \<rightharpoonup> kthread"
  mtxs :: "addr \<rightharpoonup> kmutex"
  cnds :: "addr \<rightharpoonup> kcond"
  lss :: "addr \<rightharpoonup> kthread_ls"
  lds :: "addr \<rightharpoonup> kthread_ld"
  kscheduler_head :: addr
  kscheduler_tail :: addr
  kthread_current :: addr
  kthread_main :: addr
  dtor_calls :: "(addr \<times> addr) list"

text \<open>\<open>thr p f\<close> is a write of fields of the thread at \<open>p\<close>; likewise for the other objects.\<close>

definition upd_thr :: "addr \<Rightarrow> (kthread \<Rightarrow> kthread) \<Rightarrow> 'a kstate_scheme \<Rightarrow> 'a kstate_scheme option" where
  "upd_thr p f s = (case thrs s p of None \<Rightarrow> None | Some t \<Rightarrow> Some (s\<lparr>thrs := (thrs s)(p \<mapsto> f t)\<rparr>))"

definition upd_mtx :: "addr \<Rightarrow> (kmutex \<Rightarrow> kmutex) \<Rightarrow> 'a kstate_scheme \<Rightarrow> 'a kstate_scheme option" where
  "upd_mtx p f s = (case mtxs s p of None \<Rightarrow> None | Some m \<Rightarrow> Some (s\<lparr>mtxs := (mtxs s)(p \<mapsto> f m)\<rparr>))"

definition upd_cnd :: "addr \<Rightarrow> (kcond \<Rightarrow> kcond) \<Rightarrow> 'a kstate_scheme \<Rightarrow> 'a kstate_scheme option" where
  "upd_cnd p f s = (case cnds s p of None \<Rightarrow> None | Some c \<Rightarrow> Some (s\<lparr>cnds := (cnds s)(p \<mapsto> f c)\<rparr>))"

definition upd_ls :: "addr \<Rightarrow> (kthread_ls \<Rightarrow> kthread_ls) \<Rightarrow> 'a kstate_scheme \<Rightarrow> 'a kstate_scheme option" where
  "upd_ls p f s = (case lss s p of None \<Rightarrow> None | Some l \<Rightarrow> Some (s\<lparr>lss := (lss s)(p \<mapsto> f l)\<rparr>))"

definition upd_ld :: "addr \<Rightarrow> (kthread_ld \<Rightarrow> kthread_ld) \<Rightarrow> 'a kstate_scheme \<Rightarrow> 'a kstate_scheme option" where
  "upd_ld p f s = (case lds s p of None \<Rightarrow> None | Some l \<Rightarrow> Some (s\<lparr>lds := (lds s)(p \<mapsto> f l)\<rparr>))"

lemma upd_Some [kernel_simps]:
  "thrs s p = Some t \<Longrightarrow> upd_thr p f s = Some (s\<lparr>thrs := (thrs s)(p \<mapsto> f t)\<rparr>)"
  "mtxs s p = Some m \<Longrightarrow> upd_mtx p g s = Some (s\<lparr>mtxs := (mtxs s)(p \<mapsto> g m)\<rparr>)"
  "cnds s p = Some c \<Longrightarrow> upd_cnd p h s = Some (s\<lparr>cnds := (cnds s)(p \<mapsto> h c)\<rparr>)"
  "lss s p = Some l \<Longrightarrow> upd_ls p i s = Some (s\<lparr>lss := (lss s)(p \<mapsto> i l)\<rparr>)"
  "lds s p = Some d \<Longrightarrow> upd_ld p j s = Some (s\<lparr>lds := (lds s)(p \<mapsto> j d)\<rparr>)"
  by (simp_all add: upd_thr_def upd_mtx_def upd_cnd_def upd_ls_def upd_ld_def)

end
