(* ===== verification/Scheduler.thy ===== *)
theory Scheduler
  imports Kernel_State
begin

text \<open>The FIFO of ready threads.\<close>

section \<open>Scheduler\<close>

text \<open>\<^verbatim>\<open>Software/src/kernel/sync/scheduler.c\<close>: the FIFO of ready threads.\<close>

definition kscheduler_enqueue :: "addr \<Rightarrow> 'a kstate_scheme \<Rightarrow> 'a kstate_scheme option" where
  "kscheduler_enqueue thread s = do {
     s \<leftarrow> upd_thr thread (\<lambda>t. t\<lparr>state := READY\<rparr>) s;
     s \<leftarrow> upd_thr thread (\<lambda>t. t\<lparr>next_thr := NULL\<rparr>) s;
     s \<leftarrow> upd_thr thread (\<lambda>t. t\<lparr>waiting_on := NULL\<rparr>) s;
     s \<leftarrow> (if kscheduler_head s \<noteq> NULL
           then upd_thr (kscheduler_tail s) (\<lambda>t. t\<lparr>next_thr := thread\<rparr>) s
           else Some (s\<lparr>kscheduler_head := thread\<rparr>));
     Some (s\<lparr>kscheduler_tail := thread\<rparr>)
   }"

definition kscheduler_dequeue :: "'a kstate_scheme \<Rightarrow> (addr \<times> 'a kstate_scheme) option" where
  "kscheduler_dequeue s =
     (if kscheduler_head s = NULL then Some (NULL, s)
      else do {
        let thread = kscheduler_head s;
        t \<leftarrow> thrs s thread;
        let s = s\<lparr>kscheduler_head := next_thr t\<rparr>;
        let s = (if kscheduler_head s = NULL then s\<lparr>kscheduler_tail := NULL\<rparr> else s);
        s \<leftarrow> upd_thr thread (\<lambda>t. t\<lparr>next_thr := NULL\<rparr>) s;
        s \<leftarrow> upd_thr thread (\<lambda>t. t\<lparr>waiting_on := NULL\<rparr>) s;
        Some (thread, s)
      })"

end
