(* ===== verification/Dispatch.thy ===== *)
theory Dispatch
  imports Scheduler
begin

text \<open>Switching the processor from one thread to the next.\<close>

section \<open>Dispatch\<close>

text \<open>\<open>kthread_dispatch\<close> and \<open>kthread_stop\<close> of \<^verbatim>\<open>Software/src/kernel/sync/thread.c\<close>.\<close>

definition kthread_dispatch :: "'a kstate_scheme \<Rightarrow> 'a kstate_scheme option" where
  "kthread_dispatch s = do {
     let prev_thread = kthread_current s;
     s \<leftarrow> (if prev_thread \<noteq> NULL
           then do {
             t \<leftarrow> thrs s prev_thread;
             if state t \<noteq> BLOCKED \<and> prev_thread \<noteq> kthread_main s
             then kscheduler_enqueue prev_thread s else Some s
           }
           else Some s);
     (next_thread, s) \<leftarrow> kscheduler_dequeue s;
     let next_thread = (if next_thread = NULL then kthread_main s else next_thread);
     let s = s\<lparr>kthread_current := next_thread\<rparr>;
     upd_thr next_thread (\<lambda>t. t\<lparr>state := RUNNING\<rparr>) s
   }"

definition kthread_stop :: "'a kstate_scheme \<Rightarrow> 'a kstate_scheme option" where
  "kthread_stop s = kthread_dispatch (s\<lparr>kthread_current := NULL\<rparr>)"

end
