(* ===== verification/Mutex.thy ===== *)
theory Mutex
  imports Scheduler
begin

text \<open>Mutexes with a FIFO of blocked threads each.\<close>

section \<open>Mutexes\<close>

text \<open>\<^verbatim>\<open>Software/src/kernel/sync/mutex.c\<close>. \<open>kmutex_init\<close> makes the object at \<open>mutex\<close>, whose memory
  the caller provides, and writes all of its fields.\<close>

definition kmutex_init :: "addr \<Rightarrow> bool \<Rightarrow> 'a kstate_scheme \<Rightarrow> 'a kstate_scheme" where
  "kmutex_init mutex rec s =
     s\<lparr>mtxs := (mtxs s)(mutex \<mapsto>
        \<lparr>owner = NULL, mq_head = NULL, mq_tail = NULL, lock_count = 0, recursive = rec\<rparr>)\<rparr>"

definition kmutex_try_lock :: "addr \<Rightarrow> addr \<Rightarrow> 'a kstate_scheme \<Rightarrow> (bool \<times> 'a kstate_scheme) option" where
  "kmutex_try_lock mutex thread s = do {
     m \<leftarrow> mtxs s mutex;
     if owner m \<noteq> NULL then Some (False, s)
     else do {
       s \<leftarrow> upd_mtx mutex (\<lambda>m. m\<lparr>owner := thread\<rparr>) s;
       s \<leftarrow> upd_mtx mutex (\<lambda>m. m\<lparr>lock_count := 1\<rparr>) s;
       Some (True, s)
     }
   }"

definition kmutex_lock :: "addr \<Rightarrow> addr \<Rightarrow> 'a kstate_scheme \<Rightarrow> 'a kstate_scheme option" where
  "kmutex_lock mutex thread s = do {
     m \<leftarrow> mtxs s mutex;
     if owner m = NULL then do {
       s \<leftarrow> upd_mtx mutex (\<lambda>m. m\<lparr>owner := thread\<rparr>) s;
       upd_mtx mutex (\<lambda>m. m\<lparr>lock_count := 1\<rparr>) s
     }
     else if owner m = thread then
       (if recursive m then upd_mtx mutex (\<lambda>m. m\<lparr>lock_count := lock_count m + 1\<rparr>) s else Some s)
     else do {
       s \<leftarrow> upd_thr thread (\<lambda>t. t\<lparr>state := BLOCKED\<rparr>) s;
       s \<leftarrow> upd_thr thread (\<lambda>t. t\<lparr>waiting_on := mutex\<rparr>) s;
       s \<leftarrow> (if mq_head m = NULL then upd_mtx mutex (\<lambda>m. m\<lparr>mq_head := thread\<rparr>) s
             else upd_thr (mq_tail m) (\<lambda>t. t\<lparr>next_thr := thread\<rparr>) s);
       upd_mtx mutex (\<lambda>m. m\<lparr>mq_tail := thread\<rparr>) s
     }
   }"

definition kmutex_unlock :: "addr \<Rightarrow> addr \<Rightarrow> 'a kstate_scheme \<Rightarrow> (thread_status \<times> 'a kstate_scheme) option" where
  "kmutex_unlock mutex thread s = do {
     m \<leftarrow> mtxs s mutex;
     if owner m \<noteq> thread then Some (STATUS_ERROR, s)
     else do {
       s \<leftarrow> upd_mtx mutex (\<lambda>m. m\<lparr>lock_count := lock_count m - 1\<rparr>) s;
       m \<leftarrow> mtxs s mutex;
       if recursive m \<and> lock_count m > 0 then Some (STATUS_SUCCESS, s)
       else if mq_head m = NULL then do {
         s \<leftarrow> upd_mtx mutex (\<lambda>m. m\<lparr>owner := NULL\<rparr>) s;
         Some (STATUS_SUCCESS, s)
       }
       else do {
         s \<leftarrow> upd_mtx mutex (\<lambda>m. m\<lparr>lock_count := 1\<rparr>) s;
         let next_thread = mq_head m;
         t \<leftarrow> thrs s next_thread;
         s \<leftarrow> upd_mtx mutex (\<lambda>m. m\<lparr>mq_head := next_thr t\<rparr>) s;
         s \<leftarrow> (if next_thr t = NULL then upd_mtx mutex (\<lambda>m. m\<lparr>mq_tail := NULL\<rparr>) s else Some s);
         s \<leftarrow> upd_mtx mutex (\<lambda>m. m\<lparr>owner := next_thread\<rparr>) s;
         s \<leftarrow> kscheduler_enqueue next_thread s;
         Some (STATUS_SUCCESS, s)
       }
     }
   }"

end
