(* ===== verification/Condition.thy ===== *)
theory Condition
  imports Mutex
begin

text \<open>Condition variables.\<close>

section \<open>Condition variables\<close>

text \<open>\<^verbatim>\<open>Software/src/kernel/sync/condition.c\<close> and \<open>kcond_init\<close> of its header.\<close>

definition kcond_init :: "addr \<Rightarrow> 'a kstate_scheme \<Rightarrow> 'a kstate_scheme" where
  "kcond_init cond s = s\<lparr>cnds := (cnds s)(cond \<mapsto> \<lparr>cq_head = NULL, cq_tail = NULL\<rparr>)\<rparr>"

definition kcond_wait :: "addr \<Rightarrow> addr \<Rightarrow> addr \<Rightarrow> 'a kstate_scheme \<Rightarrow> 'a kstate_scheme option" where
  "kcond_wait cond mutex thread s = do {
     s \<leftarrow> upd_thr thread (\<lambda>t. t\<lparr>state := BLOCKED\<rparr>) s;
     s \<leftarrow> upd_thr thread (\<lambda>t. t\<lparr>waiting_on := mutex\<rparr>) s;
     c \<leftarrow> cnds s cond;
     s \<leftarrow> (if cq_head c = NULL then upd_cnd cond (\<lambda>c. c\<lparr>cq_head := thread\<rparr>) s
           else upd_thr (cq_tail c) (\<lambda>t. t\<lparr>next_thr := thread\<rparr>) s);
     s \<leftarrow> upd_cnd cond (\<lambda>c. c\<lparr>cq_tail := thread\<rparr>) s;
     (_, s) \<leftarrow> kmutex_unlock mutex thread s;
     Some s
   }"

definition kcond_signal :: "addr \<Rightarrow> bool \<Rightarrow> 'a kstate_scheme \<Rightarrow> 'a kstate_scheme option" where
  "kcond_signal cond enqueue s = do {
     c \<leftarrow> cnds s cond;
     if cq_head c = NULL then Some s
     else do {
       let next_thread = cq_head c;
       t \<leftarrow> thrs s next_thread;
       s \<leftarrow> upd_cnd cond (\<lambda>c. c\<lparr>cq_head := next_thr t\<rparr>) s;
       s \<leftarrow> (if next_thr t = NULL then upd_cnd cond (\<lambda>c. c\<lparr>cq_tail := NULL\<rparr>) s else Some s);
       s \<leftarrow> kmutex_lock (waiting_on t) next_thread s;
       if enqueue then kscheduler_enqueue next_thread s else Some s
     }
   }"

text \<open>The loop of \<open>kcond_signal_all\<close>: the successor is read before the thread is moved.\<close>

partial_function (option) signal_all_loop :: "addr \<Rightarrow> 'a kstate_scheme \<Rightarrow> 'a kstate_scheme option" where
  "signal_all_loop thread s =
     (if thread = NULL then Some s
      else do {
        t \<leftarrow> thrs s thread;
        let nx = next_thr t;
        s \<leftarrow> kmutex_lock (waiting_on t) thread s;
        signal_all_loop nx s
      })"

definition kcond_signal_all :: "addr \<Rightarrow> 'a kstate_scheme \<Rightarrow> 'a kstate_scheme option" where
  "kcond_signal_all cond s = do {
     c \<leftarrow> cnds s cond;
     s \<leftarrow> signal_all_loop (cq_head c) s;
     s \<leftarrow> upd_cnd cond (\<lambda>c. c\<lparr>cq_head := NULL\<rparr>) s;
     upd_cnd cond (\<lambda>c. c\<lparr>cq_tail := NULL\<rparr>) s
   }"

end
