(* ===== verification/Queues.thy ===== *)
theory Queues
  imports Dispatch Condition Interfaces
begin

text \<open>
  The thread queues of the kernel (ready threads, waiters of a mutex, waiters of a condition): the
  pointer structure \<open>queues s Q\<close> and what appending to and removing from one queue does to all.
\<close>

section \<open>The queues of a kernel state\<close>

datatype qid = QReady | QMutex addr | QCond addr

fun q_ends :: "'a kstate_scheme \<Rightarrow> qid \<Rightarrow> (addr \<times> addr) option" where
  "q_ends s QReady = Some (kscheduler_head s, kscheduler_tail s)"
| "q_ends s (QMutex m) = map_option (\<lambda>x. (mq_head x, mq_tail x)) (mtxs s m)"
| "q_ends s (QCond c) = map_option (\<lambda>x. (cq_head x, cq_tail x)) (cnds s c)"

definition nxt :: "'a kstate_scheme \<Rightarrow> addr \<Rightarrow> addr" where
  "nxt s p = (case thrs s p of None \<Rightarrow> NULL | Some t \<Rightarrow> next_thr t)"

definition is_queue :: "(addr \<Rightarrow> addr) \<Rightarrow> addr \<Rightarrow> addr \<Rightarrow> addr list \<Rightarrow> bool" where
  "is_queue nx h t xs \<longleftrightarrow> chain nx h xs NULL \<and> distinct xs \<and> t = (if xs = [] then NULL else last xs)"

lemma is_queue_push:
  assumes "is_queue nx h t xs" and "a \<noteq> NULL" "a \<notin> set xs" "nx a = NULL"
  shows "is_queue (if h = NULL then nx else nx(t := a)) (if h = NULL then a else h) a (xs @ [a])"
proof (cases xs rule: rev_cases)
  case Nil
  then show ?thesis using assms by (simp add: is_queue_def)
next
  case (snoc ys y)
  have c: "chain nx h ys y" "y \<noteq> NULL" "nx y = NULL" "t = y" and d: "distinct (ys @ [y])"
    using assms(1) snoc by (auto simp: is_queue_def queue_simps)
  have "h \<noteq> NULL" using assms(1) snoc chain_start [of nx h xs] by (auto simp: is_queue_def)
  moreover have "chain (nx(y := a)) h (ys @ [y]) a"
    using c d by (simp add: queue_simps)
  ultimately show ?thesis using assms c d snoc by (auto simp: is_queue_def queue_simps)
qed

lemma is_queue_pop:
  assumes "is_queue nx h t (a # xs)"
  shows "h = a" and "is_queue nx (nx a) (if nx a = NULL then NULL else t) xs"
    and "is_queue (nx(a := NULL)) (nx a) (if nx a = NULL then NULL else t) xs"
proof -
  have c: "h = a" "chain nx (nx a) xs NULL" "distinct (a # xs)" "t = last (a # xs)"
    using assms by (auto simp: is_queue_def)
  moreover have "(nx a = NULL) = (xs = [])" using chain_start [OF c(2)] .
  ultimately show "h = a" "is_queue nx (nx a) (if nx a = NULL then NULL else t) xs"
    "is_queue (nx(a := NULL)) (nx a) (if nx a = NULL then NULL else t) xs"
    by (auto simp: is_queue_def queue_simps)
qed

lemma is_queue_empty: "is_queue nx h t [] \<longleftrightarrow> h = NULL \<and> t = NULL"
  by (auto simp: is_queue_def)

lemma is_queue_head: "is_queue nx h t xs \<Longrightarrow> (h = NULL) = (xs = [])"
  by (auto simp: is_queue_def chain_start)

lemma is_queue_cong:
  "(\<And>x. x \<in> set xs \<Longrightarrow> nx x = ny x) \<Longrightarrow> is_queue nx h t xs = is_queue ny h t xs"
  using chain_cong [of xs nx ny] by (simp add: is_queue_def)

text \<open>
  \<open>queues s Q\<close>: the queue \<open>q\<close> of \<open>s\<close> holds the threads \<open>Q q\<close>, front first, and no thread is in two
  queues.
\<close>

definition queues :: "'a kstate_scheme \<Rightarrow> (qid \<Rightarrow> addr list) \<Rightarrow> bool" where
  "queues s Q \<longleftrightarrow>
     (\<forall>q. case q_ends s q of None \<Rightarrow> Q q = [] | Some (h, t) \<Rightarrow> is_queue (nxt s) h t (Q q))
     \<and> (\<forall>q x. x \<in> set (Q q) \<longrightarrow> x \<in> dom (thrs s))
     \<and> (\<forall>q r x. x \<in> set (Q q) \<longrightarrow> x \<in> set (Q r) \<longrightarrow> q = r)
     \<and> thrs s NULL = None"

definition queued :: "(qid \<Rightarrow> addr list) \<Rightarrow> addr \<Rightarrow> bool" where
  "queued Q x \<longleftrightarrow> (\<exists>q. x \<in> set (Q q))"

lemma queuesD:
  assumes "queues s Q"
  shows "q_ends s q = Some (h, t) \<Longrightarrow> is_queue (nxt s) h t (Q q)"
    and "q_ends s q = None \<Longrightarrow> Q q = []"
    and "x \<in> set (Q q) \<Longrightarrow> x \<in> dom (thrs s)"
    and "x \<in> set (Q q) \<Longrightarrow> x \<in> set (Q r) \<Longrightarrow> q = r"
    and "thrs s NULL = None"
proof -
  show "q_ends s q = Some (h, t) \<Longrightarrow> is_queue (nxt s) h t (Q q)"
    and "q_ends s q = None \<Longrightarrow> Q q = []"
    using assms by (auto simp: queues_def dest!: spec [of _ q])
qed (use assms in \<open>auto simp: queues_def\<close>)

lemma queuesI:
  assumes "\<And>q h t. q_ends s q = Some (h, t) \<Longrightarrow> is_queue (nxt s) h t (Q q)"
    and "\<And>q. q_ends s q = None \<Longrightarrow> Q q = []"
    and "\<And>q x. x \<in> set (Q q) \<Longrightarrow> x \<in> dom (thrs s)"
    and "\<And>q r x. x \<in> set (Q q) \<Longrightarrow> x \<in> set (Q r) \<Longrightarrow> q = r"
    and "thrs s NULL = None"
  shows "queues s Q"
  unfolding queues_def using assms by (auto split: option.split)

lemma queues_frame:
  assumes "queues s Q" and "\<And>x. queued Q x \<Longrightarrow> nxt s' x = nxt s x" and "\<And>q. q_ends s' q = q_ends s q"
    and "dom (thrs s') = dom (thrs s)"
  shows "queues s' Q"
proof -
  have "is_queue (nxt s') h t (Q q) = is_queue (nxt s) h t (Q q)" for q h t
    by (rule is_queue_cong) (use assms(2) in \<open>auto simp: queued_def\<close>)
  then show ?thesis
    using queuesD [OF assms(1)] assms(3,4) by (intro queuesI) (auto simp: domIff, metis domIff)
qed

lemma queues_push:
  assumes Q: "queues s Q" and a: "\<not> queued Q a" "a \<in> dom (thrs s)" "nxt s a = NULL"
    and q: "q_ends s q = Some (h, t)" "q_ends s' q = Some (if h = NULL then a else h, a)"
    and other: "\<And>r. r \<noteq> q \<Longrightarrow> q_ends s' r = q_ends s r"
    and nx: "nxt s' = (if h = NULL then nxt s else (nxt s)(t := a))" and dom: "dom (thrs s') = dom (thrs s)"
  shows "queues s' (Q(q := Q q @ [a]))"
proof -
  note D = queuesD [OF Q]
  have a0: "a \<noteq> NULL" using a(2) D(5) by auto
  have iq: "is_queue (nxt s) h t (Q q)" by (rule D(1) [OF q(1)])
  have new: "is_queue (nxt s') (if h = NULL then a else h) a (Q q @ [a])"
    using is_queue_push [OF iq a0] a nx by (simp add: queued_def)
  have old: "is_queue (nxt s') h' t' (Q r) = is_queue (nxt s) h' t' (Q r)" if "r \<noteq> q" for r h' t'
  proof (rule is_queue_cong)
    fix x assume x: "x \<in> set (Q r)"
    have "t \<in> set (Q q)" if "h \<noteq> NULL"
      using iq that is_queue_head [OF iq] by (auto simp: is_queue_def)
    then show "nxt s' x = nxt s x" using nx D(4) [OF x] \<open>r \<noteq> q\<close> by auto
  qed
  show ?thesis
    unfolding queues_def
  proof (intro conjI allI impI)
    fix r show "case q_ends s' r of None \<Rightarrow> (Q(q := Q q @ [a])) r = []
      | Some (h, t) \<Rightarrow> is_queue (nxt s') h t ((Q(q := Q q @ [a])) r)"
      using new old [of r] other [of r] q(2) D(1) [of r] D(2) [of r]
      by (cases "r = q"; cases "q_ends s r") auto
  next
    fix r x assume "x \<in> set ((Q(q := Q q @ [a])) r)"
    then show "x \<in> dom (thrs s')" using D(3) a(2) dom by (auto split: if_splits)
  next
    fix r r' x assume "x \<in> set ((Q(q := Q q @ [a])) r)" "x \<in> set ((Q(q := Q q @ [a])) r')"
    then show "r = r'" using D(4) a(1) by (auto simp: queued_def split: if_splits)
  next
    show "thrs s' NULL = None" using D(5) dom by (metis domIff)
  qed
qed

lemma queues_pop:
  assumes Q: "queues s Q" and q: "q_ends s q = Some (h, t)" and qx: "Q q = a # xs"
    and q': "q_ends s' q = Some (nxt s a, if nxt s a = NULL then NULL else t)"
    and other: "\<And>r. r \<noteq> q \<Longrightarrow> q_ends s' r = q_ends s r"
    and nx: "\<And>x. x \<noteq> a \<Longrightarrow> nxt s' x = nxt s x" and dom: "dom (thrs s') = dom (thrs s)"
  shows "queues s' (Q(q := xs))"
proof -
  note D = queuesD [OF Q]
  have iq: "is_queue (nxt s) h t (a # xs)" using D(1) [OF q] qx by simp
  have a: "a \<notin> set xs" using iq by (simp add: is_queue_def)
  have "is_queue (nxt s') (nxt s a) (if nxt s a = NULL then NULL else t) xs =
        is_queue (nxt s) (nxt s a) (if nxt s a = NULL then NULL else t) xs"
    by (rule is_queue_cong) (metis nx a)
  then have new: "is_queue (nxt s') (nxt s a) (if nxt s a = NULL then NULL else t) xs"
    using is_queue_pop(2) [OF iq] by simp
  have old: "is_queue (nxt s') h' t' (Q r) = is_queue (nxt s) h' t' (Q r)" if "r \<noteq> q" for r h' t'
  proof (rule is_queue_cong)
    fix x assume x: "x \<in> set (Q r)"
    then have "x \<noteq> a" using D(4) [OF x, of q] qx that by auto
    then show "nxt s' x = nxt s x" by (rule nx)
  qed
  show ?thesis
    unfolding queues_def
  proof (intro conjI allI impI)
    fix r show "case q_ends s' r of None \<Rightarrow> (Q(q := xs)) r = [] | Some (h, t) \<Rightarrow> is_queue (nxt s') h t ((Q(q := xs)) r)"
      using new old [of r] other [of r] q' D(1) [of r] D(2) [of r]
      by (cases "r = q"; cases "q_ends s r") auto
  next
    fix r x assume "x \<in> set ((Q(q := xs)) r)"
    then show "x \<in> dom (thrs s')" using D(3) [of x r] D(3) [of x q] dom qx by (auto split: if_splits)
  next
    fix r r' x assume "x \<in> set ((Q(q := xs)) r)" "x \<in> set ((Q(q := xs)) r')"
    then have "x \<in> set (Q r)" "x \<in> set (Q r')" using qx by (auto split: if_splits)
    then show "r = r'" by (rule D(4))
  next
    show "thrs s' NULL = None" using D(5) dom by (metis domIff)
  qed
qed

section \<open>Reading the queues after a write\<close>

definition core :: "kthread \<Rightarrow> kthread" where
  "core t = t\<lparr>next_thr := NULL\<rparr>"

text \<open>A thread without its queue link.\<close>

definition kcore :: "'a kstate_scheme \<Rightarrow> addr \<Rightarrow> kthread option" where
  "kcore s x = map_option core (thrs s x)"

lemma nxt_upd [kernel_simps]:
  "nxt (s\<lparr>thrs := (thrs s)(p \<mapsto> t)\<rparr>) = (nxt s)(p := next_thr t)"
  by (auto simp: nxt_def fun_eq_iff)

lemma nxt_thrs: "thrs s' = thrs s \<Longrightarrow> nxt s' = nxt s"
  by (simp add: nxt_def fun_eq_iff)

lemma q_ends_eq:
  "kscheduler_head s' = kscheduler_head s \<Longrightarrow> kscheduler_tail s' = kscheduler_tail s \<Longrightarrow>
   mtxs s' = mtxs s \<Longrightarrow> cnds s' = cnds s \<Longrightarrow> q_ends s' q = q_ends s q"
  by (cases q) auto

lemma q_ends_mtx:
  "mtxs s' = (mtxs s)(m \<mapsto> x) \<Longrightarrow> kscheduler_head s' = kscheduler_head s \<Longrightarrow>
   kscheduler_tail s' = kscheduler_tail s \<Longrightarrow> cnds s' = cnds s \<Longrightarrow>
   q_ends s' q = (if q = QMutex m then Some (mq_head x, mq_tail x) else q_ends s q)"
  by (cases q) auto

lemma q_ends_cnd:
  "cnds s' = (cnds s)(c \<mapsto> x) \<Longrightarrow> kscheduler_head s' = kscheduler_head s \<Longrightarrow>
   kscheduler_tail s' = kscheduler_tail s \<Longrightarrow> mtxs s' = mtxs s \<Longrightarrow>
   q_ends s' q = (if q = QCond c then Some (cq_head x, cq_tail x) else q_ends s q)"
  by (cases q) auto

lemma q_ends_ready:
  "mtxs s' = mtxs s \<Longrightarrow> cnds s' = cnds s \<Longrightarrow> q \<noteq> QReady \<Longrightarrow> q_ends s' q = q_ends s q"
  by (cases q) auto

lemma tail_thread:
  assumes "queues s Q" and "q_ends s q = Some (h, t)" and "h \<noteq> NULL"
  shows "t \<in> set (Q q)" and "\<exists>th. thrs s t = Some th"
proof -
  have iq: "is_queue (nxt s) h t (Q q)" by (rule queuesD(1) [OF assms(1,2)])
  then show "t \<in> set (Q q)" using assms(3) is_queue_head [OF iq] by (auto simp: is_queue_def)
  then show "\<exists>th. thrs s t = Some th" using queuesD(3) [OF assms(1)] by auto
qed

text \<open>Appending to the ready queue.\<close>

lemma kscheduler_enqueue_queues:
  assumes Q: "queues s Q" and a: "\<not> queued Q a" and t: "thrs s a = Some t"
  shows "\<exists>T H. kscheduler_enqueue a s = Some (s\<lparr>thrs := T, kscheduler_head := H, kscheduler_tail := a\<rparr>)
    \<and> queues (s\<lparr>thrs := T, kscheduler_head := H, kscheduler_tail := a\<rparr>) (Q(QReady := Q QReady @ [a]))
    \<and> map_option core \<circ> T = (kcore s)(a \<mapsto> core (t\<lparr>state := READY, waiting_on := NULL\<rparr>))
    \<and> (\<forall>x. x \<noteq> a \<longrightarrow> \<not> queued Q x \<longrightarrow> T x = thrs s x)"
proof -
  let ?h = "kscheduler_head s" and ?t = "kscheduler_tail s"
  define t' where "t' = t\<lparr>state := READY, next_thr := NULL, waiting_on := NULL\<rparr>"
  define T where "T = (if ?h = NULL then (thrs s)(a \<mapsto> t')
     else (thrs s)(a \<mapsto> t', ?t \<mapsto> (the (thrs s ?t))\<lparr>next_thr := a\<rparr>))"
  define H where "H = (if ?h = NULL then a else ?h)"
  let ?s' = "s\<lparr>thrs := T, kscheduler_head := H, kscheduler_tail := a\<rparr>"
  have tail: "?t \<noteq> a \<and> ?t \<in> set (Q QReady) \<and> (\<exists>th. thrs s ?t = Some th)" if "?h \<noteq> NULL"
    using tail_thread [OF Q, of QReady ?h ?t] that a by (auto simp: queued_def)
  have step: "kscheduler_enqueue a s = Some ?s'"
  proof (cases "?h = NULL")
    case True
    then show ?thesis using t by (simp add: kscheduler_enqueue_def kernel_simps T_def H_def t'_def)
  next
    case False
    then obtain th where "thrs s ?t = Some th" "?t \<noteq> a" using tail by blast
    then show ?thesis using t False by (simp add: kscheduler_enqueue_def kernel_simps T_def H_def t'_def)
  qed
  define s1 where "s1 = s\<lparr>thrs := (thrs s)(a \<mapsto> t')\<rparr>"
  have Q1: "queues s1 Q"
  proof (rule queues_frame [OF Q])
    show "nxt s1 x = nxt s x" if "queued Q x" for x using that a by (auto simp: s1_def kernel_simps)
    show "q_ends s1 q = q_ends s q" for q by (rule q_ends_eq) (simp_all add: s1_def)
    show "dom (thrs s1) = dom (thrs s)" using t by (auto simp: s1_def)
  qed
  have "queues ?s' (Q(QReady := Q QReady @ [a]))"
  proof (rule queues_push [OF Q1 a])
    show "a \<in> dom (thrs s1)" "nxt s1 a = NULL" by (auto simp: s1_def kernel_simps t'_def)
    show "q_ends s1 QReady = Some (?h, ?t)" by (simp add: s1_def)
    show "q_ends ?s' QReady = Some (if ?h = NULL then a else ?h, a)" by (simp add: H_def)
    show "q_ends ?s' r = q_ends s1 r" if "r \<noteq> QReady" for r
      by (rule q_ends_ready) (use that in \<open>simp_all add: s1_def\<close>)
    show "nxt ?s' = (if ?h = NULL then nxt s1 else (nxt s1)(?t := a))"
      using tail by (auto simp: nxt_def s1_def T_def fun_eq_iff split: option.splits)
    show "dom (thrs ?s') = dom (thrs s1)"
      using tail by (auto simp: s1_def T_def)
  qed
  moreover have "map_option core \<circ> T = (kcore s)(a \<mapsto> core (t\<lparr>state := READY, waiting_on := NULL\<rparr>))"
    using tail by (auto simp: T_def kcore_def fun_eq_iff core_def t'_def)
  moreover have "\<forall>x. x \<noteq> a \<longrightarrow> \<not> queued Q x \<longrightarrow> T x = thrs s x"
    using tail by (auto simp: T_def queued_def)
  ultimately show ?thesis using step by blast
qed

lemma kscheduler_dequeue_empty:
  "queues s Q \<Longrightarrow> Q QReady = [] \<Longrightarrow> kscheduler_dequeue s = Some (NULL, s)"
  using queuesD(1) [of s Q QReady "kscheduler_head s" "kscheduler_tail s"]
  by (simp add: kscheduler_dequeue_def is_queue_empty)

lemma kscheduler_dequeue_queues:
  assumes Q: "queues s Q" and qx: "Q QReady = a # xs"
  shows "\<exists>T H L t. thrs s a = Some t
    \<and> kscheduler_dequeue s = Some (a, s\<lparr>thrs := T, kscheduler_head := H, kscheduler_tail := L\<rparr>)
    \<and> queues (s\<lparr>thrs := T, kscheduler_head := H, kscheduler_tail := L\<rparr>) (Q(QReady := xs))
    \<and> T = (thrs s)(a \<mapsto> t\<lparr>next_thr := NULL, waiting_on := NULL\<rparr>)"
proof -
  let ?h = "kscheduler_head s" and ?t = "kscheduler_tail s"
  have iq: "is_queue (nxt s) ?h ?t (a # xs)"
    using queuesD(1) [OF Q, of QReady ?h ?t] qx by simp
  have ha: "?h = a" by (rule is_queue_pop(1) [OF iq])
  obtain t where t: "thrs s a = Some t" using queuesD(3) [OF Q, of a QReady] qx by auto
  have a0: "a \<noteq> NULL" using t queuesD(5) [OF Q] by auto
  have n: "nxt s a = next_thr t" using t by (simp add: nxt_def)
  define T where "T = (thrs s)(a \<mapsto> t\<lparr>next_thr := NULL, waiting_on := NULL\<rparr>)"
  define L where "L = (if next_thr t = NULL then NULL else ?t)"
  let ?s' = "s\<lparr>thrs := T, kscheduler_head := next_thr t, kscheduler_tail := L\<rparr>"
  have "kscheduler_dequeue s = Some (a, ?s')"
    using t a0 ha by (simp add: kscheduler_dequeue_def kernel_simps Let_def T_def L_def)
  moreover have "queues ?s' (Q(QReady := xs))"
  proof (rule queues_pop [OF Q _ qx])
    show "q_ends s QReady = Some (?h, ?t)" by simp
    show "q_ends ?s' QReady = Some (nxt s a, if nxt s a = NULL then NULL else ?t)"
      using n by (simp add: L_def)
    show "q_ends ?s' r = q_ends s r" if "r \<noteq> QReady" for r
      by (rule q_ends_ready) (use that in simp_all)
    show "nxt ?s' x = nxt s x" if "x \<noteq> a" for x using that by (simp add: nxt_def T_def)
    show "dom (thrs ?s') = dom (thrs s)" using t by (auto simp: T_def)
  qed
  ultimately show ?thesis using t T_def by blast
qed

end
