(* ===== verification/Kernel_Inv.thy ===== *)
theory Kernel_Inv
  imports Queues
begin

text \<open>
  The invariant of the kernel state: every thread in a queue is in exactly one, is marked accordingly,
  and a mutex with waiters has an owner. Enqueueing, dequeueing and dispatching keep it.
\<close>

section \<open>The kernel invariant\<close>

definition info :: "'a kstate_scheme \<Rightarrow> addr \<Rightarrow> (kthread_state \<times> addr) option" where
  "info s x = map_option (\<lambda>t. (state t, waiting_on t)) (thrs s x)"

text \<open>What the kernel records of a thread by the place it is in.\<close>

fun place_ok :: "'a kstate_scheme \<Rightarrow> qid \<Rightarrow> addr \<Rightarrow> bool" where
  "place_ok s QReady x = (\<exists>w. info s x = Some (READY, w))"
| "place_ok s (QMutex m) x = (info s x = Some (BLOCKED, m))"
| "place_ok s (QCond c) x = (\<exists>m. info s x = Some (BLOCKED, m) \<and> mtxs s m \<noteq> None)"

definition mutex_ok :: "(qid \<Rightarrow> addr list) \<Rightarrow> addr \<Rightarrow> kmutex \<Rightarrow> bool" where
  "mutex_ok Q m x \<longleftrightarrow> (owner x = NULL \<longrightarrow> Q (QMutex m) = []) \<and> owner x \<notin> set (Q (QMutex m))"

definition main_ok :: "'a kstate_scheme \<Rightarrow> (qid \<Rightarrow> addr list) \<Rightarrow> bool" where
  "main_ok s Q \<longleftrightarrow> kthread_main s \<in> dom (thrs s) \<and> nxt s (kthread_main s) = NULL \<and> \<not> queued Q (kthread_main s)"

definition kinv :: "'a kstate_scheme \<Rightarrow> (qid \<Rightarrow> addr list) \<Rightarrow> bool" where
  "kinv s Q \<longleftrightarrow> queues s Q
     \<and> (\<forall>q x. x \<in> set (Q q) \<longrightarrow> place_ok s q x)
     \<and> (\<forall>m x. mtxs s m = Some x \<longrightarrow> mutex_ok Q m x)
     \<and> main_ok s Q"

text \<open>The current thread runs: it is in no queue, and its link is null.\<close>

definition running :: "'a kstate_scheme \<Rightarrow> (qid \<Rightarrow> addr list) \<Rightarrow> bool" where
  "running s Q \<longleftrightarrow> (\<exists>w. info s (kthread_current s) = Some (RUNNING, w))
     \<and> \<not> queued Q (kthread_current s) \<and> nxt s (kthread_current s) = NULL"

text \<open>The part of a thread scheduling never touches.\<close>

definition frozen :: "kthread \<Rightarrow> kthread" where
  "frozen t = t\<lparr>next_thr := NULL, waiting_on := NULL, state := READY\<rparr>"

definition sched_frame :: "'a kstate_scheme \<Rightarrow> 'a kstate_scheme \<Rightarrow> bool" where
  "sched_frame s s' \<longleftrightarrow> (\<exists>T H L C. s' = s\<lparr>thrs := T, kscheduler_head := H, kscheduler_tail := L, kthread_current := C\<rparr>
     \<and> (\<forall>x. map_option frozen (T x) = map_option frozen (thrs s x)))"

lemma info_kcore: "info s x = map_option (\<lambda>t. (state t, waiting_on t)) (kcore s x)"
  by (cases "thrs s x") (simp_all add: info_def kcore_def core_def)

lemma info_dom: "dom (info s) = dom (thrs s)"
  by (auto simp: info_def)

lemma kinvD:
  assumes "kinv s Q"
  shows "queues s Q" "x \<in> set (Q q) \<Longrightarrow> place_ok s q x" "mtxs s m = Some mx \<Longrightarrow> mutex_ok Q m mx" "main_ok s Q"
  using assms by (auto simp: kinv_def)

lemma sched_frame_refl: "sched_frame s s"
  unfolding sched_frame_def
  by (rule exI [of _ "thrs s"], rule exI [of _ "kscheduler_head s"], rule exI [of _ "kscheduler_tail s"],
      rule exI [of _ "kthread_current s"]) simp

lemma sched_frame_trans:
  assumes "sched_frame s1 s2" and "sched_frame s2 s3"
  shows "sched_frame s1 s3"
proof -
  obtain T H L C where 1: "s2 = s1\<lparr>thrs := T, kscheduler_head := H, kscheduler_tail := L, kthread_current := C\<rparr>"
    "\<forall>x. map_option frozen (T x) = map_option frozen (thrs s1 x)" using assms(1) unfolding sched_frame_def by blast
  obtain T' H' L' C' where 2: "s3 = s2\<lparr>thrs := T', kscheduler_head := H', kscheduler_tail := L', kthread_current := C'\<rparr>"
    "\<forall>x. map_option frozen (T' x) = map_option frozen (thrs s2 x)" using assms(2) unfolding sched_frame_def by blast
  show ?thesis unfolding sched_frame_def
    using 1 2 by (intro exI [of _ T'] exI [of _ H'] exI [of _ L'] exI [of _ C']) simp
qed

lemma sched_frameD:
  assumes "sched_frame s s'"
  shows "mtxs s' = mtxs s" "cnds s' = cnds s" "kthread_main s' = kthread_main s" "kheap s' = kheap s"
    "dom (thrs s') = dom (thrs s)" "kstate.more s' = kstate.more s"
    "lss s' = lss s" "lds s' = lds s" "dtor_calls s' = dtor_calls s"
proof -
  obtain T H L C where s': "s' = s\<lparr>thrs := T, kscheduler_head := H, kscheduler_tail := L, kthread_current := C\<rparr>"
    and T: "\<forall>x. map_option frozen (T x) = map_option frozen (thrs s x)"
    using assms by (auto simp: sched_frame_def)
  have "T x = None \<longleftrightarrow> thrs s x = None" for x using T [rule_format, of x] by (cases "T x"; cases "thrs s x") auto
  then show "dom (thrs s') = dom (thrs s)" using s' by (auto simp: dom_def)
qed (use assms in \<open>auto simp: sched_frame_def\<close>)

lemma sched_frame_run:
  assumes "thrs s n = Some t"
  shows "sched_frame s (s\<lparr>kthread_current := n, thrs := (thrs s)(n \<mapsto> t\<lparr>state := RUNNING\<rparr>)\<rparr>)"
  unfolding sched_frame_def
  by (rule exI [of _ "(thrs s)(n \<mapsto> t\<lparr>state := RUNNING\<rparr>)"], rule exI [of _ "kscheduler_head s"],
      rule exI [of _ "kscheduler_tail s"], rule exI [of _ n]) (use assms in \<open>simp add: frozen_def\<close>)

lemma main_ok_frame:
  assumes "main_ok s Q" "kthread_main s' = kthread_main s" "dom (thrs s') = dom (thrs s)"
    "nxt s' (kthread_main s) = NULL" "\<not> queued Q' (kthread_main s)"
  shows "main_ok s' Q'"
  using assms by (simp add: main_ok_def)

lemma kscheduler_enqueue_kinv:
  assumes I: "kinv s Q" and a: "\<not> queued Q a" "a \<in> dom (thrs s)" "a \<noteq> kthread_main s"
  shows "\<exists>s'. kscheduler_enqueue a s = Some s' \<and> kinv s' (Q(QReady := Q QReady @ [a]))
    \<and> sched_frame s s' \<and> kthread_current s' = kthread_current s
    \<and> (\<forall>x. x \<noteq> a \<longrightarrow> info s' x = info s x) \<and> (\<forall>x. x \<noteq> a \<longrightarrow> \<not> queued Q x \<longrightarrow> nxt s' x = nxt s x)"
proof -
  note K = kinvD [OF I]
  obtain t where t: "thrs s a = Some t" using a(2) by auto
  let ?Q = "Q(QReady := Q QReady @ [a])"
  obtain T H where s': "kscheduler_enqueue a s = Some (s\<lparr>thrs := T, kscheduler_head := H, kscheduler_tail := a\<rparr>)"
    and Q': "queues (s\<lparr>thrs := T, kscheduler_head := H, kscheduler_tail := a\<rparr>) ?Q"
    and T: "map_option core \<circ> T = (kcore s)(a \<mapsto> core (t\<lparr>state := READY, waiting_on := NULL\<rparr>))"
    and same: "\<forall>x. x \<noteq> a \<longrightarrow> \<not> queued Q x \<longrightarrow> T x = thrs s x"
    using kscheduler_enqueue_queues [OF K(1) a(1) t] by blast
  let ?s' = "s\<lparr>thrs := T, kscheduler_head := H, kscheduler_tail := a\<rparr>"
  have kc: "kcore ?s' x = (if x = a then Some (core (t\<lparr>state := READY, waiting_on := NULL\<rparr>)) else kcore s x)" for x
    using T by (auto simp: kcore_def fun_eq_iff)
  have inf: "info ?s' x = (if x = a then Some (READY, NULL) else info s x)" for x
    by (simp add: info_kcore kc core_def)
  have place: "place_ok ?s' q x" if "x \<in> set (?Q q)" for q x
  proof (cases "x = a")
    case True
    then have "q = QReady" using that a(1) by (auto simp: queued_def split: if_splits)
    then show ?thesis using True inf by auto
  next
    case False
    then have "x \<in> set (Q q)" using that by (auto split: if_splits)
    then have "place_ok s q x" by (rule K(2))
    then show ?thesis using False inf by (cases q) auto
  qed
  have "sched_frame s ?s'"
    unfolding sched_frame_def
  proof (intro exI conjI allI)
    show "?s' = s\<lparr>thrs := T, kscheduler_head := H, kscheduler_tail := a, kthread_current := kthread_current s\<rparr>" by simp
    fix x
    have "map_option frozen (map_option core (T x)) = map_option frozen (map_option core (thrs s x))"
      using kc [of x] t by (auto simp: kcore_def frozen_def core_def)
    moreover have "map_option frozen (map_option core y) = map_option frozen y" for y
      by (cases y) (simp_all add: frozen_def core_def)
    ultimately show "map_option frozen (T x) = map_option frozen (thrs s x)" by simp
  qed
  moreover have "kinv ?s' ?Q"
    unfolding kinv_def
  proof (intro conjI allI impI)
    fix m x assume "mtxs ?s' m = Some x"
    then show "mutex_ok ?Q m x" using K(3) [of m x] by (simp add: mutex_ok_def)
  next
    show "main_ok ?s' ?Q"
    proof (rule main_ok_frame [OF K(4)])
      show "\<not> queued ?Q (kthread_main s)" using K(4) a(3) by (auto simp: main_ok_def queued_def split: if_splits)
      show "nxt ?s' (kthread_main s) = NULL" using K(4) a(3) same by (auto simp: main_ok_def nxt_def)
      show "dom (thrs ?s') = dom (thrs s)" using sched_frameD(5) [OF \<open>sched_frame s ?s'\<close>] .
    qed simp
  qed (use Q' place in blast)+
  moreover have "\<forall>x. x \<noteq> a \<longrightarrow> \<not> queued Q x \<longrightarrow> nxt ?s' x = nxt s x" using same by (simp add: nxt_def)
  ultimately show ?thesis using s' inf by auto
qed


lemma kinv_set_current:
  assumes "kinv s Q"
  shows "kinv (s\<lparr>kthread_current := C\<rparr>) Q"
proof -
  note K = kinvD [OF assms]
  let ?s' = "s\<lparr>kthread_current := C\<rparr>"
  have n: "nxt ?s' = nxt s" by (rule nxt_thrs) simp
  have i: "info ?s' = info s" by (simp add: info_def fun_eq_iff)
  have "queues ?s' Q"
    by (rule queues_frame [OF K(1)]) (simp_all add: n q_ends_eq [of ?s' s])
  moreover have "place_ok ?s' q x" if "x \<in> set (Q q)" for q x
    using K(2) [OF that] i by (cases q) auto
  ultimately show ?thesis using K n by (simp add: kinv_def main_ok_def)
qed

lemma kinv_upd_state:
  assumes I: "kinv s Q" and t: "thrs s a = Some t" and a: "\<not> queued Q a"
    and f: "next_thr (f t) = next_thr t"
  shows "kinv (s\<lparr>thrs := (thrs s)(a \<mapsto> f t)\<rparr>) Q"
proof -
  note K = kinvD [OF I]
  let ?s' = "s\<lparr>thrs := (thrs s)(a \<mapsto> f t)\<rparr>"
  have n: "nxt ?s' = nxt s" using t f by (auto simp: nxt_def fun_eq_iff)
  have d: "dom (thrs ?s') = dom (thrs s)" using t by auto
  have "queues ?s' Q"
    by (rule queues_frame [OF K(1)]) (use n d in \<open>simp_all add: q_ends_eq [of ?s' s]\<close>)
  moreover have "place_ok ?s' q x" if "x \<in> set (Q q)" for q x
  proof -
    have "info ?s' x = info s x" using that a by (auto simp: info_def queued_def)
    then show ?thesis using K(2) [OF that] by (cases q) auto
  qed
  ultimately show ?thesis using K n d unfolding kinv_def main_ok_def by simp
qed

lemma kscheduler_dequeue_kinv:
  assumes I: "kinv s Q" and q: "Q QReady = a # xs"
  shows "\<exists>s'. kscheduler_dequeue s = Some (a, s') \<and> kinv s' (Q(QReady := xs)) \<and> sched_frame s s'
    \<and> kthread_current s' = kthread_current s \<and> \<not> queued (Q(QReady := xs)) a \<and> nxt s' a = NULL
    \<and> info s' a = Some (READY, NULL) \<and> a \<noteq> kthread_main s
    \<and> (\<forall>x. x \<noteq> a \<longrightarrow> info s' x = info s x \<and> nxt s' x = nxt s x)"
proof -
  note K = kinvD [OF I]
  let ?Q = "Q(QReady := xs)"
  obtain T H L t where t: "thrs s a = Some t"
    and s': "kscheduler_dequeue s = Some (a, s\<lparr>thrs := T, kscheduler_head := H, kscheduler_tail := L\<rparr>)"
    and Q': "queues (s\<lparr>thrs := T, kscheduler_head := H, kscheduler_tail := L\<rparr>) ?Q"
    and T: "T = (thrs s)(a \<mapsto> t\<lparr>next_thr := NULL, waiting_on := NULL\<rparr>)"
    using kscheduler_dequeue_queues [OF K(1) q] by blast
  let ?s' = "s\<lparr>thrs := T, kscheduler_head := H, kscheduler_tail := L\<rparr>"
  have st: "state t = READY" using K(2) [of a QReady] q t by (auto simp: info_def)
  have inf: "info ?s' x = (if x = a then Some (READY, NULL) else info s x)" for x
    using T st by (auto simp: info_def)
  have nx: "nxt ?s' x = (if x = a then NULL else nxt s x)" for x using T by (simp add: nxt_def)
  have dis: "distinct (Q QReady)" using queuesD(1) [OF K(1), of QReady] by (auto simp: is_queue_def)
  have nq: "\<not> queued ?Q a"
  proof
    assume "queued ?Q a"
    then obtain r where r: "a \<in> set (?Q r)" by (auto simp: queued_def)
    then have "r \<noteq> QReady" using dis q by auto
    then have "a \<in> set (Q r)" using r by simp
    then have "QReady = r" using queuesD(4) [OF K(1), of a QReady r] q by simp
    then show False using \<open>r \<noteq> QReady\<close> by simp
  qed
  have am: "a \<noteq> kthread_main s" using K(4) q by (auto simp: main_ok_def queued_def) (metis list.set_intros(1))
  have sf: "sched_frame s ?s'"
    unfolding sched_frame_def
    by (intro exI [of _ T] exI [of _ H] exI [of _ L] exI [of _ "kthread_current s"]) (simp add: T t frozen_def)
  moreover have "kinv ?s' ?Q"
    unfolding kinv_def
  proof (intro conjI allI impI)
    fix r x assume x: "x \<in> set (?Q r)"
    then have "x \<noteq> a" using nq by (auto simp: queued_def)
    moreover have "x \<in> set (Q r)" using x q by (auto split: if_splits)
    then have "place_ok s r x" by (rule K(2))
    ultimately show "place_ok ?s' r x" using inf by (cases r) auto
  next
    fix m x assume "mtxs ?s' m = Some x"
    then show "mutex_ok ?Q m x" using K(3) [of m x] by (simp add: mutex_ok_def)
  next
    show "main_ok ?s' ?Q"
    proof (rule main_ok_frame [OF K(4)])
      show "\<not> queued ?Q (kthread_main s)" using K(4) q by (auto simp: main_ok_def queued_def split: if_splits) (metis list.set_intros(2))
      show "nxt ?s' (kthread_main s) = NULL" using K(4) nx by (simp add: main_ok_def)
      show "dom (thrs ?s') = dom (thrs s)" using sched_frameD(5) [OF sf] .
    qed simp
  qed (use Q' in blast)
  ultimately show ?thesis using s' inf nx nq am by auto
qed

text \<open>
  Dispatching: the current thread, unless it blocked, exited or is the idle thread, goes to the
  back of the ready queue; the front of the queue, or the idle thread, runs.
\<close>

definition requeued :: "'a kstate_scheme \<Rightarrow> (qid \<Rightarrow> addr list) \<Rightarrow> addr list" where
  "requeued s Q = (if kthread_current s \<noteq> NULL \<and> map_option fst (info s (kthread_current s)) \<noteq> Some BLOCKED
      \<and> kthread_current s \<noteq> kthread_main s then Q QReady @ [kthread_current s] else Q QReady)"

lemma kthread_dispatch_kinv:
  assumes I: "kinv s Q" and cur: "kthread_current s \<noteq> NULL \<Longrightarrow> kthread_current s \<in> dom (thrs s)"
    and push: "kthread_current s \<noteq> NULL \<Longrightarrow> map_option fst (info s (kthread_current s)) \<noteq> Some BLOCKED \<Longrightarrow>
      \<not> queued Q (kthread_current s)"
  shows "\<exists>s'. kthread_dispatch s = Some s' \<and> kinv s' (Q(QReady := tl (requeued s Q)))
    \<and> running s' (Q(QReady := tl (requeued s Q))) \<and> sched_frame s s'
    \<and> kthread_current s' = (if requeued s Q = [] then kthread_main s else hd (requeued s Q))"
proof -
  let ?c = "kthread_current s" and ?R = "requeued s Q"
  have fst: "\<exists>s1. (if ?c \<noteq> NULL then do { t \<leftarrow> thrs s ?c;
        if state t \<noteq> BLOCKED \<and> ?c \<noteq> kthread_main s then kscheduler_enqueue ?c s else Some s } else Some s) = Some s1
      \<and> kinv s1 (Q(QReady := ?R)) \<and> sched_frame s s1"
  proof (cases "?c \<noteq> NULL \<and> map_option fst (info s ?c) \<noteq> Some BLOCKED \<and> ?c \<noteq> kthread_main s")
    case True
    then obtain t where t: "thrs s ?c = Some t" using cur by auto
    then have "state t \<noteq> BLOCKED" using True by (auto simp: info_def)
    moreover obtain s1 where "kscheduler_enqueue ?c s = Some s1" "kinv s1 (Q(QReady := Q QReady @ [?c]))" "sched_frame s s1"
      using kscheduler_enqueue_kinv [OF I, of ?c] push cur True by auto
    moreover have "?R = Q QReady @ [?c]" using True by (simp add: requeued_def)
    ultimately show ?thesis using True t by simp
  next
    case False
    then have R: "?R = Q QReady" by (auto simp: requeued_def)
    have "(if ?c \<noteq> NULL then do { t \<leftarrow> thrs s ?c;
        if state t \<noteq> BLOCKED \<and> ?c \<noteq> kthread_main s then kscheduler_enqueue ?c s else Some s } else Some s) = Some s"
      using False cur by (auto simp: info_def)
    then show ?thesis using R I sched_frame_refl [of s] by (simp add: fun_upd_idem)
  qed
  then obtain s1 where s1: "(if ?c \<noteq> NULL then do { t \<leftarrow> thrs s ?c;
        if state t \<noteq> BLOCKED \<and> ?c \<noteq> kthread_main s then kscheduler_enqueue ?c s else Some s } else Some s) = Some s1"
      "kinv s1 (Q(QReady := ?R))" "sched_frame s s1" by blast
  have main: "kthread_main s1 = kthread_main s" using sched_frameD [OF s1(3)] by simp
  let ?Q = "Q(QReady := tl ?R)"
  let ?n = "if ?R = [] then kthread_main s else hd ?R"
  have "\<exists>a s2. kscheduler_dequeue s1 = Some (a, s2) \<and> (if a = NULL then kthread_main s2 else a) = ?n
      \<and> kinv s2 ?Q \<and> sched_frame s1 s2 \<and> \<not> queued ?Q ?n \<and> nxt s2 ?n = NULL \<and> ?n \<in> dom (thrs s2)"
  proof (cases ?R)
    case Nil
    have "kscheduler_dequeue s1 = Some (NULL, s1)"
      using kscheduler_dequeue_empty [OF kinvD(1) [OF s1(2)]] Nil by simp
    then show ?thesis
      using Nil s1(2) kinvD(4) [OF s1(2)] main sched_frame_refl [of s1] by (auto simp: main_ok_def)
  next
    case (Cons a xs)
    have q: "(Q(QReady := ?R)) QReady = a # xs" using Cons by simp
    obtain s2 where s2: "kscheduler_dequeue s1 = Some (a, s2)" "kinv s2 (Q(QReady := xs))" "sched_frame s1 s2"
      "\<not> queued (Q(QReady := xs)) a" "nxt s2 a = NULL" "info s2 a = Some (READY, NULL)"
      using kscheduler_dequeue_kinv [OF s1(2) q] unfolding fun_upd_upd by blast
    have "a \<in> dom (thrs s2)" using s2(6) by (auto simp: info_def)
    moreover from this have "a \<noteq> NULL" using queuesD(5) [OF kinvD(1) [OF s2(2)]] by auto
    ultimately show ?thesis using s2 Cons by auto
  qed
  then obtain a s2 where s2: "kscheduler_dequeue s1 = Some (a, s2)" "(if a = NULL then kthread_main s2 else a) = ?n"
    "kinv s2 ?Q" "sched_frame s1 s2" "\<not> queued ?Q ?n" "nxt s2 ?n = NULL" "?n \<in> dom (thrs s2)" by blast
  obtain t where t: "thrs s2 ?n = Some t" using s2(7) by auto
  define s3 where "s3 = s2\<lparr>kthread_current := ?n\<rparr>"
  define s' where "s' = s3\<lparr>thrs := (thrs s3)(?n \<mapsto> t\<lparr>state := RUNNING\<rparr>)\<rparr>"
  have t3: "thrs s3 ?n = Some t" using t by (simp add: s3_def)
  have "kinv s3 ?Q" unfolding s3_def by (rule kinv_set_current [OF s2(3)])
  then have "kinv s' ?Q" unfolding s'_def
    using kinv_upd_state [of s3 ?Q ?n t "\<lambda>t. t\<lparr>state := RUNNING\<rparr>"] t3 s2(5) by simp
  moreover have "running s' ?Q"
    using s2(5,6) t by (auto simp: running_def s'_def s3_def info_def nxt_def)
  moreover have "sched_frame s s'"
  proof -
    have "sched_frame s2 s'" unfolding s'_def s3_def using sched_frame_run [OF t] by simp
    then show ?thesis using sched_frame_trans [OF sched_frame_trans [OF s1(3) s2(4)]] by blast
  qed
  moreover have "kthread_dispatch s = Some s'"
    unfolding kthread_dispatch_def Let_def s1(1)
    using s2(1,2) t3 by (simp add: upd_thr_def s3_def s'_def del: not_None_eq)
  moreover have "kthread_current s' = ?n" by (simp add: s'_def s3_def)
  ultimately show ?thesis by blast
qed

end
