(* ===== verification/Sync_Inv.thy ===== *)
theory Sync_Inv
  imports Kernel_Inv
begin

text \<open>
  Mutexes and conditions keep the kernel invariant: what locking, unlocking, waiting and signalling
  do to the queues.
\<close>

section \<open>Locking\<close>

text \<open>\<open>idle s Q a\<close>: \<open>a\<close> is a live thread that may be put in a queue.\<close>

definition idle :: "'a kstate_scheme \<Rightarrow> (qid \<Rightarrow> addr list) \<Rightarrow> addr \<Rightarrow> bool" where
  "idle s Q a \<longleftrightarrow> \<not> queued Q a \<and> a \<in> dom (thrs s) \<and> a \<noteq> kthread_main s \<and> nxt s a = NULL"

definition blocked_on :: "addr \<Rightarrow> addr \<Rightarrow> 'a kstate_scheme \<Rightarrow> 'a kstate_scheme" where
  "blocked_on m a s = s\<lparr>thrs := (thrs s)(a \<mapsto> (the (thrs s a))\<lparr>state := BLOCKED, waiting_on := m\<rparr>)\<rparr>"

lemma blocked_on_thr:
  assumes "a \<in> dom (thrs s)"
  shows "do { s \<leftarrow> upd_thr a (\<lambda>t. t\<lparr>state := BLOCKED\<rparr>) s; s \<leftarrow> upd_thr a (\<lambda>t. t\<lparr>waiting_on := m\<rparr>) s; f s }
    = f (blocked_on m a s)"
  using assms by (auto simp: blocked_on_def kernel_simps)

lemma blocked_on_simps [kernel_simps]:
  "mtxs (blocked_on m a s) = mtxs s" "cnds (blocked_on m a s) = cnds s"
  "kscheduler_head (blocked_on m a s) = kscheduler_head s" "kscheduler_tail (blocked_on m a s) = kscheduler_tail s"
  "kthread_main (blocked_on m a s) = kthread_main s" "kthread_current (blocked_on m a s) = kthread_current s"
  "kheap (blocked_on m a s) = kheap s"
  by (simp_all add: blocked_on_def)

lemma blocked_on_info:
  assumes "a \<in> dom (thrs s)"
  shows "info (blocked_on m a s) x = (if x = a then Some (BLOCKED, m) else info s x)"
    "nxt (blocked_on m a s) = nxt s" "dom (thrs (blocked_on m a s)) = dom (thrs s)"
  using assms by (auto simp: info_def blocked_on_def nxt_def fun_eq_iff)

lemma kinv_blocked_on:
  assumes "kinv s Q" and "\<not> queued Q a" "a \<in> dom (thrs s)"
  shows "kinv (blocked_on m a s) Q"
proof -
  obtain t where t: "thrs s a = Some t" using assms(3) by auto
  show ?thesis
    using kinv_upd_state [OF assms(1) t assms(2), of "\<lambda>t. t\<lparr>state := BLOCKED, waiting_on := m\<rparr>"] t
    by (simp add: blocked_on_def)
qed

text \<open>Linking a blocked thread at the back of a queue other than the ready queue.\<close>

lemma kinv_link:
  assumes I: "kinv s Q" and a: "idle s Q a" "place_ok s q a"
    and q: "q \<noteq> QReady" "q_ends s q = Some (h, t)"
    and T: "T = (if h = NULL then thrs s else (thrs s)(t \<mapsto> (the (thrs s t))\<lparr>next_thr := a\<rparr>))"
    and ends: "q_ends s' q = Some (if h = NULL then a else h, a)" "\<And>r. r \<noteq> q \<Longrightarrow> q_ends s' r = q_ends s r"
    and s': "thrs s' = T" "kthread_main s' = kthread_main s" "dom (mtxs s') = dom (mtxs s)"
    and own: "\<forall>m x. mtxs s' m = Some x \<longrightarrow> mutex_ok (Q(q := Q q @ [a])) m x"
  shows "kinv s' (Q(q := Q q @ [a])) \<and> (\<forall>x. info s' x = info s x) \<and> dom (thrs s') = dom (thrs s)
    \<and> (\<forall>x. x \<noteq> a \<longrightarrow> \<not> queued Q x \<longrightarrow> nxt s' x = nxt s x)"
proof -
  note K = kinvD [OF I]
  let ?Q = "Q(q := Q q @ [a])"
  have A: "\<not> queued Q a" "a \<in> dom (thrs s)" "a \<noteq> kthread_main s" "nxt s a = NULL" using a(1) by (auto simp: idle_def)
  have tail: "t \<in> set (Q q)" "\<exists>th. thrs s t = Some th" if "h \<noteq> NULL"
    using tail_thread [OF K(1) q(2) that] by auto
  have inf: "info s' x = info s x" for x using T s'(1) tail by (auto simp: info_def)
  have dom: "dom (thrs s') = dom (thrs s)" using T s'(1) tail by auto
  have nx: "nxt s' = (if h = NULL then nxt s else (nxt s)(t := a))"
    using T s'(1) tail by (auto simp: nxt_def fun_eq_iff)
  have same: "nxt s' x = nxt s x" if "x \<noteq> a" "\<not> queued Q x" for x
    using nx tail that by (auto simp: queued_def)
  have "queues s' ?Q"
    by (rule queues_push [OF K(1) A(1,2,4) q(2) ends nx dom])
  moreover have "place_ok s' r x" if "x \<in> set (?Q r)" for r x
  proof -
    have "place_ok s r x"
    proof (cases "r = q \<and> x = a")
      case True then show ?thesis using a(2) by simp
    next
      case False
      then have "x \<in> set (Q r)" using that by (auto split: if_splits)
      then show ?thesis by (rule K(2))
    qed
    moreover have "mtxs s m \<noteq> None \<Longrightarrow> mtxs s' m \<noteq> None" for m using s'(3) by (metis domIff)
    ultimately show ?thesis using inf by (cases r) auto
  qed
  moreover have "main_ok s' ?Q"
  proof (rule main_ok_frame [OF K(4) s'(2) dom])
    show "nxt s' (kthread_main s) = NULL" using same [of "kthread_main s"] K(4) A(3) by (simp add: main_ok_def)
    show "\<not> queued ?Q (kthread_main s)" using K(4) A(3) by (auto simp: main_ok_def queued_def split: if_splits)
  qed
  ultimately show ?thesis using own inf dom same by (simp add: kinv_def)
qed

lemma kinv_upd_mtx:
  assumes I: "kinv s Q" and x: "mtxs s m = Some x" and same: "mq_head y = mq_head x" "mq_tail y = mq_tail x"
    and ok: "mutex_ok Q m y"
  shows "kinv (s\<lparr>mtxs := (mtxs s)(m \<mapsto> y)\<rparr>) Q"
proof -
  note K = kinvD [OF I]
  let ?s' = "s\<lparr>mtxs := (mtxs s)(m \<mapsto> y)\<rparr>"
  have n: "nxt ?s' = nxt s" by (rule nxt_thrs) simp
  have i: "info ?s' = info s" by (simp add: info_def fun_eq_iff)
  have "q_ends ?s' q = q_ends s q" for q using x same by (cases q) auto
  then have "queues ?s' Q"
    by (intro queues_frame [OF K(1)]) (simp_all add: n)
  moreover have "place_ok ?s' q z" if "z \<in> set (Q q)" for q z
    using K(2) [OF that] i by (cases q) auto
  moreover have "mutex_ok Q k z" if "mtxs ?s' k = Some z" for k z
    using K(3) [of k z] ok that by (auto split: if_splits)
  ultimately show ?thesis using K(4) n by (simp add: kinv_def main_ok_def)
qed

lemma kmutex_lock_free:
  assumes "kinv s Q" and x: "mtxs s m = Some x" "owner x = NULL" and a: "a \<noteq> NULL"
  shows "kmutex_lock m a s = Some (s\<lparr>mtxs := (mtxs s)(m \<mapsto> x\<lparr>owner := a, lock_count := 1\<rparr>)\<rparr>)"
    and "kinv (s\<lparr>mtxs := (mtxs s)(m \<mapsto> x\<lparr>owner := a, lock_count := 1\<rparr>)\<rparr>) Q"
proof -
  show "kmutex_lock m a s = Some (s\<lparr>mtxs := (mtxs s)(m \<mapsto> x\<lparr>owner := a, lock_count := 1\<rparr>)\<rparr>)"
    using x by (simp add: kmutex_lock_def kernel_simps)
  have "Q (QMutex m) = []" using kinvD(3) [OF assms(1) x(1)] x(2) by (simp add: mutex_ok_def)
  then show "kinv (s\<lparr>mtxs := (mtxs s)(m \<mapsto> x\<lparr>owner := a, lock_count := 1\<rparr>)\<rparr>) Q"
    using a by (intro kinv_upd_mtx [OF assms(1) x(1)]) (simp_all add: mutex_ok_def)
qed

lemma kmutex_lock_again:
  assumes "kinv s Q" and x: "mtxs s m = Some x" "owner x = a" and a: "a \<noteq> NULL"
  shows "\<exists>y. kmutex_lock m a s = Some (s\<lparr>mtxs := (mtxs s)(m \<mapsto> y)\<rparr>) \<and> kinv (s\<lparr>mtxs := (mtxs s)(m \<mapsto> y)\<rparr>) Q
    \<and> y = (if recursive x then x\<lparr>lock_count := lock_count x + 1\<rparr> else x)"
proof -
  let ?y = "if recursive x then x\<lparr>lock_count := lock_count x + 1\<rparr> else x"
  have "kmutex_lock m a s = Some (s\<lparr>mtxs := (mtxs s)(m \<mapsto> ?y)\<rparr>)"
    using x a by (simp add: kmutex_lock_def kernel_simps fun_upd_idem)
  moreover have "kinv (s\<lparr>mtxs := (mtxs s)(m \<mapsto> ?y)\<rparr>) Q"
    using kinvD(3) [OF assms(1) x(1)]
    by (intro kinv_upd_mtx [OF assms(1) x(1)]) (simp_all add: mutex_ok_def)
  ultimately show ?thesis by blast
qed

lemma kmutex_lock_block:
  assumes I: "kinv s Q" and x: "mtxs s m = Some x" "owner x \<noteq> NULL" "owner x \<noteq> a" and a: "idle s Q a"
  shows "\<exists>s'. kmutex_lock m a s = Some s' \<and> kinv s' (Q(QMutex m := Q (QMutex m) @ [a]))
    \<and> (\<forall>y. info s' y = (if y = a then Some (BLOCKED, m) else info s y)) \<and> dom (thrs s') = dom (thrs s)
    \<and> dom (mtxs s') = dom (mtxs s) \<and> cnds s' = cnds s \<and> kthread_main s' = kthread_main s
    \<and> kthread_current s' = kthread_current s
    \<and> (\<forall>y. y \<noteq> a \<longrightarrow> \<not> queued Q y \<longrightarrow> nxt s' y = nxt s y)
    \<and> (\<exists>y. mtxs s' m = Some y \<and> owner y = owner x)"
proof -
  let ?s1 = "blocked_on m a s"
  have A: "\<not> queued Q a" "a \<in> dom (thrs s)" "a \<noteq> kthread_main s" "nxt s a = NULL" using a by (auto simp: idle_def)
  note B = blocked_on_info [OF A(2), of m]
  have I1: "kinv ?s1 Q" by (rule kinv_blocked_on [OF I A(1,2)])
  have x1: "mtxs ?s1 m = Some x" using x(1) by (simp add: kernel_simps)
  let ?h = "mq_head x" and ?t = "mq_tail x"
  define y where "y = x\<lparr>mq_head := (if ?h = NULL then a else ?h), mq_tail := a\<rparr>"
  define T where "T = (if ?h = NULL then thrs ?s1 else (thrs ?s1)(?t \<mapsto> (the (thrs ?s1 ?t))\<lparr>next_thr := a\<rparr>))"
  define s' where "s' = ?s1\<lparr>thrs := T, mtxs := (mtxs ?s1)(m \<mapsto> y)\<rparr>"
  have e1: "q_ends ?s1 (QMutex m) = Some (?h, ?t)" using x1 by simp
  have "\<exists>th. thrs ?s1 ?t = Some th" if "?h \<noteq> NULL"
    using tail_thread(2) [OF kinvD(1) [OF I1] e1 that] .
  then have step: "kmutex_lock m a s = Some s'"
    using x x1 unfolding kmutex_lock_def
    by (auto simp: blocked_on_thr [OF A(2)] kernel_simps s'_def T_def y_def)
  have "kinv s' (Q(QMutex m := Q (QMutex m) @ [a])) \<and> (\<forall>x. info s' x = info ?s1 x) \<and> dom (thrs s') = dom (thrs ?s1)
    \<and> (\<forall>x. x \<noteq> a \<longrightarrow> \<not> queued Q x \<longrightarrow> nxt s' x = nxt ?s1 x)"
  proof (rule kinv_link [OF I1 _ _ _ e1 T_def])
    show "idle ?s1 Q a" using A B by (simp add: idle_def kernel_simps)
    show "place_ok ?s1 (QMutex m) a" using B by simp
    show "q_ends s' (QMutex m) = Some (if ?h = NULL then a else ?h, a)" by (simp add: s'_def y_def)
    show "q_ends s' r = q_ends ?s1 r" if "r \<noteq> QMutex m" for r
      using that by (cases r) (auto simp: s'_def)
    show "dom (mtxs s') = dom (mtxs ?s1)" using x1 by (auto simp: s'_def)
    show "\<forall>k z. mtxs s' k = Some z \<longrightarrow> mutex_ok (Q(QMutex m := Q (QMutex m) @ [a])) k z"
    proof (intro allI impI)
      fix k z assume k: "mtxs s' k = Some z"
      show "mutex_ok (Q(QMutex m := Q (QMutex m) @ [a])) k z"
      proof (cases "k = m")
        case True
        then have "owner z = owner x" using k by (auto simp: s'_def y_def)
        then show ?thesis using True x kinvD(3) [OF I x(1)] by (simp add: mutex_ok_def)
      next
        case False
        then have "mtxs s k = Some z" using k by (simp add: s'_def kernel_simps)
        then show ?thesis using False kinvD(3) [OF I, of k z] by (simp add: mutex_ok_def)
      qed
    qed
  qed (simp_all add: s'_def)
  moreover have "mtxs s' m = Some y" "owner y = owner x" by (simp_all add: s'_def y_def)
  moreover have "dom (mtxs s') = dom (mtxs s)" "cnds s' = cnds s" "kthread_main s' = kthread_main s"
    "kthread_current s' = kthread_current s" using x by (auto simp: s'_def kernel_simps)
  ultimately show ?thesis using step B by auto
qed


section \<open>Unlocking\<close>

text \<open>Taking the front thread of a mutex or condition queue, without touching the thread.\<close>

lemma kinv_unlink:
  assumes I: "kinv s Q" and qx: "Q q = a # xs"
    and q: "q \<noteq> QReady" "q_ends s q = Some (h, t)"
    and ends: "q_ends s' q = Some (nxt s a, if nxt s a = NULL then NULL else t)" "\<And>r. r \<noteq> q \<Longrightarrow> q_ends s' r = q_ends s r"
    and s': "thrs s' = thrs s" "kthread_main s' = kthread_main s" "dom (mtxs s') = dom (mtxs s)"
    and own: "\<forall>m x. mtxs s' m = Some x \<longrightarrow> mutex_ok (Q(q := xs)) m x"
  shows "kinv s' (Q(q := xs))" and "\<not> queued (Q(q := xs)) a" and "a \<in> dom (thrs s)" and "a \<noteq> kthread_main s"
proof -
  note K = kinvD [OF I]
  let ?Q = "Q(q := xs)"
  have dis: "distinct (Q q)" using queuesD(1) [OF K(1) q(2)] by (simp add: is_queue_def)
  show nq: "\<not> queued ?Q a"
  proof
    assume "queued ?Q a"
    then obtain r where r: "a \<in> set (?Q r)" by (auto simp: queued_def)
    then have "r \<noteq> q" using dis qx by auto
    then have "a \<in> set (Q r)" using r by simp
    then have "q = r" using queuesD(4) [OF K(1), of a q r] qx by simp
    then show False using \<open>r \<noteq> q\<close> by simp
  qed
  show "a \<in> dom (thrs s)" using queuesD(3) [OF K(1), of a q] qx by simp
  have "a \<in> set (Q q)" using qx by simp
  then show "a \<noteq> kthread_main s" using K(4) unfolding main_ok_def queued_def by blast
  have n: "nxt s' = nxt s" by (rule nxt_thrs [OF s'(1)])
  have i: "info s' = info s" using s'(1) by (simp add: info_def fun_eq_iff)
  have "queues s' ?Q"
    by (rule queues_pop [OF K(1) q(2) qx ends]) (simp_all add: n s'(1))
  moreover have sub: "x \<in> set (Q r)" if "x \<in> set (?Q r)" for r x using that qx by (auto split: if_splits)
  moreover have "place_ok s' r x" if "x \<in> set (?Q r)" for r x
  proof -
    have "place_ok s r x" using sub [OF that] by (rule K(2))
    moreover have "mtxs s m \<noteq> None \<Longrightarrow> mtxs s' m \<noteq> None" for m using s'(3) by (metis domIff)
    ultimately show ?thesis using i by (cases r) auto
  qed
  moreover have "main_ok s' ?Q"
  proof (rule main_ok_frame [OF K(4) s'(2)])
    show "dom (thrs s') = dom (thrs s)" by (simp add: s'(1))
    show "nxt s' (kthread_main s) = NULL" using K(4) n by (simp add: main_ok_def)
    show "\<not> queued ?Q (kthread_main s)" using K(4) sub unfolding main_ok_def queued_def by blast
  qed
  ultimately show "kinv s' ?Q" using own by (simp add: kinv_def)
qed

definition unlocked :: "kmutex \<Rightarrow> bool" where
  "unlocked x \<longleftrightarrow> \<not> (recursive x \<and> lock_count x - 1 > 0)"

lemma kmutex_unlock_other:
  "mtxs s m = Some x \<Longrightarrow> owner x \<noteq> a \<Longrightarrow> kmutex_unlock m a s = Some (STATUS_ERROR, s)"
  by (simp add: kmutex_unlock_def)

lemma kmutex_unlock_keep:
  assumes I: "kinv s Q" and x: "mtxs s m = Some x" "owner x = a" "\<not> unlocked x" and a: "a \<noteq> NULL"
  shows "kmutex_unlock m a s = Some (STATUS_SUCCESS, s\<lparr>mtxs := (mtxs s)(m \<mapsto> x\<lparr>lock_count := lock_count x - 1\<rparr>)\<rparr>)"
    and "kinv (s\<lparr>mtxs := (mtxs s)(m \<mapsto> x\<lparr>lock_count := lock_count x - 1\<rparr>)\<rparr>) Q"
proof -
  show "kmutex_unlock m a s = Some (STATUS_SUCCESS, s\<lparr>mtxs := (mtxs s)(m \<mapsto> x\<lparr>lock_count := lock_count x - 1\<rparr>)\<rparr>)"
    using x by (simp add: kmutex_unlock_def kernel_simps unlocked_def)
  show "kinv (s\<lparr>mtxs := (mtxs s)(m \<mapsto> x\<lparr>lock_count := lock_count x - 1\<rparr>)\<rparr>) Q"
    using kinvD(3) [OF I x(1)] by (intro kinv_upd_mtx [OF I x(1)]) (simp_all add: mutex_ok_def)
qed

lemma kmutex_unlock_release:
  assumes I: "kinv s Q" and x: "mtxs s m = Some x" "owner x = a" "unlocked x" and q: "Q (QMutex m) = []"
  shows "kmutex_unlock m a s = Some (STATUS_SUCCESS, s\<lparr>mtxs := (mtxs s)(m \<mapsto> x\<lparr>lock_count := lock_count x - 1, owner := NULL\<rparr>)\<rparr>)"
    and "kinv (s\<lparr>mtxs := (mtxs s)(m \<mapsto> x\<lparr>lock_count := lock_count x - 1, owner := NULL\<rparr>)\<rparr>) Q"
proof -
  have "is_queue (nxt s) (mq_head x) (mq_tail x) (Q (QMutex m))"
    using queuesD(1) [OF kinvD(1) [OF I], of "QMutex m"] x(1) by simp
  then have h: "mq_head x = NULL" using q by (simp add: is_queue_empty)
  show "kmutex_unlock m a s = Some (STATUS_SUCCESS, s\<lparr>mtxs := (mtxs s)(m \<mapsto> x\<lparr>lock_count := lock_count x - 1, owner := NULL\<rparr>)\<rparr>)"
    using x h by (auto simp: kmutex_unlock_def kernel_simps unlocked_def)
  show "kinv (s\<lparr>mtxs := (mtxs s)(m \<mapsto> x\<lparr>lock_count := lock_count x - 1, owner := NULL\<rparr>)\<rparr>) Q"
    using q by (intro kinv_upd_mtx [OF I x(1)]) (simp_all add: mutex_ok_def)
qed

lemma kmutex_unlock_handoff:
  assumes I: "kinv s Q" and x: "mtxs s m = Some x" "owner x = a" "unlocked x" and q: "Q (QMutex m) = b # bs"
  shows "\<exists>s'. kmutex_unlock m a s = Some (STATUS_SUCCESS, s') \<and> kinv s' (Q(QMutex m := bs, QReady := Q QReady @ [b]))
    \<and> (\<forall>y. y \<noteq> b \<longrightarrow> info s' y = info s y) \<and> dom (thrs s') = dom (thrs s) \<and> dom (mtxs s') = dom (mtxs s)
    \<and> cnds s' = cnds s \<and> kthread_main s' = kthread_main s \<and> kthread_current s' = kthread_current s
    \<and> (\<forall>y. \<not> queued Q y \<longrightarrow> nxt s' y = nxt s y)
    \<and> (\<exists>y. mtxs s' m = Some y \<and> owner y = b \<and> lock_count y = 1)"
proof -
  note K = kinvD [OF I]
  let ?h = "mq_head x" and ?t = "mq_tail x"
  have e: "q_ends s (QMutex m) = Some (?h, ?t)" using x by simp
  have iq: "is_queue (nxt s) ?h ?t (b # bs)" using queuesD(1) [OF K(1) e] q by simp
  have hb: "?h = b" by (rule is_queue_pop(1) [OF iq])
  obtain t where t: "thrs s b = Some t" using queuesD(3) [OF K(1), of b "QMutex m"] q by auto
  have b0: "b \<noteq> NULL" using t queuesD(5) [OF K(1)] by auto
  have n: "nxt s b = next_thr t" using t by (simp add: nxt_def)
  define y where "y = x\<lparr>lock_count := 1, mq_head := next_thr t, mq_tail := (if next_thr t = NULL then NULL else ?t), owner := b\<rparr>"
  define s1 where "s1 = s\<lparr>mtxs := (mtxs s)(m \<mapsto> y)\<rparr>"
  let ?Q = "Q(QMutex m := bs)"
  have step: "kmutex_unlock m a s = map_option (Pair STATUS_SUCCESS) (kscheduler_enqueue b s1)"
    using x hb b0 t by (auto simp: kmutex_unlock_def kernel_simps unlocked_def s1_def y_def Let_def map_option_case
        split: option.splits)
  have ends: "q_ends s1 (QMutex m) = Some (nxt s b, if nxt s b = NULL then NULL else ?t)"
    by (simp add: s1_def y_def n)
  have oth: "q_ends s1 r = q_ends s r" if "r \<noteq> QMutex m" for r using that by (cases r) (auto simp: s1_def)
  have own: "\<forall>k z. mtxs s1 k = Some z \<longrightarrow> mutex_ok ?Q k z"
  proof (intro allI impI)
    fix k z assume k: "mtxs s1 k = Some z"
    show "mutex_ok ?Q k z"
    proof (cases "k = m")
      case True
      then have "owner z = b" using k by (auto simp: s1_def y_def)
      moreover have "b \<notin> set bs" using iq by (simp add: is_queue_def)
      ultimately show ?thesis using True b0 by (simp add: mutex_ok_def)
    next
      case False
      then have "mtxs s k = Some z" using k by (simp add: s1_def)
      then show ?thesis using False K(3) [of k z] by (simp add: mutex_ok_def)
    qed
  qed
  have dm: "dom (mtxs s1) = dom (mtxs s)" using x by (auto simp: s1_def)
  have ths: "thrs s1 = thrs s" "kthread_main s1 = kthread_main s" by (simp_all add: s1_def)
  note U = kinv_unlink [OF I q _ e ends oth ths dm own, simplified]
  have n1: "nxt s1 = nxt s" by (rule nxt_thrs [OF ths(1)])
  have i1: "info s1 = info s" using ths by (simp add: info_def fun_eq_iff)
  obtain s' where s': "kscheduler_enqueue b s1 = Some s'" "kinv s' (?Q(QReady := ?Q QReady @ [b]))" "sched_frame s1 s'"
      "kthread_current s' = kthread_current s1" "\<forall>x. x \<noteq> b \<longrightarrow> info s' x = info s1 x"
      "\<forall>x. x \<noteq> b \<longrightarrow> \<not> queued ?Q x \<longrightarrow> nxt s' x = nxt s1 x"
    using kscheduler_enqueue_kinv [OF U(1,2)] U(3,4) ths by auto
  note F = sched_frameD [OF s'(3)]
  have "\<forall>y. \<not> queued Q y \<longrightarrow> nxt s' y = nxt s y"
  proof (intro allI impI)
    fix y assume y: "\<not> queued Q y"
    have "y \<noteq> b" "\<not> queued ?Q y" using y q unfolding queued_def
      by (metis list.set_intros(1)) (use y q in \<open>auto simp: queued_def split: if_splits\<close>, metis list.set_intros(2))
    then show "nxt s' y = nxt s y" using s'(6) n1 by simp
  qed
  moreover have "mtxs s' m = Some y" "owner y = b" "lock_count y = 1" using F by (simp_all add: s1_def y_def)
  moreover have "dom (thrs s') = dom (thrs s)" "dom (mtxs s') = dom (mtxs s)" "cnds s' = cnds s"
    "kthread_main s' = kthread_main s" "kthread_current s' = kthread_current s"
    using F dm ths s'(4) by (simp_all add: s1_def)
  ultimately show ?thesis using step s'(1,2,5) i1 by auto
qed

end
