(* ===== verification/Sync_Spec.thy ===== *)
theory Sync_Spec
  imports Sync_Inv
begin

text \<open>
  The abstract effect of the synchronisation operations on the queues, and that the pointer
  operations implement it.
\<close>

section \<open>What the operations do to the queues\<close>

text \<open>The contents of all queues, as a function of what the operations read of the mutex.\<close>

definition unlock_queues :: "kmutex \<Rightarrow> addr \<Rightarrow> addr \<Rightarrow> (qid \<Rightarrow> addr list) \<Rightarrow> qid \<Rightarrow> addr list" where
  "unlock_queues x m a Q =
     (if owner x \<noteq> a \<or> \<not> unlocked x then Q
      else case Q (QMutex m) of [] \<Rightarrow> Q | b # bs \<Rightarrow> Q(QMutex m := bs, QReady := Q QReady @ [b]))"

definition lock_queues :: "kmutex \<Rightarrow> addr \<Rightarrow> addr \<Rightarrow> (qid \<Rightarrow> addr list) \<Rightarrow> qid \<Rightarrow> addr list" where
  "lock_queues x m a Q =
     (if owner x = NULL \<or> owner x = a then Q else Q(QMutex m := Q (QMutex m) @ [a]))"

definition wait_queues :: "kmutex \<Rightarrow> addr \<Rightarrow> addr \<Rightarrow> addr \<Rightarrow> (qid \<Rightarrow> addr list) \<Rightarrow> qid \<Rightarrow> addr list" where
  "wait_queues x c m a Q = unlock_queues x m a (Q(QCond c := Q (QCond c) @ [a]))"

text \<open>What none of the operations changes.\<close>

definition same_objects :: "'a kstate_scheme \<Rightarrow> 'a kstate_scheme \<Rightarrow> bool" where
  "same_objects s s' \<longleftrightarrow> dom (thrs s') = dom (thrs s) \<and> dom (mtxs s') = dom (mtxs s) \<and> dom (cnds s') = dom (cnds s)
     \<and> kthread_main s' = kthread_main s \<and> kthread_current s' = kthread_current s"

lemma same_objects_trans: "same_objects s1 s2 \<Longrightarrow> same_objects s2 s3 \<Longrightarrow> same_objects s1 s3"
  by (simp add: same_objects_def)

lemma same_objects_mtx: "mtxs s m = Some x \<Longrightarrow> same_objects s (s\<lparr>mtxs := (mtxs s)(m \<mapsto> y)\<rparr>)"
  by (auto simp: same_objects_def)

lemma live_thread:
  assumes "kinv s Q" and "x \<in> dom (thrs s)"
  shows "x \<noteq> NULL"
  using queuesD(5) [OF kinvD(1) [OF assms(1)]] assms(2) by auto

lemma kmutex_unlock_kinv:
  assumes I: "kinv s Q" and x: "mtxs s m = Some x" and a: "a \<noteq> NULL"
  shows "\<exists>st s'. kmutex_unlock m a s = Some (st, s') \<and> kinv s' (unlock_queues x m a Q) \<and> same_objects s s'
    \<and> st = (if owner x = a then STATUS_SUCCESS else STATUS_ERROR)
    \<and> (\<forall>y. y \<notin> set (Q (QMutex m)) \<longrightarrow> info s' y = info s y) \<and> (\<forall>y. \<not> queued Q y \<longrightarrow> nxt s' y = nxt s y)"
proof -
  consider (other) "owner x \<noteq> a" | (keep) "owner x = a" "\<not> unlocked x"
    | (free) "owner x = a" "unlocked x" "Q (QMutex m) = []"
    | (handoff) b bs where "owner x = a" "unlocked x" "Q (QMutex m) = b # bs"
    by (cases "Q (QMutex m)") auto
  then show ?thesis
  proof cases
    case other
    then show ?thesis using kmutex_unlock_other [OF x] I
      by (auto simp: unlock_queues_def same_objects_def)
  next
    case keep
    then show ?thesis using kmutex_unlock_keep [OF I x keep a] same_objects_mtx [OF x]
      by (auto simp: unlock_queues_def info_def nxt_def)
  next
    case free
    then show ?thesis using kmutex_unlock_release [OF I x free] same_objects_mtx [OF x]
      by (auto simp: unlock_queues_def info_def nxt_def)
  next
    case handoff
    obtain s' where s': "kmutex_unlock m a s = Some (STATUS_SUCCESS, s')" "kinv s' (Q(QMutex m := bs, QReady := Q QReady @ [b]))"
      "\<forall>y. y \<noteq> b \<longrightarrow> info s' y = info s y" "dom (thrs s') = dom (thrs s)" "dom (mtxs s') = dom (mtxs s)"
      "cnds s' = cnds s" "kthread_main s' = kthread_main s" "kthread_current s' = kthread_current s"
      "\<forall>y. \<not> queued Q y \<longrightarrow> nxt s' y = nxt s y"
      using kmutex_unlock_handoff [OF I x handoff] by blast
    have "\<forall>y. y \<notin> set (Q (QMutex m)) \<longrightarrow> info s' y = info s y" using s'(3) handoff(3) by auto
    moreover have "same_objects s s'" using s'(4-8) by (simp add: same_objects_def)
    ultimately show ?thesis using s'(1,2,9) handoff by (simp add: unlock_queues_def)
  qed
qed

lemma kmutex_lock_kinv:
  assumes I: "kinv s Q" and x: "mtxs s m = Some x" and a: "idle s Q a"
  shows "\<exists>s'. kmutex_lock m a s = Some s' \<and> kinv s' (lock_queues x m a Q) \<and> same_objects s s'
    \<and> info s' a = (if owner x = NULL \<or> owner x = a then info s a else Some (BLOCKED, m))
    \<and> (\<forall>y. y \<noteq> a \<longrightarrow> info s' y = info s y)
    \<and> (\<forall>y. y \<noteq> a \<longrightarrow> \<not> queued Q y \<longrightarrow> nxt s' y = nxt s y)
    \<and> (owner x = NULL \<or> owner x = a \<longrightarrow> thrs s' = thrs s)"
proof -
  have a0: "a \<noteq> NULL" using live_thread [OF I] a by (simp add: idle_def)
  consider (free) "owner x = NULL" | (again) "owner x = a" | (block) "owner x \<noteq> NULL" "owner x \<noteq> a" by blast
  then show ?thesis
  proof cases
    case free
    then show ?thesis using kmutex_lock_free [OF I x free a0] same_objects_mtx [OF x]
      by (auto simp: lock_queues_def info_def nxt_def)
  next
    case again
    then show ?thesis using kmutex_lock_again [OF I x again a0] same_objects_mtx [OF x]
      by (auto simp: lock_queues_def info_def nxt_def)
  next
    case block
    obtain s' where s': "kmutex_lock m a s = Some s'" "kinv s' (Q(QMutex m := Q (QMutex m) @ [a]))"
      "\<forall>y. info s' y = (if y = a then Some (BLOCKED, m) else info s y)" "dom (thrs s') = dom (thrs s)"
      "dom (mtxs s') = dom (mtxs s)" "cnds s' = cnds s" "kthread_main s' = kthread_main s"
      "kthread_current s' = kthread_current s" "\<forall>y. y \<noteq> a \<longrightarrow> \<not> queued Q y \<longrightarrow> nxt s' y = nxt s y"
      using kmutex_lock_block [OF I x block a] by blast
    have "same_objects s s'" using s'(4-8) by (simp add: same_objects_def)
    then show ?thesis using s'(1,2,3,9) block by (auto simp: lock_queues_def)
  qed
qed

section \<open>Waiting and signalling\<close>

lemma kcond_wait_kinv:
  assumes I: "kinv s Q" and c: "cnds s c = Some z" and x: "mtxs s m = Some x" and a: "idle s Q a"
  shows "\<exists>s'. kcond_wait c m a s = Some s' \<and> kinv s' (wait_queues x c m a Q) \<and> same_objects s s'
    \<and> (\<forall>y. y \<noteq> a \<longrightarrow> \<not> queued Q y \<longrightarrow> info s' y = info s y \<and> nxt s' y = nxt s y)
    \<and> info s' a = Some (BLOCKED, m)"
proof -
  let ?s1 = "blocked_on m a s"
  have A: "\<not> queued Q a" "a \<in> dom (thrs s)" "a \<noteq> kthread_main s" "nxt s a = NULL" using a by (auto simp: idle_def)
  have a0: "a \<noteq> NULL" by (rule live_thread [OF I A(2)])
  note B = blocked_on_info [OF A(2), of m]
  have I1: "kinv ?s1 Q" by (rule kinv_blocked_on [OF I A(1,2)])
  have c1: "cnds ?s1 c = Some z" using c by (simp add: kernel_simps)
  let ?h = "cq_head z" and ?t = "cq_tail z"
  define y where "y = z\<lparr>cq_head := (if ?h = NULL then a else ?h), cq_tail := a\<rparr>"
  define T where "T = (if ?h = NULL then thrs ?s1 else (thrs ?s1)(?t \<mapsto> (the (thrs ?s1 ?t))\<lparr>next_thr := a\<rparr>))"
  define s2 where "s2 = ?s1\<lparr>thrs := T, cnds := (cnds ?s1)(c \<mapsto> y)\<rparr>"
  have e1: "q_ends ?s1 (QCond c) = Some (?h, ?t)" using c1 by simp
  have "\<exists>th. thrs ?s1 ?t = Some th" if "?h \<noteq> NULL"
    using tail_thread(2) [OF kinvD(1) [OF I1] e1 that] .
  then have step: "kcond_wait c m a s = map_option snd (kmutex_unlock m a s2)"
    using c c1 unfolding kcond_wait_def
    by (auto simp: blocked_on_thr [OF A(2)] kernel_simps s2_def T_def y_def map_option_case split: option.splits)
  let ?Q = "Q(QCond c := Q (QCond c) @ [a])"
  have L: "kinv s2 ?Q \<and> (\<forall>x. info s2 x = info ?s1 x) \<and> dom (thrs s2) = dom (thrs ?s1)
    \<and> (\<forall>x. x \<noteq> a \<longrightarrow> \<not> queued Q x \<longrightarrow> nxt s2 x = nxt ?s1 x)"
  proof (rule kinv_link [OF I1 _ _ _ e1 T_def])
    show "idle ?s1 Q a" using A B by (simp add: idle_def kernel_simps)
    show "place_ok ?s1 (QCond c) a" using B x by (simp add: kernel_simps)
    show "q_ends s2 (QCond c) = Some (if ?h = NULL then a else ?h, a)" by (simp add: s2_def y_def)
    show "q_ends s2 r = q_ends ?s1 r" if "r \<noteq> QCond c" for r using that by (cases r) (auto simp: s2_def)
    show "\<forall>k z. mtxs s2 k = Some z \<longrightarrow> mutex_ok ?Q k z"
      using kinvD(3) [OF I] by (simp add: s2_def kernel_simps mutex_ok_def)
  qed (simp_all add: s2_def)
  have x2: "mtxs s2 m = Some x" using x by (simp add: s2_def kernel_simps)
  obtain st s' where s': "kmutex_unlock m a s2 = Some (st, s')" "kinv s' (unlock_queues x m a ?Q)" "same_objects s2 s'"
    "\<forall>y. y \<notin> set (?Q (QMutex m)) \<longrightarrow> info s' y = info s2 y" "\<forall>y. \<not> queued ?Q y \<longrightarrow> nxt s' y = nxt s2 y"
    using kmutex_unlock_kinv [OF conjunct1 [OF L] x2 a0] by blast
  have "same_objects s s2" using L B c by (auto simp: same_objects_def s2_def kernel_simps)
  then have "same_objects s s'" by (rule same_objects_trans [OF _ s'(3)])
  moreover have "info s' y = info s y \<and> nxt s' y = nxt s y" if "y \<noteq> a" "\<not> queued Q y" for y
  proof -
    have "\<not> queued ?Q y" using that by (auto simp: queued_def split: if_splits)
    moreover from this have "y \<notin> set (?Q (QMutex m))" unfolding queued_def by blast
    ultimately show ?thesis using s'(4,5) L B that by auto
  qed
  moreover have "info s' a = Some (BLOCKED, m)"
  proof -
    have "a \<notin> set (?Q (QMutex m))" using A(1) by (simp add: queued_def)
    then show ?thesis using s'(4) L B by simp
  qed
  ultimately show ?thesis using step s'(1,2) by (auto simp: wait_queues_def)
qed


text \<open>
  Signalling takes the front waiter \<open>b\<close> out of the condition's queue and makes it lock its mutex. The
  waiter may have to be enqueued for running (\<open>enqueue\<close>, the mutex is free or its own), or it waits for
  the mutex, held by another thread.
\<close>

definition signal_queues :: "bool \<Rightarrow> addr \<Rightarrow> addr \<Rightarrow> (qid \<Rightarrow> addr list) \<Rightarrow> qid \<Rightarrow> addr list" where
  "signal_queues enqueue c m Q = (case Q (QCond c) of [] \<Rightarrow> Q | b # bs \<Rightarrow>
     if enqueue then Q(QCond c := bs, QReady := Q QReady @ [b])
     else Q(QCond c := bs, QMutex m := Q (QMutex m) @ [b]))"

lemma kcond_signal_empty:
  assumes "kinv s Q" and "cnds s c = Some z" and "Q (QCond c) = []"
  shows "kcond_signal c e s = Some s"
proof -
  have "is_queue (nxt s) (cq_head z) (cq_tail z) []"
    using queuesD(1) [OF kinvD(1) [OF assms(1)], of "QCond c"] assms(2,3) by simp
  then show ?thesis using assms(2) by (simp add: kcond_signal_def is_queue_empty)
qed

text \<open>The state after the front waiter has been taken out.\<close>

lemma kcond_signal_unlink:
  assumes I: "kinv s Q" and c: "cnds s c = Some z" and q: "Q (QCond c) = b # bs"
    and m: "info s b = Some (BLOCKED, m)"
  shows "\<exists>s1. kcond_signal c e s = do { s \<leftarrow> kmutex_lock m b s1; if e then kscheduler_enqueue b s else Some s }
    \<and> kinv s1 (Q(QCond c := bs)) \<and> \<not> queued (Q(QCond c := bs)) b
    \<and> b \<in> dom (thrs s1) \<and> b \<noteq> kthread_main s1 \<and> same_objects s s1 \<and> thrs s1 = thrs s \<and> mtxs s1 = mtxs s
    \<and> (bs = [] \<longrightarrow> nxt s1 b = NULL)"
proof -
  note K = kinvD [OF I]
  let ?h = "cq_head z" and ?t = "cq_tail z"
  have e1: "q_ends s (QCond c) = Some (?h, ?t)" using c by simp
  have iq: "is_queue (nxt s) ?h ?t (b # bs)" using queuesD(1) [OF K(1) e1] q by simp
  have hb: "?h = b" by (rule is_queue_pop(1) [OF iq])
  obtain t where t: "thrs s b = Some t" "waiting_on t = m" using m by (auto simp: info_def)
  have b0: "b \<noteq> NULL" using live_thread [OF I] t by auto
  have n: "nxt s b = next_thr t" using t by (simp add: nxt_def)
  define y where "y = z\<lparr>cq_head := next_thr t, cq_tail := (if next_thr t = NULL then NULL else ?t)\<rparr>"
  define s1 where "s1 = s\<lparr>cnds := (cnds s)(c \<mapsto> y)\<rparr>"
  have step: "kcond_signal c e s = do { s \<leftarrow> kmutex_lock m b s1; if e then kscheduler_enqueue b s else Some s }"
    using c hb b0 t by (auto simp: kcond_signal_def kernel_simps Let_def s1_def y_def cong: if_cong)
  have ends: "q_ends s1 (QCond c) = Some (nxt s b, if nxt s b = NULL then NULL else ?t)"
    by (simp add: s1_def y_def n)
  have oth: "q_ends s1 r = q_ends s r" if "r \<noteq> QCond c" for r using that by (cases r) (auto simp: s1_def)
  have own: "\<forall>k x. mtxs s1 k = Some x \<longrightarrow> mutex_ok (Q(QCond c := bs)) k x"
    using K(3) by (simp add: s1_def mutex_ok_def)
  have ths: "thrs s1 = thrs s" "kthread_main s1 = kthread_main s" "dom (mtxs s1) = dom (mtxs s)" by (simp_all add: s1_def)
  note U = kinv_unlink [OF I q _ e1 ends oth ths own, simplified]
  have "same_objects s s1" using c by (auto simp: same_objects_def s1_def)
  moreover have "bs = [] \<longrightarrow> nxt s1 b = NULL"
    using iq nxt_thrs [OF ths(1)] by (auto simp: is_queue_def)
  ultimately show ?thesis using step U ths by (intro exI [of _ s1]) (simp add: s1_def)
qed

lemma kcond_signal_enqueue:
  assumes I: "kinv s Q" and c: "cnds s c = Some z" and q: "Q (QCond c) = b # bs"
    and m: "info s b = Some (BLOCKED, m)" "mtxs s m = Some x" "owner x = NULL \<or> owner x = b"
  shows "\<exists>s'. kcond_signal c True s = Some s' \<and> kinv s' (signal_queues True c m Q) \<and> same_objects s s'
    \<and> (\<forall>y. y \<noteq> b \<longrightarrow> info s' y = info s y) \<and> (\<forall>y. \<not> queued Q y \<longrightarrow> nxt s' y = nxt s y)"
proof -
  let ?Q = "Q(QCond c := bs)"
  obtain s1 where s1: "kcond_signal c True s = do { s \<leftarrow> kmutex_lock m b s1; kscheduler_enqueue b s }"
    "kinv s1 ?Q" "\<not> queued ?Q b" "b \<in> dom (thrs s1)" "b \<noteq> kthread_main s1" "same_objects s s1"
    "thrs s1 = thrs s" "mtxs s1 = mtxs s"
    using kcond_signal_unlink [OF I c q m(1), of True] unfolding if_True by blast
  have b0: "b \<noteq> NULL" by (rule live_thread [OF s1(2,4)])
  have "\<exists>s2. kmutex_lock m b s1 = Some s2 \<and> kinv s2 ?Q \<and> same_objects s1 s2 \<and> thrs s2 = thrs s1"
  proof (cases "owner x = NULL")
    case True
    then show ?thesis using kmutex_lock_free [OF s1(2) _ True b0, of m] m(2) s1(8) same_objects_mtx [of s1 m x] by auto
  next
    case False
    then have "owner x = b" using m(3) by simp
    then show ?thesis using kmutex_lock_again [OF s1(2) _ _ b0, of m x] m(2) s1(8) same_objects_mtx [of s1 m x] by auto
  qed
  then obtain s2 where s2: "kmutex_lock m b s1 = Some s2" "kinv s2 ?Q" "same_objects s1 s2" "thrs s2 = thrs s1" by blast
  have n2: "nxt s2 = nxt s" "info s2 = info s"
    using s2(4) s1(7) by (simp_all add: nxt_def info_def fun_eq_iff)
  obtain s' where s': "kscheduler_enqueue b s2 = Some s'" "kinv s' (?Q(QReady := ?Q QReady @ [b]))" "sched_frame s2 s'"
    "kthread_current s' = kthread_current s2" "\<forall>x. x \<noteq> b \<longrightarrow> info s' x = info s2 x"
    "\<forall>x. x \<noteq> b \<longrightarrow> \<not> queued ?Q x \<longrightarrow> nxt s' x = nxt s2 x"
    using kscheduler_enqueue_kinv [OF s2(2) s1(3)] s1(4,5) s2(3,4) by (auto simp: same_objects_def)
  have "same_objects s2 s'" using sched_frameD [OF s'(3)] s'(4) by (simp add: same_objects_def)
  then have "same_objects s s'" using same_objects_trans s1(6) s2(3) by blast
  moreover have "nxt s' y = nxt s y" if y: "\<not> queued Q y" for y
  proof -
    have "y \<noteq> b" using y q unfolding queued_def by (metis list.set_intros(1))
    moreover have "\<not> queued ?Q y" using y q by (auto simp: queued_def split: if_splits) (metis list.set_intros(2))
    ultimately show ?thesis using s'(6) n2 by simp
  qed
  ultimately show ?thesis using s1(1) s2(1) s'(1,2,5) n2 q by (simp add: signal_queues_def)
qed

lemma kcond_signal_requeue:
  assumes I: "kinv s Q" and c: "cnds s c = Some z" and q: "Q (QCond c) = [b]"
    and m: "info s b = Some (BLOCKED, m)" "mtxs s m = Some x" "owner x \<noteq> NULL" "owner x \<noteq> b"
  shows "\<exists>s'. kcond_signal c False s = Some s' \<and> kinv s' (signal_queues False c m Q) \<and> same_objects s s'
    \<and> (\<forall>y. info s' y = info s y) \<and> (\<forall>y. \<not> queued Q y \<longrightarrow> nxt s' y = nxt s y)"
proof -
  let ?Q = "Q(QCond c := [])"
  obtain s1 where s1: "kcond_signal c False s = do { s \<leftarrow> kmutex_lock m b s1; Some s }"
    "kinv s1 ?Q" "\<not> queued ?Q b" "b \<in> dom (thrs s1)" "b \<noteq> kthread_main s1" "same_objects s s1"
    "thrs s1 = thrs s" "mtxs s1 = mtxs s" "nxt s1 b = NULL"
    using kcond_signal_unlink [OF I c q m(1), of False] unfolding if_False by blast
  have n1: "nxt s1 = nxt s" "info s1 = info s"
    using s1(7) by (simp_all add: nxt_def info_def fun_eq_iff)
  have idle: "idle s1 ?Q b" using s1 by (simp add: idle_def)
  have x1: "mtxs s1 m = Some x" using s1(8) m(2) by simp
  obtain s' where s': "kmutex_lock m b s1 = Some s'" "kinv s' (lock_queues x m b ?Q)" "same_objects s1 s'"
    "info s' b = Some (BLOCKED, m)" "\<forall>y. y \<noteq> b \<longrightarrow> info s' y = info s1 y"
    "\<forall>y. y \<noteq> b \<longrightarrow> \<not> queued ?Q y \<longrightarrow> nxt s' y = nxt s1 y"
    using kmutex_lock_kinv [OF s1(2) x1 idle] m(3,4) by auto
  have "nxt s' y = nxt s y" if y: "\<not> queued Q y" for y
  proof -
    have "y \<noteq> b" using y q unfolding queued_def by (metis list.set_intros(1))
    moreover have "\<not> queued ?Q y" using y by (auto simp: queued_def split: if_splits)
    ultimately show ?thesis using s'(6) n1 by simp
  qed
  moreover have "lock_queues x m b ?Q = signal_queues False c m Q"
    using q m(3,4) by (simp add: lock_queues_def signal_queues_def)
  moreover have "info s' y = info s y" for y using s'(4,5) m(1) n1 by (cases "y = b") auto
  ultimately show ?thesis using s1(1) s'(1,2) same_objects_trans [OF s1(6) s'(3)] by simp
qed

section \<open>Signalling all waiters\<close>

text \<open>Once the first waiter is linked, the loop of \<open>kcond_signal_all\<close> only moves the tail pointer along.\<close>

lemma signal_all_loop_links:
  assumes "mtxs s m = Some x" "owner x \<noteq> NULL" "owner x \<notin> set ws" "mq_head x \<noteq> NULL"
    and "thrs s (mq_tail x) = Some t" "next_thr t = w"
    and "chain (nxt s) w ws NULL" "\<forall>y\<in>set ws. info s y = Some (BLOCKED, m)"
  shows "signal_all_loop w s = Some (s\<lparr>mtxs := (mtxs s)(m \<mapsto> x\<lparr>mq_tail := last (mq_tail x # ws)\<rparr>)\<rparr>)"
  using assms
proof (induction ws arbitrary: s x t w)
  case Nil
  then show ?case by (simp add: signal_all_loop.simps fun_upd_idem)
next
  case (Cons v ws)
  have w: "w = v" "v \<noteq> NULL" "chain (nxt s) (nxt s v) ws NULL" using Cons.prems(7) by auto
  have "info s v = Some (BLOCKED, m)" using Cons.prems(8) by simp
  then obtain tv where tv: "thrs s v = Some tv" "state tv = BLOCKED" "waiting_on tv = m" by (auto simp: info_def)
  have nv: "nxt s v = next_thr tv" using tv by (simp add: nxt_def)
  let ?x = "x\<lparr>mq_tail := v\<rparr>"
  let ?s = "s\<lparr>mtxs := (mtxs s)(m \<mapsto> ?x)\<rparr>"
  have tv': "tv\<lparr>state := BLOCKED\<rparr> = tv" "tv\<lparr>waiting_on := m\<rparr> = tv" using tv(2,3) by auto
  have t': "t\<lparr>next_thr := v\<rparr> = t" using Cons.prems(6) w(1) by auto
  have id: "(thrs s)(v \<mapsto> tv) = thrs s" "(thrs s)(mq_tail x \<mapsto> t) = thrs s"
    using tv(1) Cons.prems(5) by (simp_all add: fun_upd_idem)
  have "kmutex_lock m v s = Some ?s"
    using Cons.prems(1-5) tv(1) by (simp add: kmutex_lock_def kernel_simps tv' id t')
  moreover have "signal_all_loop (next_thr tv) ?s
      = Some (?s\<lparr>mtxs := (mtxs ?s)(m \<mapsto> ?x\<lparr>mq_tail := last (mq_tail ?x # ws)\<rparr>)\<rparr>)"
  proof (rule Cons.IH)
    have n: "nxt ?s = nxt s" by (rule nxt_thrs) simp
    show "chain (nxt ?s) (next_thr tv) ws NULL" using w(3) n nv by simp
    show "\<forall>y\<in>set ws. info ?s y = Some (BLOCKED, m)" using Cons.prems(8) by (simp add: info_def)
  qed (use Cons.prems tv in auto)
  ultimately show ?case
    using tv w by (cases "ws = []") (simp_all add: signal_all_loop.simps [of v s] fun_upd_def cong: if_cong)
qed

lemma is_queue_append:
  assumes "is_queue nx h t xs" "is_queue nx h' t' ys" "ys \<noteq> []" "set xs \<inter> set ys = {}"
  shows "is_queue (if h = NULL then nx else nx(t := h')) (if h = NULL then h' else h) t' (xs @ ys)"
proof (cases xs rule: rev_cases)
  case Nil
  then show ?thesis using assms by (simp add: is_queue_def)
next
  case (snoc zs z)
  have c: "chain nx h zs z" "z \<noteq> NULL" "nx z = NULL" "t = z" and d: "distinct (zs @ [z])"
    using assms(1) snoc by (auto simp: is_queue_def queue_simps)
  have "h \<noteq> NULL" using assms(1) snoc chain_start [of nx h xs] by (auto simp: is_queue_def)
  moreover have "chain (nx(z := h')) h (zs @ [z]) h'"
    using c d by (simp add: queue_simps)
  moreover have "z \<notin> set ys" using assms(4) snoc by auto
  then have "chain (nx(z := h')) h' ys NULL" using assms(2) by (simp add: is_queue_def queue_simps)
  ultimately show ?thesis
    using assms(2-4) c d snoc unfolding is_queue_def by (auto simp: chain_append)
qed

lemma queues_splice:
  assumes Q: "queues s Q"
    and q: "q_ends s q = Some (h, t)" "q_ends s p = Some (h', t')" "q \<noteq> p" "Q p \<noteq> []"
    and new: "q_ends s' q = Some (if h = NULL then h' else h, t')" "q_ends s' p = Some (NULL, NULL)"
    and other: "\<And>r. r \<noteq> q \<Longrightarrow> r \<noteq> p \<Longrightarrow> q_ends s' r = q_ends s r"
    and nx: "nxt s' = (if h = NULL then nxt s else (nxt s)(t := h'))" and dom: "dom (thrs s') = dom (thrs s)"
  shows "queues s' (Q(q := Q q @ Q p, p := []))"
proof -
  note D = queuesD [OF Q]
  let ?Q = "Q(q := Q q @ Q p, p := [])"
  have iq: "is_queue (nxt s) h t (Q q)" "is_queue (nxt s) h' t' (Q p)" using D(1) q(1,2) by auto
  have disj: "set (Q q) \<inter> set (Q p) = {}" using D(4) q(3) by blast
  have tq: "t \<in> set (Q q)" if "h \<noteq> NULL"
    using iq(1) that is_queue_head [OF iq(1)] by (auto simp: is_queue_def)
  have n: "is_queue (nxt s') (if h = NULL then h' else h) t' (Q q @ Q p)"
    using is_queue_append [OF iq q(4) disj] nx by simp
  have old: "is_queue (nxt s') h1 t1 (Q r) = is_queue (nxt s) h1 t1 (Q r)" if "r \<noteq> q" for r h1 t1
  proof (rule is_queue_cong)
    fix x assume "x \<in> set (Q r)"
    then have "x \<notin> set (Q q)" using D(4) that by blast
    then show "nxt s' x = nxt s x" using nx tq by auto
  qed
  show ?thesis
  proof (rule queuesI)
    fix r h1 t1 assume r: "q_ends s' r = Some (h1, t1)"
    show "is_queue (nxt s') h1 t1 (?Q r)"
    proof (cases "r = q \<or> r = p")
      case True
      then show ?thesis using r n new q(3) by (auto simp: is_queue_empty)
    next
      case False
      then show ?thesis using r other D(1) old by auto
    qed
  next
    fix r assume "q_ends s' r = None"
    then show "?Q r = []" using new other D(2) by (cases "r = q \<or> r = p") auto
  next
    fix r x assume "x \<in> set (?Q r)"
    then show "x \<in> dom (thrs s')" using D(3) dom by (auto split: if_splits)
  next
    fix r r' x assume a: "x \<in> set (?Q r)" "x \<in> set (?Q r')"
    have "r0 \<noteq> p \<and> (r0 = q \<and> x \<in> set (Q p) \<or> x \<in> set (Q r0))" if "x \<in> set (?Q r0)" for r0
      using that by (auto split: if_splits)
    then show "r = r'" using a D(4) [of x] q(3) by metis
  next
    show "thrs s' NULL = None" using D(5) dom by (metis domIff)
  qed
qed


text \<open>
  All waiters of the condition wait with the same mutex, held by a thread that is not among them: they
  move, in their order, to the back of that mutex's queue.
\<close>

lemma kcond_signal_all_kinv:
  assumes I: "kinv s Q" and c: "cnds s c = Some z" and ne: "Q (QCond c) \<noteq> []"
    and w: "\<forall>y\<in>set (Q (QCond c)). info s y = Some (BLOCKED, m)"
    and x: "mtxs s m = Some x" "owner x \<noteq> NULL" "owner x \<notin> set (Q (QCond c))"
  shows "\<exists>s'. kcond_signal_all c s = Some s' \<and> kinv s' (Q(QMutex m := Q (QMutex m) @ Q (QCond c), QCond c := []))
    \<and> same_objects s s' \<and> (\<forall>y. info s' y = info s y) \<and> (\<forall>y. \<not> queued Q y \<longrightarrow> nxt s' y = nxt s y)
    \<and> (\<exists>y. mtxs s' = (mtxs s)(m \<mapsto> y))"
proof -
  note K = kinvD [OF I]
  obtain v ws where q: "Q (QCond c) = v # ws" using ne by (cases "Q (QCond c)") auto
  let ?h = "cq_head z" and ?t = "cq_tail z"
  have e1: "q_ends s (QCond c) = Some (?h, ?t)" using c by simp
  have iq: "is_queue (nxt s) ?h ?t (v # ws)" using queuesD(1) [OF K(1) e1] q by simp
  have hv: "?h = v" "v \<noteq> NULL" "chain (nxt s) (nxt s v) ws NULL" "?t = last (v # ws)"
    using iq by (auto simp: is_queue_def)
  have "info s v = Some (BLOCKED, m)" using w q by simp
  then obtain tv where tv: "thrs s v = Some tv" "state tv = BLOCKED" "waiting_on tv = m" by (auto simp: info_def)
  have nv: "nxt s v = next_thr tv" using tv by (simp add: nxt_def)
  have same: "tv\<lparr>state := BLOCKED\<rparr> = tv" "tv\<lparr>waiting_on := m\<rparr> = tv" using tv(2,3) by auto
  have id: "(thrs s)(v \<mapsto> tv) = thrs s" using tv(1) by (simp add: fun_upd_idem)
  have e2: "q_ends s (QMutex m) = Some (mq_head x, mq_tail x)" using x by simp
  have tail: "mq_tail x \<in> set (Q (QMutex m))" "\<exists>th. thrs s (mq_tail x) = Some th" if "mq_head x \<noteq> NULL"
    using tail_thread [OF K(1) e2 that] by auto
  have vt: "mq_tail x \<notin> set (v # ws)" if "mq_head x \<noteq> NULL"
  proof
    assume "mq_tail x \<in> set (v # ws)"
    then have "QMutex m = QCond c" using queuesD(4) [OF K(1) tail(1) [OF that], of "QCond c"] q by simp
    then show False by simp
  qed
  define T where "T = (if mq_head x = NULL then thrs s
     else (thrs s)(mq_tail x \<mapsto> (the (thrs s (mq_tail x)))\<lparr>next_thr := v\<rparr>))"
  define y where "y = x\<lparr>mq_head := (if mq_head x = NULL then v else mq_head x), mq_tail := v\<rparr>"
  define s1 where "s1 = s\<lparr>thrs := T, mtxs := (mtxs s)(m \<mapsto> y)\<rparr>"
  have lock: "kmutex_lock m v s = Some s1"
    using x q tv(1) tail(2) by (auto simp: kmutex_lock_def kernel_simps same id s1_def T_def y_def)
  have nx1: "nxt s1 = (if mq_head x = NULL then nxt s else (nxt s)(mq_tail x := v))"
    using tail by (auto simp: nxt_def s1_def T_def fun_eq_iff)
  have inf1: "info s1 u = info s u" for u using tail by (auto simp: info_def s1_def T_def)
  have dom1: "dom (thrs s1) = dom (thrs s)" using tail by (auto simp: s1_def T_def)
  define s2 where "s2 = s1\<lparr>mtxs := (mtxs s1)(m \<mapsto> y\<lparr>mq_tail := last (v # ws)\<rparr>)\<rparr>"
  have "signal_all_loop (next_thr tv) s1 = Some (s1\<lparr>mtxs := (mtxs s1)(m \<mapsto> y\<lparr>mq_tail := last (mq_tail y # ws)\<rparr>)\<rparr>)"
  proof (rule signal_all_loop_links)
    show "mtxs s1 m = Some y" "mq_head y \<noteq> NULL" using hv(2) by (simp_all add: s1_def y_def)
    show "owner y \<noteq> NULL" "owner y \<notin> set ws" using x q by (simp_all add: y_def)
    show "thrs s1 (mq_tail y) = Some tv" using tv(1) vt by (auto simp: s1_def T_def y_def)
    show "chain (nxt s1) (next_thr tv) ws NULL" using hv(3) nv nx1 vt by (auto simp: queue_simps)
    show "\<forall>u\<in>set ws. info s1 u = Some (BLOCKED, m)" using w q inf1 by simp
  qed simp
  then have loop: "signal_all_loop v s = Some s2"
    using tv lock hv(2) by (simp add: signal_all_loop.simps [of v s] s2_def y_def)
  define s' where "s' = s2\<lparr>cnds := (cnds s2)(c \<mapsto> z\<lparr>cq_head := NULL, cq_tail := NULL\<rparr>)\<rparr>"
  have c2: "cnds s2 = cnds s" by (simp add: s2_def s1_def)
  have step: "kcond_signal_all c s = Some s'"
    using c c2 hv(1) loop by (simp add: kcond_signal_all_def kernel_simps s'_def)
  have T': "thrs s' = thrs s1" by (simp add: s'_def s2_def)
  have nx': "nxt s' = nxt s1" by (rule nxt_thrs [OF T'])
  have inf': "info s' u = info s u" for u using inf1 T' by (simp add: info_def)
  let ?Q = "Q(QMutex m := Q (QMutex m) @ Q (QCond c), QCond c := [])"
  have M': "mtxs s' = (mtxs s)(m \<mapsto> y\<lparr>mq_tail := last (v # ws)\<rparr>)" by (simp add: s'_def s2_def s1_def)
  have "queues s' ?Q"
  proof (rule queues_splice [OF K(1) e2 e1])
    show "q_ends s' (QMutex m) = Some (if mq_head x = NULL then ?h else mq_head x, ?t)"
      using hv by (simp add: M' y_def)
    show "q_ends s' (QCond c) = Some (NULL, NULL)" by (simp add: s'_def)
    show "q_ends s' r = q_ends s r" if "r \<noteq> QMutex m" "r \<noteq> QCond c" for r
      using that by (cases r) (auto simp: M' s'_def s2_def s1_def)
    show "nxt s' = (if mq_head x = NULL then nxt s else (nxt s)(mq_tail x := ?h))" using nx' nx1 hv(1) by simp
    show "dom (thrs s') = dom (thrs s)" using T' dom1 by simp
  qed (use ne in simp_all)
  moreover have "place_ok s' r u" if u: "u \<in> set (?Q r)" for r u
  proof (cases "u \<in> set (Q (QCond c)) \<and> r = QMutex m")
    case True
    then show ?thesis using w inf' by simp
  next
    case False
    then have "u \<in> set (Q r)" using u by (auto split: if_splits)
    then have "place_ok s r u" by (rule K(2))
    then show ?thesis using inf' M' by (cases r) auto
  qed
  moreover have "mutex_ok ?Q k u" if "mtxs s' k = Some u" for k u
  proof (cases "k = m")
    case True
    then have "owner u = owner x" using that by (auto simp: M' y_def)
    then show ?thesis using True x K(3) [OF x(1)] by (simp add: mutex_ok_def)
  next
    case False
    then have "mtxs s k = Some u" using that by (simp add: M')
    then show ?thesis using False K(3) [of k u] by (simp add: mutex_ok_def)
  qed
  moreover have fr: "nxt s' u = nxt s u" if "\<not> queued Q u" for u
    using that tail(1) nx' nx1 by (auto simp: queued_def)
  moreover have "main_ok s' ?Q"
  proof (rule main_ok_frame [OF K(4)])
    show "kthread_main s' = kthread_main s" by (simp add: s'_def s2_def s1_def)
    show "dom (thrs s') = dom (thrs s)" using T' dom1 by simp
    show "nxt s' (kthread_main s) = NULL" using fr [of "kthread_main s"] K(4) by (simp add: main_ok_def)
    show "\<not> queued ?Q (kthread_main s)" using K(4) by (auto simp: main_ok_def queued_def split: if_splits)
  qed
  ultimately have "kinv s' ?Q" by (simp add: kinv_def)
  moreover have "same_objects s s'"
    using T' dom1 x c by (auto simp: same_objects_def M' s'_def s2_def s1_def)
  ultimately show ?thesis using step inf' fr M' by blast
qed

end
