(* ===== verification/Round_Robin.thy ===== *)
theory Round_Robin
  imports Sync_Spec
begin

text \<open>
  The scheduler is a FIFO, and dispatching rotates the ready threads: every ready thread runs within
  one round.
\<close>

section \<open>The scheduler is a FIFO\<close>

lemma queues_unique:
  assumes "queues s Q" and "queues s R"
  shows "Q = R"
proof
  fix q
  show "Q q = R q"
  proof (cases "q_ends s q")
    case None
    then show ?thesis using queuesD(2) assms by metis
  next
    case (Some e)
    obtain h t where "q_ends s q = Some (h, t)" using Some by (cases e) auto
    then have "is_queue (nxt s) h t (Q q)" "is_queue (nxt s) h t (R q)"
      using queuesD(1) [OF assms(1)] queuesD(1) [OF assms(2)] by auto
    then show ?thesis unfolding is_queue_def using chain_unique by blast
  qed
qed

lemma kinv_unique: "kinv s Q \<Longrightarrow> kinv s R \<Longrightarrow> Q = R"
  using queues_unique kinvD(1) by metis

definition ready_rep :: "'a kstate_scheme \<Rightarrow> addr list \<Rightarrow> bool" where
  "ready_rep s xs \<longleftrightarrow> (\<exists>Q. kinv s Q \<and> Q QReady = xs)"

definition schedulable :: "'a kstate_scheme \<Rightarrow> addr \<Rightarrow> bool" where
  "schedulable s a \<longleftrightarrow> a \<in> dom (thrs s) \<and> a \<noteq> kthread_main s \<and> (\<forall>Q q. kinv s Q \<longrightarrow> a \<in> set (Q q) \<longrightarrow> q = QReady)"

lemma schedulableI:
  "kinv s Q \<Longrightarrow> a \<in> dom (thrs s) \<Longrightarrow> a \<noteq> kthread_main s \<Longrightarrow> (\<And>q. a \<in> set (Q q) \<Longrightarrow> q = QReady) \<Longrightarrow> schedulable s a"
  unfolding schedulable_def using kinv_unique by blast

interpretation ready: fifo kscheduler_enqueue kscheduler_dequeue ready_rep schedulable
proof
  fix s :: "'a kstate_scheme" and xs a
  assume r: "ready_rep s xs" and c: "schedulable s a" and a: "a \<notin> set xs"
  from r obtain Q where Q: "kinv s Q" "Q QReady = xs" by (auto simp: ready_rep_def)
  have "\<not> queued Q a" using c a Q unfolding schedulable_def queued_def by blast
  then obtain s' where s': "kscheduler_enqueue a s = Some s'" "kinv s' (Q(QReady := Q QReady @ [a]))"
    using kscheduler_enqueue_kinv [OF Q(1)] c unfolding schedulable_def by blast
  then show "\<exists>s'. kscheduler_enqueue a s = Some s' \<and> ready_rep s' (xs @ [a])"
    using Q(2) unfolding ready_rep_def by auto
next
  fix s :: "'a kstate_scheme" and xs a s' b
  assume r: "ready_rep s xs" and c: "schedulable s a" "schedulable s b" "kscheduler_enqueue a s = Some s'" "a \<noteq> b" "a \<notin> set xs"
  from r obtain Q where Q: "kinv s Q" "Q QReady = xs" by (auto simp: ready_rep_def)
  have "\<not> queued Q a" using c(1,5) Q unfolding schedulable_def queued_def by blast
  then obtain s2 where s2: "kscheduler_enqueue a s = Some s2" "kinv s2 (Q(QReady := Q QReady @ [a]))" "sched_frame s s2"
    using kscheduler_enqueue_kinv [OF Q(1)] c(1) unfolding schedulable_def by blast
  have "s2 = s'" using s2(1) c(3) by simp
  then show "schedulable s' b"
    using c(2,4) Q(1) sched_frameD [OF s2(3)]
    by (intro schedulableI [OF s2(2), unfolded \<open>s2 = s'\<close>]) (auto simp: schedulable_def split: if_splits)
next
  fix s :: "'a kstate_scheme"
  assume "ready_rep s []"
  then show "kscheduler_dequeue s = Some (NULL, s)"
    unfolding ready_rep_def using kscheduler_dequeue_empty kinvD(1) by blast
next
  fix s :: "'a kstate_scheme" and x xs
  assume "ready_rep s (x # xs)"
  then obtain Q where Q: "kinv s Q" "Q QReady = x # xs" by (auto simp: ready_rep_def)
  obtain s' where s': "kscheduler_dequeue s = Some (x, s')" "kinv s' (Q(QReady := xs))" "sched_frame s s'"
    "\<not> queued (Q(QReady := xs)) x" "x \<noteq> kthread_main s" "info s' x = Some (READY, NULL)"
    using kscheduler_dequeue_kinv [OF Q] by blast
  have "schedulable s' x"
  proof (rule schedulableI [OF s'(2)])
    show "x \<in> dom (thrs s')" using s'(6) by (auto simp: info_def)
    show "x \<noteq> kthread_main s'" using s'(5) sched_frameD(3) [OF s'(3)] by simp
  qed (use s'(4) in \<open>auto simp: queued_def\<close>)
  then show "\<exists>s'. kscheduler_dequeue s = Some (x, s') \<and> ready_rep s' xs \<and> schedulable s' x"
    using s' unfolding ready_rep_def by auto
qed


section \<open>Round robin\<close>

text \<open>Timer interrupts only: \<open>n\<close> dispatches in a row.\<close>

primrec dispatch_times :: "nat \<Rightarrow> 'a kstate_scheme \<Rightarrow> 'a kstate_scheme option" where
  "dispatch_times 0 s = Some s"
| "dispatch_times (Suc n) s = do { s \<leftarrow> kthread_dispatch s; dispatch_times n s }"

lemma kthread_dispatch_rotates:
  assumes I: "kinv s Q" and run: "running s Q" and main: "kthread_current s \<noteq> kthread_main s"
  shows "\<exists>s' Q'. kthread_dispatch s = Some s' \<and> kinv s' Q' \<and> running s' Q' \<and> kthread_main s' = kthread_main s
    \<and> kthread_current s' \<noteq> kthread_main s' \<and> (\<forall>q. q \<noteq> QReady \<longrightarrow> Q' q = Q q)
    \<and> kthread_current s' # Q' QReady = rotate1 (kthread_current s # Q QReady)"
proof -
  let ?c = "kthread_current s"
  obtain w where w: "info s ?c = Some (RUNNING, w)" and nq: "\<not> queued Q ?c" using run by (auto simp: running_def)
  then have d: "?c \<in> dom (thrs s)" by (auto simp: info_def)
  have c0: "?c \<noteq> NULL" by (rule live_thread [OF I d])
  have R: "requeued s Q = Q QReady @ [?c]" using w c0 main by (simp add: requeued_def)
  obtain s' where s': "kthread_dispatch s = Some s'" "kinv s' (Q(QReady := tl (requeued s Q)))"
    "running s' (Q(QReady := tl (requeued s Q)))" "sched_frame s s'" "kthread_current s' = hd (requeued s Q)"
    using kthread_dispatch_kinv [OF I] d nq R by auto
  have "hd (Q QReady @ [?c]) \<noteq> kthread_main s"
    using main kinvD(4) [OF I] by (cases "Q QReady") (auto simp: main_ok_def queued_def, metis list.set_intros(1))
  then have "kthread_current s' \<noteq> kthread_main s'" using s'(5) R sched_frameD(3) [OF s'(4)] by simp
  moreover have "kthread_current s' # tl (requeued s Q) = rotate1 (?c # Q QReady)" using s'(5) R by (cases "Q QReady") auto
  ultimately show ?thesis using s' sched_frameD(3) [OF s'(4)]
    by (intro exI [of _ s'] exI [of _ "Q(QReady := tl (requeued s Q))"]) simp
qed

lemma dispatch_times_rotates:
  assumes "kinv s Q" and "running s Q" and "kthread_current s \<noteq> kthread_main s"
  shows "\<exists>s' Q'. dispatch_times n s = Some s' \<and> kinv s' Q' \<and> running s' Q' \<and> kthread_main s' = kthread_main s
    \<and> kthread_current s' # Q' QReady = rotate n (kthread_current s # Q QReady) \<and> (\<forall>q. q \<noteq> QReady \<longrightarrow> Q' q = Q q)"
  using assms
proof (induction n arbitrary: s Q)
  case 0
  then show ?case by auto
next
  case (Suc n)
  obtain s1 Q1 where 1: "kthread_dispatch s = Some s1" "kinv s1 Q1" "running s1 Q1" "kthread_main s1 = kthread_main s"
    "kthread_current s1 \<noteq> kthread_main s1" "kthread_current s1 # Q1 QReady = rotate1 (kthread_current s # Q QReady)"
    "\<forall>q. q \<noteq> QReady \<longrightarrow> Q1 q = Q q"
    using kthread_dispatch_rotates [OF Suc.prems] by blast
  obtain s2 Q2 where 2: "dispatch_times n s1 = Some s2" "kinv s2 Q2" "running s2 Q2" "kthread_main s2 = kthread_main s1"
    "kthread_current s2 # Q2 QReady = rotate n (kthread_current s1 # Q1 QReady)" "\<forall>q. q \<noteq> QReady \<longrightarrow> Q2 q = Q1 q"
    using Suc.IH [OF 1(2,3,5)] by blast
  have "rotate n (rotate1 (kthread_current s # Q QReady)) = rotate (Suc n) (kthread_current s # Q QReady)"
    by (simp add: rotate1_rotate_swap del: rotate1.simps)
  then show ?case using 1(1,4,6,7) 2 by auto
qed

end
