(* ===== verification/Thread_Local.thy ===== *)
theory Thread_Local
  imports Kernel_State
begin

text \<open>
  Thread-specific storage: \<^verbatim>\<open>Software/src/kernel/sync/thread_local.c\<close>. A key owns the list of its
  records over all threads (\<open>prev_thread\<close>, \<open>next_thread\<close>); a thread owns the list of its records over
  all keys (\<open>prev_data\<close>, \<open>next_data\<close>).
\<close>

section \<open>Kernel objects on the heap\<close>

text \<open>
  Allocating memory for an object and giving it back; the object is live, that is, in its store,
  between the two.
\<close>

definition kalloc :: "u32 \<Rightarrow> 'a kstate_scheme \<Rightarrow> (addr \<times> 'a kstate_scheme) option" where
  "kalloc bytes s = do { (p, h) \<leftarrow> kheap_alloc bytes (kheap s); Some (p, s\<lparr>kheap := h\<rparr>) }"

definition kfree :: "addr \<Rightarrow> 'a kstate_scheme \<Rightarrow> 'a kstate_scheme option" where
  "kfree p s = do { h \<leftarrow> kheap_dealloc p (kheap s); Some (s\<lparr>kheap := h\<rparr>) }"

text \<open>\<open>sizeof\<close> of the kernel's structures on RV32.\<close>

definition sizeof_kthread_ls :: u32 where "sizeof_kthread_ls = 8"
definition sizeof_kthread_ld :: u32 where "sizeof_kthread_ld = 28"

section \<open>Operations\<close>

definition kthread_ls_create :: "addr \<Rightarrow> 'a kstate_scheme \<Rightarrow> (addr \<times> 'a kstate_scheme) option" where
  "kthread_ls_create dtor s = do {
     (local_storage, s) \<leftarrow> kalloc sizeof_kthread_ls s;
     if local_storage = NULL then Some (NULL, s)
     else Some (local_storage, s\<lparr>lss := (lss s)(local_storage \<mapsto> \<lparr>ls_dtor = dtor, data_head = NULL\<rparr>)\<rparr>)
   }"

partial_function (option) ls_destroy_loop :: "addr \<Rightarrow> 'a kstate_scheme \<Rightarrow> 'a kstate_scheme option" where
  "ls_destroy_loop local_data s =
     (if local_data = NULL then Some s
      else do {
        d \<leftarrow> lds s local_data;
        s \<leftarrow> (if prev_thread d \<noteq> NULL
              then upd_ld (prev_thread d) (\<lambda>r. r\<lparr>next_thread := next_thread d\<rparr>) s
              else upd_thr (ld_thread d) (\<lambda>t. t\<lparr>local_data_head := next_thread d\<rparr>) s);
        d' \<leftarrow> lds s local_data;
        s \<leftarrow> (if next_thread d' \<noteq> NULL
              then upd_ld (next_thread d') (\<lambda>r. r\<lparr>prev_thread := prev_thread d'\<rparr>) s
              else Some s);
        s \<leftarrow> kfree local_data s;
        ls_destroy_loop (next_thread d) (s\<lparr>lds := (lds s)(local_data := None)\<rparr>)
      })"

definition kthread_ls_destroy :: "addr \<Rightarrow> 'a kstate_scheme \<Rightarrow> 'a kstate_scheme option" where
  "kthread_ls_destroy local_storage s = do {
     l \<leftarrow> lss s local_storage;
     s \<leftarrow> ls_destroy_loop (data_head l) s;
     s \<leftarrow> kfree local_storage s;
     Some (s\<lparr>lss := (lss s)(local_storage := None)\<rparr>)
   }"

text \<open>The search both accessors share: the record of the key in the thread's list, or null.\<close>

partial_function (option) find_ld :: "addr \<Rightarrow> addr \<Rightarrow> 'a kstate_scheme \<Rightarrow> addr option" where
  "find_ld local_storage local_data s =
     (if local_data = NULL then Some NULL
      else do {
        d \<leftarrow> lds s local_data;
        if ld_storage d = local_storage then Some local_data
        else find_ld local_storage (next_data d) s
      })"

definition kthread_ls_get :: "addr \<Rightarrow> addr \<Rightarrow> 'a kstate_scheme \<Rightarrow> addr option" where
  "kthread_ls_get local_storage thread s = do {
     t \<leftarrow> thrs s thread;
     local_data \<leftarrow> find_ld local_storage (local_data_head t) s;
     if local_data \<noteq> NULL then do { d \<leftarrow> lds s local_data; Some (ld_data d) }
     else Some NULL
   }"

definition kthread_ls_set :: "addr \<Rightarrow> addr \<Rightarrow> addr \<Rightarrow> 'a kstate_scheme \<Rightarrow> (thread_status \<times> 'a kstate_scheme) option" where
  "kthread_ls_set local_storage thread data s = do {
     t \<leftarrow> thrs s thread;
     local_data \<leftarrow> find_ld local_storage (local_data_head t) s;
     if local_data \<noteq> NULL then do {
       s \<leftarrow> upd_ld local_data (\<lambda>d. d\<lparr>ld_data := data\<rparr>) s;
       Some (STATUS_SUCCESS, s)
     }
     else do {
       (local_data, s) \<leftarrow> kalloc sizeof_kthread_ld s;
       if local_data = NULL then Some (STATUS_NO_MEMORY, s)
       else do {
         t \<leftarrow> thrs s thread;
         l \<leftarrow> lss s local_storage;
         let s = s\<lparr>lds := (lds s)(local_data \<mapsto>
           \<lparr>ld_storage = local_storage, ld_thread = thread, ld_data = data,
            prev_thread = NULL, next_thread = data_head l,
            prev_data = NULL, next_data = local_data_head t\<rparr>)\<rparr>;
         s \<leftarrow> (if local_data_head t \<noteq> NULL
               then upd_ld (local_data_head t) (\<lambda>d. d\<lparr>prev_data := local_data\<rparr>) s else Some s);
         s \<leftarrow> upd_thr thread (\<lambda>t. t\<lparr>local_data_head := local_data\<rparr>) s;
         s \<leftarrow> (if data_head l \<noteq> NULL
               then upd_ld (data_head l) (\<lambda>d. d\<lparr>prev_thread := local_data\<rparr>) s else Some s);
         s \<leftarrow> upd_ls local_storage (\<lambda>l. l\<lparr>data_head := local_data\<rparr>) s;
         Some (STATUS_SUCCESS, s)
       }
     }
   }"

end
