(* ===== verification/Dma.thy ===== *)
theory Dma
  imports Bytes
begin

text \<open>
  The DMA engine (\<^verbatim>\<open>Hardware/Devices/DMA/DMA.sv\<close>) and its driver \<^verbatim>\<open>Software/src/devices/dma.c\<close>. The
  engine moves one byte at a time; the driver starts it and polls the counter register.
\<close>

section \<open>Engine and driver\<close>

datatype dma_addressing_mode = DMA_ADDRESS_FIXED | DMA_ADDRESS_INCREMENT | DMA_ADDRESS_DECREMENT

fun mode_bits :: "dma_addressing_mode \<Rightarrow> u8" where
  "mode_bits DMA_ADDRESS_FIXED = 0"
| "mode_bits DMA_ADDRESS_INCREMENT = 3"
| "mode_bits DMA_ADDRESS_DECREMENT = 2"

text \<open>Bits of the control register: \<open>{burst, move_src, incr_src, move_dest, incr_dest}\<close>.\<close>

definition dma_move :: "bool \<Rightarrow> bool \<Rightarrow> addr \<Rightarrow> addr" where
  "dma_move mv incr a = (if mv then (if incr then a + 1 else a - 1) else a)"

text \<open>
  From state \<^verbatim>\<open>STATE_TRANSFER_READING\<close> on: the count register and the memory when the engine is idle
  again. On a bus error (\<open>watchdog\<close>) the engine stops with the counter as it is. The counter is
  tested after each byte, before it is decremented.
\<close>

function dma_engine :: "u8 \<Rightarrow> addr \<Rightarrow> addr \<Rightarrow> u32 \<Rightarrow> ram \<Rightarrow> u32 \<times> ram" where
  "dma_engine ctrl src dest cnt m =
     (case m src of None \<Rightarrow> (cnt, m)
      | Some b \<Rightarrow>
          (case store8 dest b m of None \<Rightarrow> (cnt, m)
           | Some m \<Rightarrow>
               if cnt \<noteq> 0
               then dma_engine ctrl (dma_move (bit ctrl 3) (bit ctrl 2) src)
                      (dma_move (bit ctrl 1) (bit ctrl 0) dest) (cnt - 1) m
               else (cnt, m)))"
  by pat_completeness auto
termination
proof (relation "measure (\<lambda>(_, _, _, cnt, _). unat cnt)", goal_cases)
  case 1
  then show ?case by simp
next
  case (2 ctrl src dest cnt m b m')
  then show ?case by (simp add: unat_minus_one unat_gt_0)
qed

declare dma_engine.simps [simp del]

text \<open>The driver waits \<open>while (DMA.cnt != 0)\<close>: it does not return when the engine stopped early.\<close>

definition dma_transfer :: "addr \<Rightarrow> addr \<Rightarrow> u32 \<Rightarrow> dma_addressing_mode \<Rightarrow> dma_addressing_mode \<Rightarrow> bool \<Rightarrow> ram \<Rightarrow> ram option" where
  "dma_transfer src dest count src_mode dest_mode burst m =
     (if count = 0 then Some m
      else
        let ctrl = push_bit 2 (mode_bits src_mode) OR mode_bits dest_mode OR push_bit 4 (of_bool burst);
            (cnt, m) = dma_engine ctrl src dest count m
        in if cnt \<noteq> 0 then None else Some m)"

definition dma_copy :: "addr \<Rightarrow> addr \<Rightarrow> u32 \<Rightarrow> bool \<Rightarrow> ram \<Rightarrow> ram option" where
  "dma_copy src dest count burst =
     dma_transfer src dest count DMA_ADDRESS_INCREMENT DMA_ADDRESS_INCREMENT burst"

definition dma_rcopy :: "addr \<Rightarrow> addr \<Rightarrow> u32 \<Rightarrow> bool \<Rightarrow> ram \<Rightarrow> ram option" where
  "dma_rcopy src dest count burst =
     (let src_end = src + count - 1; dest_end = dest + count - 1
      in dma_transfer src_end dest_end count DMA_ADDRESS_DECREMENT DMA_ADDRESS_DECREMENT burst)"

text \<open>\<open>slot\<close> is the stack address of the parameter \<open>value\<close>, which the engine reads.\<close>

definition dma_fill :: "addr \<Rightarrow> addr \<Rightarrow> u32 \<Rightarrow> u8 \<Rightarrow> bool \<Rightarrow> ram \<Rightarrow> ram option" where
  "dma_fill slot dest count value burst m = do {
     m \<leftarrow> store8 slot value m;
     dma_transfer slot dest count DMA_ADDRESS_FIXED DMA_ADDRESS_INCREMENT burst m
   }"

section \<open>What a transfer does\<close>

text \<open>One byte at a time, in the order of the engine.\<close>

fun move_bytes :: "nat \<Rightarrow> (addr \<Rightarrow> addr) \<Rightarrow> (addr \<Rightarrow> addr) \<Rightarrow> addr \<Rightarrow> addr \<Rightarrow> ram \<Rightarrow> ram" where
  "move_bytes 0 f g src dest m = m"
| "move_bytes (Suc n) f g src dest m = move_bytes n f g (f src) (g dest) (m(dest := m src))"

lemma ctrl_bits:
  assumes "ctrl = push_bit 2 (mode_bits sm) OR mode_bits dm OR push_bit 4 (of_bool burst)"
  shows "bit ctrl 3 = (sm \<noteq> DMA_ADDRESS_FIXED)" "bit ctrl 2 = (sm = DMA_ADDRESS_INCREMENT)"
    "bit ctrl 1 = (dm \<noteq> DMA_ADDRESS_FIXED)" "bit ctrl 0 = (dm = DMA_ADDRESS_INCREMENT)"
  unfolding assms by (cases sm; cases dm; cases burst; simp add: bit_simps)+

lemma dma_engine_moves:
  assumes "\<And>k. k \<le> unat cnt \<Longrightarrow> (f ^^ k) src \<in> dom m" "\<And>k. k \<le> unat cnt \<Longrightarrow> (g ^^ k) dest \<in> dom m"
    and "f = dma_move (bit ctrl 3) (bit ctrl 2)" "g = dma_move (bit ctrl 1) (bit ctrl 0)"
  shows "dma_engine ctrl src dest cnt m = (0, move_bytes (Suc (unat cnt)) f g src dest m)"
  using assms
proof (induction "unat cnt" arbitrary: cnt src dest m)
  case 0
  then have c: "cnt = 0" by (simp add: unat_eq_zero)
  obtain b where b: "m src = Some b" "m dest \<noteq> None" using 0(2) [of 0] 0(3) [of 0] by auto
  then show ?case using c by (simp add: dma_engine.simps [of ctrl] store8_Some fun_upd_def)
next
  case (Suc n)
  have c: "cnt \<noteq> 0" using Suc.hyps(2) by auto
  have n: "n = unat (cnt - 1)" using Suc.hyps(2) c by (simp add: unat_minus_one)
  obtain b where b: "m src = Some b" "m dest \<noteq> None" using Suc.prems(1) [of 0] Suc.prems(2) [of 0] by auto
  let ?m = "m(dest \<mapsto> b)"
  have d: "dom ?m = dom m" using b(2) by auto
  have "dma_engine ctrl (f src) (g dest) (cnt - 1) ?m = (0, move_bytes (Suc (unat (cnt - 1))) f g (f src) (g dest) ?m)"
  proof (rule Suc.hyps(1) [OF n])
    fix k assume k: "k \<le> unat (cnt - 1)"
    then have "Suc k \<le> unat cnt" using Suc.hyps(2) n by simp
    then show "(f ^^ k) (f src) \<in> dom ?m" "(g ^^ k) (g dest) \<in> dom ?m"
      using Suc.prems(1) [of "Suc k"] Suc.prems(2) [of "Suc k"] d by (simp_all add: funpow_swap1)
  qed (use Suc.prems in simp_all)
  moreover have "dma_engine ctrl src dest cnt m = dma_engine ctrl (f src) (g dest) (cnt - 1) ?m"
    using b c Suc.prems(3,4) by (simp add: dma_engine.simps [of ctrl src] store8_Some)
  moreover have "move_bytes (Suc (unat cnt)) f g src dest m = move_bytes (Suc (unat (cnt - 1))) f g (f src) (g dest) ?m"
    using b(1) Suc.hyps(2) n by (simp only: move_bytes.simps(2) [of "unat cnt"])
  ultimately show ?case by simp
qed

lemma funpow_add_word: "((\<lambda>a. a + c) ^^ k) a = a + of_nat k * (c :: 'a :: len word)"
  by (induction k) (simp_all add: algebra_simps)

lemma funpow_id_const: "((\<lambda>a. a) ^^ k) a = a"
  by (induction k) simp_all

lemma move_bytes_last:
  "move_bytes (Suc n) f g src dest m =
    (move_bytes n f g src dest m)((g ^^ n) dest := move_bytes n f g src dest m ((f ^^ n) src))"
proof (induction n arbitrary: src dest m)
  case 0
  then show ?case by simp
next
  case (Suc n)
  define m1 where "m1 = m(dest := m src)"
  have A: "move_bytes (Suc (Suc n)) f g src dest m = move_bytes (Suc n) f g (f src) (g dest) m1"
    unfolding m1_def by (rule move_bytes.simps(2))
  have C: "move_bytes (Suc n) f g src dest m = move_bytes n f g (f src) (g dest) m1"
    unfolding m1_def by (rule move_bytes.simps(2))
  show ?case unfolding A C Suc.IH [of "f src" "g dest" m1] funpow_Suc_right o_apply by (rule refl)
qed

text \<open>
  Every byte arrives, if no byte of the source is overwritten before it is read; nothing else changes.
\<close>

lemma move_bytes_nth:
  assumes "inj_on (\<lambda>k. (g ^^ k) dest) {..<n}" and "\<forall>k<n. \<forall>j<k. (f ^^ k) src \<noteq> (g ^^ j) dest"
  shows "(\<forall>k<n. move_bytes n f g src dest m ((g ^^ k) dest) = m ((f ^^ k) src))
    \<and> (\<forall>p. (\<forall>k<n. p \<noteq> (g ^^ k) dest) \<longrightarrow> move_bytes n f g src dest m p = m p)"
  using assms
proof (induction n)
  case 0
  then show ?case by simp
next
  case (Suc n)
  let ?m = "move_bytes n f g src dest m"
  have IH: "\<forall>k<n. ?m ((g ^^ k) dest) = m ((f ^^ k) src)" "\<forall>p. (\<forall>k<n. p \<noteq> (g ^^ k) dest) \<longrightarrow> ?m p = m p"
    using Suc.IH Suc.prems by (auto simp: inj_on_def)
  have new: "?m ((f ^^ n) src) = m ((f ^^ n) src)" using IH(2) Suc.prems(2) by auto
  have ne: "(g ^^ k) dest \<noteq> (g ^^ n) dest" if "k < n" for k
    using inj_onD [OF Suc.prems(1), of k n] that by auto
  let ?m' = "?m((g ^^ n) dest := m ((f ^^ n) src))"
  have "?m' ((g ^^ k) dest) = m ((f ^^ k) src)" if "k < Suc n" for k
  proof (cases "k = n")
    case True
    then show ?thesis by simp
  next
    case False
    then have "k < n" using that by simp
    then show ?thesis using IH(1) ne [of k] by simp
  qed
  moreover have "?m' p = m p" if "\<forall>k<Suc n. p \<noteq> (g ^^ k) dest" for p
    using IH(2) that by simp
  ultimately show ?case unfolding move_bytes_last new by blast
qed

lemma dma_transfer_moves:
  assumes "count \<noteq> 0" and f: "f = dma_move (sm \<noteq> DMA_ADDRESS_FIXED) (sm = DMA_ADDRESS_INCREMENT)"
    and g: "g = dma_move (dm \<noteq> DMA_ADDRESS_FIXED) (dm = DMA_ADDRESS_INCREMENT)"
    and d: "\<forall>k\<le>unat count. (f ^^ k) src \<in> dom m \<and> (g ^^ k) dest \<in> dom m"
  shows "dma_transfer src dest count sm dm burst m = Some (move_bytes (Suc (unat count)) f g src dest m)"
proof -
  let ?c = "push_bit 2 (mode_bits sm) OR mode_bits dm OR push_bit 4 (of_bool burst)"
  have "dma_engine ?c src dest count m = (0, move_bytes (Suc (unat count)) f g src dest m)"
  proof (rule dma_engine_moves)
    show "f = dma_move (bit ?c 3) (bit ?c 2)" "g = dma_move (bit ?c 1) (bit ?c 0)"
      unfolding f g ctrl_bits [OF refl] by (rule refl)+
  qed (use d in blast)+
  then show ?thesis using assms(1) by (simp add: dma_transfer_def del: move_bytes.simps)
qed

definition span :: "addr \<Rightarrow> nat \<Rightarrow> addr set" where
  "span p n = (\<lambda>k. p + of_nat k) ` {..<n}"

lemma word_offset_inj: "n \<le> 4294967296 \<Longrightarrow> inj_on (\<lambda>k. (p :: addr) + of_nat k) {..<n}"
  by (rule inj_onI) (simp add: of_nat_u32_inj)

lemma funpow_move:
  "(dma_move True True ^^ k) a = a + of_nat k" "(dma_move True False ^^ k) a = a - of_nat k" "(dma_move False b ^^ k) a = a"
  by (induction k) (simp_all add: dma_move_def algebra_simps)

text \<open>A fill writes one byte more than \<open>count\<close>.\<close>

lemma dma_fill_span:
  assumes "count \<noteq> 0" and n: "n = Suc (unat count)" and "slot \<in> dom m" "span dest n \<subseteq> dom m" "slot \<notin> span dest n"
  shows "dma_fill slot dest count v b m = Some (\<lambda>p. if p = slot \<or> p \<in> span dest n then Some v else m p)"
proof -
  let ?m = "m(slot \<mapsto> v)"
  let ?f = "dma_move False False" and ?g = "dma_move True True"
  have n32: "n \<le> 4294967296" using n unat_less_2p32 [of count] by (simp add: Suc_le_eq)
  have sp: "dest + of_nat k \<in> span dest n" if "k < n" for k using that by (auto simp: span_def)
  let ?M = "move_bytes n ?f ?g slot dest ?m"
  have T: "dma_transfer slot dest count DMA_ADDRESS_FIXED DMA_ADDRESS_INCREMENT b ?m = Some ?M"
    unfolding n
  proof (rule dma_transfer_moves [OF assms(1)])
    show "\<forall>k\<le>unat count. (?f ^^ k) slot \<in> dom ?m \<and> (?g ^^ k) dest \<in> dom ?m"
      unfolding funpow_move
    proof (intro allI impI conjI)
      fix k assume "k \<le> unat count"
      then have "dest + of_nat k \<in> dom m" using subsetD [OF assms(4) sp, of k] n by simp
      then show "dest + of_nat k \<in> dom ?m" by simp
    qed simp
  qed simp_all
  have N: "(\<forall>k<n. ?M ((?g ^^ k) dest) = ?m ((?f ^^ k) slot)) \<and> (\<forall>p. (\<forall>k<n. p \<noteq> (?g ^^ k) dest) \<longrightarrow> ?M p = ?m p)"
  proof (rule move_bytes_nth)
    show "inj_on (\<lambda>k. (?g ^^ k) dest) {..<n}" unfolding funpow_move by (rule word_offset_inj [OF n32])
    show "\<forall>k<n. \<forall>j<k. (?f ^^ k) slot \<noteq> (?g ^^ j) dest"
      unfolding funpow_move using assms(5) sp by (metis order.strict_trans)
  qed
  have "?M p = (if p = slot \<or> p \<in> span dest n then Some v else m p)" for p
  proof (cases "p \<in> span dest n")
    case True
    then show ?thesis using N unfolding funpow_move span_def by auto
  next
    case False
    then have "\<forall>k<n. p \<noteq> dest + of_nat k" using sp by auto
    then have "?M p = ?m p" using N unfolding funpow_move by blast
    then show ?thesis using False by simp
  qed
  then have "?M = (\<lambda>p. if p = slot \<or> p \<in> span dest n then Some v else m p)" by blast
  then show ?thesis using T assms(3) by (auto simp: dma_fill_def store8_def)
qed

text \<open>So does a copy; source and destination of \<open>count + 1\<close> bytes must not overlap the wrong way.\<close>

lemma dma_copy_span:
  assumes "count \<noteq> 0" and n: "n = Suc (unat count)" and "span src n \<subseteq> dom m" "span dest n \<subseteq> dom m"
    and "\<forall>k<n. \<forall>j<k. src + of_nat k \<noteq> dest + of_nat j"
  shows "\<exists>m'. dma_copy src dest count b m = Some m' \<and> (\<forall>k<n. m' (dest + of_nat k) = m (src + of_nat k))
    \<and> (\<forall>p. p \<notin> span dest n \<longrightarrow> m' p = m p)"
proof -
  let ?g = "dma_move True True"
  have n32: "n \<le> 4294967296" using n unat_less_2p32 [of count] by (simp add: Suc_le_eq)
  have sp: "q + of_nat k \<in> span q n" if "k < n" for k q using that by (auto simp: span_def)
  let ?M = "move_bytes n ?g ?g src dest m"
  have "dma_transfer src dest count DMA_ADDRESS_INCREMENT DMA_ADDRESS_INCREMENT b m = Some ?M"
    unfolding n
  proof (rule dma_transfer_moves [OF assms(1)])
    show "\<forall>k\<le>unat count. (?g ^^ k) src \<in> dom m \<and> (?g ^^ k) dest \<in> dom m"
      unfolding funpow_move using assms(3,4) sp n by (metis le_imp_less_Suc subsetD)
  qed simp_all
  moreover have "(\<forall>k<n. ?M ((?g ^^ k) dest) = m ((?g ^^ k) src)) \<and> (\<forall>p. (\<forall>k<n. p \<noteq> (?g ^^ k) dest) \<longrightarrow> ?M p = m p)"
  proof (rule move_bytes_nth)
    show "inj_on (\<lambda>k. (?g ^^ k) dest) {..<n}" unfolding funpow_move by (rule word_offset_inj [OF n32])
    show "\<forall>k<n. \<forall>j<k. (?g ^^ k) src \<noteq> (?g ^^ j) dest" unfolding funpow_move by (rule assms(5))
  qed
  moreover have "\<forall>k<n. p \<noteq> dest + of_nat k" if "p \<notin> span dest n" for p using that sp by blast
  ultimately show ?thesis unfolding funpow_move dma_copy_def by blast
qed

end
