(* ===== verification/Thread.thy ===== *)
theory Thread
  imports Dispatch Thread_Local Dma
begin

text \<open>
  Creating and destroying threads: the rest of \<^verbatim>\<open>Software/src/kernel/sync/thread.c\<close>.
\<close>

section \<open>Creation\<close>

definition KTHREAD_STACK_SIZE :: u32 where "KTHREAD_STACK_SIZE = 0x1000"

definition sizeof_kthread :: u32 where "sizeof_kthread = 96"

definition REG_RA :: nat where "REG_RA = 1"
definition REG_SP :: nat where "REG_SP = 2"
definition REG_TP :: nat where "REG_TP = 4"
definition REG_A0 :: nat where "REG_A0 = 10"
definition REG_A5 :: nat where "REG_A5 = 15"

text \<open>Writing a register of the saved context, an array of 16 registers.\<close>

definition set_reg :: "nat \<Rightarrow> u32 \<Rightarrow> kthread \<Rightarrow> kthread" where
  "set_reg r v t = t\<lparr>ctx := (ctx t)\<lparr>regs := (regs (ctx t))[r := v]\<rparr>\<rparr>"

definition get_reg :: "nat \<Rightarrow> kthread \<Rightarrow> u32" where
  "get_reg r t = regs (ctx t) ! r"

text \<open>
  The addresses the linker assigns to the initial thread-local data, the code address of
  \<open>__thread_exit\<close>, the status register as the kernel reads it, and the stack slot of \<open>dma_fill\<close>.
\<close>

record image =
  TDATA_START :: addr
  TDATA_END :: addr
  TBSS_START :: addr
  TBSS_END :: addr
  thread_exit :: addr
  sstatus :: u32
  fill_slot :: addr

definition kthread_allocate_tdata :: "image \<Rightarrow> 'a kstate_scheme \<Rightarrow> (addr \<times> 'a kstate_scheme) option" where
  "kthread_allocate_tdata im s = do {
     let tdata_size = TDATA_END im - TDATA_START im;
     let tbss_size = TBSS_END im - TBSS_START im;
     (tdata, s) \<leftarrow> kalloc (tdata_size + tbss_size) s;
     if tdata = NULL then Some (NULL, s)
     else do {
       m \<leftarrow> dma_copy (TDATA_START im) tdata tdata_size True (kram s);
       m \<leftarrow> dma_fill (fill_slot im) (tdata + tdata_size) tbss_size 0 True m;
       Some (tdata, s\<lparr>kram := m\<rparr>)
     }
   }"

text \<open>The static thread \<open>kthread_main\<close> as the program starts.\<close>

definition initial_main :: kthread where
  "initial_main = \<lparr>ctx = \<lparr>regs = replicate 16 0, status = 0, pc = NULL\<rparr>, stack = NULL, tdata = NULL, next_thr = NULL,
     waiting_on = NULL, local_data_head = NULL, state = RUNNING\<rparr>"

text \<open>\<open>junk\<close> is what the memory of the new thread held before: \<open>kthread_create\<close> does not write \<open>waiting_on\<close> and
  most registers.\<close>

definition kthread_create ::
  "image \<Rightarrow> kthread \<Rightarrow> addr \<Rightarrow> u32 \<Rightarrow> bool \<Rightarrow> 'a kstate_scheme \<Rightarrow> (addr \<times> 'a kstate_scheme) option" where
  "kthread_create im junk function arg supervisor_mode s = do {
     (thread, s) \<leftarrow> kalloc sizeof_kthread s;
     if thread = NULL then Some (NULL, s)
     else do {
       (stk, s) \<leftarrow> kalloc KTHREAD_STACK_SIZE s;
       if stk = NULL then do { s \<leftarrow> kfree thread s; Some (NULL, s) }
       else do {
         let t = junk\<lparr>stack := stk\<rparr>;
         let t = set_reg REG_SP (stk + KTHREAD_STACK_SIZE) t;
         (td, s) \<leftarrow> kthread_allocate_tdata im s;
         if td = NULL then do {
           s \<leftarrow> kfree (stack t) s;
           s \<leftarrow> kfree thread s;
           Some (NULL, s)
         }
         else do {
           let t = t\<lparr>tdata := td\<rparr>;
           let t = set_reg REG_TP td t;
           let thread_status = sstatus im;
           let thread_status = (if supervisor_mode then thread_status OR push_bit 8 1
                                else thread_status AND NOT (push_bit 8 1));
           let t = t\<lparr>ctx := (ctx t)\<lparr>status := thread_status\<rparr>\<rparr>;
           let t = t\<lparr>local_data_head := NULL\<rparr>;
           let t = t\<lparr>ctx := (ctx t)\<lparr>pc := function\<rparr>\<rparr>;
           let t = set_reg REG_A0 arg t;
           let t = set_reg REG_RA (thread_exit im) t;
           let t = t\<lparr>state := READY\<rparr>;
           let t = t\<lparr>next_thr := NULL\<rparr>;
           Some (thread, s\<lparr>thrs := (thrs s)(thread \<mapsto> t)\<rparr>)
         }
       }
     }
   }"

section \<open>Destruction\<close>

partial_function (option) clean_td_loop :: "addr \<Rightarrow> 'a kstate_scheme \<Rightarrow> 'a kstate_scheme option" where
  "clean_td_loop local_data s =
     (if local_data = NULL then Some s
      else do {
        d \<leftarrow> lds s local_data;
        s \<leftarrow> (if prev_data d \<noteq> NULL
              then upd_ld (prev_data d) (\<lambda>r. r\<lparr>next_data := next_data d\<rparr>) s
              else upd_ls (ld_storage d) (\<lambda>l. l\<lparr>data_head := next_data d\<rparr>) s);
        d' \<leftarrow> lds s local_data;
        s \<leftarrow> (if next_data d' \<noteq> NULL
              then upd_ld (next_data d') (\<lambda>r. r\<lparr>prev_data := prev_data d'\<rparr>) s
              else Some s);
        d' \<leftarrow> lds s local_data;
        l \<leftarrow> lss s (ld_storage d');
        let s = (if ls_dtor l \<noteq> NULL then s\<lparr>dtor_calls := dtor_calls s @ [(ls_dtor l, ld_data d')]\<rparr> else s);
        s \<leftarrow> kfree local_data s;
        clean_td_loop (next_data d) (s\<lparr>lds := (lds s)(local_data := None)\<rparr>)
      })"

definition kthread_clean_td :: "addr \<Rightarrow> 'a kstate_scheme \<Rightarrow> 'a kstate_scheme option" where
  "kthread_clean_td thread s = do {
     t \<leftarrow> thrs s thread;
     clean_td_loop (local_data_head t) s
   }"

definition kthread_destroy :: "addr \<Rightarrow> 'a kstate_scheme \<Rightarrow> 'a kstate_scheme option" where
  "kthread_destroy thread s = do {
     s \<leftarrow> kthread_clean_td thread s;
     t \<leftarrow> thrs s thread;
     s \<leftarrow> (if stack t \<noteq> NULL then kfree (stack t) s else Some s);
     s \<leftarrow> (if tdata t \<noteq> NULL then kfree (tdata t) s else Some s);
     s \<leftarrow> kfree thread s;
     Some (s\<lparr>thrs := (thrs s)(thread := None)\<rparr>)
   }"

text \<open>The loop that \<open>kmutex_destroy\<close> and \<open>kcond_destroy\<close> share: destroy every waiter.\<close>

partial_function (option) destroy_waiters :: "addr \<Rightarrow> 'a kstate_scheme \<Rightarrow> 'a kstate_scheme option" where
  "destroy_waiters thread s =
     (if thread = NULL then Some s
      else do {
        t \<leftarrow> thrs s thread;
        s \<leftarrow> kthread_destroy thread s;
        destroy_waiters (next_thr t) s
      })"

definition kmutex_destroy :: "addr \<Rightarrow> 'a kstate_scheme \<Rightarrow> 'a kstate_scheme option" where
  "kmutex_destroy mutex s = do { m \<leftarrow> mtxs s mutex; destroy_waiters (mq_head m) s }"

definition kcond_destroy :: "addr \<Rightarrow> 'a kstate_scheme \<Rightarrow> 'a kstate_scheme option" where
  "kcond_destroy cond s = do { c \<leftarrow> cnds s cond; destroy_waiters (cq_head c) s }"

end
