(* ===== verification/Devices.thy ===== *)
theory Devices
  imports Prelude "HOL-Library.Signed_Division"
begin

text \<open>
  The drivers of the memory-mapped devices, \<^verbatim>\<open>Software/src/devices/\<close> and \<^verbatim>\<open>Software/h/devices/\<close> (the
  DMA engine has its own theory). The state is what the registers hold; writes to the display's
  two write-only registers and to the toggle strobes of the LEDs are logged.
\<close>

section \<open>Registers\<close>

datatype lcd_write = LCD_DATA u32 | LCD_CMD u32

record ssds_display_state =
  digit_data :: "7 word"
  is_digit :: bool

record devices =
  lcd_log :: "lcd_write list"
  plic_pending :: u32
  plic_mask :: u32
  plic_claims :: "u32 list"
  btns_irqs :: "4 word"
  btns_pressed :: "bool list"
  leds_en :: bool
  leds_data :: "bool list"
  leds_toggles :: "u8 list"
  ssds_en :: bool
  ssds_digits :: "ssds_display_state list"
  ssds_dots :: u32
  buzzer_en :: bool
  buzzer_state :: bool

text \<open>\<open>1 << n\<close> on an \<open>int\<close>: undefined from 32 on.\<close>

definition shift_one :: "u8 \<Rightarrow> u32 option" where
  "shift_one n = (if n < 32 then Some (push_bit (unat n) 1) else None)"

section \<open>Character display\<close>

datatype lcd_command =
    LCD_CMD_CLEAR_SCREEN | LCD_CMD_RETURN_HOME | LCD_CMD_DECREMENT_CURSOR | LCD_CMD_INCREMENT_CURSOR
  | LCD_CMD_SHIFT_DISPLAY_RIGHT | LCD_CMD_SHIFT_DISPLAY_LEFT | LCD_CMD_DISPLAY_OFF_CURSOR_OFF
  | LCD_CMD_DISPLAY_OFF_CURSOR_ON | LCD_CMD_DISPLAY_ON_CURSOR_OFF | LCD_CMD_DISPLAY_ON_CURSOR_BLINK
  | LCD_CMD_DISPLAY_ON_CURSOR_BLINK_BLOCK | LCD_CMD_SHIFT_CURSOR_LEFT | LCD_CMD_SHIFT_CURSOR_RIGHT
  | LCD_CMD_SHIFT_ENTIRE_DISPLAY_LEFT | LCD_CMD_SHIFT_ENTIRE_DISPLAY_RIGHT | LCD_CMD_INIT
  | LCD_CMD_SET_CURSOR_POSITION | LCD_CMD_REGISTER_CHAR

fun lcd_code :: "lcd_command \<Rightarrow> u32" where
  "lcd_code LCD_CMD_CLEAR_SCREEN = 0x01"
| "lcd_code LCD_CMD_RETURN_HOME = 0x02"
| "lcd_code LCD_CMD_DECREMENT_CURSOR = 0x04"
| "lcd_code LCD_CMD_INCREMENT_CURSOR = 0x06"
| "lcd_code LCD_CMD_SHIFT_DISPLAY_RIGHT = 0x05"
| "lcd_code LCD_CMD_SHIFT_DISPLAY_LEFT = 0x07"
| "lcd_code LCD_CMD_DISPLAY_OFF_CURSOR_OFF = 0x08"
| "lcd_code LCD_CMD_DISPLAY_OFF_CURSOR_ON = 0x0A"
| "lcd_code LCD_CMD_DISPLAY_ON_CURSOR_OFF = 0x0C"
| "lcd_code LCD_CMD_DISPLAY_ON_CURSOR_BLINK = 0x0E"
| "lcd_code LCD_CMD_DISPLAY_ON_CURSOR_BLINK_BLOCK = 0x0F"
| "lcd_code LCD_CMD_SHIFT_CURSOR_LEFT = 0x10"
| "lcd_code LCD_CMD_SHIFT_CURSOR_RIGHT = 0x14"
| "lcd_code LCD_CMD_SHIFT_ENTIRE_DISPLAY_LEFT = 0x18"
| "lcd_code LCD_CMD_SHIFT_ENTIRE_DISPLAY_RIGHT = 0x1C"
| "lcd_code LCD_CMD_INIT = 0x38"
| "lcd_code LCD_CMD_SET_CURSOR_POSITION = 0x80"
| "lcd_code LCD_CMD_REGISTER_CHAR = 0x40"

definition lcd_send_cmd :: "u32 \<Rightarrow> u8 \<Rightarrow> devices \<Rightarrow> devices" where
  "lcd_send_cmd cmd data d = d\<lparr>lcd_log := lcd_log d @ [LCD_CMD (cmd OR ucast data)]\<rparr>"

definition lcd_write_ch :: "u8 \<Rightarrow> devices \<Rightarrow> devices" where
  "lcd_write_ch ch d = d\<lparr>lcd_log := lcd_log d @ [LCD_DATA (ucast ch)]\<rparr>"

definition lcd_register_char :: "u8 \<Rightarrow> u8 list \<Rightarrow> devices \<Rightarrow> devices option" where
  "lcd_register_char code data d =
     (if length data < 8 then None
      else
        let code = code AND 0x07;
            d = lcd_send_cmd (lcd_code LCD_CMD_REGISTER_CHAR) (push_bit 3 code) d
        in Some (fold lcd_write_ch (take 8 data) d))"

definition lcd_clear :: "devices \<Rightarrow> devices" where
  "lcd_clear d = lcd_send_cmd (lcd_code LCD_CMD_RETURN_HOME) 0 (lcd_send_cmd (lcd_code LCD_CMD_CLEAR_SCREEN) 0 d)"

definition lcd_init :: "devices \<Rightarrow> devices" where
  "lcd_init d = lcd_clear (lcd_send_cmd (lcd_code LCD_CMD_DISPLAY_ON_CURSOR_OFF) 0 (lcd_send_cmd (lcd_code LCD_CMD_INIT) 0 d))"

definition lcd_move_cursor :: "u8 \<Rightarrow> u8 \<Rightarrow> devices \<Rightarrow> devices" where
  "lcd_move_cursor y x d =
     (let x = x AND 0x0F; y = y AND 0x01
      in lcd_send_cmd (lcd_code LCD_CMD_SET_CURSOR_POSITION OR push_bit 6 (ucast y) OR ucast x) 0 d)"

section \<open>Interrupt controller\<close>

definition plic_set_mask :: "u32 \<Rightarrow> devices \<Rightarrow> devices" where
  "plic_set_mask msk d = d\<lparr>plic_mask := msk\<rparr>"

definition plic_allow_single :: "u8 \<Rightarrow> devices \<Rightarrow> devices option" where
  "plic_allow_single irq d = do { b \<leftarrow> shift_one irq; Some (d\<lparr>plic_mask := plic_mask d OR b\<rparr>) }"

definition plic_allow_all :: "devices \<Rightarrow> devices" where
  "plic_allow_all d = d\<lparr>plic_mask := 0xFFFF\<rparr>"

definition plic_block_single :: "u8 \<Rightarrow> devices \<Rightarrow> devices option" where
  "plic_block_single irq d = do { b \<leftarrow> shift_one irq; Some (d\<lparr>plic_mask := plic_mask d AND NOT b\<rparr>) }"

definition plic_block_all :: "devices \<Rightarrow> devices" where
  "plic_block_all d = d\<lparr>plic_mask := 0\<rparr>"

definition plic_get_statuses :: "devices \<Rightarrow> u16" where
  "plic_get_statuses d = ucast (plic_pending d)"

text \<open>Reading the claim register takes the next pending interrupt; 0 when there is none.\<close>

definition plic_get_next :: "devices \<Rightarrow> u8 \<times> devices" where
  "plic_get_next d = (case plic_claims d of [] \<Rightarrow> (0, d) | c # cs \<Rightarrow> (ucast c, d\<lparr>plic_claims := cs\<rparr>))"

section \<open>Buttons, LEDs, buzzer\<close>

definition btns_enable_single :: "u8 \<Rightarrow> devices \<Rightarrow> devices option" where
  "btns_enable_single btn d = do { b \<leftarrow> shift_one btn; Some (d\<lparr>btns_irqs := ucast (ucast (btns_irqs d) OR b)\<rparr>) }"

definition btns_enable_all :: "devices \<Rightarrow> devices" where
  "btns_enable_all d = d\<lparr>btns_irqs := 0xF\<rparr>"

definition btns_disable_single :: "u8 \<Rightarrow> devices \<Rightarrow> devices option" where
  "btns_disable_single btn d = do { b \<leftarrow> shift_one btn; Some (d\<lparr>btns_irqs := ucast (ucast (btns_irqs d) AND NOT b)\<rparr>) }"

definition btns_disable_all :: "devices \<Rightarrow> devices" where
  "btns_disable_all d = d\<lparr>btns_irqs := 0\<rparr>"

definition btns_get_statuses :: "devices \<Rightarrow> bool list" where
  "btns_get_statuses d = btns_pressed d"

definition btns_is_pressed :: "u8 \<Rightarrow> devices \<Rightarrow> bool option" where
  "btns_is_pressed btn d = (if unat btn < length (btns_pressed d) then Some (btns_get_statuses d ! unat btn) else None)"

definition leds_on :: "devices \<Rightarrow> devices" where "leds_on d = d\<lparr>leds_en := True\<rparr>"
definition leds_off :: "devices \<Rightarrow> devices" where "leds_off d = d\<lparr>leds_en := False\<rparr>"

definition leds_set_single :: "u8 \<Rightarrow> bool \<Rightarrow> devices \<Rightarrow> devices option" where
  "leds_set_single led st d =
     (if unat led < length (leds_data d) then Some (d\<lparr>leds_data := (leds_data d)[unat led := st]\<rparr>) else None)"

definition leds_set :: "bool list \<Rightarrow> devices \<Rightarrow> devices" where "leds_set st d = d\<lparr>leds_data := st\<rparr>"

definition leds_toggle_single :: "u8 \<Rightarrow> devices \<Rightarrow> devices option" where
  "leds_toggle_single led d = (if led < 4 then Some (d\<lparr>leds_toggles := leds_toggles d @ [led]\<rparr>) else None)"

definition buzzer_on :: "devices \<Rightarrow> devices" where "buzzer_on d = d\<lparr>buzzer_en := True\<rparr>"
definition buzzer_off :: "devices \<Rightarrow> devices" where "buzzer_off d = d\<lparr>buzzer_en := False\<rparr>"
definition buzzer_set :: "bool \<Rightarrow> devices \<Rightarrow> devices" where "buzzer_set st d = d\<lparr>buzzer_state := st\<rparr>"
definition buzzer_toggle :: "devices \<Rightarrow> devices" where "buzzer_toggle d = d\<lparr>buzzer_state := \<not> buzzer_state d\<rparr>"

section \<open>Seven-segment displays\<close>

definition ssds_on :: "devices \<Rightarrow> devices" where "ssds_on d = d\<lparr>ssds_en := True\<rparr>"
definition ssds_off :: "devices \<Rightarrow> devices" where "ssds_off d = d\<lparr>ssds_en := False\<rparr>"

definition ssds_set :: "ssds_display_state list \<Rightarrow> devices \<Rightarrow> devices" where
  "ssds_set st d = d\<lparr>ssds_digits := st\<rparr>"

definition ssds_set_dots :: "u8 \<Rightarrow> devices \<Rightarrow> devices" where
  "ssds_set_dots states d = d\<lparr>ssds_dots := ucast states\<rparr>"

definition ssds_set_digit :: "u8 \<Rightarrow> u8 \<Rightarrow> devices \<Rightarrow> devices option" where
  "ssds_set_digit digit v d =
     (if unat digit < length (ssds_digits d)
      then Some (d\<lparr>ssds_digits := (ssds_digits d)[unat digit := \<lparr>digit_data = ucast v, is_digit = True\<rparr>]\<rparr>)
      else None)"

text \<open>The loops fill \<open>digits[3 - i]\<close> for \<open>i\<close> from 0; division and remainder of C round to zero.\<close>

fun dec_digits :: "nat \<Rightarrow> int \<Rightarrow> ssds_display_state list \<Rightarrow> ssds_display_state list" where
  "dec_digits 0 number ds = ds"
| "dec_digits (Suc n) number ds =
     dec_digits n (number sdiv 10) (ds[n := \<lparr>digit_data = of_int (number smod 10), is_digit = True\<rparr>])"

definition ssds_set_dec_num :: "16 word \<Rightarrow> devices \<Rightarrow> devices" where
  "ssds_set_dec_num number d =
     ssds_set (dec_digits 4 (sint number) (replicate 4 \<lparr>digit_data = 0, is_digit = False\<rparr>)) d"

fun hex_digits :: "nat \<Rightarrow> u16 \<Rightarrow> ssds_display_state list \<Rightarrow> ssds_display_state list" where
  "hex_digits 0 number ds = ds"
| "hex_digits (Suc n) number ds =
     hex_digits n (drop_bit 4 number) (ds[n := \<lparr>digit_data = ucast (number AND 0xF), is_digit = True\<rparr>])"

definition ssds_set_hex_num :: "u16 \<Rightarrow> devices \<Rightarrow> devices" where
  "ssds_set_hex_num number d =
     ssds_set (hex_digits 4 number (replicate 4 \<lparr>digit_data = 0, is_digit = False\<rparr>)) d"

end
