(* ===== verification/Signals.thy ===== *)
theory Signals
  imports Thread Condition Devices
begin

text \<open>
  Signals (\<^verbatim>\<open>Software/src/kernel/signals.c\<close>) and the kernel's whole state. A ring of ten entries holds
  the signals the processor thread has not handled yet.
\<close>

section \<open>The kernel's state\<close>

datatype signal = ABORT | ILLEGAL | INTERRUPT | MEM_ACCESS | KEY | BTN_0 | BTN_1 | BTN_2 | BTN_3

fun signal_code :: "signal \<Rightarrow> u32" where
  "signal_code ABORT = 0"
| "signal_code ILLEGAL = 1"
| "signal_code INTERRUPT = 2"
| "signal_code MEM_ACCESS = 3"
| "signal_code KEY = 4"
| "signal_code BTN_0 = 5"
| "signal_code BTN_1 = 6"
| "signal_code BTN_2 = 7"
| "signal_code BTN_3 = 8"

text \<open>
  \<open>requests_mutex\<close> and \<open>requests_cond\<close> are the addresses of the two static objects; \<open>sig_handlers\<close> are the code
  addresses in the array \<open>handlers\<close>; \<open>head\<close> and \<open>tail\<close> of the ring are \<open>req_head\<close> and \<open>req_tail\<close>.
\<close>

record kernel = kstate +
  dev :: devices
  ksig_addr :: addr
  sig_handlers :: "addr list"
  requests :: "u32 list"
  req_head :: u32
  req_tail :: u32
  requests_mutex :: addr
  requests_cond :: addr
  sip :: u32

text \<open>The initial value of \<open>handlers\<close>; \<open>h\<close> is the address of \<open>handle_illegal_action\<close>.\<close>

definition initial_handlers :: "addr \<Rightarrow> addr list" where
  "initial_handlers h = map (\<lambda>sig. if sig \<in> {ABORT, ILLEGAL, MEM_ACCESS} then h else NULL)
     [ABORT, ILLEGAL, INTERRUPT, MEM_ACCESS, KEY, BTN_0, BTN_1, BTN_2, BTN_3]"

section \<open>The ring of requests\<close>

definition ring_put :: "u32 \<Rightarrow> kernel \<Rightarrow> kernel option" where
  "ring_put sig s =
     (if unat (req_tail s) < length (requests s)
      then Some (s\<lparr>requests := (requests s)[unat (req_tail s) := sig], req_tail := (req_tail s + 1) mod 10\<rparr>)
      else None)"

text \<open>The processor thread takes the oldest signal; \<open>ring_take\<close> is \<open>None\<close> inside when it has to wait (\<open>head == tail\<close>).\<close>

definition take_request :: "kernel \<Rightarrow> (u32 \<times> kernel) option" where
  "take_request s =
     (if unat (req_head s) < length (requests s)
      then Some (requests s ! unat (req_head s), s\<lparr>req_head := (req_head s + 1) mod 10\<rparr>)
      else None)"

definition ring_take :: "kernel \<Rightarrow> (u32 option \<times> kernel) option" where
  "ring_take s =
     (if req_head s = req_tail s then Some (None, s)
      else do { (sig, s) \<leftarrow> take_request s; Some (Some sig, s) })"

definition ksignal_handle :: "u32 \<Rightarrow> addr \<Rightarrow> kernel \<Rightarrow> (addr \<times> kernel) option" where
  "ksignal_handle sig handler s =
     (if unat sig < length (sig_handlers s)
      then Some (sig_handlers s ! unat sig, s\<lparr>sig_handlers := (sig_handlers s)[unat sig := handler]\<rparr>)
      else None)"

definition ksignal_send :: "u32 \<Rightarrow> kernel \<Rightarrow> kernel option" where
  "ksignal_send sig s = do {
     s \<leftarrow> ring_put sig s;
     kcond_signal (requests_cond s) True s
   }"

text \<open>What the processor calls for a signal: the handler's address, null for none.\<close>

definition handler_of :: "u32 \<Rightarrow> kernel \<Rightarrow> addr option" where
  "handler_of sig s = (if unat sig < length (sig_handlers s) then Some (sig_handlers s ! unat sig) else None)"

definition ksignal_init :: "image \<Rightarrow> kthread \<Rightarrow> addr \<Rightarrow> kernel \<Rightarrow> kernel option" where
  "ksignal_init im junk signal_processor s = do {
     let s = kmutex_init (requests_mutex s) False s;
     let s = kcond_init (requests_cond s) s;
     (thread, s) \<leftarrow> kthread_create im junk signal_processor 0 False s;
     kscheduler_enqueue thread s
   }"

section \<open>The default handler\<close>

text \<open>The three strings \<open>handle_illegal_action\<close> prints, without the terminating null, as ASCII codes.\<close>

definition hex_char :: "u32 \<Rightarrow> u8" where
  "hex_char d = (if d < 10 then 48 + ucast d else 55 + ucast d)"

definition cause_str :: "u32 \<Rightarrow> u8 list" where
  "cause_str cause = [48 + ucast (cause div 10), 48 + ucast (cause mod 10), 10]"

definition addr_str :: "u32 \<Rightarrow> u8 list" where
  "addr_str a = [48, 120] @ map (\<lambda>i. hex_char (drop_bit (28 - i * 4) a AND 0xF)) [0..<8]"

end
