(* ===== verification/Kernel_Io.thy ===== *)
theory Kernel_Io
  imports Signals
begin

text \<open>
  Files: \<^verbatim>\<open>Software/src/kernel/io/io.c\<close> and \<^verbatim>\<open>lcd.c\<close>. There is one file, the character display.
\<close>

section \<open>Files\<close>

text \<open>\<open>file->write\<close> of the display, byte by byte.\<close>

definition klcd_put :: "u8 \<Rightarrow> devices \<Rightarrow> devices" where
  "klcd_put ch d =
     (if ch = 10 then lcd_move_cursor 1 0 d
      else if ch = 13 then lcd_move_cursor 0 0 d
      else lcd_write_ch ch d)"

fun klcd_write_loop :: "nat \<Rightarrow> addr \<Rightarrow> ram \<Rightarrow> devices \<Rightarrow> devices option" where
  "klcd_write_loop 0 buffer m d = Some d"
| "klcd_write_loop (Suc n) buffer m d = do {
     ch \<leftarrow> m buffer;
     klcd_write_loop n (buffer + 1) m (klcd_put ch d)
   }"

definition klcd_write :: "addr \<Rightarrow> u32 \<Rightarrow> kernel \<Rightarrow> (u32 \<times> kernel) option" where
  "klcd_write buffer sz s = do {
     d \<leftarrow> klcd_write_loop (unat sz) buffer (kram s) (dev s);
     Some (sz, s\<lparr>dev := d\<rparr>)
   }"

text \<open>The array \<open>files\<close> has the display at index 0 only, and the display has no read operation.\<close>

definition kfile_write :: "u32 \<Rightarrow> addr \<Rightarrow> u32 \<Rightarrow> kernel \<Rightarrow> (u32 \<times> kernel) option" where
  "kfile_write fid buffer sz s = (if fid = 0 then klcd_write buffer sz s else None)"

definition kfile_read :: "u32 \<Rightarrow> addr \<Rightarrow> u32 \<Rightarrow> kernel \<Rightarrow> (u32 \<times> kernel) option" where
  "kfile_read fid buffer sz s = None"

end
