(* ===== verification/Syscalls.thy ===== *)
theory Syscalls
  imports Kernel_Io
begin

text \<open>
  System calls: \<^verbatim>\<open>Software/src/kernel/exceptions/syscalls.c\<close>. A call's parameters are in the saved
  registers \<open>a0\<close>, \<open>a1\<close>, \<open>a2\<close> of the current thread, its number in \<open>a5\<close>, its result goes to \<open>a0\<close>.
\<close>

section \<open>The numbers of the calls\<close>

text \<open>\<^verbatim>\<open>Software/h/common/syscall_codes.h\<close>.\<close>

datatype syscall =
    SYSCALL_MEMORY_ALLOCATE | SYSCALL_MEMORY_FREE | SYSCALL_MEMORY_TRY_EXPAND | SYSCALL_THREAD_CREATE
  | SYSCALL_THREAD_EXIT | SYSCALL_THREAD_DISPATCH | SYSCALL_THREAD_JOIN | SYSCALL_THREAD_DETACH
  | SYSCALL_THREAD_GET_CURRENT | SYSCALL_MUTEX_CREATE | SYSCALL_MUTEX_LOCK | SYSCALL_MUTEX_UNLOCK
  | SYSCALL_MUTEX_DESTROY | SYSCALL_MUTEX_TRY_LOCK | SYSCALL_CONDITION_CREATE | SYSCALL_CONDITION_WAIT
  | SYSCALL_CONDITION_SIGNAL | SYSCALL_CONDITION_SIGNAL_ALL | SYSCALL_CONDITION_DESTROY | SYSCALL_THREAD_STORAGE_CREATE
  | SYSCALL_THREAD_STORAGE_DESTROY | SYSCALL_THREAD_STORAGE_GET | SYSCALL_THREAD_STORAGE_SET | SYSCALL_SIGNAL_SET_HANDLER
  | SYSCALL_SIGNAL_RAISE | SYSCALL_FILE_WRITE | SYSCALL_FILE_READ

fun syscall_code :: "syscall \<Rightarrow> u32" where
  "syscall_code SYSCALL_MEMORY_ALLOCATE = 0x01"
| "syscall_code SYSCALL_MEMORY_FREE = 0x02"
| "syscall_code SYSCALL_MEMORY_TRY_EXPAND = 0x03"
| "syscall_code SYSCALL_THREAD_CREATE = 0x11"
| "syscall_code SYSCALL_THREAD_EXIT = 0x12"
| "syscall_code SYSCALL_THREAD_DISPATCH = 0x13"
| "syscall_code SYSCALL_THREAD_JOIN = 0x14"
| "syscall_code SYSCALL_THREAD_DETACH = 0x15"
| "syscall_code SYSCALL_THREAD_GET_CURRENT = 0x16"
| "syscall_code SYSCALL_MUTEX_CREATE = 0x21"
| "syscall_code SYSCALL_MUTEX_LOCK = 0x22"
| "syscall_code SYSCALL_MUTEX_UNLOCK = 0x23"
| "syscall_code SYSCALL_MUTEX_DESTROY = 0x24"
| "syscall_code SYSCALL_MUTEX_TRY_LOCK = 0x25"
| "syscall_code SYSCALL_CONDITION_CREATE = 0x31"
| "syscall_code SYSCALL_CONDITION_WAIT = 0x32"
| "syscall_code SYSCALL_CONDITION_SIGNAL = 0x33"
| "syscall_code SYSCALL_CONDITION_SIGNAL_ALL = 0x34"
| "syscall_code SYSCALL_CONDITION_DESTROY = 0x35"
| "syscall_code SYSCALL_THREAD_STORAGE_CREATE = 0x41"
| "syscall_code SYSCALL_THREAD_STORAGE_DESTROY = 0x42"
| "syscall_code SYSCALL_THREAD_STORAGE_GET = 0x43"
| "syscall_code SYSCALL_THREAD_STORAGE_SET = 0x44"
| "syscall_code SYSCALL_SIGNAL_SET_HANDLER = 0x51"
| "syscall_code SYSCALL_SIGNAL_RAISE = 0x52"
| "syscall_code SYSCALL_FILE_WRITE = 0x61"
| "syscall_code SYSCALL_FILE_READ = 0x62"

section \<open>Parameters and results\<close>

definition get_param :: "nat \<Rightarrow> 'a kstate_scheme \<Rightarrow> u32 option" where
  "get_param i s = map_option (get_reg (REG_A0 + i)) (thrs s (kthread_current s))"

definition set_ret_value :: "u32 \<Rightarrow> 'a kstate_scheme \<Rightarrow> 'a kstate_scheme option" where
  "set_ret_value v s = upd_thr (kthread_current s) (set_reg REG_A0 v) s"

abbreviation set_ret_status :: "thread_status \<Rightarrow> 'a kstate_scheme \<Rightarrow> 'a kstate_scheme option" where
  "set_ret_status st \<equiv> set_ret_value (status_code st)"

text \<open>\<open>*location = p\<close> for a location of the user.\<close>

definition put_word :: "addr \<Rightarrow> u32 \<Rightarrow> 'a kstate_scheme \<Rightarrow> 'a kstate_scheme option" where
  "put_word location p s = do { m \<leftarrow> store32 location p (kram s); Some (s\<lparr>kram := m\<rparr>) }"

definition sizeof_kmutex :: u32 where "sizeof_kmutex = 16"
definition sizeof_kcond :: u32 where "sizeof_kcond = 8"

section \<open>Memory\<close>

definition syscall_mem_alloc :: "'a kstate_scheme \<Rightarrow> 'a kstate_scheme option" where
  "syscall_mem_alloc s = do {
     bytes \<leftarrow> get_param 0 s;
     (result, s) \<leftarrow> kalloc bytes s;
     set_ret_value result s
   }"

definition syscall_mem_free :: "'a kstate_scheme \<Rightarrow> 'a kstate_scheme option" where
  "syscall_mem_free s = do { ptr \<leftarrow> get_param 0 s; kfree ptr s }"

definition syscall_mem_try_expand :: "'a kstate_scheme \<Rightarrow> 'a kstate_scheme option" where
  "syscall_mem_try_expand s = do {
     ptr \<leftarrow> get_param 0 s;
     bytes \<leftarrow> get_param 1 s;
     (r, h) \<leftarrow> kheap_try_expand ptr bytes (kheap s);
     set_ret_value (of_bool r) (s\<lparr>kheap := h\<rparr>)
   }"

section \<open>Threads\<close>

definition syscall_thread_create :: "image \<Rightarrow> kthread \<Rightarrow> 'a kstate_scheme \<Rightarrow> 'a kstate_scheme option" where
  "syscall_thread_create im junk s = do {
     location \<leftarrow> get_param 0 s;
     func \<leftarrow> get_param 1 s;
     arg \<leftarrow> get_param 2 s;
     if location = NULL \<or> func = NULL then set_ret_status STATUS_ERROR s
     else do {
       (thread, s) \<leftarrow> kthread_create im junk func arg False s;
       if thread = NULL then set_ret_status STATUS_NO_MEMORY s
       else do {
         s \<leftarrow> put_word location thread s;
         s \<leftarrow> kscheduler_enqueue thread s;
         set_ret_status STATUS_SUCCESS s
       }
     }
   }"

definition syscall_thread_detach :: "'a kstate_scheme \<Rightarrow> 'a kstate_scheme option" where
  "syscall_thread_detach s = do {
     thread \<leftarrow> get_param 0 s;
     if thread = NULL then set_ret_status STATUS_ERROR s
     else do { s \<leftarrow> kthread_destroy thread s; set_ret_status STATUS_SUCCESS s }
   }"

definition syscall_thread_join :: "'a kstate_scheme \<Rightarrow> 'a kstate_scheme option" where
  "syscall_thread_join s = Some s"

definition syscall_thread_get_current :: "'a kstate_scheme \<Rightarrow> 'a kstate_scheme option" where
  "syscall_thread_get_current s = set_ret_value (kthread_current s) s"

section \<open>Mutexes\<close>

definition syscall_mutex_create :: "'a kstate_scheme \<Rightarrow> 'a kstate_scheme option" where
  "syscall_mutex_create s = do {
     location \<leftarrow> get_param 0 s;
     mode \<leftarrow> get_param 1 s;
     if location = NULL then set_ret_status STATUS_ERROR s
     else do {
       (mutex, s) \<leftarrow> kalloc sizeof_kmutex s;
       if mutex = NULL then set_ret_status STATUS_NO_MEMORY s
       else do {
         let s = kmutex_init mutex (mode AND 2 \<noteq> 0) s;
         s \<leftarrow> put_word location mutex s;
         set_ret_status STATUS_SUCCESS s
       }
     }
   }"

definition syscall_mutex_lock :: "'a kstate_scheme \<Rightarrow> 'a kstate_scheme option" where
  "syscall_mutex_lock s = do {
     mutex \<leftarrow> get_param 0 s;
     if mutex = NULL then set_ret_status STATUS_ERROR s
     else do {
       s \<leftarrow> kmutex_lock mutex (kthread_current s) s;
       s \<leftarrow> set_ret_status STATUS_SUCCESS s;
       t \<leftarrow> thrs s (kthread_current s);
       if state t = BLOCKED then kthread_dispatch s else Some s
     }
   }"

definition syscall_mutex_unlock :: "'a kstate_scheme \<Rightarrow> 'a kstate_scheme option" where
  "syscall_mutex_unlock s = do {
     mutex \<leftarrow> get_param 0 s;
     if mutex = NULL then set_ret_status STATUS_ERROR s
     else do {
       (st, s) \<leftarrow> kmutex_unlock mutex (kthread_current s) s;
       set_ret_status st s
     }
   }"

definition syscall_mutex_destroy :: "'a kstate_scheme \<Rightarrow> 'a kstate_scheme option" where
  "syscall_mutex_destroy s = do {
     mutex \<leftarrow> get_param 0 s;
     if mutex = NULL then set_ret_status STATUS_ERROR s
     else do {
       s \<leftarrow> kmutex_destroy mutex s;
       s \<leftarrow> kfree mutex s;
       set_ret_status STATUS_SUCCESS (s\<lparr>mtxs := (mtxs s)(mutex := None)\<rparr>)
     }
   }"

definition syscall_mutex_try_lock :: "'a kstate_scheme \<Rightarrow> 'a kstate_scheme option" where
  "syscall_mutex_try_lock s = do {
     mutex \<leftarrow> get_param 0 s;
     if mutex = NULL then set_ret_status STATUS_ERROR s
     else do {
       (result, s) \<leftarrow> kmutex_try_lock mutex (kthread_current s) s;
       if \<not> result then set_ret_status STATUS_BUSY s else set_ret_status STATUS_SUCCESS s
     }
   }"

section \<open>Condition variables\<close>

definition syscall_cond_create :: "'a kstate_scheme \<Rightarrow> 'a kstate_scheme option" where
  "syscall_cond_create s = do {
     location \<leftarrow> get_param 0 s;
     if location = NULL then set_ret_status STATUS_ERROR s
     else do {
       (cond, s) \<leftarrow> kalloc sizeof_kcond s;
       if cond = NULL then set_ret_status STATUS_NO_MEMORY s
       else do {
         let s = kcond_init cond s;
         s \<leftarrow> put_word location cond s;
         set_ret_status STATUS_SUCCESS s
       }
     }
   }"

definition syscall_cond_wait :: "'a kstate_scheme \<Rightarrow> 'a kstate_scheme option" where
  "syscall_cond_wait s = do {
     cond \<leftarrow> get_param 0 s;
     mutex \<leftarrow> get_param 1 s;
     if cond = NULL \<or> mutex = NULL then set_ret_status STATUS_ERROR s
     else do {
       s \<leftarrow> kcond_wait cond mutex (kthread_current s) s;
       s \<leftarrow> set_ret_status STATUS_SUCCESS s;
       t \<leftarrow> thrs s (kthread_current s);
       if state t = BLOCKED then kthread_dispatch s else Some s
     }
   }"

definition syscall_cond_signal :: "'a kstate_scheme \<Rightarrow> 'a kstate_scheme option" where
  "syscall_cond_signal s = do {
     cond \<leftarrow> get_param 0 s;
     if cond = NULL then set_ret_status STATUS_ERROR s
     else do { s \<leftarrow> kcond_signal cond False s; set_ret_status STATUS_SUCCESS s }
   }"

definition syscall_cond_signal_all :: "'a kstate_scheme \<Rightarrow> 'a kstate_scheme option" where
  "syscall_cond_signal_all s = do {
     cond \<leftarrow> get_param 0 s;
     if cond = NULL then set_ret_status STATUS_ERROR s
     else do { s \<leftarrow> kcond_signal_all cond s; set_ret_status STATUS_SUCCESS s }
   }"

definition syscall_cond_destroy :: "'a kstate_scheme \<Rightarrow> 'a kstate_scheme option" where
  "syscall_cond_destroy s = do {
     cond \<leftarrow> get_param 0 s;
     if cond = NULL then set_ret_status STATUS_ERROR s
     else do {
       s \<leftarrow> kcond_destroy cond s;
       s \<leftarrow> kfree cond s;
       set_ret_status STATUS_SUCCESS (s\<lparr>cnds := (cnds s)(cond := None)\<rparr>)
     }
   }"

section \<open>Thread-specific storage\<close>

definition syscall_ts_create :: "'a kstate_scheme \<Rightarrow> 'a kstate_scheme option" where
  "syscall_ts_create s = do {
     location \<leftarrow> get_param 0 s;
     dtor \<leftarrow> get_param 1 s;
     if location = NULL then set_ret_status STATUS_ERROR s
     else do {
       (local_storage, s) \<leftarrow> kthread_ls_create dtor s;
       if local_storage = NULL then set_ret_status STATUS_NO_MEMORY s
       else do { s \<leftarrow> put_word location local_storage s; set_ret_status STATUS_SUCCESS s }
     }
   }"

definition syscall_ts_destroy :: "'a kstate_scheme \<Rightarrow> 'a kstate_scheme option" where
  "syscall_ts_destroy s = do {
     local_storage \<leftarrow> get_param 0 s;
     if local_storage = NULL then set_ret_status STATUS_ERROR s
     else do { s \<leftarrow> kthread_ls_destroy local_storage s; set_ret_status STATUS_SUCCESS s }
   }"

definition syscall_ts_get :: "'a kstate_scheme \<Rightarrow> 'a kstate_scheme option" where
  "syscall_ts_get s = do {
     local_storage \<leftarrow> get_param 0 s;
     if local_storage = NULL then set_ret_status STATUS_ERROR s
     else do { d \<leftarrow> kthread_ls_get local_storage (kthread_current s) s; set_ret_value d s }
   }"

definition syscall_ts_set :: "'a kstate_scheme \<Rightarrow> 'a kstate_scheme option" where
  "syscall_ts_set s = do {
     local_storage \<leftarrow> get_param 0 s;
     d \<leftarrow> get_param 1 s;
     if local_storage = NULL then set_ret_status STATUS_ERROR s
     else do {
       (st, s) \<leftarrow> kthread_ls_set local_storage (kthread_current s) d s;
       if st \<noteq> STATUS_SUCCESS then set_ret_status STATUS_ERROR s else set_ret_status STATUS_SUCCESS s
     }
   }"

section \<open>Signals and files\<close>

definition syscall_sig_set_handler :: "kernel \<Rightarrow> kernel option" where
  "syscall_sig_set_handler s = do {
     sig \<leftarrow> get_param 0 s;
     handler \<leftarrow> get_param 1 s;
     (handler, s) \<leftarrow> ksignal_handle sig handler s;
     set_ret_value handler s
   }"

definition syscall_sig_raise :: "kernel \<Rightarrow> kernel option" where
  "syscall_sig_raise s = do {
     sig \<leftarrow> get_param 0 s;
     s \<leftarrow> ksignal_send sig s;
     set_ret_value 0 s
   }"

definition syscall_file_write :: "kernel \<Rightarrow> kernel option" where
  "syscall_file_write s = do {
     file \<leftarrow> get_param 0 s;
     buffer \<leftarrow> get_param 1 s;
     sz \<leftarrow> get_param 2 s;
     (written, s) \<leftarrow> kfile_write file buffer sz s;
     set_ret_value written s
   }"

definition syscall_file_read :: "kernel \<Rightarrow> kernel option" where
  "syscall_file_read s = do {
     file \<leftarrow> get_param 0 s;
     buffer \<leftarrow> get_param 1 s;
     sz \<leftarrow> get_param 2 s;
     (rd, s) \<leftarrow> kfile_read file buffer sz s;
     set_ret_value rd s
   }"

section \<open>Dispatch of calls\<close>

text \<open>
  The table \<open>syscalls\<close>, indexed by the codes of \<^verbatim>\<open>Software/h/common/syscall_codes.h\<close>. A code that has no
  entry is a call through a null pointer or beyond the table.
\<close>

definition syscalls :: "image \<Rightarrow> kthread \<Rightarrow> u32 \<Rightarrow> kernel \<Rightarrow> kernel option" where
  "syscalls im junk c s =
     (if c = syscall_code SYSCALL_MEMORY_ALLOCATE then syscall_mem_alloc s
      else if c = syscall_code SYSCALL_MEMORY_FREE then syscall_mem_free s
      else if c = syscall_code SYSCALL_MEMORY_TRY_EXPAND then syscall_mem_try_expand s
      else if c = syscall_code SYSCALL_THREAD_CREATE then syscall_thread_create im junk s
      else if c = syscall_code SYSCALL_THREAD_EXIT then kthread_stop s
      else if c = syscall_code SYSCALL_THREAD_DISPATCH then kthread_dispatch s
      else if c = syscall_code SYSCALL_THREAD_JOIN then syscall_thread_join s
      else if c = syscall_code SYSCALL_THREAD_DETACH then syscall_thread_detach s
      else if c = syscall_code SYSCALL_THREAD_GET_CURRENT then syscall_thread_get_current s
      else if c = syscall_code SYSCALL_MUTEX_CREATE then syscall_mutex_create s
      else if c = syscall_code SYSCALL_MUTEX_LOCK then syscall_mutex_lock s
      else if c = syscall_code SYSCALL_MUTEX_UNLOCK then syscall_mutex_unlock s
      else if c = syscall_code SYSCALL_MUTEX_DESTROY then syscall_mutex_destroy s
      else if c = syscall_code SYSCALL_MUTEX_TRY_LOCK then syscall_mutex_try_lock s
      else if c = syscall_code SYSCALL_CONDITION_CREATE then syscall_cond_create s
      else if c = syscall_code SYSCALL_CONDITION_WAIT then syscall_cond_wait s
      else if c = syscall_code SYSCALL_CONDITION_SIGNAL then syscall_cond_signal s
      else if c = syscall_code SYSCALL_CONDITION_SIGNAL_ALL then syscall_cond_signal_all s
      else if c = syscall_code SYSCALL_CONDITION_DESTROY then syscall_cond_destroy s
      else if c = syscall_code SYSCALL_THREAD_STORAGE_CREATE then syscall_ts_create s
      else if c = syscall_code SYSCALL_THREAD_STORAGE_DESTROY then syscall_ts_destroy s
      else if c = syscall_code SYSCALL_THREAD_STORAGE_GET then syscall_ts_get s
      else if c = syscall_code SYSCALL_THREAD_STORAGE_SET then syscall_ts_set s
      else if c = syscall_code SYSCALL_SIGNAL_SET_HANDLER then syscall_sig_set_handler s
      else if c = syscall_code SYSCALL_SIGNAL_RAISE then syscall_sig_raise s
      else if c = syscall_code SYSCALL_FILE_WRITE then syscall_file_write s
      else if c = syscall_code SYSCALL_FILE_READ then syscall_file_read s
      else None)"

definition handle_syscall :: "image \<Rightarrow> kthread \<Rightarrow> kernel \<Rightarrow> kernel option" where
  "handle_syscall im junk s = do {
     s \<leftarrow> upd_thr (kthread_current s) (\<lambda>t. t\<lparr>ctx := (ctx t)\<lparr>pc := pc (ctx t) + 4\<rparr>\<rparr>) s;
     t \<leftarrow> thrs s (kthread_current s);
     syscalls im junk (get_reg REG_A5 t) s
   }"

end
