(* ===== verification/Kernel_Steps.thy ===== *)
theory Kernel_Steps
  imports Round_Robin Syscalls
begin

text \<open>
  The scheduling system calls as steps of the kernel, and the invariant of every run: the queues are
  well formed, a thread runs, and no thread is lost.
\<close>

section \<open>Threads in queues\<close>

definition placed :: "(qid \<Rightarrow> addr list) \<Rightarrow> addr set" where
  "placed Q = {x. queued Q x}"

text \<open>All threads the kernel keeps track of, the idle thread apart.\<close>

definition everyone :: "'a kstate_scheme \<Rightarrow> (qid \<Rightarrow> addr list) \<Rightarrow> addr set" where
  "everyone s Q = insert (kthread_current s) (placed Q) - {kthread_main s}"

lemma placed_upd: "placed (Q(q := xs)) = set xs \<union> placed (Q(q := []))"
  by (auto simp: placed_def queued_def split: if_splits)

lemma placed_split: "placed Q = set (Q q) \<union> placed (Q(q := []))"
  using placed_upd [of Q q "Q q"] by simp

lemma placed_push: "placed (Q(q := Q q @ [a])) = insert a (placed Q)"
  using placed_upd [of Q q "Q q @ [a]"] placed_split [of Q q] by auto

lemma placed_move:
  assumes "Q p = b # bs" and "p \<noteq> q"
  shows "placed (Q(p := bs, q := Q q @ [b])) = placed Q"
proof -
  have "placed (Q(p := bs, q := Q q @ [b])) = insert b (placed (Q(p := bs)))"
    using placed_push [of "Q(p := bs)" q b] assms(2) by simp
  also have "\<dots> = placed Q" using placed_upd [of Q p bs] placed_split [of Q p] assms(1) by simp
  finally show ?thesis .
qed

lemma placed_splice:
  assumes "p \<noteq> q"
  shows "placed (Q(q := Q q @ Q p, p := [])) = placed Q"
proof -
  have "placed (Q(q := Q q @ Q p, p := [])) = set (Q q @ Q p) \<union> placed (Q(p := [], q := []))"
    using placed_upd [of "Q(p := [])" q "Q q @ Q p"] assms by (simp add: fun_upd_twist)
  also have "\<dots> = set (Q p) \<union> placed (Q(p := []))"
    using placed_split [of "Q(p := [])" q] assms by auto
  also have "\<dots> = placed Q" using placed_split [of Q p] by simp
  finally show ?thesis .
qed

lemma placed_unlock: "placed (unlock_queues x m a Q) = placed Q"
  using placed_move [of Q "QMutex m" _ _ QReady] by (auto simp: unlock_queues_def split: list.split)

section \<open>Frames\<close>

lemma kinv_frame:
  assumes I: "kinv s Q" and n: "nxt s' = nxt s" and i: "info s' = info s" and d: "dom (thrs s') = dom (thrs s)"
    and m: "mtxs s' = mtxs s" "cnds s' = cnds s" "kscheduler_head s' = kscheduler_head s"
      "kscheduler_tail s' = kscheduler_tail s" "kthread_main s' = kthread_main s"
  shows "kinv s' Q"
proof -
  note K = kinvD [OF I]
  have "queues s' Q"
    by (rule queues_frame [OF K(1)]) (use n d m in \<open>simp_all add: q_ends_eq [of s' s]\<close>)
  moreover have "place_ok s' q x" if "x \<in> set (Q q)" for q x
    using K(2) [OF that] i m(1) by (cases q) auto
  ultimately show ?thesis using K n d m by (simp add: kinv_def main_ok_def)
qed

lemma set_ret_value_kinv:
  assumes I: "kinv s Q" and c: "kthread_current s \<in> dom (thrs s)"
  shows "\<exists>s'. set_ret_value v s = Some s' \<and> kinv s' Q \<and> info s' = info s \<and> nxt s' = nxt s
    \<and> same_objects s s' \<and> mtxs s' = mtxs s \<and> cnds s' = cnds s"
proof -
  obtain t where t: "thrs s (kthread_current s) = Some t" using c by auto
  define s' where "s' = s\<lparr>thrs := (thrs s)(kthread_current s \<mapsto> set_reg REG_A0 v t)\<rparr>"
  have r: "set_ret_value v s = Some s'" using t by (simp add: set_ret_value_def kernel_simps s'_def)
  have n: "nxt s' = nxt s" using t by (auto simp: nxt_def s'_def set_reg_def fun_eq_iff)
  have i: "info s' = info s" using t by (auto simp: info_def s'_def set_reg_def fun_eq_iff)
  have d: "dom (thrs s') = dom (thrs s)" using c by (auto simp: s'_def)
  have "kinv s' Q"
    by (rule kinv_frame [OF I n i d]) (simp_all add: s'_def)
  moreover have "same_objects s s'" using d by (simp add: same_objects_def s'_def)
  ultimately show ?thesis using r n i by (intro exI [of _ s']) (simp add: s'_def)
qed

lemma running_frame:
  assumes "running s Q" and "info s' (kthread_current s) = info s (kthread_current s)"
    and "nxt s' (kthread_current s) = nxt s (kthread_current s)"
    and "kthread_current s' = kthread_current s" and "\<not> queued Q' (kthread_current s)"
  shows "running s' Q'"
  using assms by (simp add: running_def)

lemma running_live: "running s Q \<Longrightarrow> kthread_current s \<in> dom (thrs s)"
  by (auto simp: running_def info_def)

lemma running_idle:
  "running s Q \<Longrightarrow> kthread_current s \<noteq> kthread_main s \<Longrightarrow> idle s Q (kthread_current s)"
  using running_live by (auto simp: running_def idle_def)

section \<open>Dispatching\<close>

lemma placed_dispatch:
  "placed (Q(QReady := tl R)) \<union> (if R = [] then {} else {hd R}) = placed (Q(QReady := R))"
  using placed_upd [of Q QReady "tl R"] placed_upd [of Q QReady R] by (cases R) auto

lemma placed_next:
  assumes "c = (if R = [] then m else hd R)"
  shows "insert c (placed (Q(QReady := tl R))) - {m} = placed (Q(QReady := R)) - {m}"
proof (cases "R = []")
  case True
  then show ?thesis using assms by simp
next
  case False
  then show ?thesis unfolding placed_dispatch [of Q R, symmetric] using assms by simp
qed

text \<open>A thread that still runs is dispatched.\<close>

lemma dispatch_running:
  assumes I: "kinv s Q" and run: "running s Q"
  shows "\<exists>s' Q'. kthread_dispatch s = Some s' \<and> kinv s' Q' \<and> running s' Q' \<and> same_objects s (s'\<lparr>kthread_current := kthread_current s\<rparr>)
    \<and> everyone s' Q' = everyone s Q"
proof -
  let ?c = "kthread_current s" and ?R = "requeued s Q"
  have d: "?c \<in> dom (thrs s)" by (rule running_live [OF run])
  have c0: "?c \<noteq> NULL" by (rule live_thread [OF I d])
  have nq: "\<not> queued Q ?c" using run by (simp add: running_def)
  obtain s' where s': "kthread_dispatch s = Some s'" "kinv s' (Q(QReady := tl ?R))" "running s' (Q(QReady := tl ?R))"
    "sched_frame s s'" "kthread_current s' = (if ?R = [] then kthread_main s else hd ?R)"
    using kthread_dispatch_kinv [OF I] d nq by blast
  have R: "?R = (if ?c = kthread_main s then Q QReady else Q QReady @ [?c])"
    using run c0 by (auto simp: requeued_def running_def)
  have "insert (kthread_current s') (placed (Q(QReady := tl ?R))) - {kthread_main s} = placed (Q(QReady := ?R)) - {kthread_main s}"
    by (rule placed_next [OF s'(5)])
  also have "\<dots> = everyone s Q"
    using R placed_push [of Q QReady ?c] by (auto simp: everyone_def)
  finally have "everyone s' (Q(QReady := tl ?R)) = everyone s Q"
    using sched_frameD(3) [OF s'(4)] by (simp add: everyone_def)
  moreover have "same_objects s (s'\<lparr>kthread_current := ?c\<rparr>)"
    using sched_frameD [OF s'(4)] by (simp add: same_objects_def)
  ultimately show ?thesis using s'(1-3) by blast
qed

text \<open>A thread that blocked in a queue, or none (after \<open>kthread_stop\<close>), is dispatched.\<close>

lemma dispatch_blocked:
  assumes I: "kinv s Q" and b: "kthread_current s \<noteq> NULL \<Longrightarrow> \<exists>w. info s (kthread_current s) = Some (BLOCKED, w)"
  shows "\<exists>s' Q'. kthread_dispatch s = Some s' \<and> kinv s' Q' \<and> running s' Q' \<and> same_objects s (s'\<lparr>kthread_current := kthread_current s\<rparr>)
    \<and> everyone s' Q' = placed Q - {kthread_main s}"
proof -
  let ?c = "kthread_current s"
  have R: "requeued s Q = Q QReady" using b by (auto simp: requeued_def)
  have d: "?c \<noteq> NULL \<Longrightarrow> ?c \<in> dom (thrs s)" using b by (auto simp: info_def)
  obtain s' where s': "kthread_dispatch s = Some s'" "kinv s' (Q(QReady := tl (Q QReady)))" "running s' (Q(QReady := tl (Q QReady)))"
    "sched_frame s s'" "kthread_current s' = (if Q QReady = [] then kthread_main s else hd (Q QReady))"
    using kthread_dispatch_kinv [OF I d] b unfolding R by fastforce
  have "insert (kthread_current s') (placed (Q(QReady := tl (Q QReady)))) - {kthread_main s} = placed Q - {kthread_main s}"
    using placed_next [OF s'(5), of Q] by simp
  then have "everyone s' (Q(QReady := tl (Q QReady))) = placed Q - {kthread_main s}"
    using sched_frameD(3) [OF s'(4)] by (simp add: everyone_def)
  moreover have "same_objects s (s'\<lparr>kthread_current := ?c\<rparr>)"
    using sched_frameD [OF s'(4)] by (simp add: same_objects_def)
  ultimately show ?thesis using s'(1-3) by blast
qed


section \<open>The calls of a running thread\<close>

text \<open>What a call achieves: the kernel stays well formed, a thread runs, none is lost.\<close>

definition steps_ok :: "'a kstate_scheme \<Rightarrow> (qid \<Rightarrow> addr list) \<Rightarrow> 'a kstate_scheme option \<Rightarrow> bool" where
  "steps_ok s Q r \<longleftrightarrow> (\<exists>s' Q'. r = Some s' \<and> kinv s' Q' \<and> running s' Q' \<and> everyone s' Q' = everyone s Q
     \<and> dom (thrs s') = dom (thrs s) \<and> kthread_main s' = kthread_main s)"

lemma steps_ok_status:
  assumes I: "kinv s1 Q" and run: "running s1 Q" and same: "same_objects s s1" and ev: "placed Q = placed Q0"
  shows "steps_ok s Q0 (set_ret_value v s1)"
proof -
  obtain s2 where s2: "set_ret_value v s1 = Some s2" "kinv s2 Q" "info s2 = info s1" "nxt s2 = nxt s1" "same_objects s1 s2"
    using set_ret_value_kinv [OF I running_live [OF run]] by blast
  have "running s2 Q"
    by (rule running_frame [OF run]) (use s2 run in \<open>simp_all add: same_objects_def running_def\<close>)
  moreover have "everyone s2 Q = everyone s Q0" using s2(5) same ev by (simp add: everyone_def same_objects_def)
  ultimately show ?thesis using s2(1,2,5) same unfolding steps_ok_def same_objects_def by metis
qed

text \<open>The common end of the calls that may block: the status, then dispatching when blocked.\<close>

lemma steps_ok_block:
  assumes I: "kinv s1 Q" and i: "info s1 (kthread_current s1) = Some (BLOCKED, w)"
    and same: "same_objects s s1" and ev: "placed Q = insert (kthread_current s) (placed Q0)"
  shows "steps_ok s Q0 (do { s \<leftarrow> set_ret_value v s1; t \<leftarrow> thrs s (kthread_current s);
    if state t = BLOCKED then kthread_dispatch s else Some s })"
proof -
  have d: "kthread_current s1 \<in> dom (thrs s1)" using i by (auto simp: info_def)
  obtain s2 where s2: "set_ret_value v s1 = Some s2" "kinv s2 Q" "info s2 = info s1" "same_objects s1 s2"
    using set_ret_value_kinv [OF I d] by blast
  have i2: "info s2 (kthread_current s2) = Some (BLOCKED, w)" using i s2(3,4) by (simp add: same_objects_def)
  then obtain t where t: "thrs s2 (kthread_current s2) = Some t" "state t = BLOCKED" by (auto simp: info_def)
  obtain s3 Q3 where s3: "kthread_dispatch s2 = Some s3" "kinv s3 Q3" "running s3 Q3"
    "same_objects s2 (s3\<lparr>kthread_current := kthread_current s2\<rparr>)" "everyone s3 Q3 = placed Q - {kthread_main s2}"
    using dispatch_blocked [OF s2(2)] i2 by blast
  have "everyone s3 Q3 = everyone s Q0" using s3(5) ev same s2(4) by (simp add: everyone_def same_objects_def)
  moreover have "dom (thrs s3) = dom (thrs s)" "kthread_main s3 = kthread_main s"
    using s3(4) s2(4) same by (simp_all add: same_objects_def)
  ultimately show ?thesis using s2(1) t s3(1-3) by (auto simp: steps_ok_def)
qed

lemma syscall_mutex_lock_steps:
  assumes I: "kinv s Q" and run: "running s Q" and user: "kthread_current s \<noteq> kthread_main s"
    and p: "get_param 0 s = Some m" "m \<noteq> NULL" and x: "mtxs s m = Some x"
  shows "steps_ok s Q (syscall_mutex_lock s)"
proof -
  let ?c = "kthread_current s"
  have idle: "idle s Q ?c" by (rule running_idle [OF run user])
  obtain s1 where s1: "kmutex_lock m ?c s = Some s1" "kinv s1 (lock_queues x m ?c Q)" "same_objects s s1"
    "info s1 ?c = (if owner x = NULL \<or> owner x = ?c then info s ?c else Some (BLOCKED, m))"
    "owner x = NULL \<or> owner x = ?c \<longrightarrow> thrs s1 = thrs s"
    using kmutex_lock_kinv [OF I x idle] by blast
  have c1: "kthread_current s1 = ?c" using s1(3) by (simp add: same_objects_def)
  have step: "syscall_mutex_lock s = do { s \<leftarrow> set_ret_status STATUS_SUCCESS s1; t \<leftarrow> thrs s (kthread_current s);
    if state t = BLOCKED then kthread_dispatch s else Some s }"
    using p s1(1) by (simp add: syscall_mutex_lock_def)
  show ?thesis
  proof (cases "owner x = NULL \<or> owner x = ?c")
    case True
    then have Q: "lock_queues x m ?c Q = Q" by (simp add: lock_queues_def)
    have r1: "running s1 Q" using run s1(5) True c1 by (simp add: running_def info_def nxt_def)
    then obtain s2 where s2: "set_ret_status STATUS_SUCCESS s1 = Some s2" "kinv s2 Q" "info s2 = info s1" "nxt s2 = nxt s1" "same_objects s1 s2"
      using set_ret_value_kinv [of s1 Q] s1(2) running_live Q by metis
    have r2: "running s2 Q"
      by (rule running_frame [OF r1]) (use s2 r1 in \<open>simp_all add: same_objects_def running_def\<close>)
    then obtain t where "thrs s2 (kthread_current s2) = Some t" "state t = RUNNING" by (auto simp: running_def info_def)
    then have "syscall_mutex_lock s = Some s2" using step s2(1) by simp
    moreover have "everyone s2 Q = everyone s Q" using s2(5) s1(3) by (simp add: everyone_def same_objects_def)
    ultimately show ?thesis using s2(2,5) r2 s1(3) unfolding steps_ok_def same_objects_def by metis
  next
    case False
    have "placed (lock_queues x m ?c Q) = insert ?c (placed Q)"
      using False placed_push [of Q "QMutex m" ?c] by (simp add: lock_queues_def)
    then show ?thesis
      unfolding step using steps_ok_block [OF s1(2) _ s1(3), of m Q "status_code STATUS_SUCCESS"] s1(4) False c1 by simp
  qed
qed

lemma syscall_mutex_try_lock_steps:
  assumes I: "kinv s Q" and run: "running s Q"
    and p: "get_param 0 s = Some m" "m \<noteq> NULL" and x: "mtxs s m = Some x"
  shows "steps_ok s Q (syscall_mutex_try_lock s)"
proof (cases "owner x = NULL")
  case True
  let ?c = "kthread_current s"
  have c0: "?c \<noteq> NULL" by (rule live_thread [OF I running_live [OF run]])
  let ?s1 = "s\<lparr>mtxs := (mtxs s)(m \<mapsto> x\<lparr>owner := ?c, lock_count := 1\<rparr>)\<rparr>"
  have "kinv ?s1 Q" by (rule kmutex_lock_free(2) [OF I x True c0])
  moreover have "running ?s1 Q" using run by (simp add: running_def info_def nxt_def)
  moreover have "same_objects s ?s1" by (rule same_objects_mtx [OF x])
  ultimately have "steps_ok s Q (set_ret_status STATUS_SUCCESS ?s1)" by (rule steps_ok_status) simp
  moreover have "syscall_mutex_try_lock s = set_ret_status STATUS_SUCCESS ?s1"
    using p x True by (simp add: syscall_mutex_try_lock_def kmutex_try_lock_def kernel_simps)
  ultimately show ?thesis by simp
next
  case False
  have "steps_ok s Q (set_ret_status STATUS_BUSY s)"
    by (rule steps_ok_status [OF I run]) (simp_all add: same_objects_def)
  then show ?thesis using p x False by (simp add: syscall_mutex_try_lock_def kmutex_try_lock_def)
qed

lemma unlock_running:
  assumes I: "kinv s Q" and run: "running s Q" and x: "mtxs s m = Some x"
  shows "\<exists>st s1. kmutex_unlock m (kthread_current s) s = Some (st, s1) \<and> kinv s1 (unlock_queues x m (kthread_current s) Q)
    \<and> running s1 (unlock_queues x m (kthread_current s) Q) \<and> same_objects s s1"
proof -
  let ?c = "kthread_current s"
  have c0: "?c \<noteq> NULL" by (rule live_thread [OF I running_live [OF run]])
  have nq: "\<not> queued Q ?c" using run by (simp add: running_def)
  obtain st s1 where s1: "kmutex_unlock m ?c s = Some (st, s1)" "kinv s1 (unlock_queues x m ?c Q)" "same_objects s s1"
    "\<forall>y. y \<notin> set (Q (QMutex m)) \<longrightarrow> info s1 y = info s y" "\<forall>y. \<not> queued Q y \<longrightarrow> nxt s1 y = nxt s y"
    using kmutex_unlock_kinv [OF I x c0] by blast
  have "running s1 (unlock_queues x m ?c Q)"
  proof (rule running_frame [OF run])
    show "info s1 ?c = info s ?c" using s1(4) nq by (simp add: queued_def)
    show "\<not> queued (unlock_queues x m ?c Q) ?c"
      using nq placed_unlock [of x m ?c Q] by (auto simp: placed_def)
  qed (use s1 nq in \<open>simp_all add: same_objects_def\<close>)
  then show ?thesis using s1 by blast
qed

lemma syscall_mutex_unlock_steps:
  assumes I: "kinv s Q" and run: "running s Q"
    and p: "get_param 0 s = Some m" "m \<noteq> NULL" and x: "mtxs s m = Some x"
  shows "steps_ok s Q (syscall_mutex_unlock s)"
proof -
  obtain st s1 where s1: "kmutex_unlock m (kthread_current s) s = Some (st, s1)" "kinv s1 (unlock_queues x m (kthread_current s) Q)"
    "running s1 (unlock_queues x m (kthread_current s) Q)" "same_objects s s1"
    using unlock_running [OF I run x] by blast
  from steps_ok_status [OF s1(2,3,4) placed_unlock]
  show ?thesis using p s1(1) by (simp add: syscall_mutex_unlock_def)
qed

lemma syscall_cond_wait_steps:
  assumes I: "kinv s Q" and run: "running s Q" and user: "kthread_current s \<noteq> kthread_main s"
    and p: "get_param 0 s = Some c" "c \<noteq> NULL" "get_param 1 s = Some m" "m \<noteq> NULL"
    and z: "cnds s c = Some z" and x: "mtxs s m = Some x"
  shows "steps_ok s Q (syscall_cond_wait s)"
proof -
  let ?c = "kthread_current s"
  have idle: "idle s Q ?c" by (rule running_idle [OF run user])
  obtain s1 where s1: "kcond_wait c m ?c s = Some s1" "kinv s1 (wait_queues x c m ?c Q)" "same_objects s s1"
    "info s1 ?c = Some (BLOCKED, m)"
    using kcond_wait_kinv [OF I z x idle] by blast
  have c1: "kthread_current s1 = ?c" using s1(3) by (simp add: same_objects_def)
  have "placed (wait_queues x c m ?c Q) = insert ?c (placed Q)"
    by (simp add: wait_queues_def placed_unlock placed_push)
  then show ?thesis
    using steps_ok_block [OF s1(2) _ s1(3), of m Q "status_code STATUS_SUCCESS"] s1(4) c1 p s1(1)
    by (simp add: syscall_cond_wait_def)
qed

text \<open>
  Signalling is safe when the condition has at most one waiter, whose mutex another thread holds;
  broadcasting, when all waiters came with one mutex, which another thread holds.
\<close>

definition waiters_ok :: "'a kstate_scheme \<Rightarrow> (qid \<Rightarrow> addr list) \<Rightarrow> addr \<Rightarrow> addr \<Rightarrow> bool" where
  "waiters_ok s Q c m \<longleftrightarrow> (\<forall>y\<in>set (Q (QCond c)). info s y = Some (BLOCKED, m))
     \<and> (Q (QCond c) \<noteq> [] \<longrightarrow> (\<exists>x. mtxs s m = Some x \<and> owner x \<noteq> NULL \<and> owner x \<notin> set (Q (QCond c))))"

text \<open>The queues after a signal and after a broadcast.\<close>

definition broadcast_queues :: "addr \<Rightarrow> addr \<Rightarrow> (qid \<Rightarrow> addr list) \<Rightarrow> qid \<Rightarrow> addr list" where
  "broadcast_queues c m Q = (if Q (QCond c) = [] then Q else Q(QMutex m := Q (QMutex m) @ Q (QCond c), QCond c := []))"

lemma signal_running:
  assumes I: "kinv s Q" and run: "running s Q" and z: "cnds s c = Some z" and w: "waiters_ok s Q c m" "length (Q (QCond c)) \<le> 1"
  shows "\<exists>s1. kcond_signal c False s = Some s1 \<and> kinv s1 (signal_queues False c m Q) \<and> running s1 (signal_queues False c m Q)
    \<and> same_objects s s1 \<and> info s1 = info s \<and> placed (signal_queues False c m Q) = placed Q"
proof (cases "Q (QCond c)")
  case Nil
  then show ?thesis
    using I run kcond_signal_empty [OF I z Nil] by (intro exI [of _ s]) (simp add: same_objects_def signal_queues_def)
next
  case (Cons b bs)
  then have q: "Q (QCond c) = [b]" using w(2) by simp
  obtain x where x: "info s b = Some (BLOCKED, m)" "mtxs s m = Some x" "owner x \<noteq> NULL" "owner x \<noteq> b"
    using w(1) q by (auto simp: waiters_ok_def)
  have nq: "\<not> queued Q (kthread_current s)" using run by (simp add: running_def)
  have pl: "placed (signal_queues False c m Q) = placed Q"
    using placed_move [of Q "QCond c" b "[]" "QMutex m"] q by (simp add: signal_queues_def)
  obtain s1 where s1: "kcond_signal c False s = Some s1" "kinv s1 (signal_queues False c m Q)" "same_objects s s1"
    "\<forall>y. info s1 y = info s y" "\<forall>y. \<not> queued Q y \<longrightarrow> nxt s1 y = nxt s y"
    using kcond_signal_requeue [OF I z q x] by blast
  have "running s1 (signal_queues False c m Q)"
    by (rule running_frame [OF run]) (use s1 nq pl in \<open>auto simp: same_objects_def placed_def\<close>)
  then show ?thesis using s1 pl by (intro exI [of _ s1]) (simp add: fun_eq_iff)
qed

lemma broadcast_running:
  assumes I: "kinv s Q" and run: "running s Q" and z: "cnds s c = Some z" and w: "waiters_ok s Q c m"
  shows "\<exists>s1. kcond_signal_all c s = Some s1 \<and> kinv s1 (broadcast_queues c m Q) \<and> running s1 (broadcast_queues c m Q)
    \<and> same_objects s s1 \<and> info s1 = info s \<and> placed (broadcast_queues c m Q) = placed Q
    \<and> (if Q (QCond c) = [] then mtxs s1 = mtxs s else \<exists>y. mtxs s1 = (mtxs s)(m \<mapsto> y))"
proof (cases "Q (QCond c) = []")
  case True
  have h: "cq_head z = NULL" "cq_tail z = NULL"
    using queuesD(1) [OF kinvD(1) [OF I], of "QCond c"] z True by (simp_all add: is_queue_empty)
  then have "z\<lparr>cq_head := NULL, cq_tail := NULL\<rparr> = z" by simp
  then have "kcond_signal_all c s = Some s"
    using z h by (simp add: kcond_signal_all_def signal_all_loop.simps kernel_simps fun_upd_idem)
  then show ?thesis using I run True by (intro exI [of _ s]) (simp add: same_objects_def broadcast_queues_def)
next
  case False
  then obtain x where x: "mtxs s m = Some x" "owner x \<noteq> NULL" "owner x \<notin> set (Q (QCond c))"
    "\<forall>y\<in>set (Q (QCond c)). info s y = Some (BLOCKED, m)"
    using w by (auto simp: waiters_ok_def)
  have B: "broadcast_queues c m Q = Q(QMutex m := Q (QMutex m) @ Q (QCond c), QCond c := [])"
    using False by (simp add: broadcast_queues_def)
  have pl: "placed (broadcast_queues c m Q) = placed Q" unfolding B by (rule placed_splice) simp
  obtain s1 where s1: "kcond_signal_all c s = Some s1" "kinv s1 (broadcast_queues c m Q)" "same_objects s s1"
    "\<forall>y. info s1 y = info s y" "\<forall>y. \<not> queued Q y \<longrightarrow> nxt s1 y = nxt s y" "\<exists>y. mtxs s1 = (mtxs s)(m \<mapsto> y)"
    using kcond_signal_all_kinv [OF I z False x(4,1,2,3)] unfolding B by blast
  have nq: "\<not> queued Q (kthread_current s)" using run by (simp add: running_def)
  have "running s1 (broadcast_queues c m Q)"
    by (rule running_frame [OF run]) (use s1 nq pl in \<open>auto simp: same_objects_def placed_def\<close>)
  then show ?thesis using s1 pl False by (intro exI [of _ s1]) (simp add: fun_eq_iff)
qed

lemma syscall_cond_signal_steps:
  assumes I: "kinv s Q" and run: "running s Q"
    and p: "get_param 0 s = Some c" "c \<noteq> NULL" and z: "cnds s c = Some z"
    and w: "waiters_ok s Q c m" "length (Q (QCond c)) \<le> 1"
  shows "steps_ok s Q (syscall_cond_signal s)"
proof -
  obtain s1 where s1: "kcond_signal c False s = Some s1" "kinv s1 (signal_queues False c m Q)" "running s1 (signal_queues False c m Q)"
    "same_objects s s1" "placed (signal_queues False c m Q) = placed Q"
    using signal_running [OF I run z w] by blast
  from steps_ok_status [OF s1(2-5)] show ?thesis using p s1(1) by (simp add: syscall_cond_signal_def)
qed

lemma syscall_cond_signal_all_steps:
  assumes I: "kinv s Q" and run: "running s Q"
    and p: "get_param 0 s = Some c" "c \<noteq> NULL" and z: "cnds s c = Some z" and w: "waiters_ok s Q c m"
  shows "steps_ok s Q (syscall_cond_signal_all s)"
proof -
  obtain s1 where s1: "kcond_signal_all c s = Some s1" "kinv s1 (broadcast_queues c m Q)" "running s1 (broadcast_queues c m Q)"
    "same_objects s s1" "placed (broadcast_queues c m Q) = placed Q"
    using broadcast_running [OF I run z w] by blast
  from steps_ok_status [OF s1(2-5)] show ?thesis using p s1(1) by (simp add: syscall_cond_signal_all_def)
qed

section \<open>Every run\<close>

text \<open>
  A step is a timer interrupt or a yielding call, the exit of a thread, one of the calls above by a
  user thread, a call that allocates or frees memory, or code of the running thread itself, which changes its registers and the
  bytes of the memory. Waiters are signalled under \<open>waiters_ok\<close>, a condition the code does not check.
\<close>

inductive kstep :: "'a kstate_scheme \<Rightarrow> addr set \<Rightarrow> 'a kstate_scheme \<Rightarrow> bool" where
  dispatch: "kthread_dispatch s = Some s' \<Longrightarrow> kstep s {} s'"
| exit: "kthread_current s \<noteq> kthread_main s \<Longrightarrow> kthread_stop s = Some s' \<Longrightarrow> kstep s {kthread_current s} s'"
| lock: "kthread_current s \<noteq> kthread_main s \<Longrightarrow> get_param 0 s = Some m \<Longrightarrow> m \<noteq> NULL \<Longrightarrow> mtxs s m = Some x \<Longrightarrow>
    syscall_mutex_lock s = Some s' \<Longrightarrow> kstep s {} s'"
| try_lock: "get_param 0 s = Some m \<Longrightarrow> m \<noteq> NULL \<Longrightarrow> mtxs s m = Some x \<Longrightarrow> syscall_mutex_try_lock s = Some s' \<Longrightarrow> kstep s {} s'"
| unlock: "get_param 0 s = Some m \<Longrightarrow> m \<noteq> NULL \<Longrightarrow> mtxs s m = Some x \<Longrightarrow> syscall_mutex_unlock s = Some s' \<Longrightarrow> kstep s {} s'"
| wait: "kthread_current s \<noteq> kthread_main s \<Longrightarrow> get_param 0 s = Some c \<Longrightarrow> c \<noteq> NULL \<Longrightarrow> get_param 1 s = Some m \<Longrightarrow> m \<noteq> NULL \<Longrightarrow>
    cnds s c = Some z \<Longrightarrow> mtxs s m = Some x \<Longrightarrow> syscall_cond_wait s = Some s' \<Longrightarrow> kstep s {} s'"
| signal: "get_param 0 s = Some c \<Longrightarrow> c \<noteq> NULL \<Longrightarrow> cnds s c = Some z \<Longrightarrow> queues s Q \<Longrightarrow> waiters_ok s Q c m \<Longrightarrow>
    length (Q (QCond c)) \<le> 1 \<Longrightarrow> syscall_cond_signal s = Some s' \<Longrightarrow> kstep s {} s'"
| broadcast: "get_param 0 s = Some c \<Longrightarrow> c \<noteq> NULL \<Longrightarrow> cnds s c = Some z \<Longrightarrow> queues s Q \<Longrightarrow> waiters_ok s Q c m \<Longrightarrow>
    syscall_cond_signal_all s = Some s' \<Longrightarrow> kstep s {} s'"
| alloc: "syscall_mem_alloc s = Some s' \<Longrightarrow> kstep s {} s'"
| free: "syscall_mem_free s = Some s' \<Longrightarrow> kstep s {} s'"
| expand: "syscall_mem_try_expand s = Some s' \<Longrightarrow> kstep s {} s'"
| user: "thrs s (kthread_current s) = Some t \<Longrightarrow> kstep s {} (s\<lparr>kram := r, thrs := (thrs s)(kthread_current s \<mapsto> t\<lparr>ctx := c\<rparr>)\<rparr>)"

text \<open>The runs from a state, with the threads that have exited.\<close>

inductive kruns :: "'a kstate_scheme \<Rightarrow> 'a kstate_scheme \<Rightarrow> addr set \<Rightarrow> bool" for s0 where
  start: "kruns s0 s0 {}"
| step: "kruns s0 s E \<Longrightarrow> kstep s X s' \<Longrightarrow> kruns s0 s' (E \<union> X)"

lemma kthread_stop_steps:
  assumes I: "kinv s Q"
  shows "\<exists>s' Q'. kthread_stop s = Some s' \<and> kinv s' Q' \<and> running s' Q' \<and> everyone s' Q' = placed Q - {kthread_main s}
    \<and> dom (thrs s') = dom (thrs s) \<and> kthread_main s' = kthread_main s"
proof -
  let ?s = "s\<lparr>kthread_current := NULL\<rparr>"
  have "kinv ?s Q" by (rule kinv_set_current [OF I])
  then obtain s' Q' where "kthread_dispatch ?s = Some s'" "kinv s' Q'" "running s' Q'"
    "same_objects ?s (s'\<lparr>kthread_current := kthread_current ?s\<rparr>)" "everyone s' Q' = placed Q - {kthread_main ?s}"
    using dispatch_blocked [of ?s Q] by auto
  then show ?thesis by (intro exI [of _ s'] exI [of _ Q']) (simp add: kthread_stop_def same_objects_def)
qed

text \<open>Calls that change the heap and a register, and user code, leave the queues alone.\<close>

lemma quiet_ok:
  assumes I: "kinv s Q" and run: "running s Q" and c: "thrs s (kthread_current s) = Some t"
    and s': "s' = s\<lparr>kheap := h, kram := r, thrs := (thrs s)(kthread_current s \<mapsto> t\<lparr>ctx := v\<rparr>)\<rparr>"
  shows "steps_ok s Q (Some s')" "info s' = info s" "mtxs s' = mtxs s"
proof -
  have n: "nxt s' = nxt s" and i: "info s' = info s" using c by (auto simp: s' nxt_def info_def fun_eq_iff)
  have d: "dom (thrs s') = dom (thrs s)" using c by (auto simp: s')
  have "kinv s' Q" by (rule kinv_frame [OF I n i d]) (simp_all add: s')
  moreover have "running s' Q" using run n i by (simp add: running_def s')
  ultimately show "steps_ok s Q (Some s')" using d by (auto simp: steps_ok_def everyone_def s')
  show "info s' = info s" by (rule i)
  show "mtxs s' = mtxs s" by (simp add: s')
qed

lemma memory_call_quiet:
  assumes "syscall_mem_alloc s = Some s' \<or> syscall_mem_free s = Some s' \<or> syscall_mem_try_expand s = Some s'"
  shows "\<exists>t h v. thrs s (kthread_current s) = Some t
    \<and> s' = s\<lparr>kheap := h, kram := kram s, thrs := (thrs s)(kthread_current s \<mapsto> t\<lparr>ctx := v\<rparr>)\<rparr>"
  using assms
proof (elim disjE)
  assume "syscall_mem_alloc s = Some s'"
  then show ?thesis
    by (fastforce simp: syscall_mem_alloc_def kalloc_def set_ret_value_def set_reg_def upd_thr_def bind_eq_Some_conv split: option.splits)
next
  assume "syscall_mem_try_expand s = Some s'"
  then show ?thesis
    by (fastforce simp: syscall_mem_try_expand_def set_ret_value_def set_reg_def upd_thr_def bind_eq_Some_conv split: option.splits)
next
  assume "syscall_mem_free s = Some s'"
  then obtain p t h where "thrs s (kthread_current s) = Some t" "s' = s\<lparr>kheap := h\<rparr>"
    by (auto simp: syscall_mem_free_def kfree_def get_param_def bind_eq_Some_conv)
  then show ?thesis by (intro exI [of _ t] exI [of _ h] exI [of _ "ctx t"]) (simp add: fun_upd_idem)
qed

lemma kstep_ok:
  assumes I: "kinv s Q" and run: "running s Q" and st: "kstep s X s'"
  shows "\<exists>Q'. kinv s' Q' \<and> running s' Q' \<and> dom (thrs s') = dom (thrs s) \<and> kthread_main s' = kthread_main s
    \<and> everyone s' Q' = everyone s Q - X"
proof -
  have ok: ?thesis if "steps_ok s Q (Some s')" "X = {}" using that unfolding steps_ok_def by auto
  have Q: "queues s R \<Longrightarrow> R = Q" for R using queues_unique kinvD(1) [OF I] by metis
  from st show ?thesis
  proof (cases rule: kstep.cases)
    case dispatch
    obtain s1 Q1 where "kthread_dispatch s = Some s1" "kinv s1 Q1" "running s1 Q1"
      "same_objects s (s1\<lparr>kthread_current := kthread_current s\<rparr>)" "everyone s1 Q1 = everyone s Q"
      using dispatch_running [OF I run] by blast
    then show ?thesis using dispatch by (intro exI [of _ Q1]) (simp add: same_objects_def)
  next
    case exit
    obtain s1 Q1 where s1: "kthread_stop s = Some s1" "kinv s1 Q1" "running s1 Q1" "everyone s1 Q1 = placed Q - {kthread_main s}"
      "dom (thrs s1) = dom (thrs s)" "kthread_main s1 = kthread_main s"
      using kthread_stop_steps [OF I] by blast
    have "kthread_current s \<notin> placed Q" using run by (simp add: running_def placed_def)
    then have "everyone s1 Q1 = everyone s Q - {kthread_current s}" using s1(4) by (auto simp: everyone_def)
    then show ?thesis using s1 exit by (intro exI [of _ Q1]) simp
  next
    case lock
    then show ?thesis using ok syscall_mutex_lock_steps [OF I run] by simp
  next
    case try_lock
    then show ?thesis using ok syscall_mutex_try_lock_steps [OF I run] by simp
  next
    case unlock
    then show ?thesis using ok syscall_mutex_unlock_steps [OF I run] by simp
  next
    case wait
    then show ?thesis using ok syscall_cond_wait_steps [OF I run] by simp
  next
    case signal
    then show ?thesis using ok syscall_cond_signal_steps [OF I run] Q by simp
  next
    case broadcast
    then show ?thesis using ok syscall_cond_signal_all_steps [OF I run] Q by simp
  next
    case alloc
    then show ?thesis using memory_call_quiet [of s s'] quiet_ok(1) [OF I run] ok by blast
  next
    case free
    then show ?thesis using memory_call_quiet [of s s'] quiet_ok(1) [OF I run] ok by blast
  next
    case expand
    then show ?thesis using memory_call_quiet [of s s'] quiet_ok(1) [OF I run] ok by blast
  next
    case (user t c r)
    then have "s' = s\<lparr>kheap := kheap s, kram := r, thrs := (thrs s)(kthread_current s \<mapsto> t\<lparr>ctx := c\<rparr>)\<rparr>" by simp
    from quiet_ok(1) [OF I run user(3) this] show ?thesis using ok user(1) by blast
  qed
qed

lemma kruns_inv:
  assumes "kruns s0 s E" and "kinv s0 Q0" "running s0 Q0" "dom (thrs s0) - {kthread_main s0} \<subseteq> everyone s0 Q0"
  shows "\<exists>Q. kinv s Q \<and> running s Q \<and> dom (thrs s) - {kthread_main s} \<subseteq> everyone s Q \<union> E
    \<and> dom (thrs s) = dom (thrs s0) \<and> kthread_main s = kthread_main s0"
  using assms
proof (induction rule: kruns.induct)
  case start
  then show ?case by auto
next
  case (step s E X s')
  then obtain Q where Q: "kinv s Q" "running s Q" "dom (thrs s) - {kthread_main s} \<subseteq> everyone s Q \<union> E"
    "dom (thrs s) = dom (thrs s0)" "kthread_main s = kthread_main s0" by blast
  obtain Q' where Q': "kinv s' Q'" "running s' Q'" "dom (thrs s') = dom (thrs s)" "kthread_main s' = kthread_main s"
    "everyone s' Q' = everyone s Q - X"
    using kstep_ok [OF Q(1,2) step.hyps(2)] by blast
  have "dom (thrs s') - {kthread_main s'} \<subseteq> everyone s' Q' \<union> (E \<union> X)"
    using Q'(5) Q(3) unfolding Q'(3,4) by auto
  then show ?case using Q'(1-4) Q(4,5) by (intro exI [of _ Q']) simp
qed

end
