(* ===== verification/Examples.thy ===== *)
theory Examples
  imports Kernel_Steps
begin

text \<open>
  Example states of the kernel, on which the properties are instantiated: an idle thread, three user
  threads, one mutex and one condition.
\<close>

section \<open>Example states\<close>

definition IDLE :: addr where "IDLE = 0x50000100"
definition T1 :: addr where "T1 = 0x50001000"
definition T2 :: addr where "T2 = 0x50002000"
definition T3 :: addr where "T3 = 0x50003000"
definition MTX :: addr where "MTX = 0x50000200"
definition CND :: addr where "CND = 0x50000300"

lemmas demo_addr = IDLE_def T1_def T2_def T3_def MTX_def CND_def

definition demo_regs :: "u32 list" where
  "demo_regs = (replicate 16 0)[10 := MTX, 11 := MTX]"

definition demo_thread :: "kthread_state \<Rightarrow> addr \<Rightarrow> addr \<Rightarrow> addr \<Rightarrow> kthread" where
  "demo_thread st w nx a0 = \<lparr>ctx = \<lparr>regs = demo_regs[10 := a0], status = 0, pc = 0\<rparr>, stack = 0, tdata = 0, next_thr = nx,
     waiting_on = w, local_data_head = 0, state = st\<rparr>"

definition demo_state :: "(addr \<rightharpoonup> kthread) \<Rightarrow> kmutex \<Rightarrow> kcond \<Rightarrow> addr \<Rightarrow> addr \<Rightarrow> kstate" where
  "demo_state ts m c h t =
     \<lparr>kheap = \<lparr>seg = (\<lambda>_. \<lparr>seg_blocks = 0, seg_next = 0, seg_prev = 0\<rparr>), head_segment = 0\<rparr>, kram = Map.empty,
      thrs = ts, mtxs = [MTX \<mapsto> m], cnds = [CND \<mapsto> c], lss = Map.empty, lds = Map.empty,
      kscheduler_head = h, kscheduler_tail = t, kthread_current = T1, kthread_main = IDLE, dtor_calls = []\<rparr>"

definition demo_mutex :: "addr \<Rightarrow> addr \<Rightarrow> addr \<Rightarrow> kmutex" where
  "demo_mutex ow h t = \<lparr>owner = ow, mq_head = h, mq_tail = t, lock_count = (if ow = NULL then 0 else 1), recursive = False\<rparr>"

fun demo_queues :: "addr list \<Rightarrow> addr list \<Rightarrow> addr list \<Rightarrow> qid \<Rightarrow> addr list" where
  "demo_queues rs ms cs QReady = rs"
| "demo_queues rs ms cs (QMutex m) = (if m = MTX then ms else [])"
| "demo_queues rs ms cs (QCond c) = (if c = CND then cs else [])"

text \<open>\<open>T1\<close> runs, \<open>T2\<close> and \<open>T3\<close> are ready, the mutex is free.\<close>

definition demo_ready :: kstate where
  "demo_ready = demo_state [IDLE \<mapsto> demo_thread RUNNING 0 0 MTX, T1 \<mapsto> demo_thread RUNNING 0 0 MTX,
     T2 \<mapsto> demo_thread READY 0 T3 MTX, T3 \<mapsto> demo_thread READY 0 0 MTX]
     (demo_mutex 0 0 0) \<lparr>cq_head = 0, cq_tail = 0\<rparr> T2 T3"

text \<open>\<open>T1\<close> runs, \<open>T2\<close> owns the mutex and is ready, \<open>T3\<close> waits for the mutex.\<close>

definition demo_held :: kstate where
  "demo_held = demo_state [IDLE \<mapsto> demo_thread RUNNING 0 0 MTX, T1 \<mapsto> demo_thread RUNNING 0 0 MTX,
     T2 \<mapsto> demo_thread READY 0 0 MTX, T3 \<mapsto> demo_thread BLOCKED MTX 0 MTX]
     (demo_mutex T2 T3 T3) \<lparr>cq_head = 0, cq_tail = 0\<rparr> T2 T2"

text \<open>\<open>T1\<close> runs and owns the mutex, \<open>T2\<close> and \<open>T3\<close> wait for it.\<close>

definition demo_owner :: kstate where
  "demo_owner = demo_state [IDLE \<mapsto> demo_thread RUNNING 0 0 MTX, T1 \<mapsto> demo_thread RUNNING 0 0 MTX,
     T2 \<mapsto> demo_thread BLOCKED MTX T3 MTX, T3 \<mapsto> demo_thread BLOCKED MTX 0 MTX]
     (demo_mutex T1 T2 T3) \<lparr>cq_head = 0, cq_tail = 0\<rparr> 0 0"

text \<open>\<open>T1\<close> runs and owns the mutex, \<open>T2\<close> and \<open>T3\<close> wait for the condition with this mutex.\<close>

definition demo_cond :: kstate where
  "demo_cond = demo_state [IDLE \<mapsto> demo_thread RUNNING 0 0 MTX, T1 \<mapsto> demo_thread RUNNING 0 0 CND,
     T2 \<mapsto> demo_thread BLOCKED MTX T3 MTX, T3 \<mapsto> demo_thread BLOCKED MTX 0 MTX]
     (demo_mutex T1 0 0) \<lparr>cq_head = T2, cq_tail = T3\<rparr> 0 0"

text \<open>The same with the one waiter \<open>T2\<close>; \<open>T3\<close> is ready.\<close>

definition demo_cond1 :: "addr \<Rightarrow> kstate" where
  "demo_cond1 ow = demo_state [IDLE \<mapsto> demo_thread RUNNING 0 0 MTX, T1 \<mapsto> demo_thread RUNNING 0 0 CND,
     T2 \<mapsto> demo_thread BLOCKED MTX 0 MTX, T3 \<mapsto> demo_thread READY 0 0 MTX]
     (demo_mutex ow 0 0) \<lparr>cq_head = T2, cq_tail = T2\<rparr> T3 T3"

lemma kinvI:
  assumes "is_queue (nxt s) (kscheduler_head s) (kscheduler_tail s) rs"
    and m: "mtxs s = [MTX \<mapsto> m]" "is_queue (nxt s) (mq_head m) (mq_tail m) ms"
    and c: "cnds s = [CND \<mapsto> c]" "is_queue (nxt s) (cq_head c) (cq_tail c) cs"
    and d: "set rs \<union> set ms \<union> set cs \<subseteq> dom (thrs s)" "set rs \<inter> set ms = {}" "set rs \<inter> set cs = {}" "set ms \<inter> set cs = {}"
    and n: "thrs s NULL = None"
    and i: "\<forall>x\<in>set rs. \<exists>w. info s x = Some (READY, w)" "\<forall>x\<in>set ms \<union> set cs. info s x = Some (BLOCKED, MTX)"
    and o: "owner m = NULL \<longrightarrow> ms = []" "owner m \<notin> set ms"
    and k: "kthread_main s \<in> dom (thrs s)" "nxt s (kthread_main s) = NULL" "kthread_main s \<notin> set rs \<union> set ms \<union> set cs"
  shows "kinv s (demo_queues rs ms cs)"
proof -
  let ?Q = "demo_queues rs ms cs"
  have q: "x \<in> set (?Q q) \<longleftrightarrow> (q = QReady \<and> x \<in> set rs \<or> q = QMutex MTX \<and> x \<in> set ms \<or> q = QCond CND \<and> x \<in> set cs)" for q x
    by (cases q) auto
  have "queues s ?Q"
  proof (rule queuesI)
    fix q h t assume "q_ends s q = Some (h, t)"
    then show "is_queue (nxt s) h t (?Q q)" using assms(1) m c by (cases q) (auto split: if_splits)
  next
    fix q assume "q_ends s q = None"
    then show "?Q q = []" using m c by (cases q) auto
  next
    fix q x assume "x \<in> set (?Q q)" then show "x \<in> dom (thrs s)" using d(1) unfolding q by blast
  next
    fix q r x assume "x \<in> set (?Q q)" "x \<in> set (?Q r)" then show "q = r" using d(2-4) unfolding q by blast
  qed (rule n)
  moreover have "place_ok s r x" if "x \<in> set (?Q r)" for r x
    using that i m(1) unfolding q by (cases r) auto
  moreover have "\<forall>k x. mtxs s k = Some x \<longrightarrow> mutex_ok ?Q k x"
    using m(1) o by (auto simp: mutex_ok_def split: if_splits)
  moreover have "main_ok s ?Q" using k q by (auto simp: main_ok_def queued_def)
  ultimately show ?thesis unfolding kinv_def by blast
qed

lemma demo_queued: "queued (demo_queues rs ms cs) x \<longleftrightarrow> x \<in> set rs \<union> set ms \<union> set cs"
proof -
  have "x \<in> set (demo_queues rs ms cs q) \<longleftrightarrow>
      (q = QReady \<and> x \<in> set rs \<or> q = QMutex MTX \<and> x \<in> set ms \<or> q = QCond CND \<and> x \<in> set cs)" for q
    by (cases q) auto
  then show ?thesis unfolding queued_def by blast
qed

lemmas demo_defs = demo_ready_def demo_held_def demo_owner_def demo_cond_def demo_cond1_def demo_state_def
  demo_thread_def demo_mutex_def

lemmas demo_eval = demo_defs demo_addr is_queue_def nxt_def info_def running_def demo_queued

lemma demo_ready_ok:
  "kinv demo_ready (demo_queues [T2, T3] [] [])" "running demo_ready (demo_queues [T2, T3] [] [])"
  by (rule kinvI [of _ _ "demo_mutex 0 0 0" _ "\<lparr>cq_head = 0, cq_tail = 0\<rparr>"]) (simp_all add: demo_eval)

lemma demo_held_ok:
  "kinv demo_held (demo_queues [T2] [T3] [])" "running demo_held (demo_queues [T2] [T3] [])"
  by (rule kinvI [of _ _ "demo_mutex T2 T3 T3" _ "\<lparr>cq_head = 0, cq_tail = 0\<rparr>"]) (simp_all add: demo_eval)

lemma demo_owner_ok:
  "kinv demo_owner (demo_queues [] [T2, T3] [])" "running demo_owner (demo_queues [] [T2, T3] [])"
  by (rule kinvI [of _ _ "demo_mutex T1 T2 T3" _ "\<lparr>cq_head = 0, cq_tail = 0\<rparr>"]) (simp_all add: demo_eval)

lemma demo_cond_ok:
  "kinv demo_cond (demo_queues [] [] [T2, T3])" "running demo_cond (demo_queues [] [] [T2, T3])"
  by (rule kinvI [of _ _ "demo_mutex T1 0 0" _ "\<lparr>cq_head = T2, cq_tail = T3\<rparr>"]) (simp_all add: demo_eval)

lemma demo_cond1_ok:
  "kinv (demo_cond1 ow) (demo_queues [T3] [] [T2])" "running (demo_cond1 ow) (demo_queues [T3] [] [T2])"
  by (rule kinvI [of _ _ "demo_mutex ow 0 0" _ "\<lparr>cq_head = T2, cq_tail = T2\<rparr>"]) (simp_all add: demo_eval)

end
