(* ===== verification/Mutual_Exclusion.thy ===== *)
theory Mutual_Exclusion
  imports Kernel_Steps
begin

text \<open>
  Mutual exclusion: a thread that has locked a mutex and runs is its owner, and stays so whatever the others do until it
  releases the mutex itself.
\<close>

section \<open>Owning and waiting\<close>

definition owns :: "'a kstate_scheme \<Rightarrow> addr \<Rightarrow> addr \<Rightarrow> bool" where
  "owns s t m \<longleftrightarrow> (\<exists>x. mtxs s m = Some x \<and> owner x = t)"

text \<open>The thread owns the mutex or is blocked until it gets it, in the mutex's queue or in the queue of a condition.\<close>

definition claims :: "'a kstate_scheme \<Rightarrow> addr \<Rightarrow> addr \<Rightarrow> bool" where
  "claims s t m \<longleftrightarrow> owns s t m \<or> info s t = Some (BLOCKED, m)"

text \<open>What the others may not take away from a thread.\<close>

definition honours :: "addr \<Rightarrow> addr \<Rightarrow> 'a kstate_scheme \<Rightarrow> 'a kstate_scheme \<Rightarrow> bool" where
  "honours t m s s' \<longleftrightarrow> (owns s t m \<longrightarrow> owns s' t m) \<and> (claims s t m \<longrightarrow> claims s' t m)"

lemma honours_refl: "honours t m s s"
  by (simp add: honours_def)

lemma honours_trans: "honours t m s1 s2 \<Longrightarrow> honours t m s2 s3 \<Longrightarrow> honours t m s1 s3"
  by (simp add: honours_def)

lemma honours_same: "mtxs s' = mtxs s \<Longrightarrow> info s' t = info s t \<Longrightarrow> honours t m s s'"
  by (simp add: honours_def owns_def claims_def)

section \<open>The parts of the operations\<close>

lemma upd_info:
  "upd_thr p f s = Some s' \<Longrightarrow> mtxs s' = mtxs s \<and> (\<forall>y. y \<noteq> p \<longrightarrow> info s' y = info s y)"
  "upd_thr p (\<lambda>t. t\<lparr>next_thr := q\<rparr>) s = Some s' \<Longrightarrow> mtxs s' = mtxs s \<and> info s' = info s"
  "upd_cnd p g s = Some s' \<Longrightarrow> mtxs s' = mtxs s \<and> info s' = info s"
  by (auto simp: upd_thr_def upd_cnd_def info_def fun_eq_iff split: option.splits)

lemma enqueue_info:
  "kscheduler_enqueue a s = Some s' \<Longrightarrow> mtxs s' = mtxs s \<and> (\<forall>y. y \<noteq> a \<longrightarrow> info s' y = info s y)"
  by (auto simp: kscheduler_enqueue_def upd_thr_def info_def bind_eq_Some_conv split: option.splits if_splits)

lemma upd_mtx_effect:
  "upd_mtx k f s = Some s' \<Longrightarrow> info s' = info s \<and> (\<exists>x. mtxs s k = Some x \<and> mtxs s' = (mtxs s)(k \<mapsto> f x))"
  by (auto simp: upd_mtx_def info_def fun_eq_iff split: option.splits)

lemma block_info:
  assumes "upd_thr a (\<lambda>t. t\<lparr>state := BLOCKED\<rparr>) s = Some s1" "upd_thr a (\<lambda>t. t\<lparr>waiting_on := k\<rparr>) s1 = Some s2"
  shows "mtxs s2 = mtxs s" "info s2 a = Some (BLOCKED, k)" "\<forall>y. y \<noteq> a \<longrightarrow> info s2 y = info s y"
  using assms by (auto simp: upd_thr_def info_def split: option.splits)

lemma lock_effect:
  assumes "kmutex_lock k a s = Some s'"
  shows "\<exists>x x'. mtxs s k = Some x \<and> mtxs s' = (mtxs s)(k \<mapsto> x') \<and> recursive x' = recursive x
    \<and> (\<forall>y. y \<noteq> a \<longrightarrow> info s' y = info s y)
    \<and> (if owner x = NULL \<or> owner x = a then owner x' = a \<and> info s' = info s
       else owner x' = owner x \<and> info s' a = Some (BLOCKED, k))"
proof -
  obtain x where x: "mtxs s k = Some x" using assms by (auto simp: kmutex_lock_def bind_eq_Some_conv)
  consider "owner x = NULL" | "owner x \<noteq> NULL" "owner x = a" | "owner x \<noteq> NULL" "owner x \<noteq> a" by blast
  then show ?thesis
  proof cases
    case 1
    then obtain s1 where s1: "upd_mtx k (\<lambda>m. m\<lparr>owner := a\<rparr>) s = Some s1" "upd_mtx k (\<lambda>m. m\<lparr>lock_count := 1\<rparr>) s1 = Some s'"
      using assms x by (auto simp: kmutex_lock_def bind_eq_Some_conv)
    show ?thesis using upd_mtx_effect [OF s1(1)] upd_mtx_effect [OF s1(2)] x 1 by auto
  next
    case 2
    show ?thesis
    proof (cases "recursive x")
      case True
      then have "upd_mtx k (\<lambda>m. m\<lparr>lock_count := lock_count m + 1\<rparr>) s = Some s'"
        using assms x 2 by (simp add: kmutex_lock_def)
      from upd_mtx_effect [OF this] show ?thesis using x 2 by auto
    next
      case False
      then have "s' = s" using assms x 2 by (simp add: kmutex_lock_def)
      then show ?thesis using x 2 by (intro exI [of _ x]) (simp add: fun_upd_idem)
    qed
  next
    case 3
    then obtain s1 s2 s3 where s: "upd_thr a (\<lambda>t. t\<lparr>state := BLOCKED\<rparr>) s = Some s1" "upd_thr a (\<lambda>t. t\<lparr>waiting_on := k\<rparr>) s1 = Some s2"
      "(if mq_head x = NULL then upd_mtx k (\<lambda>m. m\<lparr>mq_head := a\<rparr>) s2 else upd_thr (mq_tail x) (\<lambda>t. t\<lparr>next_thr := a\<rparr>) s2) = Some s3"
      "upd_mtx k (\<lambda>m. m\<lparr>mq_tail := a\<rparr>) s3 = Some s'"
      using assms x by (auto simp: kmutex_lock_def bind_eq_Some_conv)
    note b = block_info [OF s(1,2)]
    have "info s3 = info s2 \<and> (\<exists>x3. mtxs s3 = (mtxs s2)(k \<mapsto> x3) \<and> owner x3 = owner x \<and> recursive x3 = recursive x)"
    proof (cases "mq_head x = NULL")
      case True
      then show ?thesis using s(3) upd_mtx_effect [of k "\<lambda>m. m\<lparr>mq_head := a\<rparr>" s2 s3] x b(1) by auto
    next
      case False
      then have "mtxs s3 = mtxs s2 \<and> info s3 = info s2" using s(3) upd_info(2) by simp
      then show ?thesis using x b(1) by (intro conjI exI [of _ x]) (simp_all add: fun_upd_idem)
    qed
    then obtain x3 where x3: "info s3 = info s2" "mtxs s3 = (mtxs s2)(k \<mapsto> x3)" "owner x3 = owner x" "recursive x3 = recursive x"
      by blast
    show ?thesis using upd_mtx_effect [OF s(4)] x3 b x 3 by auto
  qed
qed

lemma unlock_effect:
  assumes "kmutex_unlock k a s = Some (st, s')"
  shows "\<exists>x. mtxs s k = Some x \<and> (if owner x \<noteq> a then s' = s
     else \<exists>x'. mtxs s' = (mtxs s)(k \<mapsto> x') \<and> (info s' = info s
       \<or> mq_head x \<noteq> NULL \<and> owner x' = mq_head x \<and> (\<forall>y. y \<noteq> mq_head x \<longrightarrow> info s' y = info s y)))"
proof -
  obtain x where x: "mtxs s k = Some x" using assms by (auto simp: kmutex_unlock_def bind_eq_Some_conv)
  show ?thesis
  proof (cases "owner x = a")
    case False
    then show ?thesis using assms x by (auto simp: kmutex_unlock_def)
  next
    case True
    let ?x1 = "x\<lparr>lock_count := lock_count x - 1\<rparr>"
    let ?s1 = "s\<lparr>mtxs := (mtxs s)(k \<mapsto> ?x1)\<rparr>"
    have i1: "info ?s1 = info s" by (simp add: info_def fun_eq_iff)
    consider "recursive x \<and> lock_count x - 1 > 0" | "\<not> (recursive x \<and> lock_count x - 1 > 0)" "mq_head x = NULL"
      | "\<not> (recursive x \<and> lock_count x - 1 > 0)" "mq_head x \<noteq> NULL" by blast
    then show ?thesis
    proof cases
      case 1
      then have "s' = ?s1" using assms x True by (simp add: kmutex_unlock_def kernel_simps)
      then show ?thesis using x True i1 by auto
    next
      case 2
      then have "s' = s\<lparr>mtxs := (mtxs s)(k \<mapsto> ?x1\<lparr>owner := NULL\<rparr>)\<rparr>"
        using assms x True by (auto simp: kmutex_unlock_def kernel_simps)
      then show ?thesis using x True by (auto simp: info_def fun_eq_iff)
    next
      case 3
      let ?h = "mq_head x"
      obtain t s2 s3 s4 where s: "thrs s ?h = Some t"
        "(if next_thr t = NULL then upd_mtx k (\<lambda>m. m\<lparr>mq_tail := NULL\<rparr>) (s\<lparr>mtxs := (mtxs s)(k \<mapsto> x\<lparr>lock_count := 1, mq_head := next_thr t\<rparr>)\<rparr>)
          else Some (s\<lparr>mtxs := (mtxs s)(k \<mapsto> x\<lparr>lock_count := 1, mq_head := next_thr t\<rparr>)\<rparr>)) = Some s2"
        "upd_mtx k (\<lambda>m. m\<lparr>owner := ?h\<rparr>) s2 = Some s3" "kscheduler_enqueue ?h s3 = Some s'"
        using assms x True 3 by (auto simp: kmutex_unlock_def kernel_simps bind_eq_Some_conv Let_def)
      have "info s2 = info s \<and> (\<exists>x2. mtxs s2 = (mtxs s)(k \<mapsto> x2))"
        using s(2) by (auto simp: kernel_simps info_def fun_eq_iff split: if_splits)
      then show ?thesis using upd_mtx_effect [OF s(3)] enqueue_info [OF s(4)] x True 3(2) by auto
    qed
  qed
qed

lemma wait_effect:
  assumes "kcond_wait c k a s = Some s'"
  shows "\<exists>s1 st. kmutex_unlock k a s1 = Some (st, s') \<and> mtxs s1 = mtxs s \<and> (\<forall>y. y \<noteq> a \<longrightarrow> info s1 y = info s y)
    \<and> info s1 a = Some (BLOCKED, k)"
proof -
  obtain s1 s2 z s3 s4 st where s: "upd_thr a (\<lambda>t. t\<lparr>state := BLOCKED\<rparr>) s = Some s1" "upd_thr a (\<lambda>t. t\<lparr>waiting_on := k\<rparr>) s1 = Some s2"
    "cnds s2 c = Some z"
    "(if cq_head z = NULL then upd_cnd c (\<lambda>c. c\<lparr>cq_head := a\<rparr>) s2 else upd_thr (cq_tail z) (\<lambda>t. t\<lparr>next_thr := a\<rparr>) s2) = Some s3"
    "upd_cnd c (\<lambda>c. c\<lparr>cq_tail := a\<rparr>) s3 = Some s4" "kmutex_unlock k a s4 = Some (st, s')"
    using assms by (auto simp: kcond_wait_def bind_eq_Some_conv)
  have "mtxs s3 = mtxs s2 \<and> info s3 = info s2" using s(4) by (auto split: if_splits dest: upd_info(2,3))
  moreover have "mtxs s4 = mtxs s3 \<and> info s4 = info s3" using upd_info(3) [OF s(5)] .
  ultimately show ?thesis using block_info [OF s(1,2)] s(6) by (intro exI [of _ s4] exI [of _ st]) simp
qed

lemma ret_info: "set_ret_value v s = Some s' \<Longrightarrow> mtxs s' = mtxs s \<and> info s' = info s \<and> kthread_current s' = kthread_current s"
  by (auto simp: set_ret_value_def upd_thr_def set_reg_def info_def fun_eq_iff split: option.splits)

lemma dispatch_info:
  assumes "kthread_dispatch s = Some s'" and "kthread_current s' \<noteq> t" and "info s t = Some (BLOCKED, w)"
  shows "mtxs s' = mtxs s \<and> info s' t = info s t"
proof -
  let ?c = "kthread_current s"
  obtain s1 n s2 where s1: "(if ?c \<noteq> NULL then do { u \<leftarrow> thrs s ?c;
        if state u \<noteq> BLOCKED \<and> ?c \<noteq> kthread_main s then kscheduler_enqueue ?c s else Some s } else Some s) = Some s1"
    and s2: "kscheduler_dequeue s1 = Some (n, s2)"
    and s': "upd_thr (if n = NULL then kthread_main s2 else n) (\<lambda>t. t\<lparr>state := RUNNING\<rparr>)
      (s2\<lparr>kthread_current := if n = NULL then kthread_main s2 else n\<rparr>) = Some s'"
    using assms(1) by (auto simp: kthread_dispatch_def Let_def bind_eq_Some_conv)
  let ?n = "if n = NULL then kthread_main s2 else n"
  have c': "kthread_current s' = ?n" using s' by (auto simp: upd_thr_def split: option.splits)
  have 1: "mtxs s1 = mtxs s \<and> info s1 t = info s t"
  proof (cases "s1 = s")
    case False
    then obtain u where "thrs s ?c = Some u" "state u \<noteq> BLOCKED" "kscheduler_enqueue ?c s = Some s1"
      using s1 by (auto simp: bind_eq_Some_conv split: if_splits)
    moreover from this have "t \<noteq> ?c" using assms(3) by (auto simp: info_def)
    ultimately show ?thesis using enqueue_info by blast
  qed simp
  have 2: "mtxs s2 = mtxs s1 \<and> (n \<noteq> t \<longrightarrow> info s2 t = info s1 t)"
    using s2 by (auto simp: kscheduler_dequeue_def Let_def bind_eq_Some_conv upd_thr_def info_def split: if_splits option.splits)
  have "n \<noteq> NULL \<longrightarrow> n \<noteq> t" using c' assms(2) by auto
  moreover have "n = NULL \<longrightarrow> info s2 t = info s1 t"
    using s2 by (auto simp: kscheduler_dequeue_def Let_def bind_eq_Some_conv split: if_splits)
  ultimately have "info s2 t = info s1 t" using 2 by blast
  then show ?thesis using 1 2 upd_info(1) [OF s'] c' assms(2) by (auto simp: info_def)
qed

section \<open>What the operations leave to a thread\<close>

lemma lock_honours:
  assumes l: "kmutex_lock k a s = Some s'" and t: "t \<noteq> NULL" and a: "a = t \<Longrightarrow> info s t = Some (BLOCKED, m) \<Longrightarrow> k = m"
  shows "honours t m s s'"
proof -
  obtain x x' where x: "mtxs s k = Some x" "mtxs s' = (mtxs s)(k \<mapsto> x')" "\<forall>y. y \<noteq> a \<longrightarrow> info s' y = info s y"
    "if owner x = NULL \<or> owner x = a then owner x' = a \<and> info s' = info s
     else owner x' = owner x \<and> info s' a = Some (BLOCKED, k)"
    using lock_effect [OF l] by blast
  have o: "owns s' t m" if o: "owns s t m" using o x t by (auto simp: owns_def split: if_splits)
  moreover have "claims s' t m" if "info s t = Some (BLOCKED, m)"
    using that x(3,4) a by (cases "a = t") (auto simp: claims_def split: if_splits)
  ultimately show ?thesis by (auto simp: honours_def claims_def)
qed

lemma lock_claims: "kmutex_lock k t s = Some s' \<Longrightarrow> claims s' t k"
  using lock_effect [of k t s s'] by (auto simp: claims_def owns_def split: if_splits)

text \<open>The first waiter of a mutex is blocked on it.\<close>

definition heads_ok :: "'a kstate_scheme \<Rightarrow> addr \<Rightarrow> bool" where
  "heads_ok s k \<longleftrightarrow> (\<forall>x. mtxs s k = Some x \<longrightarrow> mq_head x \<noteq> NULL \<longrightarrow> info s (mq_head x) = Some (BLOCKED, k))"

lemma head_in_queue:
  assumes I: "kinv s Q" and x: "mtxs s k = Some x" "mq_head x \<noteq> NULL"
  shows "mq_head x \<in> set (Q (QMutex k))"
proof -
  have "is_queue (nxt s) (mq_head x) (mq_tail x) (Q (QMutex k))"
    using queuesD(1) [OF kinvD(1) [OF I], of "QMutex k"] x(1) by simp
  then show ?thesis using x(2) by (cases "Q (QMutex k)") (auto simp: is_queue_def)
qed

lemma kinv_heads:
  assumes I: "kinv s Q" shows "heads_ok s k"
  unfolding heads_ok_def
proof (intro allI impI)
  fix x assume "mtxs s k = Some x" "mq_head x \<noteq> NULL"
  then have "mq_head x \<in> set (Q (QMutex k))" by (rule head_in_queue [OF I])
  then show "info s (mq_head x) = Some (BLOCKED, k)" using kinvD(2) [OF I] by fastforce
qed

lemma unlock_honours:
  assumes u: "kmutex_unlock k a s = Some (st, s')" and h: "heads_ok s k" and a: "a = t \<Longrightarrow> k \<noteq> m"
  shows "honours t m s s'"
proof -
  obtain x where x: "mtxs s k = Some x" "if owner x \<noteq> a then s' = s
     else \<exists>x'. mtxs s' = (mtxs s)(k \<mapsto> x') \<and> (info s' = info s
       \<or> mq_head x \<noteq> NULL \<and> owner x' = mq_head x \<and> (\<forall>y. y \<noteq> mq_head x \<longrightarrow> info s' y = info s y))"
    using unlock_effect [OF u] by blast
  have "owns s' t m" if o: "owns s t m" using o x a by (auto simp: owns_def split: if_splits)
  moreover have "claims s' t m" if i: "info s t = Some (BLOCKED, m)"
  proof -
    have "mq_head x = t \<Longrightarrow> mq_head x \<noteq> NULL \<Longrightarrow> k = m" using h x(1) i by (auto simp: heads_ok_def)
    then show ?thesis using x i by (cases "mq_head x = t") (auto simp: claims_def owns_def split: if_splits)
  qed
  ultimately show ?thesis by (auto simp: honours_def claims_def)
qed

lemma wait_honours:
  assumes w: "kcond_wait c k a s = Some s'" and h: "heads_ok s k" and r: "info s a = Some (RUNNING, v)" and a: "a = t \<Longrightarrow> k \<noteq> m"
  shows "honours t m s s'"
proof -
  obtain s1 st where s1: "kmutex_unlock k a s1 = Some (st, s')" "mtxs s1 = mtxs s" "\<forall>y. y \<noteq> a \<longrightarrow> info s1 y = info s y"
    using wait_effect [OF w] by blast
  have "heads_ok s1 k"
    unfolding heads_ok_def
  proof (intro allI impI)
    fix x assume "mtxs s1 k = Some x" "mq_head x \<noteq> NULL"
    then have i: "info s (mq_head x) = Some (BLOCKED, k)" using h s1(2) by (simp add: heads_ok_def)
    then have "mq_head x \<noteq> a" using r by auto
    then show "info s1 (mq_head x) = Some (BLOCKED, k)" using i s1(3) by simp
  qed
  note u = unlock_honours [OF s1(1) this a]
  have "honours t m s s1"
    using s1(2,3) r by (cases "a = t") (auto simp: honours_def claims_def owns_def)
  then show ?thesis using u honours_trans by blast
qed

lemma wait_claims:
  assumes w: "kcond_wait c k t s = Some s'" shows "claims s' t k"
proof -
  obtain s1 st where s1: "kmutex_unlock k t s1 = Some (st, s')" "info s1 t = Some (BLOCKED, k)"
    using wait_effect [OF w] by blast
  obtain x :: kmutex where "if owner x \<noteq> t then s' = s1 else \<exists>x'. mtxs s' = (mtxs s1)(k \<mapsto> x') \<and> (info s' = info s1
       \<or> mq_head x \<noteq> NULL \<and> owner x' = mq_head x \<and> (\<forall>y. y \<noteq> mq_head x \<longrightarrow> info s' y = info s1 y))"
    using unlock_effect [OF s1(1)] by blast
  then show ?thesis using s1(2) by (cases "mq_head x = t") (auto simp: claims_def owns_def split: if_splits)
qed

lemma signal_honours:
  assumes g: "kcond_signal c False s = Some s'" and t: "t \<noteq> NULL" shows "honours t m s s'"
proof -
  obtain z where z: "cnds s c = Some z" using g by (auto simp: kcond_signal_def bind_eq_Some_conv)
  show ?thesis
  proof (cases "cq_head z = NULL")
    case True
    then show ?thesis using g z by (simp add: kcond_signal_def honours_refl)
  next
    case False
    then obtain b s1 s2 where s: "thrs s (cq_head z) = Some b" "upd_cnd c (\<lambda>c. c\<lparr>cq_head := next_thr b\<rparr>) s = Some s1"
      "(if next_thr b = NULL then upd_cnd c (\<lambda>c. c\<lparr>cq_tail := NULL\<rparr>) s1 else Some s1) = Some s2"
      "kmutex_lock (waiting_on b) (cq_head z) s2 = Some s'"
      using g z by (auto simp: kcond_signal_def bind_eq_Some_conv Let_def)
    have same: "mtxs s2 = mtxs s \<and> info s2 = info s"
      using upd_info(3) [OF s(2)] s(3) by (auto split: if_splits dest: upd_info(3))
    have "info s (cq_head z) = Some (state b, waiting_on b)" using s(1) by (simp add: info_def)
    then have "honours t m s2 s'" using same by (intro lock_honours [OF s(4) t]) auto
    then show ?thesis using same by (simp add: honours_def claims_def owns_def)
  qed
qed

lemma signal_all_loop_honours: "signal_all_loop a s = Some s' \<Longrightarrow> t \<noteq> NULL \<Longrightarrow> honours t m s s'"
proof (rule signal_all_loop.raw_induct [where P = "\<lambda>a s s'. t \<noteq> NULL \<longrightarrow> honours t m s s'", THEN mp])
  fix f :: "addr \<Rightarrow> 'a kstate_scheme \<Rightarrow> 'a kstate_scheme option" and a and s s' :: "'a kstate_scheme"
  assume IH: "\<And>a s s'. f a s = Some s' \<Longrightarrow> t \<noteq> NULL \<longrightarrow> honours t m s s'"
    and r: "(if a = NULL then Some s else do { t \<leftarrow> thrs s a; let nx = next_thr t; s \<leftarrow> kmutex_lock (waiting_on t) a s; f nx s }) = Some s'"
  show "t \<noteq> NULL \<longrightarrow> honours t m s s'"
  proof (cases "a = NULL")
    case True
    then show ?thesis using r by (simp add: honours_refl)
  next
    case False
    then obtain b s1 where b: "thrs s a = Some b" "kmutex_lock (waiting_on b) a s = Some s1" "f (next_thr b) s1 = Some s'"
      using r by (auto simp: bind_eq_Some_conv)
    have "info s a = Some (state b, waiting_on b)" using b(1) by (simp add: info_def)
    then have "t \<noteq> NULL \<longrightarrow> honours t m s s1" by (intro impI lock_honours [OF b(2)]) auto
    then show ?thesis using IH [OF b(3)] honours_trans by blast
  qed
qed

lemma signal_all_honours:
  assumes "kcond_signal_all c s = Some s'" and t: "t \<noteq> NULL" shows "honours t m s s'"
proof -
  obtain z :: kcond and s1 s2 where s: "signal_all_loop (cq_head z) s = Some s1" "upd_cnd c (\<lambda>c. c\<lparr>cq_head := NULL\<rparr>) s1 = Some s2"
    "upd_cnd c (\<lambda>c. c\<lparr>cq_tail := NULL\<rparr>) s2 = Some s'"
    using assms(1) by (auto simp: kcond_signal_all_def bind_eq_Some_conv)
  have "honours t m s1 s'" by (rule honours_same) (use upd_info(3) [OF s(2)] upd_info(3) [OF s(3)] in simp_all)
  then show ?thesis using signal_all_loop_honours [OF s(1) t] honours_trans by blast
qed

section \<open>Switching threads\<close>

lemma dispatch_honours:
  assumes I: "kinv s Q" and d: "kthread_dispatch s = Some s'" and t: "t \<noteq> kthread_main s"
    and c: "kthread_current s \<noteq> NULL \<Longrightarrow> kthread_current s \<in> dom (thrs s)"
    and q: "kthread_current s \<noteq> NULL \<Longrightarrow> map_option fst (info s (kthread_current s)) \<noteq> Some BLOCKED \<Longrightarrow> \<not> queued Q (kthread_current s)"
  shows "honours t m s s'"
proof -
  obtain s1 where s1: "kthread_dispatch s = Some s1" "kthread_current s1 = (if requeued s Q = [] then kthread_main s else hd (requeued s Q))"
    "sched_frame s s1"
    using kthread_dispatch_kinv [OF I c q] by blast
  have e: "s1 = s'" using s1(1) d by simp
  have "kthread_current s' \<noteq> t" if b: "info s t = Some (BLOCKED, m)"
  proof -
    have "t \<notin> set (Q QReady)" using kinvD(2) [OF I, of t QReady] b by auto
    then have "t \<notin> set (requeued s Q)" using b by (auto simp: requeued_def)
    then show ?thesis using s1(2) t hd_in_set unfolding e by (metis (no_types))
  qed
  then have "info s t = Some (BLOCKED, m) \<Longrightarrow> info s' t = Some (BLOCKED, m)" using dispatch_info [OF d] by simp
  moreover have "mtxs s' = mtxs s" using sched_frameD(1) [OF s1(3)] e by simp
  ultimately show ?thesis by (auto simp: honours_def claims_def owns_def)
qed

lemma ret_honours: "set_ret_value v s = Some s' \<Longrightarrow> honours t m s s'"
  using ret_info honours_same by metis

text \<open>The common end of the calls that may block.\<close>

lemma block_end_honours:
  assumes I: "kinv s Q" and c: "kthread_current s \<in> dom (thrs s)" and t: "t \<noteq> kthread_main s"
    and r: "do { s \<leftarrow> set_ret_value v s; u \<leftarrow> thrs s (kthread_current s); if state u = BLOCKED then kthread_dispatch s else Some s } = Some s'"
  shows "honours t m s s'"
proof -
  obtain s1 where s1: "set_ret_value v s = Some s1" "kinv s1 Q" "info s1 = info s" "same_objects s s1"
    using set_ret_value_kinv [OF I c] by blast
  obtain u where u: "thrs s1 (kthread_current s1) = Some u" "(if state u = BLOCKED then kthread_dispatch s1 else Some s1) = Some s'"
    using r s1(1) by (auto simp: bind_eq_Some_conv)
  have "honours t m s1 s'"
  proof (cases "state u = BLOCKED")
    case True
    then have d: "kthread_dispatch s1 = Some s'" "map_option fst (info s1 (kthread_current s1)) = Some BLOCKED"
      using u by (simp_all add: info_def)
    show ?thesis by (rule dispatch_honours [OF s1(2) d(1)]) (use t s1(4) u(1) d(2) in \<open>auto simp: same_objects_def\<close>)
  next
    case False
    then show ?thesis using u(2) by (simp add: honours_refl)
  qed
  then show ?thesis using ret_honours [OF s1(1)] honours_trans by blast
qed

section \<open>Steps\<close>

text \<open>The calls by which a thread gives a mutex back: unlocking it, and waiting with it.\<close>

definition releases :: "addr \<Rightarrow> addr \<Rightarrow> 'a kstate_scheme \<Rightarrow> 'a kstate_scheme \<Rightarrow> bool" where
  "releases t m s s' \<longleftrightarrow> kthread_current s = t
     \<and> (get_param 0 s = Some m \<and> syscall_mutex_unlock s = Some s' \<or> get_param 1 s = Some m \<and> syscall_cond_wait s = Some s')"

lemma running_not_blocked: "running s Q \<Longrightarrow> info s (kthread_current s) = Some (BLOCKED, m) \<Longrightarrow> P"
  by (auto simp: running_def)

lemma lock_step_honours:
  assumes I: "kinv s Q" and run: "running s Q" and t: "t \<noteq> NULL" "t \<noteq> kthread_main s" and c: "kthread_current s \<noteq> kthread_main s"
    and p: "get_param 0 s = Some k" "k \<noteq> NULL" "mtxs s k = Some x" and l: "syscall_mutex_lock s = Some s'"
  shows "honours t m s s'"
proof -
  obtain s1 where s1: "kmutex_lock k (kthread_current s) s = Some s1" "kinv s1 (lock_queues x k (kthread_current s) Q)" "same_objects s s1"
    using kmutex_lock_kinv [OF I p(3) running_idle [OF run c]] by blast
  have "honours t m s s1"
    by (rule lock_honours [OF s1(1) t(1)]) (use running_not_blocked [OF run] in blast)
  moreover have "honours t m s1 s'"
    by (rule block_end_honours [OF s1(2)])
      (use s1(1,3) p l t(2) running_live [OF run] in \<open>auto simp: same_objects_def syscall_mutex_lock_def\<close>)
  ultimately show ?thesis by (rule honours_trans)
qed

lemma wait_step_honours:
  assumes I: "kinv s Q" and run: "running s Q" and t: "t \<noteq> kthread_main s" and c: "kthread_current s \<noteq> kthread_main s"
    and p: "get_param 0 s = Some c" "c \<noteq> NULL" "get_param 1 s = Some k" "k \<noteq> NULL" "cnds s c = Some z" "mtxs s k = Some x"
    and w: "syscall_cond_wait s = Some s'" and r: "kthread_current s = t \<Longrightarrow> k \<noteq> m"
  shows "honours t m s s'"
proof -
  obtain s1 where s1: "kcond_wait c k (kthread_current s) s = Some s1" "kinv s1 (wait_queues x c k (kthread_current s) Q)" "same_objects s s1"
    using kcond_wait_kinv [OF I p(5,6) running_idle [OF run c]] by blast
  obtain v where v: "info s (kthread_current s) = Some (RUNNING, v)" using run by (auto simp: running_def)
  have "honours t m s s1" by (rule wait_honours [OF s1(1) kinv_heads [OF I] v r])
  moreover have "honours t m s1 s'"
    by (rule block_end_honours [OF s1(2)])
      (use s1(1,3) p w t running_live [OF run] in \<open>auto simp: same_objects_def syscall_cond_wait_def\<close>)
  ultimately show ?thesis by (rule honours_trans)
qed

lemma try_lock_honours:
  assumes t: "t \<noteq> NULL" and p: "get_param 0 s = Some k" "k \<noteq> NULL" "mtxs s k = Some x" and l: "syscall_mutex_try_lock s = Some s'"
  shows "honours t m s s'"
proof (cases "owner x = NULL")
  case True
  let ?s = "s\<lparr>mtxs := (mtxs s)(k \<mapsto> x\<lparr>owner := kthread_current s, lock_count := 1\<rparr>)\<rparr>"
  have "honours t m s ?s" using True t p(3) by (auto simp: honours_def claims_def owns_def info_def)
  moreover have "set_ret_status STATUS_SUCCESS ?s = Some s'"
    using l p True by (simp add: syscall_mutex_try_lock_def kmutex_try_lock_def kernel_simps)
  ultimately show ?thesis using ret_honours honours_trans by blast
next
  case False
  then show ?thesis using l p ret_honours by (auto simp: syscall_mutex_try_lock_def kmutex_try_lock_def)
qed

lemma kstep_honours:
  assumes I: "kinv s Q" and run: "running s Q" and t: "t \<noteq> NULL" "t \<noteq> kthread_main s" and st: "kstep s X s'" and r: "\<not> releases t m s s'"
  shows "honours t m s s'"
  using st
proof (cases rule: kstep.cases)
  case dispatch
  show ?thesis
    by (rule dispatch_honours [OF I dispatch(2) t(2)]) (use running_live [OF run] run in \<open>auto simp: running_def\<close>)
next
  case exit
  let ?s = "s\<lparr>kthread_current := NULL\<rparr>"
  have "honours t m ?s s'"
    by (rule dispatch_honours [OF kinv_set_current [OF I]]) (use exit t(2) in \<open>simp_all add: kthread_stop_def\<close>)
  then show ?thesis by (simp add: honours_def claims_def owns_def info_def)
next
  case (lock k x)
  then show ?thesis using lock_step_honours [OF I run t] by simp
next
  case (try_lock k x)
  show ?thesis by (rule try_lock_honours [OF t(1) try_lock(2-5)])
next
  case (unlock k x)
  then obtain stt s1 where s1: "kmutex_unlock k (kthread_current s) s = Some (stt, s1)" "set_ret_value (status_code stt) s1 = Some s'"
    by (auto simp: syscall_mutex_unlock_def bind_eq_Some_conv)
  have "kthread_current s = t \<Longrightarrow> k \<noteq> m" using r unlock by (auto simp: releases_def)
  from unlock_honours [OF s1(1) kinv_heads [OF I] this] show ?thesis using ret_honours [OF s1(2)] honours_trans by blast
next
  case (wait c k z x)
  have "kthread_current s = t \<Longrightarrow> k \<noteq> m" using r wait by (auto simp: releases_def)
  then show ?thesis using wait wait_step_honours [OF I run t(2)] by simp
next
  case (signal c z Q' k)
  then obtain s1 where "kcond_signal c False s = Some s1" "set_ret_status STATUS_SUCCESS s1 = Some s'"
    by (auto simp: syscall_cond_signal_def bind_eq_Some_conv)
  then show ?thesis using signal_honours [OF _ t(1)] ret_honours honours_trans by blast
next
  case (broadcast c z Q' k)
  then obtain s1 where "kcond_signal_all c s = Some s1" "set_ret_status STATUS_SUCCESS s1 = Some s'"
    by (auto simp: syscall_cond_signal_all_def bind_eq_Some_conv)
  then show ?thesis using signal_all_honours [OF _ t(1)] ret_honours honours_trans by blast
next
  case alloc
  then show ?thesis using memory_call_quiet [of s s'] quiet_ok(2,3) [OF I run] honours_same by metis
next
  case free
  then show ?thesis using memory_call_quiet [of s s'] quiet_ok(2,3) [OF I run] honours_same by metis
next
  case expand
  then show ?thesis using memory_call_quiet [of s s'] quiet_ok(2,3) [OF I run] honours_same by metis
next
  case (user u c b)
  then have "s' = s\<lparr>kheap := kheap s, kram := b, thrs := (thrs s)(kthread_current s \<mapsto> u\<lparr>ctx := c\<rparr>)\<rparr>" by simp
  from quiet_ok(2,3) [OF I run user(3) this] show ?thesis by (intro honours_same) simp_all
qed

section \<open>Critical sections\<close>

text \<open>The current thread asks for a mutex: it locks it, tries to with success, or waits on a condition with it.\<close>

inductive enters :: "addr \<Rightarrow> 'a kstate_scheme \<Rightarrow> 'a kstate_scheme \<Rightarrow> bool" where
  lock: "get_param 0 s = Some m \<Longrightarrow> m \<noteq> NULL \<Longrightarrow> mtxs s m = Some x \<Longrightarrow> syscall_mutex_lock s = Some s' \<Longrightarrow> enters m s s'"
| try_lock: "get_param 0 s = Some m \<Longrightarrow> m \<noteq> NULL \<Longrightarrow> mtxs s m = Some x \<Longrightarrow> syscall_mutex_try_lock s = Some s' \<Longrightarrow>
    get_param 0 s' = Some (status_code STATUS_SUCCESS) \<Longrightarrow> enters m s s'"
| wait: "get_param 0 s = Some c \<Longrightarrow> c \<noteq> NULL \<Longrightarrow> get_param 1 s = Some m \<Longrightarrow> m \<noteq> NULL \<Longrightarrow> cnds s c = Some z \<Longrightarrow> mtxs s m = Some x \<Longrightarrow>
    syscall_cond_wait s = Some s' \<Longrightarrow> enters m s s'"

text \<open>Runs in which no thread of \<open>T\<close> gives the mutex back.\<close>

inductive holding :: "addr set \<Rightarrow> addr \<Rightarrow> 'a kstate_scheme \<Rightarrow> 'a kstate_scheme \<Rightarrow> bool" for T m s0 where
  start: "holding T m s0 s0"
| step: "holding T m s0 s \<Longrightarrow> kstep s X s' \<Longrightarrow> \<forall>t\<in>T. \<not> releases t m s s' \<Longrightarrow> holding T m s0 s'"

lemma holding_ok:
  assumes "holding T m s0 s" and "kinv s0 Q0" "running s0 Q0" and t: "t \<in> T" "t \<noteq> NULL" "t \<noteq> kthread_main s0"
  shows "\<exists>Q. kinv s Q \<and> running s Q \<and> kthread_main s = kthread_main s0 \<and> honours t m s0 s"
  using assms(1-3)
proof (induction rule: holding.induct)
  case start
  then show ?case using honours_refl by blast
next
  case (step s X s')
  then obtain Q where Q: "kinv s Q" "running s Q" "kthread_main s = kthread_main s0" "honours t m s0 s" by blast
  have "honours t m s s'" using kstep_honours [OF Q(1,2) t(2) _ step.hyps(2)] t(1,3) Q(3) step.hyps(3) by simp
  moreover obtain Q' where "kinv s' Q'" "running s' Q'" "kthread_main s' = kthread_main s"
    using kstep_ok [OF Q(1,2) step.hyps(2)] by blast
  ultimately show ?case using Q(3,4) honours_trans by metis
qed

lemma try_lock_claims:
  assumes p: "get_param 0 s = Some k" "k \<noteq> NULL" "mtxs s k = Some x" and l: "syscall_mutex_try_lock s = Some s'"
    and r: "get_param 0 s' = Some (status_code STATUS_SUCCESS)"
  shows "claims s' (kthread_current s) k"
proof (cases "owner x = NULL")
  case True
  let ?s = "s\<lparr>mtxs := (mtxs s)(k \<mapsto> x\<lparr>owner := kthread_current s, lock_count := 1\<rparr>)\<rparr>"
  have "set_ret_status STATUS_SUCCESS ?s = Some s'"
    using l p True by (simp add: syscall_mutex_try_lock_def kmutex_try_lock_def kernel_simps)
  then have "mtxs s' = mtxs ?s" using ret_info by blast
  then show ?thesis by (simp add: claims_def owns_def)
next
  case False
  then have "set_ret_status STATUS_BUSY s = Some s'" using l p by (simp add: syscall_mutex_try_lock_def kmutex_try_lock_def)
  then obtain u where u: "thrs s (kthread_current s) = Some u"
    "s' = s\<lparr>thrs := (thrs s)(kthread_current s \<mapsto> set_reg REG_A0 (status_code STATUS_BUSY) u)\<rparr>"
    by (auto simp: set_ret_value_def upd_thr_def split: option.splits)
  have "get_param 0 s' = Some (status_code STATUS_BUSY) \<or> get_param 0 s' = get_param 0 s"
    using u by (cases "REG_A0 < length (regs (ctx u))") (auto simp: get_param_def get_reg_def set_reg_def list_update_beyond)
  then show ?thesis using r p(1,2) by auto
qed

lemma enters_claims:
  assumes I: "kinv s Q" and run: "running s Q" and c: "kthread_current s \<noteq> kthread_main s" and e: "enters m s s'"
  shows "claims s' (kthread_current s) m \<and> (\<exists>Q'. kinv s' Q' \<and> running s' Q') \<and> kthread_main s' = kthread_main s"
proof -
  let ?c = "kthread_current s"
  have "kstep s {} s'" using e c by cases (blast intro: kstep.intros)+
  then obtain Q' where "kinv s' Q'" "running s' Q'" "kthread_main s' = kthread_main s" using kstep_ok [OF I run] by blast
  moreover have "claims s' ?c m"
    using e
  proof cases
    case (lock x)
    obtain s1 where s1: "kmutex_lock m ?c s = Some s1" "kinv s1 (lock_queues x m ?c Q)" "same_objects s s1"
      using kmutex_lock_kinv [OF I lock(3) running_idle [OF run c]] by blast
    have "honours ?c m s1 s'"
      by (rule block_end_honours [OF s1(2)])
        (use s1(1,3) lock c running_live [OF run] in \<open>auto simp: same_objects_def syscall_mutex_lock_def\<close>)
    then show ?thesis using lock_claims [OF s1(1)] by (simp add: honours_def)
  next
    case (try_lock x)
    then show ?thesis using try_lock_claims by simp
  next
    case (wait d z x)
    obtain s1 where s1: "kcond_wait d m ?c s = Some s1" "kinv s1 (wait_queues x d m ?c Q)" "same_objects s s1"
      using kcond_wait_kinv [OF I wait(5,6) running_idle [OF run c]] by blast
    have "honours ?c m s1 s'"
      by (rule block_end_honours [OF s1(2)])
        (use s1(1,3) wait c running_live [OF run] in \<open>auto simp: same_objects_def syscall_cond_wait_def\<close>)
    then show ?thesis using wait_claims [OF s1(1)] by (simp add: honours_def)
  qed
  ultimately show ?thesis by blast
qed

lemma running_owner: "running s Q \<Longrightarrow> claims s (kthread_current s) m \<Longrightarrow> owns s (kthread_current s) m"
  unfolding claims_def using running_not_blocked by blast

text \<open>A thread that asks for a mutex takes nothing from the others.\<close>

lemma enters_honours:
  assumes I: "kinv s Q" and run: "running s Q" and c: "kthread_current s \<noteq> kthread_main s" and e: "enters m s s'"
    and t: "t \<noteq> NULL" "t \<noteq> kthread_main s" "kthread_current s \<noteq> t"
  shows "honours t m s s'"
proof -
  have "kstep s {} s'" using e c by cases (blast intro: kstep.intros)+
  then show ?thesis by (rule kstep_honours [OF I run t(1,2)]) (use t(3) in \<open>simp add: releases_def\<close>)
qed

end
