(* ===== verification/Sync_Properties.thy ===== *)
theory Sync_Properties
  imports Examples Mutual_Exclusion
begin

text \<open>
  The properties of scheduling and synchronisation. \<open>Q\<close> is always the contents of the queues.
\<close>

section \<open>Scheduling\<close>

text \<open>
  A dispatch puts the running thread, unless it is the idle thread, at the back of the ready queue and
  runs the front of the queue, the idle thread if there is none; all other queues stay as they are.
\<close>

theorem kthread_dispatch_rotates_ready:
  assumes "kinv s Q" and "running s Q"
    and "r = (if kthread_current s = kthread_main s then Q QReady else Q QReady @ [kthread_current s])"
  shows "\<exists>s'. kthread_dispatch s = Some s' \<and> kinv s' (Q(QReady := tl r)) \<and> running s' (Q(QReady := tl r))
    \<and> kthread_current s' = (if r = [] then kthread_main s else hd r) \<and> mtxs s' = mtxs s \<and> cnds s' = cnds s"
proof -
  let ?c = "kthread_current s"
  have d: "?c \<in> dom (thrs s)" by (rule running_live [OF assms(2)])
  have c0: "?c \<noteq> NULL" by (rule live_thread [OF assms(1) d])
  have nq: "\<not> queued Q ?c" using assms(2) by (simp add: running_def)
  have R: "requeued s Q = r" using assms(2,3) c0 by (auto simp: requeued_def running_def)
  show ?thesis
    using kthread_dispatch_kinv [OF assms(1) d nq] sched_frameD(1,2) unfolding R by blast
qed

theorem kthread_dispatch_rotates_ready_witness:
  "\<exists>s'. kthread_dispatch demo_ready = Some s' \<and> kthread_current s' = T2"
  using kthread_dispatch_rotates_ready [OF demo_ready_ok refl] by (auto simp: demo_defs demo_addr)

text \<open>
  C12: Round robin. When only timer interrupts happen, the thread at place \<open>i\<close> of the ready queue runs after
  \<open>i + 1\<close> dispatches, and after a full round the first thread runs again: no ready thread starves.
\<close>

theorem round_robin:
  assumes "kinv s Q" and "running s Q" and "kthread_current s \<noteq> kthread_main s"
  shows "\<exists>s'. dispatch_times n s = Some s'
    \<and> kthread_current s' = (kthread_current s # Q QReady) ! (n mod Suc (length (Q QReady)))"
proof -
  obtain s' Q' where s': "dispatch_times n s = Some s'"
    "kthread_current s' # Q' QReady = rotate n (kthread_current s # Q QReady)"
    using dispatch_times_rotates [OF assms] by blast
  have "kthread_current s' = hd (rotate n (kthread_current s # Q QReady))" using s'(2) by (metis list.sel(1))
  then show ?thesis using s'(1) by (simp add: hd_rotate_conv_nth)
qed

theorem round_robin_witness:
  "\<exists>s'. dispatch_times 2 demo_ready = Some s' \<and> kthread_current s' = T3"
  using round_robin [OF demo_ready_ok, of 2] by (auto simp: demo_defs demo_addr)

section \<open>Mutexes\<close>

text \<open>
  C13: Locking. A free mutex gets the thread as its owner; a thread that has it already keeps it; any
  other thread is appended to the mutex's queue, marked blocked on it.
\<close>

theorem kmutex_lock_refines:
  assumes "kinv s Q" and "mtxs s m = Some x" and "idle s Q a"
  shows "\<exists>s' y. kmutex_lock m a s = Some s' \<and> mtxs s' m = Some y \<and> kinv s' (lock_queues x m a Q)
    \<and> owner y = (if owner x = NULL then a else owner x)
    \<and> (owner x \<noteq> NULL \<and> owner x \<noteq> a \<longrightarrow> info s' a = Some (BLOCKED, m))"
proof -
  have a0: "a \<noteq> NULL" using live_thread [OF assms(1)] assms(3) by (simp add: idle_def)
  consider (free) "owner x = NULL" | (again) "owner x = a" | (block) "owner x \<noteq> NULL" "owner x \<noteq> a" by blast
  then show ?thesis
  proof cases
    case free
    then show ?thesis using kmutex_lock_free [OF assms(1,2) free a0] by (simp add: lock_queues_def)
  next
    case again
    then show ?thesis using kmutex_lock_again [OF assms(1,2) again a0] a0 by (auto simp: lock_queues_def)
  next
    case block
    then show ?thesis using kmutex_lock_block [OF assms(1,2) block assms(3)] by (auto simp: lock_queues_def)
  qed
qed

theorem kmutex_lock_refines_witness:
  "\<exists>s'. kmutex_lock MTX T1 demo_held = Some s' \<and> kinv s' (demo_queues [T2] [T3, T1] []) \<and> info s' T1 = Some (BLOCKED, MTX)"
proof -
  have x: "mtxs demo_held MTX = Some (demo_mutex T2 T3 T3)" by (simp add: demo_defs)
  have i: "idle demo_held (demo_queues [T2] [T3] []) T1" by (simp add: idle_def demo_eval)
  have q: "lock_queues (demo_mutex T2 T3 T3) MTX T1 (demo_queues [T2] [T3] []) = demo_queues [T2] [T3, T1] []"
    by (rule ext, rename_tac q, case_tac q) (auto simp: lock_queues_def demo_mutex_def demo_addr)
  show ?thesis
    using kmutex_lock_refines [OF demo_held_ok(1) x i] unfolding q by (auto simp: demo_mutex_def demo_addr)
qed

text \<open>
  C14: Unlocking hands the mutex to the waiters in the order in which they came: when the owner and then
  each new owner unlocks it, every waiter owns it once, in turn, each is made ready, and the mutex is free
  at the end.
\<close>

primrec unlock_all :: "addr \<Rightarrow> addr list \<Rightarrow> 'a kstate_scheme \<Rightarrow> 'a kstate_scheme option" where
  "unlock_all m [] s = Some s"
| "unlock_all m (a # as) s = do {
     (st, s) \<leftarrow> kmutex_unlock m a s;
     if st = STATUS_SUCCESS then unlock_all m as s else None
   }"

theorem kmutex_unlock_fifo:
  assumes "kinv s Q" and "mtxs s m = Some x" and "owner x = a" "a \<noteq> NULL" and "unlocked x"
  shows "\<exists>s' y. unlock_all m (a # Q (QMutex m)) s = Some s' \<and> mtxs s' m = Some y \<and> owner y = NULL
    \<and> kinv s' (Q(QMutex m := [], QReady := Q QReady @ Q (QMutex m)))"
  using assms
proof (induction "Q (QMutex m)" arbitrary: s Q x a)
  case Nil
  let ?s = "s\<lparr>mtxs := (mtxs s)(m \<mapsto> x\<lparr>lock_count := lock_count x - 1, owner := NULL\<rparr>)\<rparr>"
  have "kmutex_unlock m a s = Some (STATUS_SUCCESS, ?s)" "kinv ?s Q"
    using kmutex_unlock_release [OF Nil.prems(1,2,3,5)] Nil.hyps by simp_all
  then show ?case using Nil.hyps by (simp add: fun_upd_idem)
next
  case (Cons b bs)
  have q: "Q (QMutex m) = b # bs" using Cons.hyps(2) by simp
  let ?Q = "Q(QMutex m := bs, QReady := Q QReady @ [b])"
  obtain s1 y where s1: "kmutex_unlock m a s = Some (STATUS_SUCCESS, s1)" "kinv s1 ?Q"
    "mtxs s1 m = Some y" "owner y = b" "lock_count y = 1"
    using kmutex_unlock_handoff [OF Cons.prems(1,2,3,5) q] by blast
  have "b \<in> dom (thrs s)" using queuesD(3) [OF kinvD(1) [OF Cons.prems(1)], of b "QMutex m"] q by simp
  then have b0: "b \<noteq> NULL" by (rule live_thread [OF Cons.prems(1)])
  have u: "unlocked y" using s1(5) by (simp add: unlocked_def)
  have "bs = ?Q (QMutex m)" by simp
  from Cons.hyps(1) [OF this s1(2,3,4) b0 u]
  obtain s2 z where s2: "unlock_all m (b # bs) s1 = Some s2" "mtxs s2 m = Some z" "owner z = NULL"
    "kinv s2 (?Q(QMutex m := [], QReady := ?Q QReady @ bs))" by auto
  have "?Q(QMutex m := [], QReady := ?Q QReady @ bs) = Q(QMutex m := [], QReady := Q QReady @ b # bs)"
    by (auto simp: fun_eq_iff)
  then show ?case using s1(1) s2 q by simp
qed

theorem kmutex_unlock_fifo_witness:
  "\<exists>s'. unlock_all MTX [T1, T2, T3] demo_owner = Some s' \<and> kinv s' (demo_queues [T2, T3] [] [])"
proof -
  have x: "mtxs demo_owner MTX = Some (demo_mutex T1 T2 T3)" by (simp add: demo_defs)
  have q: "(demo_queues [] [T2, T3] [])(QMutex MTX := [], QReady := [T2, T3]) = demo_queues [T2, T3] [] []"
    by (rule ext, rename_tac q, case_tac q) auto
  show ?thesis
    using kmutex_unlock_fifo [OF demo_owner_ok(1) x] q by (simp add: demo_mutex_def unlocked_def demo_addr) blast
qed


section \<open>Conditions\<close>

lemma unlock_owner:
  assumes u: "kmutex_unlock m a s = Some (st, s')" and x: "mtxs s m = Some x"
  shows "\<exists>y. mtxs s' m = Some y \<and> owner y = (if owner x \<noteq> a \<or> \<not> unlocked x then owner x else mq_head x)
    \<and> lock_count y = (if owner x \<noteq> a then lock_count x else if unlocked x \<and> mq_head x \<noteq> NULL then 1 else lock_count x - 1)"
proof (cases "owner x = a")
  case False
  then show ?thesis using u x by (auto simp: kmutex_unlock_def)
next
  case True
  show ?thesis
  proof (cases "unlocked x \<and> mq_head x \<noteq> NULL")
    case False
    then show ?thesis using u x True by (auto simp: kmutex_unlock_def kernel_simps unlocked_def)
  next
    case hand: True
    then show ?thesis
      using u x True
      by (auto simp: kmutex_unlock_def kernel_simps unlocked_def bind_eq_Some_conv Let_def split: if_splits dest!: enqueue_info)
  qed
qed

lemma queue_head:
  assumes "kinv s Q" and "mtxs s m = Some x"
  shows "mq_head x = (if Q (QMutex m) = [] then NULL else hd (Q (QMutex m)))"
proof -
  have "is_queue (nxt s) (mq_head x) (mq_tail x) (Q (QMutex m))"
    using queuesD(1) [OF kinvD(1) [OF assms(1)], of "QMutex m"] assms(2) by simp
  then show ?thesis by (cases "Q (QMutex m)") (simp_all add: is_queue_empty is_queue_pop(1))
qed

text \<open>
  C15: Waiting releases the mutex and queues the thread in one step. Afterwards the thread is blocked, at the back of the condition's
  queue. If it owned the mutex, the mutex now belongs, locked once, to the first thread that waited for it, which is ready, or to nobody if
  none did. A mutex of another thread stays with it, and so does a recursive mutex the thread has locked more than once.
\<close>

theorem kcond_wait_refines:
  assumes "kinv s Q" and "cnds s c = Some z" and "mtxs s m = Some x" and "idle s Q a"
  shows "\<exists>s' y. kcond_wait c m a s = Some s' \<and> kinv s' (wait_queues x c m a Q) \<and> info s' a = Some (BLOCKED, m)
    \<and> (wait_queues x c m a Q) (QCond c) = Q (QCond c) @ [a] \<and> mtxs s' m = Some y
    \<and> owner y = (if owner x \<noteq> a \<or> \<not> unlocked x then owner x
         else if Q (QMutex m) = [] then NULL else hd (Q (QMutex m)))
    \<and> lock_count y = (if owner x \<noteq> a then lock_count x
         else if unlocked x \<and> Q (QMutex m) \<noteq> [] then 1 else lock_count x - 1)"
proof -
  have q: "(wait_queues x c m a Q) (QCond c) = Q (QCond c) @ [a]"
    by (auto simp: wait_queues_def unlock_queues_def split: list.split)
  obtain s' where s': "kcond_wait c m a s = Some s'" "kinv s' (wait_queues x c m a Q)" "info s' a = Some (BLOCKED, m)"
    using kcond_wait_kinv [OF assms] by blast
  obtain s1 st where s1: "kmutex_unlock m a s1 = Some (st, s')" "mtxs s1 = mtxs s" using wait_effect [OF s'(1)] by blast
  have "hd (Q (QMutex m)) \<noteq> NULL" if "Q (QMutex m) \<noteq> []"
    using queuesD(3,5) [OF kinvD(1) [OF assms(1)]] hd_in_set [OF that] by (metis domIff)
  then have "mq_head x \<noteq> NULL \<longleftrightarrow> Q (QMutex m) \<noteq> []" using queue_head [OF assms(1,3)] by simp
  then show ?thesis
    using s' q unlock_owner [OF s1(1), of x] s1(2) assms(3) queue_head [OF assms(1,3)] by auto
qed

theorem kcond_wait_refines_witness:
  "\<exists>s' y. kcond_wait CND MTX T1 demo_owner = Some s' \<and> kinv s' (demo_queues [T2] [T3] [T1]) \<and> mtxs s' MTX = Some y
     \<and> owner y = T2 \<and> lock_count y = 1"
proof -
  have x: "mtxs demo_owner MTX = Some (demo_mutex T1 T2 T3)" by (simp add: demo_defs)
  have z: "cnds demo_owner CND = Some \<lparr>cq_head = 0, cq_tail = 0\<rparr>" by (simp add: demo_defs)
  have i: "idle demo_owner (demo_queues [] [T2, T3] []) T1" by (simp add: idle_def demo_eval)
  have u: "owner (demo_mutex T1 T2 T3) = T1" "unlocked (demo_mutex T1 T2 T3)" "demo_queues [] [T2, T3] [] (QMutex MTX) = [T2, T3]"
    by (simp_all add: demo_mutex_def unlocked_def)
  have q: "wait_queues (demo_mutex T1 T2 T3) CND MTX T1 (demo_queues [] [T2, T3] []) = demo_queues [T2] [T3] [T1]"
    by (rule ext, rename_tac q, case_tac q) (auto simp: wait_queues_def unlock_queues_def unlocked_def demo_mutex_def demo_addr)
  show ?thesis using kcond_wait_refines [OF demo_owner_ok(1) z x i] u unfolding q by auto
qed

text \<open>
  Signalling with \<open>enqueue\<close>, as the kernel does for its signal processor: the first waiter gets the free
  mutex and becomes ready; the other waiters stay.
\<close>

theorem kcond_signal_wakes:
  assumes "kinv s Q" and "cnds s c = Some z" and "Q (QCond c) = b # bs"
    and "info s b = Some (BLOCKED, m)" and "mtxs s m = Some x" and "owner x = NULL \<or> owner x = b"
  shows "\<exists>s'. kcond_signal c True s = Some s' \<and> kinv s' (Q(QCond c := bs, QReady := Q QReady @ [b]))"
  using kcond_signal_enqueue [OF assms] assms(3) by (auto simp: signal_queues_def)

theorem kcond_signal_wakes_witness:
  "\<exists>s'. kcond_signal CND True (demo_cond1 NULL) = Some s' \<and> kinv s' (demo_queues [T3, T2] [] [])"
proof -
  have x: "mtxs (demo_cond1 NULL) MTX = Some (demo_mutex NULL 0 0)" by (simp add: demo_defs)
  have z: "cnds (demo_cond1 NULL) CND = Some \<lparr>cq_head = T2, cq_tail = T2\<rparr>" by (simp add: demo_defs)
  have i: "info (demo_cond1 NULL) T2 = Some (BLOCKED, MTX)" by (simp add: demo_eval)
  have q: "(demo_queues [T3] [] [T2])(QCond CND := [], QReady := demo_queues [T3] [] [T2] QReady @ [T2]) = demo_queues [T3, T2] [] []"
    by (rule ext, rename_tac q, case_tac q) auto
  have w: "demo_queues [T3] [] [T2] (QCond CND) = [T2]" by simp
  show ?thesis
    using kcond_signal_wakes [OF demo_cond1_ok(1) z w i x] unfolding q by (simp add: demo_mutex_def)
qed

text \<open>
  Signalling all: when the waiters came with the same mutex and another thread holds it, they all move, in
  their order, to the back of its queue.
\<close>

theorem kcond_signal_all_moves:
  assumes "kinv s Q" and "cnds s c = Some z" and "waiters_ok s Q c m" and "Q (QCond c) \<noteq> []"
  shows "\<exists>s'. kcond_signal_all c s = Some s' \<and> kinv s' (Q(QMutex m := Q (QMutex m) @ Q (QCond c), QCond c := []))"
proof -
  obtain x where "mtxs s m = Some x" "owner x \<noteq> NULL" "owner x \<notin> set (Q (QCond c))"
    "\<forall>y\<in>set (Q (QCond c)). info s y = Some (BLOCKED, m)"
    using assms(3,4) by (auto simp: waiters_ok_def)
  then show ?thesis using kcond_signal_all_kinv [OF assms(1,2,4)] by blast
qed

theorem kcond_signal_all_moves_witness:
  "\<exists>s'. kcond_signal_all CND demo_cond = Some s' \<and> kinv s' (demo_queues [] [T2, T3] [])"
proof -
  have z: "cnds demo_cond CND = Some \<lparr>cq_head = T2, cq_tail = T3\<rparr>" by (simp add: demo_defs)
  have w: "waiters_ok demo_cond (demo_queues [] [] [T2, T3]) CND MTX" by (simp add: waiters_ok_def demo_eval)
  have q: "(demo_queues [] [] [T2, T3])(QMutex MTX := [T2, T3], QCond CND := []) = demo_queues [] [T2, T3] []"
    by (rule ext, rename_tac q, case_tac q) auto
  show ?thesis using kcond_signal_all_moves [OF demo_cond_ok(1) z w] q by simp
qed

text \<open>
  C16: The link of a signalled thread is not cleared. With two waiters, \<open>kcond_signal\<close> from a user thread that holds
  the mutex leaves queues that are no longer queues: the first waiter, at the back of the mutex's queue, still
  points to the second, which is in the condition's queue.
\<close>

theorem kcond_signal_breaks_queues:
  "\<exists>s'. kinv demo_cond (demo_queues [] [] [T2, T3]) \<and> kcond_signal CND False demo_cond = Some s' \<and> (\<forall>Q. \<not> queues s' Q)"
proof -
  define s' where "s' = demo_cond\<lparr>mtxs := [MTX \<mapsto> (demo_mutex T1 T2 T2)], cnds := [CND \<mapsto> \<lparr>cq_head = T3, cq_tail = T3\<rparr>]\<rparr>"
  have "kcond_signal CND False demo_cond = Some s'"
    by (simp add: kcond_signal_def kmutex_lock_def kernel_simps Let_def demo_defs demo_addr s'_def fun_eq_iff)
  moreover have "\<not> queues s' Q" for Q
  proof
    assume Q: "queues s' Q"
    have iq: "is_queue (nxt s') T2 T2 (Q (QMutex MTX))"
      by (rule queuesD(1) [OF Q]) (simp add: s'_def demo_mutex_def)
    have n: "nxt s' T2 = T3" "nxt s' T3 = NULL" by (simp_all add: s'_def demo_eval)
    have "Q (QMutex MTX) = [T2, T3]"
      by (rule chain_unique [of "nxt s'" T2]) (use iq n in \<open>simp_all add: is_queue_def demo_addr\<close>)
    then show False using iq by (simp add: is_queue_def demo_addr)
  qed
  ultimately show ?thesis using demo_cond_ok(1) by blast
qed

text \<open>
  A signal from a user thread while the mutex is free loses the waiter: it becomes the mutex's owner, but it is
  blocked and in no queue, so it never runs again and the mutex is never released.
\<close>

theorem kcond_signal_loses_waiter:
  "\<exists>s' Q'. kinv (demo_cond1 NULL) (demo_queues [T3] [] [T2]) \<and> kcond_signal CND False (demo_cond1 NULL) = Some s' \<and> kinv s' Q'
     \<and> map_option owner (mtxs s' MTX) = Some T2 \<and> info s' T2 = Some (BLOCKED, MTX) \<and> T2 \<notin> everyone s' Q'"
proof -
  define s' where "s' = (demo_cond1 NULL)\<lparr>mtxs := [MTX \<mapsto> (demo_mutex T2 0 0)], cnds := [CND \<mapsto> \<lparr>cq_head = 0, cq_tail = 0\<rparr>]\<rparr>"
  have "kcond_signal CND False (demo_cond1 NULL) = Some s'"
    by (simp add: kcond_signal_def kmutex_lock_def kernel_simps Let_def demo_defs demo_addr s'_def fun_eq_iff)
  moreover have "kinv s' (demo_queues [T3] [] [])"
    by (rule kinvI [of _ _ "demo_mutex T2 0 0" _ "\<lparr>cq_head = 0, cq_tail = 0\<rparr>"]) (simp_all add: s'_def demo_eval)
  moreover have "map_option owner (mtxs s' MTX) = Some T2" "info s' T2 = Some (BLOCKED, MTX)"
    "T2 \<notin> everyone s' (demo_queues [T3] [] [])"
    by (simp_all add: s'_def demo_eval everyone_def placed_def)
  ultimately show ?thesis using demo_cond1_ok(1) by blast
qed

section \<open>Mutual exclusion\<close>




section \<open>Every run\<close>

text \<open>
  C5: The queues in every run of \<open>kruns\<close>. These are runs of a fixed set of threads and objects, of user code, timer interrupts and system calls
  (exits, locking, unlocking, waiting, signalling, broadcasting, allocating and freeing memory) on objects that exist, in which the main thread
  neither exits nor blocks, a signal comes only if at most one thread waits for the condition, with a mutex that another thread holds, and a
  broadcast only if all waiters came with one mutex, which another thread holds (\<open>waiters_ok\<close>). The code does not check the latter:
  the two theorems on \<open>kcond_signal\<close> above show queues that break and a thread that is lost without it. In every state of such a run the
  queues are well formed, a thread runs that is in no queue, nobody waits for a free mutex and no owner for its own, and every thread that
  has not exited is running, ready or waiting: none is lost.
\<close>

theorem kernel_runs_ok:
  assumes "kinv s0 Q0" and "running s0 Q0" and "dom (thrs s0) - {kthread_main s0} \<subseteq> everyone s0 Q0"
    and "kruns s0 s E"
  shows "\<exists>Q. kinv s Q \<and> running s Q \<and> dom (thrs s) = dom (thrs s0)
    \<and> (\<forall>m x. mtxs s m = Some x \<longrightarrow> (owner x = NULL \<longrightarrow> Q (QMutex m) = []) \<and> owner x \<notin> set (Q (QMutex m)))
    \<and> (\<forall>t \<in> dom (thrs s). t = kthread_main s \<or> t \<in> E \<or> t = kthread_current s \<or> (\<exists>q. t \<in> set (Q q)))"
proof -
  obtain Q where Q: "kinv s Q" "running s Q" "dom (thrs s) - {kthread_main s} \<subseteq> everyone s Q \<union> E"
    "dom (thrs s) = dom (thrs s0)"
    using kruns_inv [OF assms(4,1,2,3)] by blast
  have "\<forall>m x. mtxs s m = Some x \<longrightarrow> mutex_ok Q m x" using kinvD(3) [OF Q(1)] by blast
  moreover have "\<forall>t \<in> dom (thrs s). t = kthread_main s \<or> t \<in> E \<or> t = kthread_current s \<or> (\<exists>q. t \<in> set (Q q))"
    using Q(3) by (auto simp: everyone_def placed_def queued_def)
  ultimately show ?thesis using Q(1,2,4) unfolding mutex_ok_def by blast
qed

theorem kernel_runs_ok_witness:
  "\<exists>s Q. kruns demo_ready s {} \<and> s \<noteq> demo_ready \<and> kinv s Q \<and> running s Q"
proof -
  obtain s where s: "kthread_dispatch demo_ready = Some s" "kthread_current s = T2"
  proof -
    have "T1 \<noteq> IDLE" by (simp add: demo_addr)
    then show ?thesis
      using kthread_dispatch_kinv [OF demo_ready_ok(1)] that
      by (fastforce simp: demo_defs requeued_def demo_eval)
  qed
  have r: "kruns demo_ready s {}" using kruns.step [OF kruns.start kstep.dispatch [OF s(1)]] by simp
  have d: "dom (thrs demo_ready) - {kthread_main demo_ready} \<subseteq> everyone demo_ready (demo_queues [T2, T3] [] [])"
    by (auto simp: demo_eval everyone_def placed_def)
  have ne: "s \<noteq> demo_ready" using s(2) by (auto simp: demo_defs demo_addr)
  show ?thesis using kernel_runs_ok [OF demo_ready_ok d r] r ne by blast
qed

end
