(* ===== verification/Exceptions.thy ===== *)
theory Exceptions
  imports Syscalls
begin

text \<open>
  The trap's C entry point and the interrupt loop (\<^verbatim>\<open>Software/src/kernel/exceptions/\<close>), and the
  initialisation of the kernel (\<^verbatim>\<open>Software/src/kernel/init.c\<close>).
\<close>

section \<open>External interrupts\<close>

text \<open>
  The tables \<open>ext_intr_handlers\<close> and \<open>ext_intr_args\<close>: the signal a source sends, \<open>None\<close> for a source without
  handler. An index from 16 on is out of bounds.
\<close>

definition ext_intr_signal :: "u8 \<Rightarrow> signal option" where
  "ext_intr_signal intr =
     (if intr = 4 then Some BTN_0 else if intr = 5 then Some BTN_1
      else if intr = 6 then Some BTN_2 else if intr = 7 then Some BTN_3 else None)"

definition clear_interrupt :: "u32 \<Rightarrow> kernel \<Rightarrow> kernel" where
  "clear_interrupt irq s = s\<lparr>sip := sip s AND NOT (push_bit (unat irq) 1)\<rparr>"

text \<open>The loop takes claims until the controller has none.\<close>

partial_function (option) ext_intr_loop :: "kernel \<Rightarrow> kernel option" where
  "ext_intr_loop s = do {
     let (intr, d) = plic_get_next (dev s);
     let s = s\<lparr>dev := d\<rparr>;
     if intr = 0 then Some s
     else if 16 \<le> intr then None
     else do {
       s \<leftarrow> (case ext_intr_signal intr of None \<Rightarrow> Some s | Some sig \<Rightarrow> ksignal_send (signal_code sig) s);
       ext_intr_loop s
     }
   }"

definition EXTERNAL_INTERRUPT :: u32 where "EXTERNAL_INTERRUPT = 9"
definition TIMER_INTERRUPT :: u32 where "TIMER_INTERRUPT = 5"
definition EXCEPTION_INTERRUPT :: u32 where "EXCEPTION_INTERRUPT = push_bit 31 1"

definition handle_ext_intr :: "kernel \<Rightarrow> kernel option" where
  "handle_ext_intr s = do { s \<leftarrow> ext_intr_loop s; Some (clear_interrupt EXTERNAL_INTERRUPT s) }"

section \<open>Traps\<close>

text \<open>The causes of \<^verbatim>\<open>Software/h/kernel/exceptions.h\<close> that are no interrupts.\<close>

datatype exception =
    EXCEPTION_INST_ADDR_MISALIGNED | EXCEPTION_INST_ACCESS_FAULT | EXCEPTION_ILLEGAL_INST | EXCEPTION_LOAD_ADDR_MISALIGNED
  | EXCEPTION_LOAD_ACCESS_FAULT | EXCEPTION_STORE_ADDR_MISALIGNED | EXCEPTION_STORE_ACCESS_FAULT | EXCEPTION_USER_ECALL
  | EXCEPTION_SUPERVISOR_ECALL

fun exception_code :: "exception \<Rightarrow> u32" where
  "exception_code EXCEPTION_INST_ADDR_MISALIGNED = 0"
| "exception_code EXCEPTION_INST_ACCESS_FAULT = 1"
| "exception_code EXCEPTION_ILLEGAL_INST = 2"
| "exception_code EXCEPTION_LOAD_ADDR_MISALIGNED = 4"
| "exception_code EXCEPTION_LOAD_ACCESS_FAULT = 5"
| "exception_code EXCEPTION_STORE_ADDR_MISALIGNED = 6"
| "exception_code EXCEPTION_STORE_ACCESS_FAULT = 7"
| "exception_code EXCEPTION_USER_ECALL = 8"
| "exception_code EXCEPTION_SUPERVISOR_ECALL = 9"

text \<open>A fault of the current thread: its address is recorded, a signal is sent, the thread stops.\<close>

definition fault :: "signal \<Rightarrow> kernel \<Rightarrow> kernel option" where
  "fault sig s = do {
     t \<leftarrow> thrs s (kthread_current s);
     let s = s\<lparr>ksig_addr := pc (ctx t)\<rparr>;
     s \<leftarrow> ksignal_send (signal_code sig) s;
     kthread_stop s
   }"

text \<open>Any other cause loops forever.\<close>

definition exception_handler :: "image \<Rightarrow> kthread \<Rightarrow> u32 \<Rightarrow> kernel \<Rightarrow> kernel option" where
  "exception_handler im junk cause s =
     (if cause \<in> exception_code ` {EXCEPTION_USER_ECALL, EXCEPTION_SUPERVISOR_ECALL} then handle_syscall im junk s
      else if cause \<in> exception_code ` {EXCEPTION_INST_ADDR_MISALIGNED, EXCEPTION_INST_ACCESS_FAULT, EXCEPTION_ILLEGAL_INST}
      then fault ILLEGAL s
      else if cause \<in> exception_code ` {EXCEPTION_LOAD_ADDR_MISALIGNED, EXCEPTION_LOAD_ACCESS_FAULT,
        EXCEPTION_STORE_ADDR_MISALIGNED, EXCEPTION_STORE_ACCESS_FAULT}
      then fault MEM_ACCESS s
      else if cause = (EXCEPTION_INTERRUPT OR EXTERNAL_INTERRUPT) then handle_ext_intr s
      else if cause = (EXCEPTION_INTERRUPT OR TIMER_INTERRUPT) then kthread_dispatch s
      else None)"

section \<open>Initialisation\<close>

text \<open>\<open>HEAP_START\<close>, \<open>HEAP_END\<close> and the code addresses of \<open>main\<close> and of the signal processor are the linker's.\<close>

definition kernel_init ::
  "addr \<Rightarrow> addr \<Rightarrow> image \<Rightarrow> kthread \<Rightarrow> kthread \<Rightarrow> addr \<Rightarrow> addr \<Rightarrow> kernel \<Rightarrow> kernel option" where
  "kernel_init HEAP_START HEAP_END im junk1 junk2 signal_processor main s = do {
     h \<leftarrow> kheap_init HEAP_START HEAP_END (kheap s);
     let s = s\<lparr>kheap := h\<rparr>;
     let s = s\<lparr>dev := lcd_init (dev s)\<rparr>;
     let s = s\<lparr>dev := plic_allow_all (dev s)\<rparr>;
     let s = s\<lparr>dev := btns_enable_all (dev s)\<rparr>;
     s \<leftarrow> ksignal_init im junk1 signal_processor s;
     (user_thread, s) \<leftarrow> kthread_create im junk2 main 0 False s;
     kscheduler_enqueue user_thread s
   }"

end
