(* ===== verification/Device_Properties.thy ===== *)
theory Device_Properties
  imports Exceptions Examples
begin

text \<open>
  The properties of the byte memory, the DMA engine, the devices and the signals.
\<close>

section \<open>Memory and DMA\<close>

definition demo_ram :: ram where
  "demo_ram p = (if 0x100 \<le> p \<and> p < 0x110 then Some (ucast p) else None)"

lemma demo_ram_dom: "dom demo_ram = {p. 0x100 \<le> p \<and> p < 0x110}"
  by (auto simp: demo_ram_def split: if_splits)

text \<open>
  A word that is stored is read back, and nothing outside its four bytes changes.
\<close>

theorem store32_load32:
  assumes "store32 p v m = Some m'"
  shows "load32 p m' = Some v \<and> (\<forall>q. q \<notin> {p, p + 1, p + 2, p + 3} \<longrightarrow> m' q = m q)"
proof -
  have "m' = m(p \<mapsto> ucast v, p + 1 \<mapsto> ucast (drop_bit 8 v), p + 2 \<mapsto> ucast (drop_bit 16 v), p + 3 \<mapsto> ucast (drop_bit 24 v))"
    using assms by (auto simp: store32_def bind_eq_Some dest!: store8_dom split: if_splits)
  then show ?thesis using load32_store32 [OF assms] by simp
qed

theorem store32_load32_witness:
  "\<exists>m'. store32 0x104 0xCAFEBABE demo_ram = Some m' \<and> load32 0x104 m' = Some 0xCAFEBABE \<and> m' 0x103 = Some 3"
proof -
  obtain m' where m': "store32 0x104 0xCAFEBABE demo_ram = Some m'"
    by (simp add: store32_def store8_def demo_ram_def)
  then show ?thesis using store32_load32 [OF m'] by (simp add: demo_ram_def)
qed

text \<open>
  C20: A fill of \<open>count\<close> bytes writes \<open>count + 1\<close> bytes: the engine tests its counter after the byte it has
  moved. The byte after the buffer is overwritten.
\<close>

theorem dma_fill_writes_one_more:
  assumes "count \<noteq> 0" and "slot \<in> dom m" and "span dest (Suc (unat count)) \<subseteq> dom m" and "slot \<notin> span dest (Suc (unat count))"
  shows "\<exists>m'. dma_fill slot dest count v b m = Some m' \<and> m' (dest + count) = Some v
    \<and> (\<forall>p. m' p = (if p = slot \<or> p \<in> span dest (Suc (unat count)) then Some v else m p))"
proof -
  let ?m = "\<lambda>p. if p = slot \<or> p \<in> span dest (Suc (unat count)) then Some v else m p"
  have "dma_fill slot dest count v b m = Some ?m" by (rule dma_fill_span [OF assms(1) refl assms(2-4)])
  moreover have "dest + count \<in> span dest (Suc (unat count))"
    unfolding span_def by (rule image_eqI [of _ _ "unat count"]) simp_all
  ultimately show ?thesis by auto
qed

theorem dma_fill_writes_one_more_witness:
  "\<exists>m'. dma_fill 0x10F 0x100 4 7 False demo_ram = Some m' \<and> m' 0x104 = Some 7 \<and> m' 0x105 = Some 5"
proof -
  have s: "span 0x100 (Suc (unat (4 :: u32))) = {0x100, 0x101, 0x102, 0x103, 0x104}"
  proof -
    have "{..<5 :: nat} = {0, 1, 2, 3, 4}" by auto
    then show ?thesis by (simp add: span_def)
  qed
  have "\<exists>m'. dma_fill 0x10F 0x100 4 7 False demo_ram = Some m' \<and> m' (0x100 + 4) = Some 7
    \<and> (\<forall>p. m' p = (if p = 0x10F \<or> p \<in> span 0x100 (Suc (unat (4 :: u32))) then Some 7 else demo_ram p))"
    by (rule dma_fill_writes_one_more) (simp_all only: s, simp_all add: demo_ram_dom)
  then show ?thesis unfolding s by (auto simp: demo_ram_def)
qed

text \<open>
  A copy moves the bytes, and one byte more, if no source byte is overwritten before it is read; everything
  else stays.
\<close>

theorem dma_copy_moves:
  assumes "count \<noteq> 0" and "span src (Suc (unat count)) \<subseteq> dom m" and "span dest (Suc (unat count)) \<subseteq> dom m"
    and "\<forall>k<Suc (unat count). \<forall>j<k. src + of_nat k \<noteq> dest + of_nat j"
  shows "\<exists>m'. dma_copy src dest count b m = Some m' \<and> (\<forall>k\<le>unat count. m' (dest + of_nat k) = m (src + of_nat k))
    \<and> (\<forall>p. p \<notin> span dest (Suc (unat count)) \<longrightarrow> m' p = m p)"
  using dma_copy_span [OF assms(1) refl assms(2-4)] by (auto simp: less_Suc_eq_le)

theorem dma_copy_moves_witness:
  "\<exists>m'. dma_copy 0x100 0x102 1 False demo_ram = Some m' \<and> m' 0x102 = Some 0 \<and> m' 0x103 = Some 1"
proof -
  have s: "span a (Suc (unat (1 :: u32))) = {a, a + 1}" for a
    by (auto simp: span_def lessThan_Suc)
  have "\<exists>m'. dma_copy 0x100 0x102 1 False demo_ram = Some m'
    \<and> (\<forall>k\<le>unat (1 :: u32). m' (0x102 + of_nat k) = demo_ram (0x100 + of_nat k))
    \<and> (\<forall>p. p \<notin> span 0x102 (Suc (unat (1 :: u32))) \<longrightarrow> m' p = demo_ram p)"
    by (rule dma_copy_moves) (simp_all only: s, simp_all add: demo_ram_dom less_Suc_eq)
  then obtain m' where m': "dma_copy 0x100 0x102 1 False demo_ram = Some m'"
    "\<forall>k\<le>1. m' (0x102 + of_nat k) = demo_ram (0x100 + of_nat k)" by auto
  show ?thesis using m'(1) m'(2) [rule_format, of 0] m'(2) [rule_format, of 1] by (auto simp: demo_ram_def)
qed

section \<open>Displays\<close>

text \<open>
  The seven-segment displays show a number from 0 to 9999 in decimal, the units in the last place.
\<close>

theorem ssds_set_dec_num_digits:
  assumes "0 \<le> sint n" and "sint n \<le> 9999"
  shows "map (\<lambda>d. (uint (digit_data d), is_digit d)) (ssds_digits (ssds_set_dec_num n d))
    = map (\<lambda>i. (sint n div 10 ^ (3 - i) mod 10, True)) [0..<4]"
proof -
  have q1: "a sdiv 10 = a div 10" if "0 \<le> a" for a :: int
    using that by (cases "a = 0") (simp_all add: signed_divide_int_def)
  have q2: "a smod 10 = a mod 10" if "0 \<le> a" for a :: int
    using that by (cases "a = 0") (simp_all add: signed_modulo_int_def)
  note q = q1 q2
  have u: "uint (of_int (a mod 10) :: 7 word) = a mod 10" for a :: int
    by (simp add: uint_word_of_int)
  have d: "a div 10 div 10 = a div 100" "a div 100 div 10 = a div 1000" for a :: int
    by (simp_all add: zdiv_zmult2_eq [symmetric])
  have n: "0 \<le> sint n div 10" "0 \<le> sint n div 100" "0 \<le> sint n div 1000" using assms by simp_all
  have w: "uint (word_of_int (sint n div 1000) :: 7 word) = sint n div 1000"
    using assms by (simp add: uint_word_of_int)
  show ?thesis
    using assms n
    by (simp add: ssds_set_dec_num_def ssds_set_def numeral_eq_Suc q d u w upt_rec)
qed


definition demo_devices :: devices where
  "demo_devices = \<lparr>lcd_log = [], plic_pending = 0, plic_mask = 0, plic_claims = [], btns_irqs = 0, btns_pressed = replicate 4 False,
     leds_en = False, leds_data = replicate 4 False, leds_toggles = [], ssds_en = False,
     ssds_digits = replicate 4 \<lparr>digit_data = 0, is_digit = False\<rparr>, ssds_dots = 0, buzzer_en = False, buzzer_state = False\<rparr>"

theorem ssds_set_dec_num_digits_witness:
  "map (\<lambda>d. (uint (digit_data d), is_digit d)) (ssds_digits (ssds_set_dec_num 1234 demo_devices))
    = [(1, True), (2, True), (3, True), (4, True)]"
  using ssds_set_dec_num_digits [of 1234 demo_devices] by (simp add: upt_rec)

fun lcd_effect :: "u8 \<Rightarrow> lcd_write" where
  "lcd_effect ch = (if ch = 10 then LCD_CMD 0xC0 else if ch = 13 then LCD_CMD 0x80 else LCD_DATA (ucast ch))"

lemma klcd_put_effect: "klcd_put ch d = d\<lparr>lcd_log := lcd_log d @ [lcd_effect ch]\<rparr>"
  by (simp add: klcd_put_def lcd_move_cursor_def lcd_send_cmd_def lcd_write_ch_def)

lemma klcd_write_bytes:
  assumes "\<forall>i<length bs. kram s (buffer + of_nat i) = Some (bs ! i)" and "unat n = length bs"
  shows "klcd_write buffer n s = Some (n, s\<lparr>dev := (dev s)\<lparr>lcd_log := lcd_log (dev s) @ map lcd_effect bs\<rparr>\<rparr>)"
proof -
  have "klcd_write_loop (length bs) p m d = Some (d\<lparr>lcd_log := lcd_log d @ map lcd_effect bs\<rparr>)"
    if "\<forall>i<length bs. m (p + of_nat i) = Some (bs ! i)" for p m d
    using that
  proof (induction bs arbitrary: p d)
    case Nil
    then show ?case by simp
  next
    case (Cons b bs)
    have "m p = Some b" using Cons.prems by force
    moreover have "\<forall>i<length bs. m (p + 1 + of_nat i) = Some (bs ! i)"
    proof (intro allI impI)
      fix i assume "i < length bs"
      then have "m (p + of_nat (Suc i)) = Some ((b # bs) ! Suc i)" using Cons.prems by auto
      then show "m (p + 1 + of_nat i) = Some (bs ! i)" by (simp add: algebra_simps)
    qed
    ultimately show ?case using Cons.IH by (simp add: klcd_put_effect del: lcd_effect.simps)
  qed
  from this [OF assms(1)] show ?thesis using assms(2) by (simp add: klcd_write_def)
qed

text \<open>
  The display gets exactly the bytes written to it, in their order; line feed and carriage return move the
  cursor to the start of the second and the first line instead. Nothing else of the devices changes.
\<close>

theorem klcd_write_appends:
  assumes "\<forall>i<length bs. kram s (buffer + of_nat i) = Some (bs ! i)" and "unat n = length bs"
  shows "klcd_write buffer n s = Some (n, s\<lparr>dev := (dev s)\<lparr>lcd_log := lcd_log (dev s) @ map lcd_effect bs\<rparr>\<rparr>)"
  by (rule klcd_write_bytes [OF assms])

definition demo_kernel :: "kstate \<Rightarrow> ram \<Rightarrow> u8 list \<Rightarrow> kernel" where
  "demo_kernel s m irqs = kstate.extend (s\<lparr>kram := m\<rparr>) (kernel.fields (demo_devices\<lparr>plic_claims := map ucast irqs\<rparr>) 0
     (replicate 9 0) (replicate 10 0) 0 0 MTX CND 0)"


theorem klcd_write_appends_witness:
  "klcd_write 0x100 3 (demo_kernel demo_ready [0x100 \<mapsto> 72, 0x101 \<mapsto> 105, 0x102 \<mapsto> 10] []) =
    Some (3, (demo_kernel demo_ready [0x100 \<mapsto> 72, 0x101 \<mapsto> 105, 0x102 \<mapsto> 10] [])
      \<lparr>dev := (demo_devices\<lparr>lcd_log := [LCD_DATA 72, LCD_DATA 105, LCD_CMD 0xC0]\<rparr>)\<rparr>)"
proof -
  let ?s = "demo_kernel demo_ready [0x100 \<mapsto> 72, 0x101 \<mapsto> 105, 0x102 \<mapsto> 10] []"
  have m: "kram ?s = [0x100 \<mapsto> 72, 0x101 \<mapsto> 105, 0x102 \<mapsto> 10]" "dev ?s = demo_devices"
    by (simp_all add: demo_kernel_def kernel.defs kstate.defs demo_devices_def)
  have 1: "\<forall>i<length [72, 105, 10]. kram ?s (0x100 + of_nat i) = Some ([72, 105, 10] ! i)"
    unfolding m by (simp add: less_Suc_eq)
  show ?thesis using klcd_write_appends [OF 1, of 3] unfolding m(2) by (simp add: demo_devices_def)
qed

section \<open>Signals\<close>

definition ring_ok :: "kernel \<Rightarrow> bool" where
  "ring_ok s \<longleftrightarrow> length (requests s) = 10 \<and> unat (req_head s) < 10 \<and> unat (req_tail s) < 10"

text \<open>The signals in the ring, the oldest first.\<close>

definition pending :: "kernel \<Rightarrow> u32 list" where
  "pending s = map (\<lambda>i. requests s ! ((unat (req_head s) + i) mod 10))
     [0..<(unat (req_tail s) + 10 - unat (req_head s)) mod 10]"

lemma unat_next: "unat (t :: u32) < 10 \<Longrightarrow> unat ((t + 1) mod 10) = (unat t + 1) mod 10"
  using unat_add_small [of t 1] by (simp add: unat_mod)

lemma length_pending: "length (pending s) = (unat (req_tail s) + 10 - unat (req_head s)) mod 10"
  by (simp add: pending_def)

lemma nth_pending: "i < length (pending s) \<Longrightarrow> pending s ! i = requests s ! ((unat (req_head s) + i) mod 10)"
  by (simp add: pending_def)

lemma mod10_cases: "(a :: nat) < 10 \<Longrightarrow> (a + 1) mod 10 = (if a = 9 then 0 else a + 1)"
  by auto

lemma ring_gap: "(h :: nat) < 10 \<Longrightarrow> t < 10 \<Longrightarrow> (t + 10 - h) mod 10 = (if h \<le> t then t - h else t + 10 - h)"
  by (auto simp: mod_if)

lemma ring_put_pending:
  assumes "ring_ok s" and "length (pending s) < 9"
  shows "\<exists>s'. ring_put sig s = Some s' \<and> ring_ok s' \<and> pending s' = pending s @ [sig]"
proof -
  define h t where "h = unat (req_head s)" and "t = unat (req_tail s)"
  have ht: "h < 10" "t < 10" and l: "length (requests s) = 10" using assms(1) by (auto simp: ring_ok_def h_def t_def)
  define s' where "s' = s\<lparr>requests := (requests s)[t := sig], req_tail := (req_tail s + 1) mod 10\<rparr>"
  have put: "ring_put sig s = Some s'" using ht l by (simp add: ring_put_def s'_def t_def)
  have t': "unat (req_tail s') = (t + 1) mod 10" using unat_next [of "req_tail s"] ht by (simp add: s'_def t_def)
  have h': "unat (req_head s') = h" by (simp add: s'_def h_def)
  define n where "n = (t + 10 - h) mod 10"
  have n: "length (pending s) = n" by (simp add: length_pending n_def h_def t_def)
  have t10: "(t + 1) mod 10 < 10" by simp
  have n': "((t + 1) mod 10 + 10 - h) mod 10 = Suc n"
    using ht assms(2) n unfolding n_def ring_gap [OF ht(1) t10] ring_gap [OF ht] by (cases "t = 9") auto
  have tn: "(h + n) mod 10 = t" using ht unfolding n_def by (auto simp: mod_if split: if_splits)
  have ne: "(h + i) mod 10 \<noteq> t" if "i < n" for i
    using that ht assms(2) n unfolding n_def by (auto simp: mod_if split: if_splits)
  have "pending s' = pending s @ [sig]"
  proof (rule nth_equalityI)
    show len: "length (pending s') = length (pending s @ [sig])"
      using n n' by (simp add: length_pending t' h')
    fix i assume "i < length (pending s')"
    then have i: "i < Suc n" using len n by simp
    have "pending s' ! i = (requests s)[t := sig] ! ((h + i) mod 10)"
      using i len n by (simp add: nth_pending h') (simp add: s'_def)
    show "pending s' ! i = (pending s @ [sig]) ! i"
    proof (cases "i = n")
      case True
      then show ?thesis using \<open>pending s' ! i = _\<close> tn n ht l by (simp add: nth_append)
    next
      case False
      then have "i < n" using i by simp
      then have "pending s' ! i = requests s ! ((h + i) mod 10)"
        using \<open>pending s' ! i = _\<close> ne [of i] by (simp add: nth_list_update_neq)
      then show ?thesis using \<open>i < n\<close> n by (simp add: nth_append nth_pending h_def)
    qed
  qed
  moreover have "ring_ok s'" using l ht t' h' by (simp add: ring_ok_def s'_def)
  ultimately show ?thesis using put by blast
qed

lemma ring_take_pending:
  assumes "ring_ok s"
  shows "case pending s of [] \<Rightarrow> ring_take s = Some (None, s)
    | x # xs \<Rightarrow> (\<exists>s'. ring_take s = Some (Some x, s') \<and> ring_ok s' \<and> pending s' = xs)"
proof -
  define h t where "h = unat (req_head s)" and "t = unat (req_tail s)"
  have ht: "h < 10" "t < 10" and l: "length (requests s) = 10" using assms(1) by (auto simp: ring_ok_def h_def t_def)
  define n where "n = (t + 10 - h) mod 10"
  have n: "length (pending s) = n" by (simp add: length_pending n_def h_def t_def)
  have eq: "req_head s = req_tail s \<longleftrightarrow> h = t" by (metis h_def t_def unsigned_word_eqI)
  show ?thesis
  proof (cases "pending s")
    case Nil
    then have "h = t" using n ht unfolding n_def by (auto simp: mod_if split: if_splits)
    then show ?thesis using Nil eq by (simp add: ring_take_def)
  next
    case (Cons x xs)
    then have n0: "0 < n" and xs: "length xs = n - 1" using n by auto
    have ne: "h \<noteq> t" using n0 unfolding n_def by auto
    define s' where "s' = s\<lparr>req_head := (req_head s + 1) mod 10\<rparr>"
    have x: "x = requests s ! h" using nth_pending [of 0 s] Cons n n0 ht by (simp add: h_def)
    have take: "ring_take s = Some (Some x, s')"
      using ne eq ht l x by (simp add: ring_take_def take_request_def s'_def h_def)
    have h': "unat (req_head s') = (h + 1) mod 10" using unat_next [of "req_head s"] ht by (simp add: s'_def h_def)
    have t': "unat (req_tail s') = t" "requests s' = requests s" by (simp_all add: s'_def t_def)
    have h10: "(h + 1) mod 10 < 10" by simp
    have n': "(t + 10 - (h + 1) mod 10) mod 10 = n - 1"
      using ht n0 unfolding n_def ring_gap [OF h10 ht(2)] ring_gap [OF ht] by (cases "h = 9") auto
    have "pending s' = xs"
    proof (rule nth_equalityI)
      show len: "length (pending s') = length xs" using n' xs by (simp add: length_pending t' h')
      fix i assume i: "i < length (pending s')"
      have "((h + 1) mod 10 + i) mod 10 = (h + Suc i) mod 10" by (simp add: mod_add_left_eq)
      then have "pending s' ! i = requests s ! ((h + Suc i) mod 10)"
        using nth_pending [OF i] t' h' by simp
      also have "\<dots> = pending s ! Suc i" using nth_pending [of "Suc i" s] i len xs n n0 by (simp add: h_def)
      finally show "pending s' ! i = xs ! i" using Cons by simp
    qed
    moreover have "ring_ok s'" using l ht t' h' by (simp add: ring_ok_def)
    ultimately show ?thesis using Cons take by auto
  qed
qed

text \<open>
  C21: The ring of requests is a queue, as long as at most nine signals are in it: a signal goes to the back, the
  processor takes the oldest one, and it waits exactly when there is none.
\<close>

theorem signal_ring_fifo:
  assumes "ring_ok s"
  shows "(length (pending s) < 9 \<longrightarrow> (\<exists>s'. ring_put sig s = Some s' \<and> ring_ok s' \<and> pending s' = pending s @ [sig]))
    \<and> (case pending s of [] \<Rightarrow> ring_take s = Some (None, s)
       | x # xs \<Rightarrow> (\<exists>s'. ring_take s = Some (Some x, s') \<and> ring_ok s' \<and> pending s' = xs))"
  using ring_put_pending [OF assms] ring_take_pending [OF assms] by blast

theorem signal_ring_fifo_witness:
  "\<exists>s1 s2. ring_put 5 (demo_kernel demo_ready Map.empty []) = Some s1 \<and> ring_put 6 s1 = Some s2 \<and> pending s2 = [5, 6]"
proof -
  let ?s = "demo_kernel demo_ready Map.empty []"
  have s: "ring_ok ?s" "pending ?s = []"
    by (simp_all add: demo_kernel_def kernel.defs kstate.defs demo_devices_def ring_ok_def pending_def)
  obtain s1 where s1: "ring_put 5 ?s = Some s1" "ring_ok s1" "pending s1 = [5]"
    using signal_ring_fifo [OF s(1), of 5] s(2) by auto
  show ?thesis using signal_ring_fifo [OF s1(2), of 6] s1 by auto
qed

text \<open>
  The ring has no test for being full: the tenth signal makes it look empty, and all ten signals are lost.
\<close>

theorem signal_ring_overflows:
  assumes "ring_ok s" and "length (pending s) = 9"
  shows "\<exists>s'. ring_put sig s = Some s' \<and> ring_ok s' \<and> pending s' = []"
proof -
  define h t where "h = unat (req_head s)" and "t = unat (req_tail s)"
  have ht: "h < 10" "t < 10" and l: "length (requests s) = 10" using assms(1) by (auto simp: ring_ok_def h_def t_def)
  define s' where "s' = s\<lparr>requests := (requests s)[t := sig], req_tail := (req_tail s + 1) mod 10\<rparr>"
  have put: "ring_put sig s = Some s'" using ht l by (simp add: ring_put_def s'_def t_def)
  have t': "unat (req_tail s') = (t + 1) mod 10" using unat_next [of "req_tail s"] ht by (simp add: s'_def t_def)
  have h': "unat (req_head s') = h" by (simp add: s'_def h_def)
  have "(t + 10 - h) mod 10 = 9" using assms(2) by (simp add: length_pending h_def t_def)
  then have "(t + 1) mod 10 = h" using ht unfolding mod10_cases [OF ht(2)] by (auto simp: mod_if split: if_splits)
  then have "length (pending s') = 0" by (simp add: length_pending t' h')
  then have "pending s' = []" by simp
  moreover have "ring_ok s'" using l ht t' h' by (simp add: ring_ok_def s'_def)
  ultimately show ?thesis using put by blast
qed


theorem signal_ring_overflows_witness:
  "\<exists>s'. ring_put 5 ((demo_kernel demo_ready Map.empty [])\<lparr>req_tail := 9\<rparr>) = Some s' \<and> pending s' = []"
proof -
  let ?s = "(demo_kernel demo_ready Map.empty [])\<lparr>req_tail := 9\<rparr>"
  have s: "ring_ok ?s" "length (pending ?s) = 9"
    by (simp_all add: demo_kernel_def kernel.defs kstate.defs demo_devices_def ring_ok_def length_pending)
  show ?thesis using signal_ring_overflows [OF s, of 5] by blast
qed


text \<open>The signals that a list of interrupt numbers causes.\<close>

definition intr_signals :: "u32 list \<Rightarrow> u32 list" where
  "intr_signals cs = map signal_code (List.map_filter (\<lambda>c. ext_intr_signal (ucast c)) cs)"

lemma intr_signals_simps:
  "intr_signals [] = []"
  "intr_signals (c # cs) = (case ext_intr_signal (ucast c) of None \<Rightarrow> intr_signals cs | Some x \<Rightarrow> signal_code x # intr_signals cs)"
  by (simp_all add: intr_signals_def map_filter_simps split: option.split)

lemma ring_dev: "ring_ok (s\<lparr>dev := d\<rparr>) = ring_ok s" "pending (s\<lparr>dev := d\<rparr>) = pending s"
  by (simp_all add: ring_ok_def pending_def)

end
