(* ===== verification/Thread_Ledger.thy ===== *)
theory Thread_Ledger
  imports Thread Heap_Ledger
begin

text \<open>
  Creating and destroying threads, over the ledger of the heap: what a new thread owns, and that a failed
  creation or a destruction gives everything back.
\<close>

section \<open>Objects and the ledger\<close>

abbreviation blocks_of :: "u32 \<Rightarrow> nat" where
  "blocks_of n \<equiv> unat (calculate_blocks n)"

lemma kalloc_cases:
  assumes "holds HS N L (kheap s)" and "good_size n"
  obtains (none) "kalloc n s = Some (NULL, s)"
  | (some) p h where "kalloc n s = Some (p, s\<lparr>kheap := h\<rparr>)" "p \<noteq> NULL" "L p = None" "holds HS N (L(p \<mapsto> blocks_of n)) h"
proof -
  from assms show thesis
  proof (cases rule: kh.allocE)
    case none
    then show thesis using that(1) by (simp add: kalloc_def)
  next
    case (some p h')
    then show thesis using that(2) by (simp add: kalloc_def)
  qed
qed

lemma kfree_holds:
  assumes "holds HS N L (kheap s)" and "L p = Some m"
  shows "\<exists>h. kfree p s = Some (s\<lparr>kheap := h\<rparr>) \<and> holds HS N (L(p := None)) h"
proof -
  from assms obtain h where "kheap_dealloc p (kheap s) = Some h" "holds HS N (L(p := None)) h" by (rule kh.deallocE)
  then have "kfree p s = Some (s\<lparr>kheap := h\<rparr>) \<and> holds HS N (L(p := None)) h" by (simp add: kfree_def)
  then show ?thesis ..
qed

section \<open>Thread-local data\<close>

text \<open>
  What the initial thread-local data has to satisfy: the sizes do not wrap around, the last block of the copy has a
  byte to spare (the DMA engine writes one more), and memory is mapped: the heap, the image, which lies below
  the heap, and the stack slot of \<open>dma_fill\<close>.
\<close>

definition tdata_bytes :: "image \<Rightarrow> nat" where "tdata_bytes im = unat (TDATA_END im - TDATA_START im)"
definition tbss_bytes :: "image \<Rightarrow> nat" where "tbss_bytes im = unat (TBSS_END im - TBSS_START im)"

definition tdata_size :: "image \<Rightarrow> u32" where
  "tdata_size im = (TDATA_END im - TDATA_START im) + (TBSS_END im - TBSS_START im)"

definition image_ok :: "addr \<Rightarrow> nat \<Rightarrow> image \<Rightarrow> ram \<Rightarrow> bool" where
  "image_ok HS N im m \<longleftrightarrow> tdata_bytes im + tbss_bytes im + 12 < 4294967296
     \<and> (tdata_bytes im + tbss_bytes im + 12) mod 64 \<noteq> 0
     \<and> (\<forall>p. unat HS \<le> unat p \<and> unat p < unat HS + 64 * N \<longrightarrow> p \<in> dom m)
     \<and> (\<forall>p\<in>span (TDATA_START im) (Suc (tdata_bytes im)). p \<in> dom m \<and> unat p < unat HS)
     \<and> fill_slot im \<in> dom m \<and> unat (fill_slot im) < unat HS"

lemma unat_tdata_size:
  "image_ok HS N im m \<Longrightarrow> unat (tdata_size im) = tdata_bytes im + tbss_bytes im"
  unfolding image_ok_def tdata_size_def tdata_bytes_def tbss_bytes_def by (intro unat_add_small) linarith

lemma tdata_room:
  assumes "image_ok HS N im m"
  shows "tdata_bytes im + tbss_bytes im + 13 \<le> 64 * blocks_of (tdata_size im)" and "good_size (tdata_size im)"
proof -
  let ?n = "tdata_bytes im + tbss_bytes im"
  have s: "?n + 12 < 4294967296" "(?n + 12) mod 64 \<noteq> 0" using assms by (auto simp: image_ok_def)
  show g: "good_size (tdata_size im)" using s(1) unat_tdata_size [OF assms] by (simp add: good_size_def)
  have le: "?n + 12 \<le> 64 * blocks_of (tdata_size im)"
    using calculate_blocks_holds [of "tdata_size im"] g unat_tdata_size [OF assms] by (simp add: good_size_def)
  moreover have "?n + 12 \<noteq> 64 * blocks_of (tdata_size im)" using s(2) by (metis mod_mult_self1_is_0)
  ultimately show "?n + 13 \<le> 64 * blocks_of (tdata_size im)" by linarith
qed

lemma unat_offset:
  fixes p :: u32
  shows "unat p + k < 4294967296 \<Longrightarrow> unat (p + of_nat k) = unat p + k"
  using unat_add_small [of p "of_nat k"] unat_of_nat_u32 [of k] by simp

lemma span_unat:
  assumes "unat p + n \<le> 4294967296"
  shows "q \<in> span p n \<longleftrightarrow> unat p \<le> unat q \<and> unat q < unat p + n"
proof
  assume "q \<in> span p n"
  then obtain k where "q = p + of_nat k" "k < n" by (auto simp: span_def)
  then show "unat p \<le> unat q \<and> unat q < unat p + n" using assms unat_offset [of p k] by simp
next
  assume q: "unat p \<le> unat q \<and> unat q < unat p + n"
  then have "unat (p + of_nat (unat q - unat p)) = unat q"
    using unat_offset [of p "unat q - unat p"] unat_less_2p32 [of q] by simp
  then have "q = p + of_nat (unat q - unat p)" by (metis unsigned_word_eqI)
  moreover have "unat q - unat p < n" using q by linarith
  ultimately show "q \<in> span p n" unfolding span_def by blast
qed

text \<open>Copying the image and clearing the rest, into an allocated range.\<close>

lemma tdata_transfers:
  assumes im: "image_ok HS N im m"
    and p: "unat HS \<le> unat p" "unat p + tdata_bytes im + tbss_bytes im + 1 \<le> unat HS + 64 * N" "unat HS + 64 * N \<le> 4294967296"
  shows "\<exists>m1 m2. dma_copy (TDATA_START im) p (TDATA_END im - TDATA_START im) True m = Some m1
    \<and> dma_fill (fill_slot im) (p + (TDATA_END im - TDATA_START im)) (TBSS_END im - TBSS_START im) 0 True m1 = Some m2
    \<and> dom m2 = dom m
    \<and> (\<forall>k<tdata_bytes im. m2 (p + of_nat k) = m (TDATA_START im + of_nat k))
    \<and> (\<forall>k<tbss_bytes im. m2 (p + of_nat (tdata_bytes im + k)) = Some 0)
    \<and> (\<forall>q. q \<notin> span p (Suc (tdata_bytes im + tbss_bytes im)) \<longrightarrow> q \<noteq> fill_slot im \<longrightarrow> m2 q = m q)"
proof -
  let ?a = "TDATA_END im - TDATA_START im" and ?b = "TBSS_END im - TBSS_START im"
  let ?na = "tdata_bytes im" and ?nb = "tbss_bytes im" and ?src = "TDATA_START im" and ?slot = "fill_slot im"
  have ab: "unat ?a = ?na" "unat ?b = ?nb" by (simp_all add: tdata_bytes_def tbss_bytes_def)
  have heap: "q \<in> dom m" if "unat HS \<le> unat q" "unat q < unat HS + 64 * N" for q using im that by (auto simp: image_ok_def)
  have src: "q \<in> dom m \<and> unat q < unat HS" if "q \<in> span ?src (Suc ?na)" for q using im that by (auto simp: image_ok_def)
  have slot: "?slot \<in> dom m" "unat ?slot < unat HS" using im by (auto simp: image_ok_def)
  have pa: "unat (p + ?a) = unat p + ?na" using unat_add_small [of p ?a] ab(1) p by linarith
  have SA: "q \<in> span p (Suc ?na) \<longleftrightarrow> unat p \<le> unat q \<and> unat q < unat p + Suc ?na" for q
    by (rule span_unat) (use p in linarith)
  have SB: "q \<in> span (p + ?a) (Suc ?nb) \<longleftrightarrow> unat p + ?na \<le> unat q \<and> unat q < unat p + ?na + Suc ?nb" for q
    using span_unat [of "p + ?a" "Suc ?nb"] pa p by simp
  have SN: "q \<in> span p (Suc (?na + ?nb)) \<longleftrightarrow> unat p \<le> unat q \<and> unat q < unat p + Suc (?na + ?nb)" for q
    by (rule span_unat) (use p in linarith)
  have "\<exists>m1. dma_copy ?src p ?a True m = Some m1 \<and> dom m1 = dom m
    \<and> (\<forall>k<?na. m1 (p + of_nat k) = m (?src + of_nat k)) \<and> (\<forall>q. q \<notin> span p (Suc ?na) \<longrightarrow> m1 q = m q)"
  proof (cases "?a = 0")
    case True
    then show ?thesis using ab(1) by (auto simp: dma_copy_def dma_transfer_def)
  next
    case False
    have s1: "span ?src (Suc ?na) \<subseteq> dom m" using src by blast
    have s2: "span p (Suc ?na) \<subseteq> dom m"
    proof
      fix q assume "q \<in> span p (Suc ?na)"
      then have "unat HS \<le> unat q" "unat q < unat HS + 64 * N" using SA p by simp_all
      then show "q \<in> dom m" by (rule heap)
    qed
    have s3: "\<forall>k<Suc ?na. \<forall>j<k. ?src + of_nat k \<noteq> p + of_nat j"
    proof (intro allI impI)
      fix k j assume k: "k < Suc ?na" "j < k"
      have "unat (?src + of_nat k) < unat HS" using src [of "?src + of_nat k"] k(1) by (auto simp: span_def)
      moreover have "unat HS \<le> unat (p + of_nat j)" using unat_offset [of p j] k p by linarith
      ultimately show "?src + of_nat k \<noteq> p + of_nat j" by (metis not_le)
    qed
    obtain m1 where m1: "dma_copy ?src p ?a True m = Some m1" "\<forall>k<Suc ?na. m1 (p + of_nat k) = m (?src + of_nat k)"
      "\<forall>q. q \<notin> span p (Suc ?na) \<longrightarrow> m1 q = m q"
      using dma_copy_span [OF False refl, of ?src m p True] s1 s2 s3 unfolding ab by blast
    have "q \<in> dom m1 \<longleftrightarrow> q \<in> dom m" for q
    proof (cases "q \<in> span p (Suc ?na)")
      case True
      then obtain k where k: "q = p + of_nat k" "k < Suc ?na" by (auto simp: span_def)
      have "?src + of_nat k \<in> span ?src (Suc ?na)" using k(2) by (auto simp: span_def)
      then have "?src + of_nat k \<in> dom m" using s1 by blast
      then show ?thesis using m1(2) k True s2 by (auto simp: dom_def)
    next
      case False
      then show ?thesis using m1(3) by (simp add: dom_def)
    qed
    then show ?thesis using m1 by auto
  qed
  then obtain m1 where m1: "dma_copy ?src p ?a True m = Some m1" "dom m1 = dom m"
    "\<forall>k<?na. m1 (p + of_nat k) = m (?src + of_nat k)" "\<forall>q. q \<notin> span p (Suc ?na) \<longrightarrow> m1 q = m q" by blast
  have "\<exists>m2. dma_fill ?slot (p + ?a) ?b 0 True m1 = Some m2 \<and> dom m2 = dom m
    \<and> (\<forall>q. unat p + ?na \<le> unat q \<and> unat q < unat p + ?na + ?nb \<longrightarrow> m2 q = Some 0)
    \<and> (\<forall>q. \<not> (unat p + ?na \<le> unat q \<and> unat q \<le> unat p + ?na + ?nb) \<longrightarrow> q \<noteq> ?slot \<longrightarrow> m2 q = m1 q)"
  proof (cases "?b = 0")
    case True
    then have "dma_fill ?slot (p + ?a) ?b 0 True m1 = Some (m1(?slot \<mapsto> 0))"
      using slot(1) m1(2) by (auto simp: dma_fill_def store8_def dma_transfer_def)
    then show ?thesis using True ab(2) slot(1) m1(2) by auto
  next
    case False
    let ?m2 = "\<lambda>q. if q = ?slot \<or> q \<in> span (p + ?a) (Suc ?nb) then Some 0 else m1 q"
    have s2: "span (p + ?a) (Suc ?nb) \<subseteq> dom m1"
    proof
      fix q assume "q \<in> span (p + ?a) (Suc ?nb)"
      then have "unat HS \<le> unat q" "unat q < unat HS + 64 * N" using SB p by simp_all
      then show "q \<in> dom m1" unfolding m1(2) by (rule heap)
    qed
    have s3: "?slot \<notin> span (p + ?a) (Suc ?nb)" using slot(2) p SB by auto
    have "dma_fill ?slot (p + ?a) ?b 0 True m1 = Some ?m2"
      by (rule dma_fill_span [OF False]) (use ab s2 s3 slot(1) m1(2) in auto)
    moreover have "dom ?m2 = dom m" using slot(1) m1(2) s2 by (auto simp: dom_def split: if_splits)
    ultimately show ?thesis using SB by auto
  qed
  then obtain m2 where m2: "dma_fill ?slot (p + ?a) ?b 0 True m1 = Some m2" "dom m2 = dom m"
    "\<forall>q. unat p + ?na \<le> unat q \<and> unat q < unat p + ?na + ?nb \<longrightarrow> m2 q = Some 0"
    "\<forall>q. \<not> (unat p + ?na \<le> unat q \<and> unat q \<le> unat p + ?na + ?nb) \<longrightarrow> q \<noteq> ?slot \<longrightarrow> m2 q = m1 q" by blast
  have "m2 (p + of_nat k) = m (?src + of_nat k)" if "k < ?na" for k
  proof -
    have u: "unat (p + of_nat k) = unat p + k" using unat_offset [of p k] that p by linarith
    have "p + of_nat k \<noteq> ?slot" using u slot(2) p(1) by auto
    moreover have "\<not> (unat p + ?na \<le> unat (p + of_nat k) \<and> unat (p + of_nat k) \<le> unat p + ?na + ?nb)" using u that by simp
    ultimately show ?thesis using m2(4) m1(3) that by simp
  qed
  moreover have "m2 (p + of_nat (?na + k)) = Some 0" if "k < ?nb" for k
  proof -
    have "unat (p + of_nat (?na + k)) = unat p + (?na + k)" using unat_offset [of p "?na + k"] that p by linarith
    then show ?thesis using m2(3) that by simp
  qed
  moreover have "m2 q = m q" if q: "q \<notin> span p (Suc (?na + ?nb))" "q \<noteq> ?slot" for q
  proof -
    have "\<not> (unat p \<le> unat q \<and> unat q < unat p + Suc (?na + ?nb))" using q(1) SN by blast
    then show ?thesis using m2(4) m1(4) q(2) SA by auto
  qed
  ultimately show ?thesis using m1(1) m2(1,2) by blast
qed

end
