(* ===== verification/Thread_Create.thy ===== *)
theory Thread_Create
  imports Thread_Ledger
begin

text \<open>
  Creating and destroying threads: a new thread owns its memory and starts as asked, a failed creation and a destruction give
  everything back.
\<close>

section \<open>Thread-local data\<close>

text \<open>\<open>tdata_ready\<close>: the range at \<open>p\<close> holds the initial image and zeros, and nothing else of the memory has changed
  but one byte behind it and the stack slot of \<open>dma_fill\<close>.\<close>

definition tdata_ready :: "image \<Rightarrow> addr \<Rightarrow> ram \<Rightarrow> ram \<Rightarrow> bool" where
  "tdata_ready im p m m' \<longleftrightarrow> dom m' = dom m
    \<and> (\<forall>k<tdata_bytes im. m' (p + of_nat k) = m (TDATA_START im + of_nat k))
    \<and> (\<forall>k<tbss_bytes im. m' (p + of_nat (tdata_bytes im + k)) = Some 0)
    \<and> (\<forall>q. q \<notin> span p (Suc (tdata_bytes im + tbss_bytes im)) \<longrightarrow> q \<noteq> fill_slot im \<longrightarrow> m' q = m q)"

lemma image_ok_dom: "dom m' = dom m \<Longrightarrow> image_ok HS N im m' = image_ok HS N im m"
  by (simp add: image_ok_def)

lemma holds_heap_ok: "holds HS N L h \<Longrightarrow> heap_ok HS N"
  using heap_inv_ok by (auto simp: holds_def)

lemma allocate_tdata_cases:
  assumes L: "holds HS N L (kheap s)" and im: "image_ok HS N im (kram s)"
  obtains (none) "kthread_allocate_tdata im s = Some (NULL, s)"
  | (some) p h m where "kthread_allocate_tdata im s = Some (p, s\<lparr>kheap := h, kram := m\<rparr>)" "p \<noteq> NULL" "L p = None"
      "holds HS N (L(p \<mapsto> blocks_of (tdata_size im))) h" "tdata_ready im p (kram s) m"
proof -
  note room = tdata_room [OF im]
  from L room(2) show thesis
  proof (cases rule: kalloc_cases)
    case none
    then show ?thesis using that(1) by (simp add: kthread_allocate_tdata_def tdata_size_def Let_def)
  next
    case (some p h)
    have N: "unat HS + 64 * N \<le> 4294967296" using holds_heap_ok [OF L] by (simp add: heap_ok_def RAM_END_def)
    have P: "unat HS + 12 \<le> unat p" "unat p - 12 + 64 * blocks_of (tdata_size im) \<le> unat HS + 64 * N"
      using holds_range [OF some(4), of p] by simp_all
    have "unat HS \<le> unat p" "unat p + tdata_bytes im + tbss_bytes im + 1 \<le> unat HS + 64 * N" using P room(1) by linarith+
    from tdata_transfers [OF im this N] obtain m1 m2 where
      t: "dma_copy (TDATA_START im) p (TDATA_END im - TDATA_START im) True (kram s) = Some m1"
      "dma_fill (fill_slot im) (p + (TDATA_END im - TDATA_START im)) (TBSS_END im - TBSS_START im) 0 True m1 = Some m2"
      "tdata_ready im p (kram s) m2" unfolding tdata_ready_def by metis
    have "kthread_allocate_tdata im s = Some (p, s\<lparr>kheap := h, kram := m2\<rparr>)"
      using some(1,2) t(1,2) by (simp add: kthread_allocate_tdata_def tdata_size_def Let_def)
    then show ?thesis using that(2) some(2-4) t(3) by blast
  qed
qed

section \<open>Creation\<close>

text \<open>The record of a new thread.\<close>

definition new_thread :: "image \<Rightarrow> kthread \<Rightarrow> addr \<Rightarrow> u32 \<Rightarrow> bool \<Rightarrow> addr \<Rightarrow> addr \<Rightarrow> kthread" where
  "new_thread im junk function arg svm stk td = junk\<lparr>
     ctx := (ctx junk)\<lparr>
       regs := (regs (ctx junk))[REG_SP := stk + KTHREAD_STACK_SIZE, REG_TP := td, REG_A0 := arg, REG_RA := thread_exit im],
       status := (if svm then sstatus im OR push_bit 8 1 else sstatus im AND NOT (push_bit 8 1)),
       pc := function\<rparr>,
     stack := stk, tdata := td, next_thr := NULL, local_data_head := NULL, state := READY\<rparr>"

lemma create_order:
  "c\<lparr>status := a, pc := b, regs := r\<rparr> = c\<lparr>regs := r, status := a, pc := b\<rparr>"
  "t\<lparr>stack := k, tdata := d, local_data_head := l, ctx := c, state := x, next_thr := n\<rparr>
     = t\<lparr>ctx := c, stack := k, tdata := d, next_thr := n, local_data_head := l, state := x\<rparr>"
  by (cases c, simp) (cases t, simp)

lemma good_sizes: "good_size sizeof_kthread" "good_size KTHREAD_STACK_SIZE"
  by (simp_all add: good_size_def sizeof_kthread_def KTHREAD_STACK_SIZE_def)

lemma blocks_of_sizes: "blocks_of sizeof_kthread = 2" "blocks_of KTHREAD_STACK_SIZE = 65"
  by (simp_all add: unat_calculate_blocks sizeof_kthread_def KTHREAD_STACK_SIZE_def)

lemma kthread_create_cases:
  assumes L: "holds HS N L (kheap s)" and im: "image_ok HS N im (kram s)"
  obtains (none) h where "kthread_create im junk f arg svm s = Some (NULL, s\<lparr>kheap := h\<rparr>)" "holds HS N L h"
  | (some) p k d h m where
      "kthread_create im junk f arg svm s = Some (p, s\<lparr>kheap := h, kram := m,
         thrs := (thrs s)(p \<mapsto> new_thread im junk f arg svm k d)\<rparr>)"
      "p \<noteq> NULL" "k \<noteq> NULL" "d \<noteq> NULL" "p \<noteq> k" "p \<noteq> d" "k \<noteq> d" "L p = None" "L k = None" "L d = None"
      "holds HS N (L(p \<mapsto> 2, k \<mapsto> 65, d \<mapsto> blocks_of (tdata_size im))) h" "tdata_ready im d (kram s) m"
proof -
  from L good_sizes(1) show thesis
  proof (cases rule: kalloc_cases)
    case none
    then have "kthread_create im junk f arg svm s = Some (NULL, s\<lparr>kheap := kheap s\<rparr>)" by (simp add: kthread_create_def)
    then show ?thesis using that(1) L by blast
  next
    case (some p h)
    note P = some [unfolded blocks_of_sizes]
    let ?s1 = "s\<lparr>kheap := h\<rparr>"
    have "holds HS N (L(p \<mapsto> 2)) (kheap ?s1)" using P(4) by simp
    from this good_sizes(2) show ?thesis
    proof (cases rule: kalloc_cases)
      case none
      obtain h0 where f: "kfree p ?s1 = Some (?s1\<lparr>kheap := h0\<rparr>)" "holds HS N (L(p \<mapsto> 2, p := None)) h0"
        using kfree_holds [of HS N "L(p \<mapsto> 2)" ?s1 p 2] P(4) by auto
      have "L(p \<mapsto> 2, p := None) = L" using P(3) by auto
      moreover have "kthread_create im junk f arg svm s = Some (NULL, s\<lparr>kheap := h0\<rparr>)"
        using P(1,2) none f(1) by (simp add: kthread_create_def)
      ultimately show ?thesis using that(1) f(2) by metis
    next
      case (some k h2)
      note K = some [unfolded blocks_of_sizes]
      have pk: "p \<noteq> k" "L k = None" using K(3) by (auto split: if_splits)
      let ?L2 = "L(p \<mapsto> 2, k \<mapsto> 65)"
      let ?s2 = "s\<lparr>kheap := h2\<rparr>"
      have L2: "holds HS N ?L2 (kheap ?s2)" using K(4) by simp
      have im2: "image_ok HS N im (kram ?s2)" using im by simp
      from L2 im2 show ?thesis
      proof (cases rule: allocate_tdata_cases)
        case none
        obtain h3 where f3: "kfree k ?s2 = Some (s\<lparr>kheap := h3\<rparr>)" "holds HS N (?L2(k := None)) h3"
          using kfree_holds [OF L2, of k 65] by auto
        have "(?L2(k := None)) p = Some 2" using pk by simp
        then obtain h4 where f4: "kfree p (s\<lparr>kheap := h3\<rparr>) = Some (s\<lparr>kheap := h4\<rparr>)" "holds HS N (?L2(k := None, p := None)) h4"
          using kfree_holds [of HS N "?L2(k := None)" "s\<lparr>kheap := h3\<rparr>" p 2] f3(2) by auto
        have "?L2(k := None, p := None) = L" using P(3) pk by (auto simp: fun_eq_iff)
        moreover have "kthread_create im junk f arg svm s = Some (NULL, s\<lparr>kheap := h4\<rparr>)"
          using P(1,2) K(1,2) none f3(1) f4(1) by (simp add: kthread_create_def Let_def set_reg_def)
        ultimately show ?thesis using that(1) f4(2) by metis
      next
        case (some d h3 m)
        have d: "d \<noteq> p" "d \<noteq> k" "L d = None" using some(3) by (auto split: if_splits)
        have "kthread_create im junk f arg svm s = Some (p, s\<lparr>kheap := h3, kram := m,
            thrs := (thrs s)(p \<mapsto> new_thread im junk f arg svm k d)\<rparr>)"
          using P(1,2) K(1,2) some(1,2) by (simp add: kthread_create_def Let_def set_reg_def new_thread_def create_order)
        then show ?thesis using that(2) [where p = p and k = k and d = d and h = h3 and m = m] P(2,3) K(2) pk d some(2,4,5) by simp
      qed
    qed
  qed
qed

section \<open>Destruction\<close>

lemma kthread_destroy_holds:
  assumes L: "holds HS N L (kheap s)" and t: "thrs s p = Some t" "local_data_head t = NULL"
    and l: "L (stack t) = Some a" "L (tdata t) = Some b" "L p = Some c" "stack t \<noteq> tdata t" "stack t \<noteq> p" "tdata t \<noteq> p"
  shows "\<exists>h. kthread_destroy p s = Some (s\<lparr>kheap := h, thrs := (thrs s)(p := None)\<rparr>)
    \<and> holds HS N (L(stack t := None, tdata t := None, p := None)) h"
proof -
  have nn: "stack t \<noteq> NULL" "tdata t \<noteq> NULL" using holds_range(3) [OF L] l by auto
  obtain h1 where h1: "kfree (stack t) s = Some (s\<lparr>kheap := h1\<rparr>)" "holds HS N (L(stack t := None)) h1"
    using kfree_holds [OF L l(1)] by blast
  obtain h2 where h2: "kfree (tdata t) (s\<lparr>kheap := h1\<rparr>) = Some (s\<lparr>kheap := h2\<rparr>)"
    "holds HS N (L(stack t := None, tdata t := None)) h2"
    using kfree_holds [of HS N "L(stack t := None)" "s\<lparr>kheap := h1\<rparr>" "tdata t" b] h1(2) l by auto
  obtain h3 where h3: "kfree p (s\<lparr>kheap := h2\<rparr>) = Some (s\<lparr>kheap := h3\<rparr>)"
    "holds HS N (L(stack t := None, tdata t := None, p := None)) h3"
    using kfree_holds [of HS N "L(stack t := None, tdata t := None)" "s\<lparr>kheap := h2\<rparr>" p c] h2(2) l by auto
  have "kthread_destroy p s = Some (s\<lparr>kheap := h3, thrs := (thrs s)(p := None)\<rparr>)"
    using t nn h1(1) h2(1) h3(1) by (simp add: kthread_destroy_def kthread_clean_td_def clean_td_loop.simps)
  then show ?thesis using h3(2) by blast
qed

section \<open>How many segments fit\<close>

text \<open>The sizes of live segments add up to at most the blocks of the heap.\<close>

lemma holds_sum:
  assumes L: "holds HS N L h" and P: "finite P" "\<forall>p\<in>P. L p = Some k"
  shows "k * card P \<le> N"
proof -
  obtain A where A: "heap_inv HS N A h" "\<forall>p n. L p = Some n \<longleftrightarrow> (\<exists>i. p = data_of HS i \<and> A i = Some n)"
    using L by (auto simp: holds_def)
  have wf: "wf_alloc N A" using A(1) by (simp add: heap_inv_def)
  have "\<forall>p\<in>P. \<exists>i. p = data_of HS i \<and> A i = Some k" using A(2) P(2) by blast
  then obtain g where g: "\<forall>p\<in>P. p = data_of HS (g p) \<and> A (g p) = Some k" by metis
  have dis: "{g p..<g p + k} \<inter> {g q..<g q + k} = {}" if "p \<in> P" "q \<in> P" "p \<noteq> q" for p q
  proof -
    have "g p \<noteq> g q" using g that by metis
    then show ?thesis using wf g that(1,2) unfolding wf_alloc_def by blast
  qed
  have "k * card P = (\<Sum>p\<in>P. card {g p..<g p + k})" by simp
  also have "\<dots> = card (\<Union>p\<in>P. {g p..<g p + k})"
    by (rule card_UN_disjoint [symmetric]) (use P(1) dis in auto)
  also have "\<dots> \<le> card {0..<N}"
  proof (rule card_mono)
    show "(\<Union>p\<in>P. {g p..<g p + k}) \<subseteq> {0..<N}"
    proof (rule UN_least)
      fix p assume "p \<in> P"
      then have "A (g p) = Some k" using g by blast
      then show "{g p..<g p + k} \<subseteq> {0..<N}" using wf_alloc_block [OF wf] by force
    qed
  qed simp
  finally show ?thesis by simp
qed

lemma holds_blocks: "holds HS N L h \<Longrightarrow> N \<le> 256"
  using holds_heap_ok [of HS N L h] by (auto simp: heap_ok_def RAM_START_def RAM_END_def word_le_nat_alt)

section \<open>Creating many threads\<close>

text \<open>A sequence of creations, each with its own function, argument and privilege.\<close>

fun create_all :: "image \<Rightarrow> kthread \<Rightarrow> (addr \<times> u32 \<times> bool) list \<Rightarrow> kstate \<Rightarrow> (addr list \<times> kstate) option" where
  "create_all im junk [] s = Some ([], s)"
| "create_all im junk ((f, arg, svm) # rs) s = do {
     (p, s) \<leftarrow> kthread_create im junk f arg svm s;
     (ps, s) \<leftarrow> create_all im junk rs s;
     Some (p # ps, s)
   }"

lemma create_all_stacks:
  assumes "holds HS N L (kheap s)" and "image_ok HS N im (kram s)" and "finite P" "\<forall>k\<in>P. L k = Some 65"
  shows "\<exists>ps s' L' P'. create_all im junk rs s = Some (ps, s') \<and> length ps = length rs \<and> holds HS N L' (kheap s') \<and> finite P'
    \<and> (\<forall>k\<in>P'. L' k = Some 65) \<and> card P' = card P + length (filter (\<lambda>p. p \<noteq> NULL) ps)"
  using assms
proof (induction rs arbitrary: s L P)
  case Nil
  then show ?case by auto
next
  case (Cons r rs)
  obtain f arg svm where r: "r = (f, arg, svm)" by (cases r) auto
  from Cons.prems(1,2) show ?case
  proof (cases rule: kthread_create_cases [where junk = junk and f = f and arg = arg and svm = svm])
    case (none h)
    let ?s = "s\<lparr>kheap := h\<rparr>"
    have "holds HS N L (kheap ?s)" "image_ok HS N im (kram ?s)" using none(2) Cons.prems(2) by simp_all
    from Cons.IH [OF this Cons.prems(3,4)] obtain ps s' L' P' where
      I: "create_all im junk rs ?s = Some (ps, s')" "length ps = length rs" "holds HS N L' (kheap s')" "finite P'"
      "\<forall>k\<in>P'. L' k = Some 65" "card P' = card P + length (filter (\<lambda>p. p \<noteq> NULL) ps)" by blast
    have "create_all im junk (r # rs) s = Some (NULL # ps, s')" using none(1) I(1) by (simp add: r)
    moreover have "length (NULL # ps) = length (r # rs)" "card P' = card P + length (filter (\<lambda>p. p \<noteq> NULL) (NULL # ps))"
      using I(2,6) by simp_all
    ultimately show ?thesis using I(3-5) by blast
  next
    case (some p k d h m)
    let ?s = "s\<lparr>kheap := h, kram := m, thrs := (thrs s)(p \<mapsto> new_thread im junk f arg svm k d)\<rparr>"
    let ?L = "L(p \<mapsto> 2, k \<mapsto> 65, d \<mapsto> blocks_of (tdata_size im))"
    have new: "k \<notin> P" "p \<notin> P" "d \<notin> P" using some(8-10) Cons.prems(4) by auto
    have "holds HS N ?L (kheap ?s)" using some(11) by simp
    moreover have "image_ok HS N im (kram ?s)" using some(12) Cons.prems(2) image_ok_dom [of m "kram s"] by (simp add: tdata_ready_def)
    moreover have "finite (insert k P)" using Cons.prems(3) by simp
    moreover have "\<forall>x\<in>insert k P. ?L x = Some 65" using new some(7) Cons.prems(4) by auto
    ultimately obtain ps s' L' P' where
      I: "create_all im junk rs ?s = Some (ps, s')" "length ps = length rs" "holds HS N L' (kheap s')" "finite P'"
      "\<forall>k\<in>P'. L' k = Some 65" "card P' = card (insert k P) + length (filter (\<lambda>p. p \<noteq> NULL) ps)"
      using Cons.IH [of ?L ?s "insert k P"] by blast
    have "create_all im junk (r # rs) s = Some (p # ps, s')" using some(1) I(1) by (simp add: r)
    moreover have "length (p # ps) = length (r # rs)" "card P' = card P + length (filter (\<lambda>p. p \<noteq> NULL) (p # ps))"
      using I(2,6) new(1) Cons.prems(3) some(2) by simp_all
    ultimately show ?thesis using I(3-5) by blast
  qed
qed

end
