(* ===== verification/Sync_Frame.thy ===== *)
theory Sync_Frame
  imports Kernel_Steps Exceptions
begin

text \<open>
  What scheduling, locking and signalling leave alone: the heap, the memory, the devices, the ring of signals, and
  of every thread its registers, its stack and its data.
\<close>

section \<open>The frame\<close>

definition rest :: "'a kstate_scheme \<Rightarrow> 'a kstate_scheme" where
  "rest s = s\<lparr>thrs := Map.empty, mtxs := Map.empty, cnds := Map.empty, kscheduler_head := 0, kscheduler_tail := 0, kthread_current := 0\<rparr>"

definition frozen_thrs :: "'a kstate_scheme \<Rightarrow> addr \<Rightarrow> kthread option" where
  "frozen_thrs s = (\<lambda>x. map_option frozen (thrs s x))"

definition sync_frame :: "'a kstate_scheme \<Rightarrow> 'a kstate_scheme \<Rightarrow> bool" where
  "sync_frame s s' \<longleftrightarrow> rest s' = rest s \<and> frozen_thrs s' = frozen_thrs s"

lemma sync_frame_refl: "sync_frame s s"
  by (simp add: sync_frame_def)

lemma sync_frame_trans: "sync_frame s1 s2 \<Longrightarrow> sync_frame s2 s3 \<Longrightarrow> sync_frame s1 s3"
  by (simp add: sync_frame_def)

lemma rest_fields [simp]:
  "kheap (rest s) = kheap s" "kram (rest s) = kram s" "kthread_main (rest s) = kthread_main s"
  "dev (rest k) = dev k" "sig_handlers (rest k) = sig_handlers k" "requests (rest k) = requests k" "req_head (rest k) = req_head k"
  "req_tail (rest k) = req_tail k" "requests_mutex (rest k) = requests_mutex k" "requests_cond (rest k) = requests_cond k"
  "ksig_addr (rest k) = ksig_addr k"
  by (simp_all add: rest_def)

lemma sync_frame_ring:
  assumes "sync_frame s s'"
  shows "requests s' = requests s" "req_head s' = req_head s" "req_tail s' = req_tail s" "sig_handlers s' = sig_handlers s"
    "requests_mutex s' = requests_mutex s" "requests_cond s' = requests_cond s" "dev s' = dev s" "kram s' = kram s" "kthread_main s' = kthread_main s"
    "ksig_addr s' = ksig_addr s"
  using assms unfolding sync_frame_def by (metis rest_fields)+

lemma sync_frame_regs:
  assumes "sync_frame s s'" and "thrs s x = Some t"
  shows "\<exists>t'. thrs s' x = Some t' \<and> ctx t' = ctx t"
proof -
  have "map_option frozen (thrs s' x) = Some (frozen t)"
    using assms unfolding sync_frame_def frozen_thrs_def by (metis option.simps(9))
  then obtain t' where t': "thrs s' x = Some t'" "frozen t' = frozen t" by auto
  then have "ctx (frozen t') = ctx (frozen t)" by simp
  then show ?thesis using t'(1) by (simp add: frozen_def)
qed

lemma sync_frame_sched: "sched_frame s s' \<Longrightarrow> sync_frame s s'"
  unfolding sched_frame_def sync_frame_def frozen_thrs_def rest_def by auto

section \<open>The operations\<close>

lemma upd_frame:
  "upd_thr p (\<lambda>t. t\<lparr>state := v\<rparr>) s = Some s' \<Longrightarrow> sync_frame s s'"
  "upd_thr p (\<lambda>t. t\<lparr>next_thr := q\<rparr>) s = Some s' \<Longrightarrow> sync_frame s s'"
  "upd_thr p (\<lambda>t. t\<lparr>waiting_on := q\<rparr>) s = Some s' \<Longrightarrow> sync_frame s s'"
  "upd_mtx p f s = Some s' \<Longrightarrow> sync_frame s s'"
  "upd_cnd p g s = Some s' \<Longrightarrow> sync_frame s s'"
  by (auto simp: upd_thr_def upd_mtx_def upd_cnd_def sync_frame_def rest_def frozen_thrs_def frozen_def fun_eq_iff split: option.splits)

lemma sched_fields_frame [simp]:
  "rest (s\<lparr>kscheduler_head := a\<rparr>) = rest s" "frozen_thrs (s\<lparr>kscheduler_head := a\<rparr>) = frozen_thrs s"
  "rest (s\<lparr>kscheduler_tail := a\<rparr>) = rest s" "frozen_thrs (s\<lparr>kscheduler_tail := a\<rparr>) = frozen_thrs s"
  "rest (s\<lparr>kthread_current := a\<rparr>) = rest s" "frozen_thrs (s\<lparr>kthread_current := a\<rparr>) = frozen_thrs s"
  by (simp_all add: rest_def frozen_thrs_def)

lemma kscheduler_enqueue_frame: "kscheduler_enqueue a s = Some s' \<Longrightarrow> sync_frame s s'"
  by (auto simp: kscheduler_enqueue_def bind_eq_Some_conv split: if_splits dest!: upd_frame)
    (simp_all add: sync_frame_def)

lemma kmutex_lock_frame: "kmutex_lock m a s = Some s' \<Longrightarrow> sync_frame s s'"
  by (auto simp: kmutex_lock_def bind_eq_Some_conv sync_frame_refl split: if_splits dest!: upd_frame)
    (simp_all add: sync_frame_def)

lemma kmutex_unlock_frame: "kmutex_unlock m a s = Some (st, s') \<Longrightarrow> sync_frame s s'"
  by (auto simp: kmutex_unlock_def bind_eq_Some_conv sync_frame_refl Let_def split: if_splits dest!: upd_frame kscheduler_enqueue_frame)
    (simp_all add: sync_frame_def)

lemma kcond_wait_frame: "kcond_wait c m a s = Some s' \<Longrightarrow> sync_frame s s'"
  by (auto simp: kcond_wait_def bind_eq_Some_conv split: if_splits dest!: upd_frame kmutex_unlock_frame)
    (simp_all add: sync_frame_def)

lemma kcond_signal_frame: "kcond_signal c e s = Some s' \<Longrightarrow> sync_frame s s'"
  by (auto simp: kcond_signal_def bind_eq_Some_conv sync_frame_refl Let_def split: if_splits
      dest!: upd_frame kmutex_lock_frame kscheduler_enqueue_frame)
    (simp_all add: sync_frame_def)

end
