(* ===== verification/Boot.thy ===== *)
theory Boot
  imports Thread_Create Sync_Frame
begin

text \<open>
  Starting the kernel: the first allocations lie side by side at the start of the heap, so the two threads that \<open>init\<close> creates
  get their memory, and the state it leaves satisfies the kernel's invariant.
\<close>

section \<open>Allocating side by side\<close>

text \<open>The blocks in use, read from the ledger.\<close>

definition used_blocks :: "addr \<Rightarrow> nat \<Rightarrow> (addr \<rightharpoonup> nat) \<Rightarrow> nat set" where
  "used_blocks HS N L = {c. \<exists>i n. i < N \<and> L (data_of HS i) = Some n \<and> i \<le> c \<and> c < i + n}"

definition packed :: "addr \<Rightarrow> nat \<Rightarrow> (addr \<rightharpoonup> nat) \<Rightarrow> nat \<Rightarrow> heap \<Rightarrow> bool" where
  "packed HS N L k h \<longleftrightarrow> holds HS N L h \<and> used_blocks HS N L = {0..<k}"

lemma used_ledger:
  assumes A: "heap_inv HS N A h" and L: "\<forall>p n. L p = Some n \<longleftrightarrow> (\<exists>i. p = data_of HS i \<and> A i = Some n)"
  shows "used A = used_blocks HS N L"
proof -
  have ok: "heap_ok HS N" by (rule heap_inv_ok [OF A])
  have wf: "wf_alloc N A" using A by (simp add: heap_inv_def)
  have dom: "i < N" if "A i = Some n" for i n using wf_alloc_block [OF wf that] by simp
  have "A i = Some n \<longleftrightarrow> i < N \<and> L (data_of HS i) = Some n" for i n
  proof
    show "A i = Some n \<Longrightarrow> i < N \<and> L (data_of HS i) = Some n" using dom L by blast
  next
    assume i: "i < N \<and> L (data_of HS i) = Some n"
    then obtain j where j: "data_of HS i = data_of HS j" "A j = Some n" using L by blast
    have "i = j" using data_of_inj [OF ok, of i j] i dom [OF j(2)] j(1) by simp
    then show "A i = Some n" using j(2) by simp
  qed
  then show ?thesis unfolding used_def used_blocks_def by auto
qed

lemma used_blocks_upd:
  assumes ok: "heap_ok HS N" and k: "k < N" "L (data_of HS k) = None"
  shows "used_blocks HS N (L(data_of HS k \<mapsto> b)) = used_blocks HS N L \<union> {k..<k + b}"
proof -
  have U: "used_blocks HS N M = {c. \<exists>i n. (i < N \<and> M (data_of HS i) = Some n) \<and> i \<le> c \<and> c < i + n}" for M
    by (simp add: used_blocks_def conj_assoc)
  have E: "i < N \<and> (L(data_of HS k \<mapsto> b)) (data_of HS i) = Some n
      \<longleftrightarrow> i = k \<and> n = b \<or> i < N \<and> L (data_of HS i) = Some n" for i n
    using data_of_inj [OF ok, of i k] k by (cases "i = k") auto
  show ?thesis unfolding U E by (intro set_eqI) (simp only: mem_Collect_eq Un_iff atLeastLessThan_iff, blast)
qed

lemma packed_alloc:
  assumes P: "packed HS N L k (kheap s)" and g: "good_size n" and b: "k + blocks_of n \<le> N"
  shows "\<exists>p h. kalloc n s = Some (p, s\<lparr>kheap := h\<rparr>) \<and> p \<noteq> NULL \<and> L p = None
    \<and> packed HS N (L(p \<mapsto> blocks_of n)) (k + blocks_of n) h"
proof -
  let ?b = "blocks_of n"
  have b0: "0 < ?b" using g calculate_blocks_pos by (simp add: good_size_def)
  have H: "holds HS N L (kheap s)" and U: "used_blocks HS N L = {0..<k}" using P by (simp_all add: packed_def)
  obtain A where A: "heap_inv HS N A (kheap s)" "\<forall>p n. L p = Some n \<longleftrightarrow> (\<exists>i. p = data_of HS i \<and> A i = Some n)"
    using H by (auto simp: holds_def)
  have ok: "heap_ok HS N" by (rule heap_inv_ok [OF A(1)])
  have free: "free_cells N A = {k..<N}" unfolding free_cells_def used_ledger [OF A] U by auto
  have fit: "fits N A ?b k" using b unfolding fits_def free by auto
  have least: "(LEAST i. fits N A ?b i) = k"
  proof (rule Least_equality)
    show "fits N A ?b k" by (rule fit)
    fix i assume "fits N A ?b i"
    then have "i \<in> {k..<N}" using b0 unfolding fits_def free by auto
    then show "k \<le> i" by simp
  qed
  have ex: "\<exists>i. fits N A ?b i" using fit by blast
  obtain h where h: "kheap_alloc n (kheap s) = Some (data_of HS k, h)"
    using kheap_alloc_heap_inv [OF A(1) refl b0] unfolding if_P [OF ex] least data_of_def by blast
  have kN: "k < N" using b b0 by simp
  have nn: "data_of HS k \<noteq> NULL" by (rule data_of_nonnull [OF ok kN])
  then have fresh: "L (data_of HS k) = None" "holds HS N (L(data_of HS k \<mapsto> ?b)) h"
    using holds_alloc [OF H g] h by auto
  have "used_blocks HS N (L(data_of HS k \<mapsto> ?b)) = {0..<k + ?b}"
    using used_blocks_upd [where L = L and b = ?b, OF ok kN fresh(1)] unfolding U by (simp add: ivl_disj_un_two(3))
  then show ?thesis using h nn fresh
    by (intro exI [of _ "data_of HS k"] exI [of _ h]) (simp add: kalloc_def packed_def)
qed

text \<open>A thread is created when its three segments fit behind the others.\<close>

lemma create_packed:
  assumes P: "packed HS N L k (kheap s)" and im: "image_ok HS N im (kram s)"
    and room: "k + 67 + blocks_of (tdata_size im) \<le> N"
  shows "\<exists>p t h m L'. kthread_create im junk f arg svm s = Some (p, s\<lparr>kheap := h, kram := m, thrs := (thrs s)(p \<mapsto> t)\<rparr>)
    \<and> p \<noteq> NULL \<and> L p = None \<and> state t = READY \<and> next_thr t = NULL \<and> pc (ctx t) = f \<and> dom m = dom (kram s)
    \<and> packed HS N L' (k + 67 + blocks_of (tdata_size im)) h \<and> L' p = Some 2 \<and> dom L \<subseteq> dom L'"
proof -
  let ?td = "blocks_of (tdata_size im)"
  obtain p h1 where p: "kalloc sizeof_kthread s = Some (p, s\<lparr>kheap := h1\<rparr>)" "p \<noteq> NULL" "L p = None" "packed HS N (L(p \<mapsto> 2)) (k + 2) h1"
    using packed_alloc [OF P good_sizes(1)] room unfolding blocks_of_sizes by auto
  let ?s1 = "s\<lparr>kheap := h1\<rparr>"
  have "packed HS N (L(p \<mapsto> 2)) (k + 2) (kheap ?s1)" using p(4) by simp
  moreover have "k + 67 = k + 2 + 65" by simp
  ultimately obtain q h2 where
    q: "kalloc KTHREAD_STACK_SIZE ?s1 = Some (q, s\<lparr>kheap := h2\<rparr>)" "q \<noteq> NULL" "(L(p \<mapsto> 2)) q = None"
      "packed HS N (L(p \<mapsto> 2, q \<mapsto> 65)) (k + 67) h2"
    using packed_alloc [OF _ good_sizes(2), of HS N "L(p \<mapsto> 2)" "k + 2" ?s1] room unfolding blocks_of_sizes by fastforce
  let ?s2 = "s\<lparr>kheap := h2\<rparr>" and ?L2 = "L(p \<mapsto> 2, q \<mapsto> 65)"
  have P2: "packed HS N ?L2 (k + 67) (kheap ?s2)" using q(4) by simp
  from packed_alloc [OF P2 tdata_room(2) [OF im]] room obtain d h3 where
    d: "kalloc (tdata_size im) ?s2 = Some (d, s\<lparr>kheap := h3\<rparr>)" "d \<noteq> NULL" "?L2 d = None"
      "packed HS N (?L2(d \<mapsto> ?td)) (k + 67 + ?td) h3" by auto
  have H2: "holds HS N ?L2 (kheap ?s2)" using q(4) by (simp add: packed_def)
  have im2: "image_ok HS N im (kram ?s2)" using im by simp
  obtain m where m: "kthread_allocate_tdata im ?s2 = Some (d, s\<lparr>kheap := h3, kram := m\<rparr>)" "tdata_ready im d (kram s) m"
    using H2 im2
  proof (cases rule: allocate_tdata_cases)
    case none
    then show ?thesis using d(1,2)
      by (auto simp: kthread_allocate_tdata_def tdata_size_def [symmetric] Let_def bind_eq_Some_conv)
  next
    case (some d' h m)
    then have "d' = d \<and> h = h3" using d(1,2)
      by (auto simp: kthread_allocate_tdata_def tdata_size_def [symmetric] Let_def bind_eq_Some_conv dest: arg_cong [where f = kheap])
    then show ?thesis using that some by simp
  qed
  let ?t = "new_thread im junk f arg svm q d"
  have "kthread_create im junk f arg svm s = Some (p, s\<lparr>kheap := h3, kram := m, thrs := (thrs s)(p \<mapsto> ?t)\<rparr>)"
    using p(1,2) q(1,2) d(2) m(1) by (simp add: kthread_create_def Let_def set_reg_def new_thread_def create_order)
  moreover have "state ?t = READY" "next_thr ?t = NULL" "pc (ctx ?t) = f" by (simp_all add: new_thread_def)
  moreover have "dom m = dom (kram s)" using m(2) by (simp add: tdata_ready_def)
  moreover have "(?L2(d \<mapsto> ?td)) p = Some 2" using q(3) d(3) by (auto split: if_splits)
  moreover have "dom L \<subseteq> dom (?L2(d \<mapsto> ?td))" by auto
  ultimately show ?thesis using p(2,3) d(4)
    by (intro exI [of _ p] exI [of _ ?t] exI [of _ h3] exI [of _ m] exI [of _ "?L2(d \<mapsto> ?td)"]) simp
qed

section \<open>The first state\<close>

text \<open>A new thread does not disturb the queues.\<close>

lemma kinv_new_thread:
  assumes I: "kinv s Q" and p: "p \<notin> dom (thrs s)" "p \<noteq> NULL" and t: "next_thr t = NULL"
    and s': "s' = s\<lparr>kheap := h, kram := m, thrs := (thrs s)(p \<mapsto> t)\<rparr>"
  shows "kinv s' Q" "\<not> queued Q p" "\<And>x. x \<noteq> p \<Longrightarrow> info s' x = info s x" "\<And>x. x \<noteq> p \<Longrightarrow> nxt s' x = nxt s x"
proof -
  note K = kinvD [OF I]
  have qd: "x \<in> dom (thrs s)" if "x \<in> set (Q q)" for x q using queuesD(3) [OF K(1)] that by blast
  show nq: "\<not> queued Q p" using qd p(1) by (auto simp: queued_def)
  show n: "nxt s' x = nxt s x" and i: "info s' x = info s x" if "x \<noteq> p" for x
    using that by (simp_all add: s' nxt_def info_def)
  have e: "q_ends s' q = q_ends s q" for q by (rule q_ends_eq) (simp_all add: s')
  have "queues s' Q"
  proof (rule queuesI)
    fix q h t assume "q_ends s' q = Some (h, t)"
    then have "is_queue (nxt s) h t (Q q)" using queuesD(1) [OF K(1)] e by simp
    then show "is_queue (nxt s') h t (Q q)"
      using is_queue_cong [of "Q q" "nxt s'" "nxt s" h t] n qd p(1) by metis
  next
    fix q assume "q_ends s' q = None"
    then show "Q q = []" using queuesD(2) [OF K(1)] e by simp
  next
    fix x q assume "x \<in> set (Q q)"
    then show "x \<in> dom (thrs s')" using qd by (simp add: s')
  next
    fix x q r assume "x \<in> set (Q q)" "x \<in> set (Q r)"
    then show "q = r" using queuesD(4) [OF K(1)] by blast
  next
    show "thrs s' NULL = None" using queuesD(5) [OF K(1)] p(2) by (simp add: s')
  qed
  moreover have "place_ok s' q x" if "x \<in> set (Q q)" for q x
  proof -
    have "x \<noteq> p" using qd [OF that] p(1) by blast
    then show ?thesis using K(2) [OF that] i by (cases q) (simp_all add: s')
  qed
  moreover have "main_ok s' Q"
    using K(4) p(1) n by (auto simp: main_ok_def s' nxt_def)
  ultimately show "kinv s' Q" using K(3) by (simp add: kinv_def s')
qed


text \<open>A thread that is created and enqueued is the last of the ready queue.\<close>

lemma create_enqueue:
  assumes I: "kinv s Q" and run: "running s Q" and P: "packed HS N L k (kheap s)" and im: "image_ok HS N im (kram s)"
    and room: "k + 67 + blocks_of (tdata_size im) \<le> N"
    and d: "dom (thrs s) \<subseteq> insert (kthread_main s) (dom L)" and main: "unat (kthread_main s) < unat HS"
  shows "\<exists>p t h m s2 L'. kthread_create im junk f arg svm s = Some (p, s\<lparr>kheap := h, kram := m, thrs := (thrs s)(p \<mapsto> t)\<rparr>)
    \<and> kscheduler_enqueue p (s\<lparr>kheap := h, kram := m, thrs := (thrs s)(p \<mapsto> t)\<rparr>) = Some s2
    \<and> sched_frame (s\<lparr>kheap := h, kram := m, thrs := (thrs s)(p \<mapsto> t)\<rparr>) s2 \<and> kthread_current s2 = kthread_current s
    \<and> kinv s2 (Q(QReady := Q QReady @ [p])) \<and> running s2 (Q(QReady := Q QReady @ [p]))
    \<and> p \<notin> dom (thrs s) \<and> pc (ctx t) = f \<and> packed HS N L' (k + 67 + blocks_of (tdata_size im)) h
    \<and> dom m = dom (kram s) \<and> insert p (dom (thrs s)) \<subseteq> insert (kthread_main s) (dom L')"
proof -
  obtain p t h m L' where c: "kthread_create im junk f arg svm s = Some (p, s\<lparr>kheap := h, kram := m, thrs := (thrs s)(p \<mapsto> t)\<rparr>)"
    "p \<noteq> NULL" "L p = None" "state t = READY" "next_thr t = NULL" "pc (ctx t) = f" "dom m = dom (kram s)"
    "packed HS N L' (k + 67 + blocks_of (tdata_size im)) h" "L' p = Some 2" "dom L \<subseteq> dom L'"
    using create_packed [OF P im room] by blast
  let ?s1 = "s\<lparr>kheap := h, kram := m, thrs := (thrs s)(p \<mapsto> t)\<rparr>" and ?Q = "Q(QReady := Q QReady @ [p])" and ?c = "kthread_current s"
  have "unat HS + 12 \<le> unat p" using holds_range(1) [of HS N L' h p 2] c(8,9) by (simp add: packed_def)
  then have pm: "p \<noteq> kthread_main s" using main by auto
  have fresh: "p \<notin> dom (thrs s)" using d pm c(3) by (auto simp: dom_def)
  note N = kinv_new_thread [where h = h and m = m, OF I fresh c(2,5) refl]
  obtain s2 where s2: "kscheduler_enqueue p ?s1 = Some s2" "kinv s2 ?Q" "sched_frame ?s1 s2" "kthread_current s2 = kthread_current ?s1"
    "\<forall>x. x \<noteq> p \<longrightarrow> info s2 x = info ?s1 x" "\<forall>x. x \<noteq> p \<longrightarrow> \<not> queued Q x \<longrightarrow> nxt s2 x = nxt ?s1 x"
    using kscheduler_enqueue_kinv [OF N(1,2)] pm by auto
  have cp: "?c \<noteq> p" using fresh running_live [OF run] by auto
  have nq: "\<not> queued Q ?c" using run by (simp add: running_def)
  have "\<not> queued ?Q ?c" using nq cp by (auto simp: queued_def split: if_splits)
  moreover have "info s2 ?c = info s ?c" "nxt s2 ?c = nxt s ?c" using s2(5,6) N(3,4) cp nq by simp_all
  ultimately have "running s2 ?Q" using run s2(4) by (simp add: running_def)
  moreover have "insert p (dom (thrs s)) \<subseteq> insert (kthread_main s) (dom L')" using d c(9,10) by auto
  ultimately show ?thesis
    using c(1,6,7,8) s2(1-4) fresh
    by (intro exI [of _ p] exI [of _ t] exI [of _ h] exI [of _ m] exI [of _ s2] exI [of _ L']) simp
qed

section \<open>Starting\<close>

text \<open>The kernel's static data when the program starts; the heap is the linker's \<open>HEAP_START\<close>, behind all static data.\<close>

definition fresh_kernel :: "addr \<Rightarrow> kernel \<Rightarrow> bool" where
  "fresh_kernel HS s \<longleftrightarrow> thrs s = [kthread_main s \<mapsto> initial_main] \<and> mtxs s = Map.empty \<and> cnds s = Map.empty
     \<and> kscheduler_head s = NULL \<and> kscheduler_tail s = NULL \<and> kthread_current s = kthread_main s
     \<and> kthread_main s \<noteq> NULL \<and> unat (kthread_main s) < unat HS \<and> head_segment (kheap s) = HS
     \<and> requests s = replicate 10 0 \<and> req_head s = 0 \<and> req_tail s = 0 \<and> length (sig_handlers s) = 9"

definition no_threads :: "qid \<Rightarrow> addr list" where
  "no_threads q = []"

text \<open>The state before the first thread is created.\<close>

lemma fresh_kinv:
  assumes "thrs s = [kthread_main s \<mapsto> initial_main]" and "kthread_main s \<noteq> NULL"
    and "kscheduler_head s = NULL" "kscheduler_tail s = NULL" and "kthread_current s = kthread_main s"
    and "\<forall>m x. mtxs s m = Some x \<longrightarrow> owner x = NULL \<and> mq_head x = NULL \<and> mq_tail x = NULL"
    and "\<forall>c x. cnds s c = Some x \<longrightarrow> cq_head x = NULL \<and> cq_tail x = NULL"
  shows "kinv s no_threads" "running s no_threads"
proof -
  have n: "nxt s (kthread_main s) = NULL" using assms(1) by (simp add: nxt_def initial_main_def)
  have q: "q_ends s q = Some (h, t) \<Longrightarrow> h = NULL \<and> t = NULL" for q h t
    using assms(3,4,6,7) by (cases q) auto
  have "queues s no_threads"
    by (rule queuesI) (use q assms(1,2) in \<open>auto simp: no_threads_def is_queue_def\<close>)
  then show "kinv s no_threads"
    using n assms(1) by (auto simp: kinv_def main_ok_def mutex_ok_def queued_def no_threads_def)
  show "running s no_threads"
    using n assms(1,5) by (auto simp: running_def info_def initial_main_def queued_def no_threads_def)
qed

lemma kernel_init_boots:
  assumes geo: "RAM_START \<le> HS" "HE \<le> RAM_END" "unat HS + 64 \<le> unat HE" and N: "N = (unat HE - unat HS) div 64"
    and f: "fresh_kernel HS s" and im: "image_ok HS N im (kram s)" and room: "2 * (67 + blocks_of (tdata_size im)) \<le> N"
  shows "\<exists>s' p q L t u. kernel_init HS HE im j1 j2 sp mn s = Some s' \<and> kinv s' (no_threads(QReady := [p, q]))
    \<and> running s' (no_threads(QReady := [p, q])) \<and> kthread_current s' = kthread_main s \<and> kthread_main s' = kthread_main s
    \<and> dom (thrs s') = {kthread_main s, p, q} \<and> distinct [kthread_main s, p, q]
    \<and> thrs s' p = Some t \<and> pc (ctx t) = sp \<and> thrs s' q = Some u \<and> pc (ctx u) = mn
    \<and> mtxs s' = [requests_mutex s \<mapsto> \<lparr>owner = NULL, mq_head = NULL, mq_tail = NULL, lock_count = 0, recursive = False\<rparr>]
    \<and> cnds s' = [requests_cond s \<mapsto> \<lparr>cq_head = NULL, cq_tail = NULL\<rparr>]
    \<and> holds HS N L (kheap s') \<and> requests s' = replicate 10 0 \<and> req_head s' = 0 \<and> req_tail s' = 0
    \<and> requests_mutex s' = requests_mutex s \<and> requests_cond s' = requests_cond s \<and> length (sig_handlers s') = 9"
proof -
  let ?td = "blocks_of (tdata_size im)" and ?main = "kthread_main s"
  note F = f [unfolded fresh_kernel_def]
  obtain h0 where h0: "kheap_init HS HE (kheap s) = Some h0" "heap_inv HS N Map.empty h0"
    using kheap_init_heap_inv [OF geo] F N by blast
  have P0: "packed HS N Map.empty 0 h0"
    using h0(2) by (auto simp: packed_def holds_def used_blocks_def)
  define s0 where "s0 = kcond_init (requests_cond s) (kmutex_init (requests_mutex s) False
    (s\<lparr>kheap := h0, dev := btns_enable_all (plic_allow_all (lcd_init (dev s)))\<rparr>))"
  have same: "thrs s0 = thrs s" "kthread_main s0 = ?main" "kthread_current s0 = ?main" "kscheduler_head s0 = NULL" "kscheduler_tail s0 = NULL"
    "kheap s0 = h0" "kram s0 = kram s" "requests s0 = replicate 10 0" "req_head s0 = 0" "req_tail s0 = 0"
    "mtxs s0 = [requests_mutex s \<mapsto> \<lparr>owner = NULL, mq_head = NULL, mq_tail = NULL, lock_count = 0, recursive = False\<rparr>]"
    "cnds s0 = [requests_cond s \<mapsto> \<lparr>cq_head = NULL, cq_tail = NULL\<rparr>]"
    "requests_mutex s0 = requests_mutex s" "requests_cond s0 = requests_cond s" "length (sig_handlers s0) = 9"
    using F by (simp_all add: s0_def kcond_init_def kmutex_init_def)
  have I0: "kinv s0 no_threads" "running s0 no_threads"
    using F same by (auto intro!: fresh_kinv split: if_splits)
  have d0: "dom (thrs s0) = {?main}" using F same by simp
  have P0': "packed HS N Map.empty 0 (kheap s0)" and im0: "image_ok HS N im (kram s0)" and room0: "0 + 67 + ?td \<le> N"
    and dm0: "dom (thrs s0) \<subseteq> insert (kthread_main s0) (dom Map.empty)" and main0: "unat (kthread_main s0) < unat HS"
    using P0 im room d0 F by (simp_all add: same)
  obtain p t h m s1 L1 where c1: "kthread_create im j1 sp 0 False s0 = Some (p, s0\<lparr>kheap := h, kram := m, thrs := (thrs s0)(p \<mapsto> t)\<rparr>)"
    "kscheduler_enqueue p (s0\<lparr>kheap := h, kram := m, thrs := (thrs s0)(p \<mapsto> t)\<rparr>) = Some s1"
    "sched_frame (s0\<lparr>kheap := h, kram := m, thrs := (thrs s0)(p \<mapsto> t)\<rparr>) s1" "kthread_current s1 = kthread_current s0"
    "kinv s1 (no_threads(QReady := no_threads QReady @ [p]))" "running s1 (no_threads(QReady := no_threads QReady @ [p]))"
    "p \<notin> dom (thrs s0)" "pc (ctx t) = sp" "packed HS N L1 (0 + 67 + ?td) h" "dom m = dom (kram s0)"
    "insert p (dom (thrs s0)) \<subseteq> insert (kthread_main s0) (dom L1)"
  proof -
    from create_enqueue [OF I0 P0' im0 room0 dm0 main0, of j1 sp 0 False] show thesis by (elim exE conjE) (rule that)
  qed
  note f1 = sched_frameD [OF c1(3)] and g1 = sync_frame_ring [OF sync_frame_sched [OF c1(3)]]
  have d1: "dom (thrs s1) = {?main, p}" using f1(5) d0 by auto
  have Q1: "no_threads(QReady := no_threads QReady @ [p]) = no_threads(QReady := [p])" by (simp add: no_threads_def)
  have im1: "image_ok HS N im (kram s1)" using im g1(8) c1(10) same(7) image_ok_dom [of m "kram s" HS N im] by simp
  have P1: "packed HS N L1 (0 + 67 + ?td) (kheap s1)" and room1: "0 + 67 + ?td + 67 + ?td \<le> N"
    and dm1: "dom (thrs s1) \<subseteq> insert (kthread_main s1) (dom L1)" and main1: "unat (kthread_main s1) < unat HS"
    using c1(9,11) f1(3,4,5) room F same(2) by simp_all
  have Q2: "(no_threads(QReady := [p]))(QReady := (no_threads(QReady := [p])) QReady @ [q]) = no_threads(QReady := [p, q])" for q
    by simp
  obtain q u h' m' s2 L2 where c2: "kthread_create im j2 mn 0 False s1 = Some (q, s1\<lparr>kheap := h', kram := m', thrs := (thrs s1)(q \<mapsto> u)\<rparr>)"
    "kscheduler_enqueue q (s1\<lparr>kheap := h', kram := m', thrs := (thrs s1)(q \<mapsto> u)\<rparr>) = Some s2"
    "sched_frame (s1\<lparr>kheap := h', kram := m', thrs := (thrs s1)(q \<mapsto> u)\<rparr>) s2" "kthread_current s2 = kthread_current s1"
    "kinv s2 (no_threads(QReady := [p, q]))" "running s2 (no_threads(QReady := [p, q]))"
    "q \<notin> dom (thrs s1)" "pc (ctx u) = mn" "packed HS N L2 (0 + 67 + ?td + 67 + ?td) h'"
  proof -
    from create_enqueue [OF c1(5,6) [unfolded Q1] P1 im1 room1 dm1 main1, of j2 mn 0 False, unfolded Q2]
    show thesis by (elim exE conjE) (rule that)
  qed
  note f2 = sched_frameD [OF c2(3)] and g2 = sync_frame_ring [OF sync_frame_sched [OF c2(3)]]
  have "dom (thrs s2) = {?main, p, q}" using f2(5) d1 by auto
  moreover have "distinct [?main, p, q]" using c1(7) c2(7) d0 d1 by auto
  moreover obtain t1 where t1: "thrs s1 p = Some t1" "ctx t1 = ctx t"
    using sync_frame_regs [OF sync_frame_sched [OF c1(3)], of p t] by auto
  moreover have "q \<noteq> p" using c2(7) d1 by auto
  moreover from this t1 obtain t2 where "thrs s2 p = Some t2" "ctx t2 = ctx t"
    using sync_frame_regs [OF sync_frame_sched [OF c2(3)], of p t1] by auto
  moreover obtain u2 where "thrs s2 q = Some u2" "ctx u2 = ctx u"
    using sync_frame_regs [OF sync_frame_sched [OF c2(3)], of q u] by auto
  moreover have "kernel_init HS HE im j1 j2 sp mn s = Some s2"
    using h0(1) c1(1,2) c2(1,2) by (simp add: kernel_init_def ksignal_init_def s0_def kmutex_init_def Let_def)
  moreover have "holds HS N L2 (kheap s2)" using c2(9) f2(4) by (simp add: packed_def)
  ultimately show ?thesis
    using c1(4,8) c2(4-6,8) f1 f2 g1 g2 same
    by (intro exI [of _ s2] exI [of _ p] exI [of _ q] exI [of _ L2] exI [of _ t2] exI [of _ u2]) simp
qed

end
