(* ===== verification/Thread_Properties.thy ===== *)
theory Thread_Properties
  imports Boot Examples Heap_Properties
begin

text \<open>
  The properties of thread creation and destruction.
\<close>

section \<open>An example\<close>

text \<open>An image with one initialised and one zeroed word, as for the example heap of 192 blocks.\<close>

definition demo_image :: image where
  "demo_image = \<lparr>TDATA_START = 0x40001000, TDATA_END = 0x40001004, TBSS_START = 0x40001004, TBSS_END = 0x40001008,
     thread_exit = 0x40000100, sstatus = 0x100, fill_slot = 0x50000F00\<rparr>"

definition mapped_ram :: ram where
  "mapped_ram p = (if 0x40000000 \<le> p \<and> p < 0x40002000 \<or> RAM_START \<le> p \<and> p < RAM_END then Some 0 else None)"

definition boot_state :: kstate where
  "boot_state = (demo_state Map.empty (demo_mutex 0 0 0) \<lparr>cq_head = 0, cq_tail = 0\<rparr> 0 0)\<lparr>kheap := boot_heap, kram := mapped_ram\<rparr>"

lemma boot_holds: "holds 0x50001000 192 Map.empty (kheap boot_state)"
  using boot_heap_inv by (auto simp: holds_def boot_state_def)

lemma boot_image: "image_ok 0x50001000 192 demo_image (kram boot_state)"
proof -
  have r: "p \<in> dom mapped_ram" if "unat (0x50001000 :: u32) \<le> unat p \<and> unat p < unat (0x50001000 :: u32) + 64 * 192" for p
    using that by (auto simp: mapped_ram_def RAM_START_def RAM_END_def word_le_nat_alt word_less_nat_alt)
  have t: "p \<in> dom mapped_ram \<and> unat p < unat (0x50001000 :: u32)" if "p \<in> span 0x40001000 (Suc 4)" for p
  proof -
    have "unat (0x40001000 :: u32) \<le> unat p \<and> unat p < unat (0x40001000 :: u32) + Suc 4"
      using that span_unat [of "0x40001000" "Suc 4" p] by simp
    then show ?thesis by (auto simp: mapped_ram_def word_le_nat_alt word_less_nat_alt)
  qed
  have b: "tdata_bytes demo_image = 4" "tbss_bytes demo_image = 4" by (simp_all add: tdata_bytes_def tbss_bytes_def demo_image_def)
  show ?thesis unfolding image_ok_def b using r t
    by (auto simp: boot_state_def demo_image_def mapped_ram_def RAM_START_def RAM_END_def)
qed

section \<open>Creation\<close>

lemma new_thread_regs:
  assumes "length (regs (ctx junk)) = 16"
  shows "get_reg REG_SP (new_thread im junk f arg svm k d) = k + KTHREAD_STACK_SIZE"
    and "get_reg REG_TP (new_thread im junk f arg svm k d) = d"
    and "get_reg REG_A0 (new_thread im junk f arg svm k d) = arg"
    and "get_reg REG_RA (new_thread im junk f arg svm k d) = thread_exit im"
  using assms by (simp_all add: get_reg_def new_thread_def REG_SP_def REG_TP_def REG_A0_def REG_RA_def)

lemma bit_new_status:
  "bit (status (ctx (new_thread im junk f arg svm k d))) i \<longleftrightarrow> (if i = 8 then svm else bit (sstatus im) i)"
proof -
  define b :: u32 where "b = push_bit 8 1"
  have st: "status (ctx (new_thread im junk f arg svm k d)) = (if svm then sstatus im OR b else sstatus im AND NOT b)"
    by (simp add: new_thread_def b_def)
  have "bit b i \<longleftrightarrow> i = 8" unfolding b_def push_bit_of_1 bit_exp_iff by (auto simp: possible_bit_def)
  then show ?thesis
    unfolding st using bit_imp_le_length [of "sstatus im" i] by (auto simp: bit_or_iff bit_and_iff bit_not_iff)
qed

text \<open>
  C25: Creation is all or nothing. \<open>kthread_create\<close> either returns null, and then only the heap has changed and holds what it
  held before; or it returns a new thread that owns three fresh segments: its record, a stack, and thread-local data that
  hold the initial image and zeros. The thread is ready and in no queue, starts at its function with its argument, the top of
  its own stack and its own thread-local data, returns to \<open>__thread_exit\<close>, and its privilege bit is as asked while the rest
  of the status register is inherited.
\<close>

theorem kthread_create_all_or_nothing:
  assumes L: "holds HS N L (kheap s)" and im: "image_ok HS N im (kram s)" and r: "length (regs (ctx junk)) = 16"
  shows "(\<exists>h. kthread_create im junk f arg svm s = Some (NULL, s\<lparr>kheap := h\<rparr>) \<and> holds HS N L h)
    \<or> (\<exists>p t h m. kthread_create im junk f arg svm s = Some (p, s\<lparr>kheap := h, kram := m, thrs := (thrs s)(p \<mapsto> t)\<rparr>)
         \<and> p \<noteq> NULL \<and> distinct [p, stack t, tdata t] \<and> L p = None \<and> L (stack t) = None \<and> L (tdata t) = None
         \<and> holds HS N (L(p \<mapsto> 2, stack t \<mapsto> 65, tdata t \<mapsto> blocks_of (tdata_size im))) h
         \<and> tdata_ready im (tdata t) (kram s) m
         \<and> state t = READY \<and> next_thr t = NULL \<and> local_data_head t = NULL \<and> pc (ctx t) = f
         \<and> get_reg REG_A0 t = arg \<and> get_reg REG_SP t = stack t + KTHREAD_STACK_SIZE \<and> get_reg REG_TP t = tdata t
         \<and> get_reg REG_RA t = thread_exit im
         \<and> (\<forall>i. bit (status (ctx t)) i = (if i = 8 then svm else bit (sstatus im) i)))"
  using L im
proof (cases rule: kthread_create_cases [where junk = junk and f = f and arg = arg and svm = svm])
  case (none h)
  then show ?thesis by blast
next
  case (some p k d h m)
  let ?t = "new_thread im junk f arg svm k d"
  have t: "stack ?t = k" "tdata ?t = d" "state ?t = READY" "next_thr ?t = NULL" "local_data_head ?t = NULL" "pc (ctx ?t) = f"
    by (simp_all add: new_thread_def)
  have "distinct [p, stack ?t, tdata ?t]" using t some(5-7) by simp
  then show ?thesis
    using some(1,2,8-12) t new_thread_regs [OF r, where im = im and f = f and arg = arg and svm = svm and k = k and d = d]
      bit_new_status [of im junk f arg svm k d]
    by (intro disjI2 exI [of _ p] exI [of _ ?t] exI [of _ h] exI [of _ m]) metis
qed

definition demo_junk :: kthread where "demo_junk = demo_thread CREATED 7 9 3"

lemma demo_junk_regs: "length (regs (ctx demo_junk)) = 16"
  by (simp add: demo_junk_def demo_thread_def demo_regs_def)

theorem kthread_create_all_or_nothing_witness:
  "kthread_create demo_image demo_junk 0x40000200 5 False boot_state \<noteq> None"
  using kthread_create_all_or_nothing [OF boot_holds boot_image demo_junk_regs, of "0x40000200" 5 False] by auto

text \<open>
  C26: A thread that is created and destroyed leaves nothing behind: the destruction does not fault, calls no destructor, and
  the heap, the threads and every other component of the kernel but the raw memory are as before the creation.
\<close>

theorem kthread_create_destroy_roundtrip:
  assumes L: "holds HS N L (kheap s)" and im: "image_ok HS N im (kram s)"
    and c: "kthread_create im junk f arg svm s = Some (p, s')" "p \<noteq> NULL" "thrs s p = None"
  shows "\<exists>h. kthread_destroy p s' = Some (s\<lparr>kheap := h, kram := kram s'\<rparr>) \<and> holds HS N L h"
  using L im
proof (cases rule: kthread_create_cases [where junk = junk and f = f and arg = arg and svm = svm])
  case (none h)
  then show ?thesis using c by simp
next
  case (some q k d h m)
  let ?t = "new_thread im junk f arg svm k d"
  let ?L = "L(p \<mapsto> 2, k \<mapsto> 65, d \<mapsto> blocks_of (tdata_size im))"
  have s': "q = p" "s' = s\<lparr>kheap := h, kram := m, thrs := (thrs s)(p \<mapsto> ?t)\<rparr>" using some(1) c(1) by auto
  have t: "stack ?t = k" "tdata ?t = d" "local_data_head ?t = NULL" by (simp_all add: new_thread_def)
  have "\<exists>h'. kthread_destroy p s' = Some (s'\<lparr>kheap := h', thrs := (thrs s')(p := None)\<rparr>)
    \<and> holds HS N (?L(k := None, d := None, p := None)) h'"
    using kthread_destroy_holds [of HS N ?L s' p ?t 65 "blocks_of (tdata_size im)" 2] some(5-11) t s' by simp
  then obtain h' where h': "kthread_destroy p s' = Some (s'\<lparr>kheap := h', thrs := (thrs s')(p := None)\<rparr>)"
    "holds HS N (?L(k := None, d := None, p := None)) h'" by blast
  have "?L(k := None, d := None, p := None) = L" using some(5-10) s'(1) by (auto simp: fun_eq_iff)
  moreover have "s'\<lparr>kheap := h', thrs := (thrs s')(p := None)\<rparr> = s\<lparr>kheap := h', kram := kram s'\<rparr>"
    using s'(2) fun_upd_idem [of "thrs s" p None] c(3) by simp
  ultimately show ?thesis using h' by metis
qed

text \<open>The example heap has room for a thread.\<close>

lemma boot_create:
  "\<exists>p s'. kthread_create demo_image demo_junk 0x40000200 5 False boot_state = Some (p, s') \<and> p \<noteq> NULL \<and> thrs boot_state p = None"
proof -
  have P: "packed 0x50001000 192 Map.empty 0 (kheap boot_state)"
    using boot_holds by (auto simp: packed_def used_blocks_def)
  have td: "tdata_size demo_image = 8" by (simp add: tdata_size_def demo_image_def)
  have room: "0 + 67 + blocks_of (tdata_size demo_image) \<le> 192" by (simp add: td unat_calculate_blocks)
  have "thrs boot_state = Map.empty" by (simp add: boot_state_def demo_state_def)
  then show ?thesis using create_packed [OF P boot_image room, of demo_junk "0x40000200" 5 False] by auto
qed

theorem kthread_create_destroy_roundtrip_witness:
  "\<exists>p s' h. kthread_create demo_image demo_junk 0x40000200 5 False boot_state = Some (p, s') \<and> p \<noteq> NULL
     \<and> kthread_destroy p s' = Some (boot_state\<lparr>kheap := h, kram := kram s'\<rparr>) \<and> holds 0x50001000 192 Map.empty h"
proof -
  obtain p s' where c: "kthread_create demo_image demo_junk 0x40000200 5 False boot_state = Some (p, s')" "p \<noteq> NULL"
    "thrs boot_state p = None" using boot_create by blast
  show ?thesis using c kthread_create_destroy_roundtrip [OF boot_holds boot_image c] by blast
qed

text \<open>
  At most three threads fit. Of any number of threads created one after the other in any state of the heap, at most three
  exist: the stacks of 65 blocks leave no room for a fourth in the 16 KB of RAM. No creation faults. The kernel itself creates the
  thread that processes signals and the thread of \<open>main\<close>.
\<close>

theorem threads_limit:
  assumes "holds HS N L (kheap s)" and "image_ok HS N im (kram s)"
  shows "\<exists>ps s'. create_all im junk rs s = Some (ps, s') \<and> length ps = length rs
    \<and> length (filter (\<lambda>p. p \<noteq> NULL) ps) \<le> 3"
proof -
  obtain ps s' L' P' where I: "create_all im junk rs s = Some (ps, s')" "length ps = length rs" "holds HS N L' (kheap s')" "finite P'"
      "\<forall>k\<in>P'. L' k = Some 65" "card P' = card ({} :: addr set) + length (filter (\<lambda>p. p \<noteq> NULL) ps)"
    using create_all_stacks [OF assms, of "{}" junk rs] by auto
  have "65 * card P' \<le> 256" using holds_sum [OF I(3-5)] holds_blocks [OF I(3)] by linarith
  then show ?thesis using I by auto
qed

theorem threads_limit_witness:
  "\<exists>ps s'. create_all demo_image demo_junk (replicate 4 (0x40000200, 5, False)) boot_state = Some (ps, s')
    \<and> length (filter (\<lambda>p. p \<noteq> NULL) ps) \<le> 3"
  using threads_limit [OF boot_holds boot_image] by blast

end
