(* ===== verification/Thread_Storage.thy ===== *)
theory Thread_Storage
  imports Thread_Create
begin

text \<open>
  Thread-specific storage as a map from a key and a thread to a value: setting a value changes this value and no other.
\<close>

section \<open>The lists of the threads\<close>

text \<open>What the search of a thread's list reads of a record.\<close>

definition ld_core :: "'a kstate_scheme \<Rightarrow> addr \<Rightarrow> (addr \<times> addr \<times> addr \<times> addr) option" where
  "ld_core s x = map_option (\<lambda>d. (ld_storage d, ld_thread d, ld_data d, next_data d)) (lds s x)"

definition nxd :: "'a kstate_scheme \<Rightarrow> addr \<Rightarrow> addr" where
  "nxd s x = (case ld_core s x of None \<Rightarrow> NULL | Some (k, t, v, n) \<Rightarrow> n)"

definition key_of :: "'a kstate_scheme \<Rightarrow> addr \<Rightarrow> addr option" where
  "key_of s x = map_option fst (ld_core s x)"

definition first_ld :: "'a kstate_scheme \<Rightarrow> addr \<Rightarrow> addr list \<Rightarrow> addr" where
  "first_ld s k xs = (case find (\<lambda>x. key_of s x = Some k) xs of None \<Rightarrow> NULL | Some x \<Rightarrow> x)"

text \<open>\<open>td_list s t p xs\<close>: \<open>xs\<close> are the records from \<open>p\<close> on, all live and of thread \<open>t\<close>.\<close>

definition td_list :: "'a kstate_scheme \<Rightarrow> addr \<Rightarrow> addr \<Rightarrow> addr list \<Rightarrow> bool" where
  "td_list s t p xs \<longleftrightarrow> chain (nxd s) p xs NULL \<and> (\<forall>x\<in>set xs. \<exists>k v n. ld_core s x = Some (k, t, v, n))"

definition wf_tls :: "'a kstate_scheme \<Rightarrow> bool" where
  "wf_tls s \<longleftrightarrow> (\<forall>t r. thrs s t = Some r \<longrightarrow> (\<exists>xs. td_list s t (local_data_head r) xs))
     \<and> (\<forall>k l. lss s k = Some l \<longrightarrow> data_head l \<noteq> NULL \<longrightarrow> lds s (data_head l) \<noteq> None)"

lemma ld_core_None: "ld_core s x = None \<longleftrightarrow> lds s x = None"
  by (simp add: ld_core_def)

lemma ld_core_Some: "ld_core s x = Some (k, t, v, n) \<longleftrightarrow>
    (\<exists>d. lds s x = Some d \<and> ld_storage d = k \<and> ld_thread d = t \<and> ld_data d = v \<and> next_data d = n)"
  by (auto simp: ld_core_def)

lemma td_list_cong:
  assumes "\<forall>x\<in>set xs. ld_core s' x = ld_core s x"
  shows "td_list s' t p xs = td_list s t p xs" and "first_ld s' k xs = first_ld s k xs"
proof -
  have "chain (nxd s') p xs NULL = chain (nxd s) p xs NULL" by (rule chain_cong) (use assms in \<open>simp add: nxd_def\<close>)
  then show "td_list s' t p xs = td_list s t p xs" using assms by (simp add: td_list_def)
  have "find (\<lambda>x. key_of s' x = Some k) xs = find (\<lambda>x. key_of s x = Some k) xs"
    by (rule find_cong) (use assms in \<open>simp_all add: key_of_def\<close>)
  then show "first_ld s' k xs = first_ld s k xs" by (simp add: first_ld_def)
qed

lemma first_ld_cases:
  "first_ld s k xs = NULL \<or> first_ld s k xs \<in> set xs \<and> key_of s (first_ld s k xs) = Some k"
  unfolding first_ld_def by (auto split: option.splits simp: find_Some_iff)

text \<open>The search returns the first record of the key.\<close>

lemma find_ld_first:
  "td_list s t p xs \<Longrightarrow> find_ld k p s = Some (first_ld s k xs)"
proof (induction xs arbitrary: p)
  case Nil
  then show ?case by (simp add: td_list_def find_ld.simps first_ld_def)
next
  case (Cons x xs)
  obtain d where d: "lds s x = Some d" using Cons.prems by (auto simp: td_list_def ld_core_Some)
  have nx: "nxd s x = next_data d" using d by (simp add: nxd_def ld_core_def)
  have p: "p = x" "x \<noteq> NULL" "td_list s t (next_data d) xs" using Cons.prems nx by (auto simp: td_list_def)
  have key: "key_of s x = Some k \<longleftrightarrow> ld_storage d = k" using d by (simp add: key_of_def ld_core_def)
  show ?case
    using Cons.IH [OF p(3)] p(1,2) d key by (simp add: find_ld.simps [of k x s] first_ld_def)
qed

text \<open>Reading: a value of the list, or null.\<close>

definition td_value :: "'a kstate_scheme \<Rightarrow> addr \<Rightarrow> addr list \<Rightarrow> addr" where
  "td_value s k xs = (let x = first_ld s k xs in if x = NULL then NULL else fst (snd (snd (the (ld_core s x)))))"

lemma ls_get_value:
  assumes r: "thrs s t = Some r" and xs: "td_list s t (local_data_head r) xs"
  shows "kthread_ls_get k t s = Some (td_value s k xs)"
proof -
  let ?x = "first_ld s k xs"
  have f: "find_ld k (local_data_head r) s = Some ?x" by (rule find_ld_first [OF xs])
  show ?thesis
  proof (cases "?x = NULL")
    case True
    then show ?thesis using r f by (simp add: kthread_ls_get_def td_value_def)
  next
    case False
    then have "?x \<in> set xs" using first_ld_cases by metis
    then obtain d where "lds s ?x = Some d" using xs by (auto simp: td_list_def ld_core_Some)
    then show ?thesis using r f False by (simp add: kthread_ls_get_def td_value_def ld_core_def Let_def)
  qed
qed

lemma ls_get_dead: "thrs s t = None \<Longrightarrow> kthread_ls_get k t s = None"
  by (simp add: kthread_ls_get_def)

section \<open>Setting a value\<close>

text \<open>The key has a record: its data is overwritten.\<close>

lemma set_existing:
  assumes r: "thrs s t = Some r" and xs: "td_list s t (local_data_head r) xs" and x: "x = first_ld s k xs" "x \<noteq> NULL"
  shows "\<exists>s' t' n. kthread_ls_set k t v s = Some (STATUS_SUCCESS, s') \<and> ld_core s x = Some (k, t, t', n)
    \<and> ld_core s' = (ld_core s)(x \<mapsto> (k, t, v, n)) \<and> thrs s' = thrs s \<and> lss s' = lss s \<and> kheap s' = kheap s"
proof -
  have m: "x \<in> set xs" "key_of s x = Some k" using first_ld_cases [of s k xs] x by auto
  obtain d where d: "lds s x = Some d" "ld_thread d = t" using xs m(1) by (auto simp: td_list_def ld_core_Some)
  have k: "ld_storage d = k" using m(2) d(1) by (simp add: key_of_def ld_core_def)
  have "kthread_ls_set k t v s = Some (STATUS_SUCCESS, s\<lparr>lds := (lds s)(x \<mapsto> d\<lparr>ld_data := v\<rparr>)\<rparr>)"
    using r find_ld_first [OF xs, of k] x d(1) by (simp add: kthread_ls_set_def kernel_simps)
  moreover have "ld_core (s\<lparr>lds := (lds s)(x \<mapsto> d\<lparr>ld_data := v\<rparr>)\<rparr>) = (ld_core s)(x \<mapsto> (k, t, v, next_data d))"
    using d k by (auto simp: ld_core_def fun_eq_iff)
  moreover have "ld_core s x = Some (k, t, ld_data d, next_data d)" using d k by (simp add: ld_core_def)
  ultimately show ?thesis by (intro exI conjI) (assumption | simp)+
qed

text \<open>The key has no record: a new one is put at the head of both lists.\<close>

lemma set_new:
  assumes wf: "wf_tls s" and r: "thrs s t = Some r" and xs: "td_list s t (local_data_head r) xs" and none: "first_ld s k xs = NULL"
    and l: "lss s k = Some l" and p: "kalloc sizeof_kthread_ld s = Some (p, s\<lparr>kheap := h\<rparr>)" "p \<noteq> NULL" "lds s p = None"
  shows "\<exists>s'. kthread_ls_set k t v s = Some (STATUS_SUCCESS, s') \<and> ld_core s' = (ld_core s)(p \<mapsto> (k, t, v, local_data_head r))
    \<and> thrs s' = (thrs s)(t \<mapsto> r\<lparr>local_data_head := p\<rparr>) \<and> lss s' = (lss s)(k \<mapsto> l\<lparr>data_head := p\<rparr>) \<and> kheap s' = h"
proof -
  let ?new = "\<lparr>ld_storage = k, ld_thread = t, ld_data = v, prev_thread = NULL, next_thread = data_head l,
            prev_data = NULL, next_data = local_data_head r\<rparr>"
  let ?s1 = "s\<lparr>kheap := h, lds := (lds s)(p \<mapsto> ?new)\<rparr>"
  let ?h = "local_data_head r" and ?g = "data_head l"
  have h: "?h = NULL \<or> (\<exists>d. lds s ?h = Some d)" using xs by (cases xs) (auto simp: td_list_def ld_core_Some)
  have g: "?g = NULL \<or> (\<exists>d. lds s ?g = Some d)" using wf l by (auto simp: wf_tls_def)
  have hp: "?h \<noteq> NULL \<Longrightarrow> ?h \<noteq> p" and gp: "?g \<noteq> NULL \<Longrightarrow> ?g \<noteq> p" using h g p(3) by auto
  obtain s2 where s2: "(if ?h \<noteq> NULL then upd_ld ?h (\<lambda>d. d\<lparr>prev_data := p\<rparr>) ?s1 else Some ?s1) = Some s2"
    "ld_core s2 = ld_core ?s1" "thrs s2 = thrs s" "lss s2 = lss s" "kheap s2 = h"
  proof (cases "?h = NULL")
    case True
    then show ?thesis using that [of ?s1] by simp
  next
    case False
    then obtain d where d: "lds ?s1 ?h = Some d" using h hp by auto
    have "ld_core (?s1\<lparr>lds := (lds ?s1)(?h \<mapsto> d\<lparr>prev_data := p\<rparr>)\<rparr>) = ld_core ?s1"
      using d by (auto simp: ld_core_def fun_eq_iff)
    then show ?thesis
      using that [of "?s1\<lparr>lds := (lds ?s1)(?h \<mapsto> d\<lparr>prev_data := p\<rparr>)\<rparr>"] False upd_Some(5) [OF d] by simp
  qed
  let ?s3 = "s2\<lparr>thrs := (thrs s2)(t \<mapsto> r\<lparr>local_data_head := p\<rparr>)\<rparr>"
  have u3: "upd_thr t (\<lambda>t. t\<lparr>local_data_head := p\<rparr>) s2 = Some ?s3" using s2(3) r by (simp add: kernel_simps)
  have c1: "ld_core ?s1 = (ld_core s)(p \<mapsto> (k, t, v, ?h))" by (auto simp: ld_core_def fun_eq_iff)
  have c3: "ld_core ?s3 = ld_core s2" by (auto simp: ld_core_def fun_eq_iff)
  obtain s4 where s4: "(if ?g \<noteq> NULL then upd_ld ?g (\<lambda>d. d\<lparr>prev_thread := p\<rparr>) ?s3 else Some ?s3) = Some s4"
    "ld_core s4 = ld_core ?s3" "thrs s4 = thrs ?s3" "lss s4 = lss s" "kheap s4 = h"
  proof (cases "?g = NULL")
    case True
    then show ?thesis using that [of ?s3] s2 by simp
  next
    case False
    then have "ld_core ?s3 ?g \<noteq> None" using g gp c3 s2(2) c1 by (auto simp: ld_core_None)
    then obtain d where d: "lds ?s3 ?g = Some d" by (auto simp: ld_core_None)
    have "ld_core (?s3\<lparr>lds := (lds ?s3)(?g \<mapsto> d\<lparr>prev_thread := p\<rparr>)\<rparr>) = ld_core ?s3"
      using d by (auto simp: ld_core_def fun_eq_iff)
    then show ?thesis
      using that [of "?s3\<lparr>lds := (lds ?s3)(?g \<mapsto> d\<lparr>prev_thread := p\<rparr>)\<rparr>"] False upd_Some(5) [OF d] s2 by simp
  qed
  let ?s5 = "s4\<lparr>lss := (lss s4)(k \<mapsto> l\<lparr>data_head := p\<rparr>)\<rparr>"
  have u5: "upd_ls k (\<lambda>l. l\<lparr>data_head := p\<rparr>) s4 = Some ?s5" using s4(4) l by (simp add: kernel_simps)
  have "kthread_ls_set k t v s = Some (STATUS_SUCCESS, ?s5)"
    using r find_ld_first [OF xs, of k] none p(1,2) l s2(1) u3 s4(1) u5
    by (simp add: kthread_ls_set_def Let_def cong: if_cong)
  moreover have "ld_core ?s5 = (ld_core s)(p \<mapsto> (k, t, v, ?h))" using s4(2) c3 s2(2) c1 by (simp add: ld_core_def fun_eq_iff)
  ultimately show ?thesis using s2(3) s4(3-5) by (intro exI [of _ ?s5]) simp
qed

end
