(* ===== verification/Storage_Properties.thy ===== *)
theory Storage_Properties
  imports Thread_Storage Thread_Properties
begin

text \<open>
  The properties of thread-specific storage.
\<close>

section \<open>Setting a value\<close>

lemma good_ld: "good_size sizeof_kthread_ld"
  by (simp add: good_size_def sizeof_kthread_ld_def)

text \<open>After writing the record \<open>x\<close> of a key, the lists read as before, but for the value of that key.\<close>

lemma td_value_overwrite:
  assumes c: "ld_core s' = (ld_core s)(x \<mapsto> (k, t, v, n))" "ld_core s x = Some (k, t, u, n)"
    and xs: "td_list s t' p xs"
  shows "td_list s' t' p xs" and "first_ld s' k' xs = first_ld s k' xs"
    and "td_value s' k' xs = (if first_ld s k' xs = x \<and> x \<noteq> NULL then v else td_value s k' xs)"
proof -
  have nx: "nxd s' = nxd s" using c by (auto simp: nxd_def fun_eq_iff)
  have key: "key_of s' = key_of s" using c by (auto simp: key_of_def fun_eq_iff)
  have "\<forall>y\<in>set xs. \<exists>k v n. ld_core s' y = Some (k, t', v, n)" using c xs by (auto simp: td_list_def)
  then show "td_list s' t' p xs" using xs nx by (simp add: td_list_def)
  show f: "first_ld s' k' xs = first_ld s k' xs" using key by (simp add: first_ld_def)
  show "td_value s' k' xs = (if first_ld s k' xs = x \<and> x \<noteq> NULL then v else td_value s k' xs)"
    using c by (auto simp: td_value_def f Let_def)
qed

lemma wf_tls_list: "wf_tls s \<Longrightarrow> thrs s t = Some r \<Longrightarrow> \<exists>xs. td_list s t (local_data_head r) xs"
  unfolding wf_tls_def by blast

lemma ls_set_cases:
  assumes wf: "wf_tls s" and L: "holds HS N L (kheap s)" and d: "dom (lds s) \<subseteq> dom L"
    and t: "thrs s t = Some r" and k: "lss s k = Some l"
  obtains (full) "kthread_ls_set k t v s = Some (STATUS_NO_MEMORY, s)"
  | (set) s' L' where "kthread_ls_set k t v s = Some (STATUS_SUCCESS, s')" "wf_tls s'" "holds HS N L' (kheap s')" "dom (lds s') \<subseteq> dom L'"
      "\<forall>k' t'. kthread_ls_get k' t' s' = (if k' = k \<and> t' = t then Some v else kthread_ls_get k' t' s)"
proof -
  obtain xs where xs: "td_list s t (local_data_head r) xs" using wf_tls_list [OF wf t] by blast
  show thesis
  proof (cases "first_ld s k xs = NULL")
    case False
    define x where "x = first_ld s k xs"
    obtain s' u n where S: "kthread_ls_set k t v s = Some (STATUS_SUCCESS, s')" "ld_core s x = Some (k, t, u, n)"
      "ld_core s' = (ld_core s)(x \<mapsto> (k, t, v, n))" "thrs s' = thrs s" "lss s' = lss s" "kheap s' = kheap s"
      using set_existing [OF t xs x_def] False x_def by blast
    note O = td_value_overwrite [OF S(3,2)]
    have live: "lds s' y = None \<longleftrightarrow> lds s y = None" for y unfolding ld_core_None [symmetric] using S(2,3) by simp
    have wf': "wf_tls s'" using wf O(1) live S(4,5) unfolding wf_tls_def by metis
    have get: "kthread_ls_get k' t' s' = (if k' = k \<and> t' = t then Some v else kthread_ls_get k' t' s)" for k' t'
    proof (cases "thrs s t'")
      case None
      then show ?thesis using ls_get_dead [of s t'] ls_get_dead [of s' t'] S(4) t by auto
    next
      case (Some r')
      obtain ys where ys: "td_list s t' (local_data_head r') ys" using wf_tls_list [OF wf Some] by blast
      have G: "kthread_ls_get k' t' s = Some (td_value s k' ys)" "kthread_ls_get k' t' s' = Some (td_value s' k' ys)"
        using ls_get_value [OF Some ys] ls_get_value [of s' t' r' ys k'] Some S(4) O(1) [OF ys] by simp_all
      have "first_ld s k' ys = x \<longleftrightarrow> k' = k \<and> t' = t"
      proof
        assume "first_ld s k' ys = x"
        moreover have "x \<noteq> NULL" using False x_def by simp
        ultimately have "x \<in> set ys" "key_of s x = Some k'" using first_ld_cases [of s k' ys] by auto
        then show "k' = k \<and> t' = t" using S(2) ys by (auto simp: td_list_def key_of_def)
      next
        assume "k' = k \<and> t' = t"
        moreover from this have "ys = xs"
          using Some t ys xs chain_unique [of "nxd s" "local_data_head r" ys xs] by (simp add: td_list_def)
        ultimately show "first_ld s k' ys = x" using x_def by simp
      qed
      then show ?thesis using G O(3) [OF ys, of k'] False x_def by auto
    qed
    have "dom (lds s') \<subseteq> dom L" using live d by (simp add: dom_def)
    then show ?thesis using that(2) [OF S(1) wf' _ _ allI [OF allI [OF get]]] L S(6) by simp
  next
    case True
    from L good_ld show ?thesis
    proof (cases rule: kalloc_cases)
      case none
      have "kthread_ls_set k t v s = Some (STATUS_NO_MEMORY, s)"
        using t find_ld_first [OF xs, of k] True none by (simp add: kthread_ls_set_def)
      then show ?thesis by (rule that(1))
    next
      case (some p h)
      have fresh: "lds s p = None" using some(3) d by auto
      obtain s' where S: "kthread_ls_set k t v s = Some (STATUS_SUCCESS, s')" "ld_core s' = (ld_core s)(p \<mapsto> (k, t, v, local_data_head r))"
        "thrs s' = (thrs s)(t \<mapsto> r\<lparr>local_data_head := p\<rparr>)" "lss s' = (lss s)(k \<mapsto> l\<lparr>data_head := p\<rparr>)" "kheap s' = h"
        using set_new [OF wf t xs True k some(1,2) fresh] by blast
      have live: "lds s' y = None \<longleftrightarrow> lds s y = None \<and> y \<noteq> p" for y
        unfolding ld_core_None [symmetric] using S(2) by simp
      have old: "td_list s' t' q ys" "first_ld s' k' ys = first_ld s k' ys" "td_value s' k' ys = td_value s k' ys"
        if ys: "td_list s t' q ys" for t' q ys k'
      proof -
        have "\<forall>x\<in>set ys. ld_core s' x = ld_core s x" using ys fresh S(2) by (auto simp: td_list_def ld_core_Some)
        note C = td_list_cong [OF this]
        show "td_list s' t' q ys" "first_ld s' k' ys = first_ld s k' ys" using C ys by simp_all
        then show "td_value s' k' ys = td_value s k' ys"
          using first_ld_cases [of s k' ys] \<open>\<forall>x\<in>set ys. ld_core s' x = ld_core s x\<close> by (auto simp: td_value_def Let_def)
      qed
      have new: "td_list s' t p (p # xs)" using old(1) [OF xs] S(2) some(2) by (auto simp: td_list_def nxd_def)
      have newv: "td_value s' k' (p # xs) = (if k' = k then v else td_value s k' xs)" for k'
      proof (cases "k' = k")
        case True
        then show ?thesis using S(2) some(2) by (simp add: td_value_def first_ld_def key_of_def)
      next
        case False
        then have "first_ld s' k' (p # xs) = first_ld s' k' xs" using S(2) by (simp add: first_ld_def key_of_def)
        then show ?thesis using False old(3) [OF xs, of k'] by (simp add: td_value_def)
      qed
      have wf': "wf_tls s'"
        unfolding wf_tls_def
      proof (intro conjI allI impI)
        fix t' r' assume "thrs s' t' = Some r'"
        then show "\<exists>ys. td_list s' t' (local_data_head r') ys"
          using S(3) new old(1) wf_tls_list [OF wf, of t' r'] by (cases "t' = t") auto
      next
        fix k' l' assume "lss s' k' = Some l'" "data_head l' \<noteq> NULL"
        then show "lds s' (data_head l') \<noteq> None" using S(4) live wf by (cases "k' = k") (auto simp: wf_tls_def)
      qed
      have get: "kthread_ls_get k' t' s' = (if k' = k \<and> t' = t then Some v else kthread_ls_get k' t' s)" for k' t'
      proof (cases "t' = t")
        case True
        have "kthread_ls_get k' t s' = Some (td_value s' k' (p # xs))"
          by (rule ls_get_value [of s' t "r\<lparr>local_data_head := p\<rparr>"]) (use S(3) new in simp_all)
        then show ?thesis using True newv ls_get_value [OF t xs, of k'] by simp
      next
        case False
        show ?thesis
        proof (cases "thrs s t'")
          case None
          then show ?thesis using ls_get_dead [of s t'] ls_get_dead [of s' t'] S(3) False by simp
        next
          case (Some r')
          obtain ys where ys: "td_list s t' (local_data_head r') ys" using wf_tls_list [OF wf Some] by blast
          then show ?thesis
            using ls_get_value [OF Some ys, of k'] ls_get_value [of s' t' r' ys k'] Some S(3) False old(1,3) [OF ys] by simp
        qed
      qed
      have "dom (lds s') \<subseteq> insert p (dom (lds s))" using live by (simp add: subset_iff domIff)
      then have "dom (lds s') \<subseteq> dom (L(p \<mapsto> blocks_of sizeof_kthread_ld))" using d by auto
      then show ?thesis using that(2) [OF S(1) wf' _ _ allI [OF allI [OF get]]] some(4) S(5) by simp
    qed
  qed
qed

section \<open>Storage as a map\<close>

text \<open>
  C27: Thread-specific storage is a map from a key and a thread to a value. Setting either finds no memory and changes
  nothing, or succeeds: then the thread reads the new value under this key, every other value of every thread reads
  as before, and the lists stay well formed.
\<close>

theorem tls_set_get:
  assumes wf: "wf_tls s" and L: "holds HS N L (kheap s)" and d: "dom (lds s) \<subseteq> dom L"
    and t: "thrs s t = Some r" and k: "lss s k = Some l"
  shows "kthread_ls_set k t v s = Some (STATUS_NO_MEMORY, s)
    \<or> (\<exists>s' L'. kthread_ls_set k t v s = Some (STATUS_SUCCESS, s') \<and> wf_tls s' \<and> holds HS N L' (kheap s') \<and> dom (lds s') \<subseteq> dom L'
         \<and> (\<forall>k' t'. kthread_ls_get k' t' s' = (if k' = k \<and> t' = t then Some v else kthread_ls_get k' t' s)))"
  using assms by (cases rule: ls_set_cases [where v = v]) blast+

definition tls_state :: kstate where
  "tls_state = boot_state\<lparr>thrs := [T1 \<mapsto> demo_thread RUNNING 0 0 0], lss := [MTX \<mapsto> \<lparr>ls_dtor = 0, data_head = 0\<rparr>, CND \<mapsto> \<lparr>ls_dtor = 0, data_head = 0\<rparr>]\<rparr>"

lemma tls_state_wf: "wf_tls tls_state"
proof -
  have "td_list tls_state T1 NULL []" by (simp add: td_list_def)
  then show ?thesis unfolding wf_tls_def tls_state_def by (auto simp: demo_thread_def)
qed

theorem tls_set_get_witness:
  "kthread_ls_set MTX T1 7 tls_state = Some (STATUS_NO_MEMORY, tls_state)
    \<or> (\<exists>s'. kthread_ls_set MTX T1 7 tls_state = Some (STATUS_SUCCESS, s') \<and> kthread_ls_get MTX T1 s' = Some 7)"
proof -
  have "holds 0x50001000 192 Map.empty (kheap tls_state)" using boot_holds by (simp add: tls_state_def)
  moreover have "dom (lds tls_state) \<subseteq> dom (Map.empty :: addr \<rightharpoonup> nat)"
    by (simp add: tls_state_def boot_state_def demo_state_def)
  moreover have "thrs tls_state T1 = Some (demo_thread RUNNING 0 0 0)" "lss tls_state MTX = Some \<lparr>ls_dtor = 0, data_head = 0\<rparr>"
    by (simp_all add: tls_state_def demo_addr)
  ultimately show ?thesis using tls_set_get [OF tls_state_wf, of _ _ _ T1 _ MTX _ 7] by fastforce
qed

text \<open>
  C28: Destroying one key loses the values of others. When a thread has the only record of key \<open>k\<close> and \<open>k\<close> is destroyed, the code
  writes the next record of the key (null) into the head of the thread's list, so the thread then reads null under every key.
\<close>

theorem ls_destroy_loses_values:
  assumes L: "holds HS N L (kheap s)" "L x = Some a" "L k = Some b" "x \<noteq> k"
    and k: "lss s k = Some l" "data_head l = x"
    and x: "lds s x = Some d" "prev_thread d = NULL" "next_thread d = NULL" "ld_thread d = t" and t: "thrs s t = Some r"
  shows "\<exists>s'. kthread_ls_destroy k s = Some s' \<and> (\<forall>k'. kthread_ls_get k' t s' = Some NULL)"
proof -
  have nn: "x \<noteq> NULL" by (rule holds_range(3) [OF L(1,2)])
  let ?s1 = "s\<lparr>thrs := (thrs s)(t \<mapsto> r\<lparr>local_data_head := NULL\<rparr>)\<rparr>"
  obtain h1 where h1: "kfree x ?s1 = Some (?s1\<lparr>kheap := h1\<rparr>)" "holds HS N (L(x := None)) h1"
    using kfree_holds [of HS N L ?s1 x a] L by auto
  let ?s2 = "?s1\<lparr>kheap := h1, lds := (lds s)(x := None)\<rparr>"
  obtain h2 where h2: "kfree k ?s2 = Some (?s2\<lparr>kheap := h2\<rparr>)"
    using kfree_holds [of HS N "L(x := None)" ?s2 k b] L h1(2) by auto
  have "ls_destroy_loop x s = Some ?s2"
    using x t nn h1(1) by (simp add: ls_destroy_loop.simps [of x] ls_destroy_loop.simps [of NULL] kernel_simps)
  then have "kthread_ls_destroy k s = Some (?s2\<lparr>kheap := h2, lss := (lss s)(k := None)\<rparr>)"
    using k h2 by (simp add: kthread_ls_destroy_def)
  then show ?thesis by (auto simp: kthread_ls_get_def find_ld.simps [of _ NULL])
qed

text \<open>One thread with values under two keys; the record of the first key lies behind that of the second.\<close>

lemma two_segments:
  "\<exists>h :: heap. holds 0x50001000 192 [0x5000100C \<mapsto> 1, 0x5000104C \<mapsto> 1] h"
proof -
  have g: "good_size 20" by (simp add: good_size_def)
  have c: "unat (calculate_blocks 20) = 1" by (simp add: unat_calculate_blocks)
  have "holds 0x50001000 192 [0x5000100C \<mapsto> 1, 0x5000104C \<mapsto> 1] h"
    if "heap_inv 0x50001000 192 [0 \<mapsto> 1, 1 \<mapsto> 1] h" for h :: heap
    using that unfolding holds_def
    by (intro exI [of _ "[0 \<mapsto> 1, 1 \<mapsto> 1]"] conjI)
      (auto simp: data_of_def baddr_def sizeof_mem_segment_def KMEM_BLOCK_SIZE_def)
  moreover have "\<exists>h :: heap. heap_inv 0x50001000 192 [0 \<mapsto> 1, 1 \<mapsto> 1] h"
  proof -
    obtain h :: heap where h: "heap_inv 0x50001000 192 [0 \<mapsto> 1] h" using boot_heap_alloc [OF g] c by auto
    have f: "fits 192 [0 \<mapsto> 1] 1 1" by (auto simp: fits_def free_cells_def used_def)
    have "\<not> fits 192 [0 \<mapsto> 1] 1 0" by (auto simp: fits_def free_cells_def used_def)
    then have l: "(LEAST i. fits 192 [0 \<mapsto> 1] 1 i) = 1"
      using f by (intro Least_equality) (auto simp: Suc_le_eq intro: gr0I)
    have ex: "\<exists>i. fits 192 [0 \<mapsto> 1] 1 i" using f by blast
    show ?thesis using kheap_alloc_heap_inv [OF h c [symmetric]] unfolding if_P [OF ex] l by auto
  qed
  ultimately show ?thesis by blast
qed

definition lossy_state :: "heap \<Rightarrow> kstate" where
  "lossy_state h = boot_state\<lparr>kheap := h, thrs := [T1 \<mapsto> (demo_thread RUNNING 0 0 0)\<lparr>local_data_head := 0x5000100C\<rparr>],
     lss := [MTX \<mapsto> \<lparr>ls_dtor = 0, data_head = CND\<rparr>, 0x5000104C \<mapsto> \<lparr>ls_dtor = 0, data_head = 0x5000100C\<rparr>],
     lds := [CND \<mapsto> \<lparr>ld_storage = MTX, ld_thread = T1, ld_data = 7, prev_thread = 0, next_thread = 0, prev_data = 0x5000100C, next_data = 0\<rparr>,
        0x5000100C \<mapsto> \<lparr>ld_storage = 0x5000104C, ld_thread = T1, ld_data = 9, prev_thread = 0, next_thread = 0, prev_data = 0, next_data = CND\<rparr>]\<rparr>"

theorem ls_destroy_loses_values_witness:
  "\<exists>(s :: kstate) s'. kthread_ls_get MTX T1 s = Some 7 \<and> kthread_ls_destroy 0x5000104C s = Some s' \<and> kthread_ls_get MTX T1 s' = Some NULL"
proof -
  obtain h :: heap where h: "holds 0x50001000 192 [0x5000100C \<mapsto> 1, 0x5000104C \<mapsto> 1] h" using two_segments by blast
  let ?s = "lossy_state h" and ?x = "0x5000100C :: addr" and ?k = "0x5000104C :: addr"
  have f: "find_ld MTX CND ?s = Some CND" by (subst find_ld.simps) (simp add: lossy_state_def demo_addr)
  have "find_ld MTX ?x ?s = Some CND"
    unfolding f [symmetric] by (subst find_ld.simps) (simp add: lossy_state_def demo_addr)
  then have "kthread_ls_get MTX T1 ?s = Some 7" by (simp add: kthread_ls_get_def lossy_state_def) (simp add: demo_addr)
  moreover have "\<exists>s'. kthread_ls_destroy ?k ?s = Some s' \<and> (\<forall>k'. kthread_ls_get k' T1 s' = Some NULL)"
    by (rule ls_destroy_loses_values [where HS = "0x50001000" and N = 192 and L = "[0x5000100C \<mapsto> 1, 0x5000104C \<mapsto> 1]" and x = "?x"],
      use h in \<open>simp_all add: lossy_state_def demo_addr\<close>) simp_all
  ultimately show ?thesis by blast
qed

end
