(* ===== verification/Memory.thy ===== *)
theory Memory
  imports Dma
begin

text \<open>
  The memory functions of the C library: \<^verbatim>\<open>Software/src/std/string/memory_functions.c\<close>. An \<open>int\<close> parameter that
  is compared with a byte is a 32-bit word; the results of comparisons are integers.
\<close>

section \<open>Functions\<close>

partial_function (option) memchr_loop :: "addr \<Rightarrow> u32 \<Rightarrow> u32 \<Rightarrow> u32 \<Rightarrow> ram \<Rightarrow> addr option" where
  "memchr_loop cptr ch count i m =
     (if i < count
      then do {
        c \<leftarrow> m (cptr + i);
        if ucast c = ch then Some (cptr + i) else memchr_loop cptr ch count (i + 1) m
      }
      else Some NULL)"

definition memchr :: "addr \<Rightarrow> u32 \<Rightarrow> u32 \<Rightarrow> ram \<Rightarrow> addr option" where
  "memchr ptr ch count m = memchr_loop ptr ch count 0 m"

partial_function (option) memcmp_loop :: "addr \<Rightarrow> addr \<Rightarrow> u32 \<Rightarrow> u32 \<Rightarrow> ram \<Rightarrow> int option" where
  "memcmp_loop clhs crhs count i m =
     (if i < count
      then do {
        l \<leftarrow> m (clhs + i);
        r \<leftarrow> m (crhs + i);
        if l < r then Some (-1)
        else if l > r then Some 1
        else memcmp_loop clhs crhs count (i + 1) m
      }
      else Some 0)"

definition memcmp :: "addr \<Rightarrow> addr \<Rightarrow> u32 \<Rightarrow> ram \<Rightarrow> int option" where
  "memcmp lhs rhs count m = memcmp_loop lhs rhs count 0 m"

text \<open>\<open>slot\<close> is the stack slot of the value parameter of \<open>dma_fill\<close>; \<open>ch\<close> is converted to a character.\<close>

definition memset :: "addr \<Rightarrow> addr \<Rightarrow> u32 \<Rightarrow> u32 \<Rightarrow> ram \<Rightarrow> (addr \<times> ram) option" where
  "memset slot dest ch count m = do { m \<leftarrow> dma_fill slot dest count (ucast ch) False m; Some (dest, m) }"

definition memset_explicit :: "addr \<Rightarrow> addr \<Rightarrow> u32 \<Rightarrow> u32 \<Rightarrow> ram \<Rightarrow> (addr \<times> ram) option" where
  "memset_explicit slot dest ch count m = memset slot dest ch count m"

definition memcpy :: "addr \<Rightarrow> addr \<Rightarrow> u32 \<Rightarrow> ram \<Rightarrow> (addr \<times> ram) option" where
  "memcpy dest src count m = do { m \<leftarrow> dma_copy src dest count False m; Some (dest, m) }"

partial_function (option) memccpy_loop :: "addr \<Rightarrow> addr \<Rightarrow> u32 \<Rightarrow> u32 \<Rightarrow> u32 \<Rightarrow> ram \<Rightarrow> (addr \<times> ram) option" where
  "memccpy_loop cdest csrc c count i m =
     (if i < count
      then do {
        b \<leftarrow> m (csrc + i);
        m \<leftarrow> store8 (cdest + i) b m;
        b \<leftarrow> m (csrc + i);
        if ucast b = c then Some (cdest + i, m) else memccpy_loop cdest csrc c count (i + 1) m
      }
      else Some (NULL, m))"

definition memccpy :: "addr \<Rightarrow> addr \<Rightarrow> u32 \<Rightarrow> u32 \<Rightarrow> ram \<Rightarrow> (addr \<times> ram) option" where
  "memccpy dest src c count m = memccpy_loop dest src c count 0 m"

definition memmove :: "addr \<Rightarrow> addr \<Rightarrow> u32 \<Rightarrow> ram \<Rightarrow> (addr \<times> ram) option" where
  "memmove dest src count m = do {
     m \<leftarrow> (if dest < src then dma_copy src dest count False m
           else if dest > src then dma_rcopy src dest count False m
           else Some m);
     Some (dest, m)
   }"

section \<open>Byte sequences in memory\<close>

definition bytes_at :: "ram \<Rightarrow> addr \<Rightarrow> u8 list \<Rightarrow> bool" where
  "bytes_at m p xs \<longleftrightarrow> (\<forall>i<length xs. m (p + of_nat i) = Some (xs ! i))"

lemma bytes_at_nth: "bytes_at m p xs \<Longrightarrow> i < length xs \<Longrightarrow> m (p + of_nat i) = Some (xs ! i)"
  by (simp add: bytes_at_def)

lemma bytes_at_cong: "\<forall>q\<in>span p (length xs). m' q = m q \<Longrightarrow> bytes_at m' p xs = bytes_at m p xs"
  by (auto simp: bytes_at_def span_def)

lemma index_less: "i < n \<Longrightarrow> n < 4294967296 \<Longrightarrow> (of_nat i :: u32) < of_nat n"
  by (simp add: word_less_nat_alt unat_of_nat_u32)

lemma of_nat_Suc_u32: "(of_nat i :: u32) + 1 = of_nat (Suc i)"
  by simp

text \<open>\<open>memchr\<close> finds the first byte that equals the character.\<close>

lemma memchr_finds:
  assumes xs: "bytes_at m p xs" "length xs < 4294967296"
  shows "memchr p ch (of_nat (length xs)) m =
    Some (case find (\<lambda>i. ucast (xs ! i) = ch) [0..<length xs] of None \<Rightarrow> NULL | Some i \<Rightarrow> p + of_nat i)"
proof -
  have "memchr_loop p ch (of_nat (length xs)) (of_nat i) m =
    Some (case find (\<lambda>i. ucast (xs ! i) = ch) [i..<length xs] of None \<Rightarrow> NULL | Some i \<Rightarrow> p + of_nat i)"
    if "i \<le> length xs" for i
    using that
  proof (induction rule: inc_induct)
    case base
    then show ?case by (simp add: memchr_loop.simps)
  next
    case (step i)
    note lt = index_less [OF step.hyps(2) xs(2)]
    show ?case
      using step.IH step.hyps lt bytes_at_nth [OF xs(1) step.hyps(2)]
      by (subst memchr_loop.simps) (simp add: upt_conv_Cons add.commute [of 1])
  qed
  from this [of 0] show ?thesis by (simp add: memchr_def)
qed

text \<open>\<open>memcmp\<close> compares byte by byte.\<close>

fun compare_bytes :: "u8 list \<Rightarrow> u8 list \<Rightarrow> int" where
  "compare_bytes (x # xs) (y # ys) = (if x < y then -1 else if y < x then 1 else compare_bytes xs ys)"
| "compare_bytes _ _ = 0"

lemma memcmp_compares:
  assumes xs: "bytes_at m p xs" "length xs < 4294967296" and ys: "bytes_at m q ys" "length ys = length xs"
  shows "memcmp p q (of_nat (length xs)) m = Some (compare_bytes xs ys)"
proof -
  have "memcmp_loop p q (of_nat (length xs)) (of_nat i) m = Some (compare_bytes (drop i xs) (drop i ys))"
    if "i \<le> length xs" for i
    using that
  proof (induction rule: inc_induct)
    case base
    then show ?case by (simp add: memcmp_loop.simps)
  next
    case (step i)
    note lt = index_less [OF step.hyps(2) xs(2)]
    have d: "drop i xs = xs ! i # drop (Suc i) xs" "drop i ys = ys ! i # drop (Suc i) ys"
      using step.hyps(2) ys(2) by (simp_all add: Cons_nth_drop_Suc)
    show ?case
      unfolding d using step.IH lt bytes_at_nth [OF xs(1) step.hyps(2)] bytes_at_nth [OF ys(1), of i] ys(2) step.hyps(2)
      by (subst memcmp_loop.simps) (simp add: add.commute [of 1])
  qed
  from this [of 0] show ?thesis by (simp add: memcmp_def)
qed

section \<open>Moving overlapping ranges\<close>

lemma dma_rcopy_span:
  assumes "count \<noteq> 0" and n: "n = Suc (unat count)" and "span (src - 1) n \<subseteq> dom m" "span (dest - 1) n \<subseteq> dom m"
    and "\<forall>k<n. \<forall>j<n. k < j \<longrightarrow> src - 1 + of_nat k \<noteq> dest - 1 + of_nat j"
  shows "\<exists>m'. dma_rcopy src dest count b m = Some m' \<and> (\<forall>k<n. m' (dest - 1 + of_nat k) = m (src - 1 + of_nat k))
    \<and> (\<forall>p. p \<notin> span (dest - 1) n \<longrightarrow> m' p = m p)"
proof -
  let ?g = "dma_move True False" and ?s = "src + count - 1" and ?d = "dest + count - 1"
  have n32: "n \<le> 4294967296" using n unat_less_2p32 [of count] by (simp add: Suc_le_eq)
  have rev: "q + count - 1 - of_nat k = q - 1 + of_nat (unat count - k)" if "k < n" for k and q :: addr
    using that n by (simp add: of_nat_diff less_Suc_eq_le)
  have sp: "q - 1 + of_nat k \<in> span (q - 1) n" if "k < n" for k q using that by (auto simp: span_def)
  let ?M = "move_bytes n ?g ?g ?s ?d m"
  have "dma_transfer ?s ?d count DMA_ADDRESS_DECREMENT DMA_ADDRESS_DECREMENT b m = Some ?M"
    unfolding n
  proof (rule dma_transfer_moves [OF assms(1)])
    show "\<forall>k\<le>unat count. (?g ^^ k) ?s \<in> dom m \<and> (?g ^^ k) ?d \<in> dom m"
      unfolding funpow_move
    proof (intro allI impI)
      fix k assume "k \<le> unat count"
      then have k: "k < n" "unat count - k < n" using n by auto
      show "?s - of_nat k \<in> dom m \<and> ?d - of_nat k \<in> dom m"
        unfolding rev [OF k(1)] using assms(3,4) sp [OF k(2)] by blast
    qed
  qed simp_all
  moreover have "(\<forall>k<n. ?M ((?g ^^ k) ?d) = m ((?g ^^ k) ?s)) \<and> (\<forall>p. (\<forall>k<n. p \<noteq> (?g ^^ k) ?d) \<longrightarrow> ?M p = m p)"
  proof (rule move_bytes_nth)
    show "inj_on (\<lambda>k. (?g ^^ k) ?d) {..<n}"
      unfolding funpow_move using n32 by (intro inj_onI) (simp add: of_nat_u32_inj)
    show "\<forall>k<n. \<forall>j<k. (?g ^^ k) ?s \<noteq> (?g ^^ j) ?d"
      unfolding funpow_move
    proof (intro allI impI)
      fix k j assume kj: "k < n" "j < k"
      then show "?s - of_nat k \<noteq> ?d - of_nat j"
        using rev [of k src] rev [of j dest] assms(5) [rule_format, of "unat count - k" "unat count - j"] n by force
    qed
  qed
  ultimately obtain M where M: "dma_rcopy src dest count b m = Some M"
    "\<forall>k<n. M (?d - of_nat k) = m (?s - of_nat k)" "\<forall>p. (\<forall>k<n. p \<noteq> ?d - of_nat k) \<longrightarrow> M p = m p"
    unfolding funpow_move dma_rcopy_def Let_def by blast
  have "M (dest - 1 + of_nat k) = m (src - 1 + of_nat k)" if "k < n" for k
    using M(2) [rule_format, of "unat count - k"] rev [of "unat count - k" src] rev [of "unat count - k" dest] that n
    by (simp add: algebra_simps)
  moreover have "M p = m p" if outside: "p \<notin> span (dest - 1) n" for p
  proof -
    have "p \<noteq> ?d - of_nat k" if k: "k < n" for k
    proof -
      have "?d - of_nat k \<in> span (dest - 1) n" unfolding rev [OF k] by (rule sp) (use k n in simp)
      then show ?thesis using outside by metis
    qed
    then show ?thesis using M(3) by blast
  qed
  ultimately show ?thesis using M(1) by blast
qed

text \<open>
  \<open>memmove\<close> picks the direction in which no byte of the source is overwritten before it is read. It touches one byte next
  to each buffer: the one behind them when it moves down, the one before them when it moves up.
\<close>

lemma span_shift: "q \<in> span p n \<longleftrightarrow> (\<exists>k<n. q = p + of_nat k)"
  by (auto simp: span_def)

lemma offset_neq:
  fixes p q :: addr
  assumes "unat p + k < 4294967296" "unat q + j < 4294967296" "unat p + k \<noteq> unat q + j"
  shows "p + of_nat k \<noteq> q + of_nat j"
proof
  assume "p + of_nat k = q + of_nat j"
  then have "unat (p + of_nat k) = unat (q + of_nat j)" by simp
  moreover have "unat (p + of_nat k) = unat p + k" "unat (q + of_nat j) = unat q + j"
    using assms(1,2) unat_add_small [of p "of_nat k"] unat_add_small [of q "of_nat j"] by (simp_all add: unat_of_nat_u32)
  ultimately show False using assms(3) by simp
qed

lemma memmove_up:
  assumes "dest < src" and "count \<noteq> 0" and "unat src + unat count < 4294967296"
    and "span src (Suc (unat count)) \<subseteq> dom m" "span dest (Suc (unat count)) \<subseteq> dom m"
  shows "\<exists>m'. memmove dest src count m = Some (dest, m') \<and> (\<forall>k<Suc (unat count). m' (dest + of_nat k) = m (src + of_nat k))
    \<and> (\<forall>p. p \<notin> span dest (Suc (unat count)) \<longrightarrow> m' p = m p)"
proof -
  have "\<forall>k<Suc (unat count). \<forall>j<k. src + of_nat k \<noteq> dest + of_nat j"
    using assms(1,3) by (intro allI impI offset_neq) (simp_all add: word_less_nat_alt)
  from dma_copy_span [OF assms(2) refl assms(4,5) this, of False] show ?thesis
    unfolding memmove_def if_P [OF assms(1)] by (metis bind.bind_lunit)
qed

lemma memmove_down:
  assumes "src < dest" and "count \<noteq> 0" and "0 < unat src" "unat dest + unat count \<le> 4294967296"
    and "span (src - 1) (Suc (unat count)) \<subseteq> dom m" "span (dest - 1) (Suc (unat count)) \<subseteq> dom m"
  shows "\<exists>m'. memmove dest src count m = Some (dest, m')
    \<and> (\<forall>k<Suc (unat count). m' (dest - 1 + of_nat k) = m (src - 1 + of_nat k))
    \<and> (\<forall>p. p \<notin> span (dest - 1) (Suc (unat count)) \<longrightarrow> m' p = m p)"
proof -
  have sd: "unat src < unat dest" using assms(1) by (simp add: word_less_nat_alt)
  have "src \<noteq> 0" "dest \<noteq> 0" using assms(3) sd by (metis unsigned_0 less_irrefl, metis unsigned_0 not_less0)
  then have u: "unat (src - 1) = unat src - 1" "unat (dest - 1) = unat dest - 1" by (simp_all add: unat_minus_one)
  have "\<forall>k<Suc (unat count). \<forall>j<Suc (unat count). k < j \<longrightarrow> src - 1 + of_nat k \<noteq> dest - 1 + of_nat j"
  proof (intro allI impI)
    fix k j assume kj: "k < Suc (unat count)" "j < Suc (unat count)" "k < j"
    show "src - 1 + of_nat k \<noteq> dest - 1 + of_nat j"
      by (rule offset_neq; use u sd kj assms(3,4) in linarith)
  qed
  then obtain m' where m': "dma_rcopy src dest count False m = Some m'"
    "\<forall>k<Suc (unat count). m' (dest - 1 + of_nat k) = m (src - 1 + of_nat k)"
    "\<forall>p. p \<notin> span (dest - 1) (Suc (unat count)) \<longrightarrow> m' p = m p"
    using dma_rcopy_span [OF assms(2) refl assms(5,6), of False] by metis
  have "\<not> dest < src" using assms(1) by simp
  then have "memmove dest src count m = Some (dest, m')" using m'(1) assms(1) by (simp add: memmove_def)
  then show ?thesis using m'(2,3) by blast
qed

end
