(* ===== verification/Strings.thy ===== *)
theory Strings
  imports Memory Thread_Local "HOL-Library.List_Lexorder"
begin

text \<open>
  The string functions of the C library: \<^verbatim>\<open>Software/src/std/string/string_functions.c\<close>, and \<open>malloc\<close> and \<open>free\<close> of
  \<^verbatim>\<open>Software/h/stdlib.h\<close> (the system calls behind them lead to the kernel's heap). A \<open>char\<close> is unsigned on RISC-V. The
  string functions read their operands until a zero byte: without one they do not return, or trap.
\<close>

section \<open>Length and copies\<close>

partial_function (option) strlen_loop :: "addr \<Rightarrow> u32 \<Rightarrow> ram \<Rightarrow> u32 option" where
  "strlen_loop str len m = do { c \<leftarrow> m (str + len); if c \<noteq> 0 then strlen_loop str (len + 1) m else Some len }"

definition strlen :: "addr \<Rightarrow> ram \<Rightarrow> u32 option" where
  "strlen str m = strlen_loop str 0 m"

partial_function (option) strcpy_loop :: "addr \<Rightarrow> addr \<Rightarrow> u32 \<Rightarrow> ram \<Rightarrow> (u32 \<times> ram) option" where
  "strcpy_loop dest src i m = do {
     c \<leftarrow> m (src + i);
     if c \<noteq> 0 then do { m \<leftarrow> store8 (dest + i) c m; strcpy_loop dest src (i + 1) m } else Some (i, m)
   }"

definition strcpy :: "addr \<Rightarrow> addr \<Rightarrow> ram \<Rightarrow> (addr \<times> ram) option" where
  "strcpy dest src m = do {
     (i, m) \<leftarrow> strcpy_loop dest src 0 m;
     m \<leftarrow> store8 (dest + i) 0 m;
     Some (dest, m)
   }"

text \<open>The loop that copies at most \<open>count\<close> characters; \<open>strncat\<close> has the same one.\<close>

partial_function (option) strncpy_loop :: "addr \<Rightarrow> addr \<Rightarrow> u32 \<Rightarrow> u32 \<Rightarrow> ram \<Rightarrow> (u32 \<times> ram) option" where
  "strncpy_loop dest src count i m =
     (if i < count
      then do {
        c \<leftarrow> m (src + i);
        if c \<noteq> 0 then do { m \<leftarrow> store8 (dest + i) c m; strncpy_loop dest src count (i + 1) m } else Some (i, m)
      }
      else Some (i, m))"

partial_function (option) strncpy_pad :: "addr \<Rightarrow> u32 \<Rightarrow> u32 \<Rightarrow> ram \<Rightarrow> ram option" where
  "strncpy_pad dest count i m =
     (if i < count then do { m \<leftarrow> store8 (dest + i) 0 m; strncpy_pad dest count (i + 1) m } else Some m)"

definition strncpy :: "addr \<Rightarrow> addr \<Rightarrow> u32 \<Rightarrow> ram \<Rightarrow> (addr \<times> ram) option" where
  "strncpy dest src count m = do {
     (i, m) \<leftarrow> strncpy_loop dest src count 0 m;
     m \<leftarrow> strncpy_pad dest count i m;
     Some (dest, m)
   }"

definition strncat :: "addr \<Rightarrow> addr \<Rightarrow> u32 \<Rightarrow> ram \<Rightarrow> (addr \<times> ram) option" where
  "strncat dest src count m = do {
     i \<leftarrow> strlen dest m;
     (j, m) \<leftarrow> strncpy_loop (dest + i) src count 0 m;
     m \<leftarrow> store8 (dest + (i + j)) 0 m;
     Some (dest, m)
   }"

definition SIZE_MAX :: u32 where "SIZE_MAX = 0xFFFFFFFF"

definition strcat :: "addr \<Rightarrow> addr \<Rightarrow> ram \<Rightarrow> (addr \<times> ram) option" where
  "strcat dest src m = strncat dest src SIZE_MAX m"

section \<open>Copies on the heap\<close>

definition malloc :: "u32 \<Rightarrow> 'a kstate_scheme \<Rightarrow> (addr \<times> 'a kstate_scheme) option" where
  "malloc n s = kalloc n s"

definition free :: "addr \<Rightarrow> 'a kstate_scheme \<Rightarrow> 'a kstate_scheme option" where
  "free p s = kfree p s"

definition strdup :: "addr \<Rightarrow> 'a kstate_scheme \<Rightarrow> (addr \<times> 'a kstate_scheme) option" where
  "strdup src s = do {
     len \<leftarrow> strlen src (kram s);
     (dest, s) \<leftarrow> malloc (len + 1) s;
     if dest = NULL then Some (NULL, s)
     else do {
       (p, m) \<leftarrow> memcpy dest src (len + 1) (kram s);
       Some (p, s\<lparr>kram := m\<rparr>)
     }
   }"

definition strndup :: "addr \<Rightarrow> u32 \<Rightarrow> 'a kstate_scheme \<Rightarrow> (addr \<times> 'a kstate_scheme) option" where
  "strndup src count s = do {
     len \<leftarrow> strlen src (kram s);
     let len = (if len > count then count else len);
     (dest, s) \<leftarrow> malloc (len + 1) s;
     if dest = NULL then Some (NULL, s)
     else do {
       (p, m) \<leftarrow> strncpy dest src len (kram s);
       Some (p, s\<lparr>kram := m\<rparr>)
     }
   }"

section \<open>Comparison\<close>

definition order_of :: "u8 \<Rightarrow> u8 \<Rightarrow> int" where
  "order_of l r = (if l < r then -1 else if l > r then 1 else 0)"

partial_function (option) strcmp_loop :: "addr \<Rightarrow> addr \<Rightarrow> u32 \<Rightarrow> ram \<Rightarrow> int option" where
  "strcmp_loop lhs rhs i m = do {
     l \<leftarrow> m (lhs + i);
     r \<leftarrow> (if l \<noteq> 0 then m (rhs + i) else Some 0);
     if l \<noteq> 0 \<and> r \<noteq> 0
     then if l < r then Some (-1) else if l > r then Some 1 else strcmp_loop lhs rhs (i + 1) m
     else do { r \<leftarrow> m (rhs + i); Some (order_of l r) }
   }"

definition strcmp :: "addr \<Rightarrow> addr \<Rightarrow> ram \<Rightarrow> int option" where
  "strcmp lhs rhs m = strcmp_loop lhs rhs 0 m"

partial_function (option) strncmp_loop :: "addr \<Rightarrow> addr \<Rightarrow> u32 \<Rightarrow> u32 \<Rightarrow> ram \<Rightarrow> int option" where
  "strncmp_loop lhs rhs count i m =
     (if i < count
      then do {
        l \<leftarrow> m (lhs + i);
        r \<leftarrow> (if l \<noteq> 0 then m (rhs + i) else Some 0);
        if l \<noteq> 0 \<and> r \<noteq> 0
        then if l < r then Some (-1) else if l > r then Some 1 else strncmp_loop lhs rhs count (i + 1) m
        else if i = count then Some 0
        else do { r \<leftarrow> m (rhs + i); Some (order_of l r) }
      }
      else if i = count then Some 0
      else do { l \<leftarrow> m (lhs + i); r \<leftarrow> m (rhs + i); Some (order_of l r) })"

definition strncmp :: "addr \<Rightarrow> addr \<Rightarrow> u32 \<Rightarrow> ram \<Rightarrow> int option" where
  "strncmp lhs rhs count m = strncmp_loop lhs rhs count 0 m"

section \<open>Search\<close>

partial_function (option) strchr_loop :: "addr \<Rightarrow> u32 \<Rightarrow> u32 \<Rightarrow> ram \<Rightarrow> addr option" where
  "strchr_loop str ch i m = do {
     c \<leftarrow> m (str + i);
     if c \<noteq> 0 then (if ucast c = ch then Some (str + i) else strchr_loop str ch (i + 1) m) else Some NULL
   }"

definition strchr :: "addr \<Rightarrow> u32 \<Rightarrow> ram \<Rightarrow> addr option" where
  "strchr str ch m = strchr_loop str ch 0 m"

partial_function (option) strrchr_loop :: "addr \<Rightarrow> u32 \<Rightarrow> addr \<Rightarrow> u32 \<Rightarrow> ram \<Rightarrow> addr option" where
  "strrchr_loop str ch lastp i m = do {
     c \<leftarrow> m (str + i);
     if c \<noteq> 0 then strrchr_loop str ch (if ucast c = ch then str + i else lastp) (i + 1) m else Some lastp
   }"

definition strrchr :: "addr \<Rightarrow> u32 \<Rightarrow> ram \<Rightarrow> addr option" where
  "strrchr str ch m = strrchr_loop str ch NULL 0 m"

partial_function (option) strstr_loop :: "addr \<Rightarrow> addr \<Rightarrow> u32 \<Rightarrow> u32 \<Rightarrow> ram \<Rightarrow> addr option" where
  "strstr_loop str substr len i m = do {
     c \<leftarrow> m (str + i);
     if c \<noteq> 0
     then do {
       r \<leftarrow> strncmp (str + i) substr len m;
       if r = 0 then Some (str + i) else strstr_loop str substr len (i + 1) m
     }
     else Some NULL
   }"

definition strstr :: "addr \<Rightarrow> addr \<Rightarrow> ram \<Rightarrow> addr option" where
  "strstr str substr m = do { len \<leftarrow> strlen substr m; strstr_loop str substr len 0 m }"

text \<open>\<open>strtok\<close> keeps the rest of its string in the static variable \<open>last\<close>, here \<open>last_tok\<close>.\<close>

partial_function (option) strtok_loop :: "addr \<Rightarrow> addr \<Rightarrow> u32 \<Rightarrow> ram \<Rightarrow> u32 option" where
  "strtok_loop str delim i m = do {
     c \<leftarrow> m (str + i);
     if c \<noteq> 0
     then do {
       p \<leftarrow> strchr delim (ucast c) m;
       if p \<noteq> NULL then Some i else strtok_loop str delim (i + 1) m
     }
     else Some i
   }"

definition strtok :: "addr \<Rightarrow> addr \<Rightarrow> addr \<times> ram \<Rightarrow> (addr \<times> addr \<times> ram) option" where
  "strtok str delim = (\<lambda>(last_tok, m).
     let str = (if str = NULL then last_tok else str) in
     if str = NULL then Some (NULL, last_tok, m)
     else do {
       i \<leftarrow> strtok_loop str delim 0 m;
       c \<leftarrow> m (str + i);
       if c \<noteq> 0
       then do { m \<leftarrow> store8 (str + i) 0 m; Some (str, str + (i + 1), m) }
       else Some (str, NULL, m)
     })"

definition EDOM :: int where "EDOM = 1"
definition ERANGE :: int where "ERANGE = 2"
definition EILSEQ :: int where "EILSEQ = 3"

text \<open>The table of messages has an entry for 0, the null pointer: \<open>None\<close>.\<close>

definition strerror :: "int \<Rightarrow> string option" where
  "strerror errnum =
     (let errors = [None, Some ''Argument out of domain'', Some ''Result too large'', Some ''Illegal byte sequence''] in
      if errnum < 0 \<or> errnum \<ge> int (length errors) then None else errors ! nat errnum)"

end
