(* ===== verification/String_Lemmas.thy ===== *)
theory String_Lemmas
  imports Strings "HOL-Library.Sublist"
begin

text \<open>
  What the string functions compute, on zero-terminated strings.
\<close>

section \<open>Strings in memory\<close>

definition cstr :: "ram \<Rightarrow> addr \<Rightarrow> u8 list \<Rightarrow> bool" where
  "cstr m p xs \<longleftrightarrow> bytes_at m p (xs @ [0]) \<and> 0 \<notin> set xs \<and> length xs < 4294967295"

lemma cstr_length: "cstr m p xs \<Longrightarrow> length xs < 4294967295"
  by (simp add: cstr_def)

lemma cstr_nth:
  assumes "cstr m p xs" and "i < length xs"
  shows "m (p + of_nat i) = Some (xs ! i)" and "xs ! i \<noteq> 0"
proof -
  show "m (p + of_nat i) = Some (xs ! i)"
    using bytes_at_nth [of m p "xs @ [0]" i] assms by (simp add: cstr_def nth_append)
  show "xs ! i \<noteq> 0" using assms nth_mem unfolding cstr_def by metis
qed

lemma cstr_end: "cstr m p xs \<Longrightarrow> m (p + of_nat (length xs)) = Some 0"
  using bytes_at_nth [of m p "xs @ [0]" "length xs"] by (simp add: cstr_def)

lemma cstr_drop:
  assumes "cstr m p xs" and "i \<le> length xs"
  shows "cstr m (p + of_nat i) (drop i xs)"
proof -
  have "m (p + of_nat i + of_nat j) = Some ((drop i xs @ [0]) ! j)" if "j < length (drop i xs @ [0])" for j
    using bytes_at_nth [of m p "xs @ [0]" "i + j"] assms that
    by (auto simp: cstr_def nth_append add.assoc algebra_simps)
  then show ?thesis using assms in_set_dropD [of 0 i xs] by (auto simp: cstr_def bytes_at_def)
qed

lemma cstr_index: "cstr m p xs \<Longrightarrow> i \<le> length xs \<Longrightarrow> unat (of_nat i :: u32) = i"
  using unat_of_nat_u32 [of i] by (simp add: cstr_def)

lemma cstr_cong: "\<forall>q\<in>span p (Suc (length xs)). m' q = m q \<Longrightarrow> cstr m' p xs = cstr m p xs"
  using bytes_at_cong [of p "xs @ [0]" m' m] by (simp add: cstr_def)

lemma drop_step: "i < length xs \<Longrightarrow> drop i xs = xs ! i # drop (Suc i) xs"
  by (simp add: Cons_nth_drop_Suc)

section \<open>Length\<close>

lemma strlen_cstr:
  assumes "cstr m p xs"
  shows "strlen p m = Some (of_nat (length xs))"
proof -
  have "strlen_loop p (of_nat i) m = Some (of_nat (length xs))" if "i \<le> length xs" for i
    using that
  proof (induction rule: inc_induct)
    case base
    show ?case using cstr_end [OF assms] by (subst strlen_loop.simps) simp
  next
    case (step i)
    then show ?case using cstr_nth [OF assms, of i] by (subst strlen_loop.simps) (simp add: add.commute [of 1])
  qed
  from this [of 0] show ?thesis by (simp add: strlen_def)
qed

section \<open>Comparison\<close>

definition sign_of :: "u8 list \<Rightarrow> u8 list \<Rightarrow> int" where
  "sign_of xs ys = (if xs < ys then -1 else if ys < xs then 1 else 0)"

lemma sign_of_simps:
  "sign_of [] [] = 0" "sign_of [] (y # ys) = -1" "sign_of (x # xs) [] = 1"
  "sign_of (x # xs) (y # ys) = (if x < y then -1 else if y < x then 1 else sign_of xs ys)"
  by (auto simp: sign_of_def)

lemma strcmp_cstr:
  assumes "cstr m p xs" and "cstr m q ys"
  shows "strcmp p q m = Some (sign_of xs ys)"
proof -
  have "strcmp_loop p q (of_nat i) m = Some (sign_of (drop i xs) (drop i ys))"
    if "i \<le> min (length xs) (length ys)" for i
    using that
  proof (induction rule: inc_induct)
    case base
    let ?n = "min (length xs) (length ys)"
    consider "length xs < length ys" | "length ys < length xs" | "length xs = length ys" by linarith
    then show ?case
    proof cases
      case 1
      then show ?thesis
        using cstr_end [OF assms(1)] cstr_nth [OF assms(2), of ?n] drop_step [of ?n ys]
        by (subst strcmp_loop.simps) (auto simp: sign_of_simps order_of_def min_def word_gt_0)
    next
      case 2
      then show ?thesis
        using cstr_end [OF assms(2)] cstr_nth [OF assms(1), of ?n] drop_step [of ?n xs]
        by (subst strcmp_loop.simps) (auto simp: sign_of_simps order_of_def min_def word_gt_0)
    next
      case 3
      then show ?thesis
        using cstr_end [OF assms(1)] cstr_end [OF assms(2)]
        by (subst strcmp_loop.simps) (simp add: sign_of_simps order_of_def)
    qed
  next
    case (step i)
    then show ?case
      using cstr_nth [OF assms(1), of i] cstr_nth [OF assms(2), of i] drop_step [of i xs] drop_step [of i ys]
      by (subst strcmp_loop.simps) (simp add: sign_of_simps add.commute [of 1])
  qed
  from this [of 0] show ?thesis by (simp add: strcmp_def)
qed

text \<open>\<open>strncmp\<close> compares the first \<open>n\<close> characters.\<close>

lemma strncmp_cstr:
  assumes "cstr m p xs" and "cstr m q ys" and n: "n < 4294967296"
  shows "strncmp p q (of_nat n) m = Some (sign_of (take n xs) (take n ys))"
proof -
  let ?n = "min n (min (length xs) (length ys))"
  have "strncmp_loop p q (of_nat n) (of_nat i) m = Some (sign_of (take (n - i) (drop i xs)) (take (n - i) (drop i ys)))"
    if "i \<le> ?n" for i
    using that
  proof (induction rule: inc_induct)
    case base
    have lt: "(of_nat ?n :: u32) < of_nat n \<longleftrightarrow> ?n < n" "(of_nat ?n :: u32) = of_nat n \<longleftrightarrow> ?n = n"
      using n by (auto simp: word_less_nat_alt unat_of_nat_u32 of_nat_u32_inj min_def)
    consider "?n = n" | "?n < n" "?n = length xs" "length xs < length ys" | "?n < n" "?n = length ys" "length ys < length xs"
      | "?n < n" "?n = length xs" "length ys = length xs" by linarith
    then show ?case
    proof cases
      case 1
      then show ?thesis unfolding 1 by (subst strncmp_loop.simps) (simp add: sign_of_def)
    next
      case 2
      obtain k where k: "n - ?n = Suc k" using 2(1) by (cases "n - ?n") auto
      show ?thesis
        using 2 lt k cstr_end [OF assms(1)] cstr_nth [OF assms(2), of ?n] drop_step [of ?n ys]
        by (subst strncmp_loop.simps) (auto simp: sign_of_simps order_of_def word_gt_0)
    next
      case 3
      obtain k where k: "n - ?n = Suc k" using 3(1) by (cases "n - ?n") auto
      show ?thesis
        using 3 lt k cstr_end [OF assms(2)] cstr_nth [OF assms(1), of ?n] drop_step [of ?n xs]
        by (subst strncmp_loop.simps) (auto simp: sign_of_simps order_of_def word_gt_0)
    next
      case 4
      then show ?thesis
        using lt cstr_end [OF assms(1)] cstr_end [OF assms(2)]
        by (subst strncmp_loop.simps) (simp add: sign_of_simps order_of_def)
    qed
  next
    case (step i)
    have i: "i < n" "i < length xs" "i < length ys" using step.hyps(2) by auto
    obtain k where k: "n - i = Suc k" "n - Suc i = k" using i(1) by (cases "n - i") auto
    show ?case
      using step.IH i k index_less [OF i(1) n] cstr_nth [OF assms(1) i(2)] cstr_nth [OF assms(2) i(3)] drop_step [OF i(2)] drop_step [OF i(3)]
      by (subst strncmp_loop.simps) (simp add: sign_of_simps add.commute [of 1])
  qed
  from this [of 0] show ?thesis by (simp add: strncmp_def)
qed

section \<open>Search\<close>

lemma strchr_cstr:
  assumes "cstr m p xs"
  shows "strchr p ch m = Some (case find (\<lambda>i. ucast (xs ! i) = ch) [0..<length xs] of None \<Rightarrow> NULL | Some i \<Rightarrow> p + of_nat i)"
proof -
  have "strchr_loop p ch (of_nat i) m =
    Some (case find (\<lambda>i. ucast (xs ! i) = ch) [i..<length xs] of None \<Rightarrow> NULL | Some i \<Rightarrow> p + of_nat i)"
    if "i \<le> length xs" for i
    using that
  proof (induction rule: inc_induct)
    case base
    show ?case using cstr_end [OF assms] by (subst strchr_loop.simps) simp
  next
    case (step i)
    then show ?case
      using cstr_nth [OF assms, of i] by (subst strchr_loop.simps) (simp add: upt_conv_Cons add.commute [of 1])
  qed
  from this [of 0] show ?thesis by (simp add: strchr_def)
qed

lemma strrchr_cstr:
  assumes "cstr m p xs"
  shows "strrchr p ch m = Some (case find (\<lambda>i. ucast (xs ! i) = ch) (rev [0..<length xs]) of None \<Rightarrow> NULL | Some i \<Rightarrow> p + of_nat i)"
proof -
  have "strrchr_loop p ch q (of_nat i) m =
    Some (case find (\<lambda>i. ucast (xs ! i) = ch) (rev [i..<length xs]) of None \<Rightarrow> q | Some i \<Rightarrow> p + of_nat i)"
    if "i \<le> length xs" for i q
    using that
  proof (induction arbitrary: q rule: inc_induct)
    case base
    show ?case using cstr_end [OF assms] by (subst strrchr_loop.simps) simp
  next
    case (step i)
    have f: "find P (us @ [u]) = (case find P us of None \<Rightarrow> if P u then Some u else None | Some v \<Rightarrow> Some v)" for P u and us :: "nat list"
      by (induction us) auto
    show ?case
      using cstr_nth [OF assms, of i] step.hyps(2) step.IH
      by (subst strrchr_loop.simps) (simp add: upt_conv_Cons add.commute [of 1] f split: option.splits)
  qed
  from this [of 0 NULL] show ?thesis by (simp add: strrchr_def)
qed

lemma sign_of_zero: "sign_of xs ys = 0 \<longleftrightarrow> xs = ys"
  by (auto simp: sign_of_def)

lemma prefix_take: "prefix ys zs \<longleftrightarrow> take (length ys) zs = ys"
  by (metis append_eq_conv_conj prefix_def)

lemma strstr_cstr:
  assumes xs: "cstr m p xs" and ys: "cstr m q ys"
  shows "strstr p q m = Some (case find (\<lambda>i. prefix ys (drop i xs)) [0..<length xs] of None \<Rightarrow> NULL | Some i \<Rightarrow> p + of_nat i)"
proof -
  have n: "length ys < 4294967296" using ys by (simp add: cstr_def)
  have "strstr_loop p q (of_nat (length ys)) (of_nat i) m =
    Some (case find (\<lambda>i. prefix ys (drop i xs)) [i..<length xs] of None \<Rightarrow> NULL | Some i \<Rightarrow> p + of_nat i)"
    if "i \<le> length xs" for i
    using that
  proof (induction rule: inc_induct)
    case base
    show ?case using cstr_end [OF xs] by (subst strstr_loop.simps) simp
  next
    case (step i)
    have "strncmp (p + of_nat i) q (of_nat (length ys)) m = Some (sign_of (take (length ys) (drop i xs)) ys)"
      using strncmp_cstr [OF cstr_drop [OF xs] ys n, of i] step.hyps(2) by simp
    then show ?case
      using step cstr_nth [OF xs, of i] by (subst strstr_loop.simps) (simp add: upt_conv_Cons add.commute [of 1] sign_of_zero prefix_take)
  qed
  from this [of 0] show ?thesis by (simp add: strstr_def strlen_cstr [OF ys])
qed

section \<open>Copying\<close>

text \<open>Memory with bytes written one after the other.\<close>

fun put :: "addr \<Rightarrow> u8 list \<Rightarrow> ram \<Rightarrow> ram" where
  "put d [] m = m"
| "put d (x # xs) m = put (d + 1) xs (m(d \<mapsto> x))"

lemma put_snoc: "put d (xs @ [x]) m = (put d xs m)(d + of_nat (length xs) \<mapsto> x)"
  by (induction xs arbitrary: d m) (simp_all add: add.assoc)

lemma put_other: "q \<notin> span d (length xs) \<Longrightarrow> put d xs m q = m q"
proof (induction xs rule: rev_induct)
  case (snoc x xs)
  then have "q \<notin> span d (length xs)" "q \<noteq> d + of_nat (length xs)" by (auto simp: span_def)
  then show ?case using snoc.IH by (simp add: put_snoc)
qed simp

lemma put_nth: "k < length xs \<Longrightarrow> length xs \<le> 4294967296 \<Longrightarrow> put d xs m (d + of_nat k) = Some (xs ! k)"
proof (induction xs rule: rev_induct)
  case (snoc x xs)
  show ?case
  proof (cases "k = length xs")
    case True
    then show ?thesis by (simp add: put_snoc)
  next
    case False
    then have "k < length xs" "(of_nat k :: u32) \<noteq> of_nat (length xs)" using snoc.prems by (simp_all add: of_nat_u32_inj)
    then show ?thesis using snoc by (simp add: put_snoc nth_append)
  qed
qed simp

lemma span_mono: "k \<le> n \<Longrightarrow> span p k \<subseteq> span p n"
  by (auto simp: span_def)

lemma span_in: "k < n \<Longrightarrow> p + of_nat k \<in> span p n"
  by (auto simp: span_def)

lemma put_dom: "span d (length xs) \<subseteq> dom m \<Longrightarrow> dom (put d xs m) = dom m"
proof (induction xs rule: rev_induct)
  case (snoc x xs)
  then have "d + of_nat (length xs) \<in> dom m" "span d (length xs) \<subseteq> dom m"
    using span_in [of "length xs" "Suc (length xs)" d] span_mono [of "length xs" "Suc (length xs)" d] by auto
  then show ?case using snoc.IH unfolding put_snoc dom_fun_upd by (simp add: insert_absorb)
qed simp

lemma put_bytes_at: "length xs \<le> 4294967296 \<Longrightarrow> bytes_at (put d xs m) d xs"
  by (simp add: bytes_at_def put_nth)

lemma strncpy_loop_cstr:
  assumes ys: "cstr m s ys" and n: "n < 4294967296" and d: "span d (min n (length ys)) \<subseteq> dom m"
    and dis: "span d (min n (length ys)) \<inter> span s (Suc (length ys)) = {}"
  shows "strncpy_loop d s (of_nat n) 0 m = Some (of_nat (min n (length ys)), put d (take n ys) m)"
proof -
  let ?n = "min n (length ys)"
  have "strncpy_loop d s (of_nat n) (of_nat i) (put d (take i ys) m) = Some (of_nat ?n, put d (take ?n ys) m)" if "i \<le> ?n" for i
    using that
  proof (induction rule: inc_induct)
    case base
    have "s + of_nat (length ys) \<notin> span d (length (take ?n ys))" using dis span_in [of "length ys" "Suc (length ys)" s] by auto
    then have "put d (take ?n ys) m (s + of_nat (length ys)) = Some 0" using put_other cstr_end [OF ys] by metis
    then show ?case using index_less [OF _ n, of ?n] by (subst strncpy_loop.simps) (auto simp: min_def)
  next
    case (step i)
    have i: "i < n" "i < length ys" using step.hyps(2) by auto
    have "s + of_nat i \<notin> span d (length (take i ys))"
      using dis span_in [of i "Suc (length ys)" s] span_mono [of i ?n d] i by auto
    then have r: "put d (take i ys) m (s + of_nat i) = Some (ys ! i)" using put_other cstr_nth(1) [OF ys i(2)] by metis
    have sub: "span d (length (take i ys)) \<subseteq> dom m" using d span_mono [of i ?n d] i by auto
    have "d + of_nat i \<in> dom m" using d span_in [OF step.hyps(2), of d] by blast
    then have "put d (take i ys) m (d + of_nat i) \<noteq> None" using put_dom [OF sub] by blast
    then have w: "store8 (d + of_nat i) (ys ! i) (put d (take i ys) m) = Some (put d (take (Suc i) ys) m)"
      using i(2) put_snoc [of d "take i ys" "ys ! i" m] by (simp add: store8_Some take_Suc_conv_app_nth)
    show ?case
      using r w step.IH cstr_nth(2) [OF ys i(2)] index_less [OF i(1) n]
      by (subst strncpy_loop.simps) (simp add: add.commute [of 1])
  qed
  from this [of 0] show ?thesis by (simp add: min_def split: if_splits)
qed

lemma span_offset: "i + k \<le> n \<Longrightarrow> span (p + of_nat i) k \<subseteq> span p n"
proof
  fix q assume "i + k \<le> n" "q \<in> span (p + of_nat i) k"
  then obtain j where "q = p + of_nat (i + j)" "i + j < n" by (auto simp: span_def add.assoc)
  then show "q \<in> span p n" using span_in by metis
qed

text \<open>\<open>strncat\<close> appends at most \<open>n\<close> characters.\<close>

lemma strncat_cstr:
  assumes xs: "cstr m d xs" and ys: "cstr m s ys" and n: "n < 4294967296" and zs: "zs = take n ys"
    and len: "length xs + length zs < 4294967295"
    and room: "span d (Suc (length xs + length zs)) \<subseteq> dom m"
    and dis: "span d (Suc (length xs + length zs)) \<inter> span s (Suc (length ys)) = {}"
  shows "\<exists>m'. strncat d s (of_nat n) m = Some (d, m') \<and> cstr m' d (xs @ zs) \<and> cstr m' s ys
    \<and> (\<forall>p. p \<notin> span (d + of_nat (length xs)) (Suc (length zs)) \<longrightarrow> m' p = m p)"
proof -
  let ?e = "d + of_nat (length xs)" and ?k = "length zs"
  have k: "?k = min n (length ys)" by (simp add: zs min.commute)
  have sub: "span ?e ?k \<subseteq> span d (Suc (length xs + ?k))" "span ?e (Suc ?k) \<subseteq> span d (Suc (length xs + ?k))"
    by (rule span_offset; simp)+
  have loop: "strncpy_loop ?e s (of_nat n) 0 m = Some (of_nat ?k, put ?e zs m)"
    using strncpy_loop_cstr [OF ys n, of ?e] sub(1) room dis unfolding k [symmetric] zs [symmetric] by blast
  let ?m = "put ?e (zs @ [0]) m"
  have stop: "?e + of_nat ?k = d + of_nat (length xs + ?k)" by simp
  have "put ?e zs m (?e + of_nat ?k) \<noteq> None"
    using put_dom [of ?e zs m] sub(1) room span_in [of "length xs + ?k" "Suc (length xs + ?k)" d] unfolding stop by blast
  then have st: "store8 (d + (of_nat (length xs) + of_nat ?k)) 0 (put ?e zs m) = Some ?m"
    unfolding put_snoc by (simp add: store8_Some add.assoc)
  have run: "strncat d s (of_nat n) m = Some (d, ?m)"
    using strlen_cstr [OF xs] loop st by (simp add: strncat_def)
  have other: "?m p = m p" if "p \<notin> span ?e (Suc ?k)" for p
    by (rule put_other) (use that in simp)
  have nz: "0 \<notin> set zs" using ys zs in_set_takeD by (fastforce simp: cstr_def)
  have "bytes_at ?m d ((xs @ zs) @ [0])"
    unfolding bytes_at_def
  proof (intro allI impI)
    fix i assume i: "i < length ((xs @ zs) @ [0])"
    show "?m (d + of_nat i) = Some (((xs @ zs) @ [0]) ! i)"
    proof (cases "i < length xs")
      case True
      have "d + of_nat i \<noteq> ?e + of_nat j" if "j < Suc ?k" for j
      proof -
        have "(of_nat i :: u32) \<noteq> of_nat (length xs + j)" using True that len by (simp only: of_nat_u32_inj)
        then show ?thesis by (simp add: add.assoc)
      qed
      then have "d + of_nat i \<notin> span ?e (Suc ?k)" by (auto simp: span_def)
      then show ?thesis using other cstr_nth(1) [OF xs True] True by (simp add: nth_append)
    next
      case False
      then have "?m (?e + of_nat (i - length xs)) = Some ((zs @ [0]) ! (i - length xs))"
        using i len by (intro put_nth) auto
      moreover have "?e + of_nat (i - length xs) = d + of_nat i" using False by (simp add: of_nat_diff)
      ultimately show ?thesis using False by (simp add: nth_append)
    qed
  qed
  then have "cstr ?m d (xs @ zs)" using xs nz len by (simp add: cstr_def)
  moreover have "cstr ?m s ys"
    using cstr_cong [of s ys ?m m] other sub(2) dis ys by blast
  ultimately show ?thesis using run other by blast
qed

end
