(* ===== verification/String_Properties.thy ===== *)
theory String_Properties
  imports String_Lemmas
begin

text \<open>
  The properties of the memory and string functions.
\<close>

section \<open>Memory\<close>

lemma span_Suc: "span p (Suc n) = insert (p + of_nat n) (span p n)"
  by (simp add: span_def lessThan_Suc)

lemma span_before: "span (p - 1) (Suc n) = insert (p - 1) (span p n)"
proof -
  have "span (p - 1) (Suc n) = (\<lambda>k. p - 1 + of_nat k) ` insert 0 (Suc ` {..<n})"
    unfolding span_def lessThan_Suc_eq_insert_0 by simp
  then show ?thesis by (simp add: span_def image_image)
qed

lemma span_sub_offset: "i + k \<le> n \<Longrightarrow> span p n \<subseteq> D \<Longrightarrow> span (p + of_nat i) k \<subseteq> D"
  using span_offset by blast

text \<open>
  C29: \<open>memmove\<close> moves the bytes as if through a buffer, however the two ranges overlap. Outside the destination it changes one
  byte: the one behind the destination when it moves down, the one before it when it moves up, because the engine moves
  \<open>count + 1\<close> bytes.
\<close>

theorem memmove_moves:
  assumes c: "count \<noteq> 0" and u: "0 < unat src" "0 < unat dest" "unat src + unat count < 4294967296" "unat dest + unat count < 4294967296"
    and d: "span (src - 1) (Suc (Suc (unat count))) \<subseteq> dom m" "span (dest - 1) (Suc (Suc (unat count))) \<subseteq> dom m"
  shows "\<exists>m'. memmove dest src count m = Some (dest, m') \<and> (\<forall>k<unat count. m' (dest + of_nat k) = m (src + of_nat k))
    \<and> (\<forall>p. p \<notin> span dest (unat count) \<longrightarrow> p \<noteq> (if dest < src then dest + count else dest - 1) \<longrightarrow> m' p = m p)"
proof -
  let ?n = "unat count"
  have up: "span q (Suc ?n) \<subseteq> dom m" if "span (q - 1) (Suc (Suc ?n)) \<subseteq> dom m" for q
    using span_sub_offset [of 1 "Suc ?n" "Suc (Suc ?n)" "q - 1"] that by simp
  have down: "span (q - 1) (Suc ?n) \<subseteq> dom m" if "span (q - 1) (Suc (Suc ?n)) \<subseteq> dom m" for q
    using span_sub_offset [of 0 "Suc ?n" "Suc (Suc ?n)" "q - 1"] that by simp
  consider "dest < src" | "dest = src" | "src < dest" by (rule linorder_cases)
  then show ?thesis
  proof cases
    case 1
    from memmove_up [OF 1 c u(3) up [OF d(1)] up [OF d(2)]] show ?thesis
      unfolding if_P [OF 1] span_Suc by auto
  next
    case 2
    then show ?thesis by (auto simp: memmove_def)
  next
    case 3
    have le: "unat dest + unat count \<le> 4294967296" and no: "\<not> dest < src" using u 3 by simp_all
    obtain m' where m': "memmove dest src count m = Some (dest, m')"
      "\<forall>k<Suc ?n. m' (dest - 1 + of_nat k) = m (src - 1 + of_nat k)" "\<forall>p. p \<notin> span (dest - 1) (Suc ?n) \<longrightarrow> m' p = m p"
      using memmove_down [OF 3 c u(1) le down [OF d(1)] down [OF d(2)]] by blast
    have "m' (dest + of_nat k) = m (src + of_nat k)" if "k < ?n" for k
      using m'(2) [rule_format, of "Suc k"] that by simp
    then show ?thesis using m'(1,3) unfolding if_not_P [OF no] span_before by blast
  qed
qed

text \<open>Example: a memory with two strings, \<open>ab\<close> and \<open>b\<close>, and zeros elsewhere.\<close>

definition text_ram :: ram where
  "text_ram = (\<lambda>_. Some 0)(0x50001000 \<mapsto> 97, 0x50001001 \<mapsto> 98, 0x50002000 \<mapsto> 98)"

lemma text_ram_dom: "S \<subseteq> dom text_ram"
  by (auto simp: text_ram_def)

lemma text_ram_cstr: "cstr text_ram 0x50001000 [97, 98]" "cstr text_ram 0x50002000 [98]"
  by (auto simp: cstr_def bytes_at_def text_ram_def less_Suc_eq)

theorem memmove_moves_witness:
  "\<exists>m'. memmove 0x50001001 0x50001000 2 text_ram = Some (0x50001001, m') \<and> m' 0x50001001 = Some 97 \<and> m' 0x50001002 = Some 98"
proof -
  obtain m' where m': "memmove 0x50001001 0x50001000 2 text_ram = Some (0x50001001, m')"
    "\<forall>k<unat (2 :: u32). m' (0x50001001 + of_nat k) = text_ram (0x50001000 + of_nat k)"
    using memmove_moves [of 2 "0x50001000" "0x50001001" text_ram] text_ram_dom by auto
  show ?thesis
    using m'(1) m'(2) [rule_format, of 0] m'(2) [rule_format, of 1] by (auto simp: text_ram_def)
qed

section \<open>Strings\<close>

text \<open>
  C30: \<open>strcmp\<close> compares strings in the lexicographic order of their bytes: -1, 0 or 1 as the first is smaller, equal or larger.
\<close>

theorem strcmp_lexicographic:
  assumes "cstr m p xs" and "cstr m q ys"
  shows "strcmp p q m = Some (if xs < ys then -1 else if xs = ys then 0 else 1)"
  unfolding strcmp_cstr [OF assms] sign_of_def by auto

theorem strcmp_lexicographic_witness: "strcmp 0x50001000 0x50002000 text_ram = Some (-1)"
  using strcmp_lexicographic [OF text_ram_cstr] by simp

text \<open>
  C31: \<open>strcat\<close> appends: with room for both and the zero behind, and no overlap with the source, the destination becomes
  the concatenation, the source is as before, and nothing else changes.
\<close>

theorem strcat_appends:
  assumes "cstr m d xs" and "cstr m s ys" and "length xs + length ys < 4294967295"
    and "span d (Suc (length xs + length ys)) \<subseteq> dom m" and "span d (Suc (length xs + length ys)) \<inter> span s (Suc (length ys)) = {}"
  shows "\<exists>m'. strcat d s m = Some (d, m') \<and> cstr m' d (xs @ ys) \<and> cstr m' s ys
    \<and> (\<forall>p. p \<notin> span (d + of_nat (length xs)) (Suc (length ys)) \<longrightarrow> m' p = m p)"
proof -
  have t: "ys = take 4294967295 ys" using assms(2) by (simp add: cstr_def)
  have n: "(of_nat 4294967295 :: u32) = SIZE_MAX" by (simp add: SIZE_MAX_def)
  show ?thesis using strncat_cstr [OF assms(1,2) _ t assms(3-5)] unfolding n strcat_def by simp
qed

theorem strcat_appends_witness:
  "\<exists>m'. strcat 0x50001000 0x50002000 text_ram = Some (0x50001000, m') \<and> cstr m' 0x50001000 [97, 98, 98]"
proof -
  have "span 0x50001000 (Suc (length [97 :: u8, 98] + length [98 :: u8])) \<inter> span 0x50002000 (Suc (length [98 :: u8])) = {}"
    by (auto simp: span_def lessThan_Suc)
  from strcat_appends [OF text_ram_cstr _ text_ram_dom this] show ?thesis by auto
qed

text \<open>
  C32: \<open>strstr\<close> returns the first place at which the searched string occurs, or null if it occurs nowhere. (The
  empty string is found at the first character, if there is one; in the empty string nothing is found.)
\<close>

theorem strstr_first:
  assumes "cstr m p xs" and "cstr m q ys"
  shows "strstr p q m = Some (if \<exists>i<length xs. prefix ys (drop i xs)
      then p + of_nat (LEAST i. i < length xs \<and> prefix ys (drop i xs)) else NULL)"
proof (cases "\<exists>i<length xs. prefix ys (drop i xs)")
  case False
  then have "find (\<lambda>i. prefix ys (drop i xs)) [0..<length xs] = None" by (auto simp: find_None_iff)
  then show ?thesis using strstr_cstr [OF assms] unfolding if_not_P [OF False] by simp
next
  case True
  let ?i = "LEAST i. i < length xs \<and> prefix ys (drop i xs)"
  have i: "?i < length xs \<and> prefix ys (drop ?i xs)" by (rule LeastI_ex [OF True])
  have "\<forall>j<?i. \<not> prefix ys (drop j xs)" using not_less_Least i by (metis order.strict_trans)
  then have "find (\<lambda>i. prefix ys (drop i xs)) [0..<length xs] = Some ?i"
    using i by (auto simp: find_Some_iff intro!: exI [of _ ?i])
  then show ?thesis using strstr_cstr [OF assms] unfolding if_P [OF True] by simp
qed

theorem strstr_first_witness: "strstr 0x50001000 0x50002000 text_ram = Some 0x50001001"
proof -
  have "(LEAST i. i < length [97 :: u8, 98] \<and> prefix [98 :: u8] (drop i [97, 98])) = 1"
    by (rule Least_equality) (auto simp: less_Suc_eq intro!: Suc_leI gr0I)
  moreover have "\<exists>i<length [97 :: u8, 98]. prefix [98 :: u8] (drop i [97, 98])" by (rule exI [of _ 1]) simp
  ultimately show ?thesis using strstr_first [OF text_ram_cstr] by simp
qed

end
