(* ===== verification/Ctype.thy ===== *)
theory Ctype
  imports Prelude "HOL-Library.Signed_Division"
begin

text \<open>
  The inline functions of the C library's headers: \<^verbatim>\<open>Software/h/ctype.h\<close>, the arithmetic of \<^verbatim>\<open>stdlib.h\<close> and
  \<^verbatim>\<open>inttypes.h\<close>, and the random numbers of \<^verbatim>\<open>Software/src/std/stdlib/rng_functions.c\<close>. An \<open>int\<close> is an integer;
  signed overflow, which C leaves undefined, is \<open>None\<close>.
\<close>

section \<open>Characters\<close>

definition isalnum :: "int \<Rightarrow> bool" where
  "isalnum c \<longleftrightarrow> c \<ge> 48 \<and> c \<le> 57 \<or> c \<ge> 65 \<and> c \<le> 90 \<or> c \<ge> 97 \<and> c \<le> 122"
definition isalpha :: "int \<Rightarrow> bool" where
  "isalpha c \<longleftrightarrow> c \<ge> 65 \<and> c \<le> 90 \<or> c \<ge> 97 \<and> c \<le> 122"
definition islower :: "int \<Rightarrow> bool" where "islower c \<longleftrightarrow> c \<ge> 97 \<and> c \<le> 122"
definition isupper :: "int \<Rightarrow> bool" where "isupper c \<longleftrightarrow> c \<ge> 65 \<and> c \<le> 90"
definition isdigit :: "int \<Rightarrow> bool" where "isdigit c \<longleftrightarrow> c \<ge> 48 \<and> c \<le> 57"
definition isxdigit :: "int \<Rightarrow> bool" where
  "isxdigit c \<longleftrightarrow> c \<ge> 48 \<and> c \<le> 57 \<or> c \<ge> 65 \<and> c \<le> 70 \<or> c \<ge> 97 \<and> c \<le> 102"
definition iscntrl :: "int \<Rightarrow> bool" where "iscntrl c \<longleftrightarrow> c \<ge> 0 \<and> c \<le> 31 \<or> c = 127"
definition isgraph :: "int \<Rightarrow> bool" where "isgraph c \<longleftrightarrow> c \<ge> 33 \<and> c \<le> 126"
definition isspace :: "int \<Rightarrow> bool" where "isspace c \<longleftrightarrow> c \<ge> 9 \<and> c \<le> 13"
definition isblank :: "int \<Rightarrow> bool" where "isblank c \<longleftrightarrow> c = 32 \<or> c = 9"
definition isprint :: "int \<Rightarrow> bool" where "isprint c \<longleftrightarrow> c \<ge> 32 \<and> c \<le> 126"
definition ispunct :: "int \<Rightarrow> bool" where
  "ispunct c \<longleftrightarrow> c \<ge> 33 \<and> c \<le> 47 \<or> c \<ge> 58 \<and> c \<le> 64 \<or> c \<ge> 91 \<and> c \<le> 96 \<or> c \<ge> 123 \<and> c \<le> 126"

definition tolower :: "int \<Rightarrow> int" where "tolower c = (if isupper c then c + 32 else c)"
definition toupper :: "int \<Rightarrow> int" where "toupper c = (if islower c then c - 32 else c)"

lemmas ctype_defs = isalnum_def isalpha_def islower_def isupper_def isdigit_def isxdigit_def iscntrl_def isgraph_def
  isspace_def isblank_def isprint_def ispunct_def

section \<open>Signed arithmetic\<close>

definition INT_MIN :: int where "INT_MIN = - 2147483648"
definition INT_MAX :: int where "INT_MAX = 2147483647"
definition LONG_MIN :: int where "LONG_MIN = - 2147483648"
definition LONG_MAX :: int where "LONG_MAX = 2147483647"
definition LLONG_MIN :: int where "LLONG_MIN = - 9223372036854775808"
definition LLONG_MAX :: int where "LLONG_MAX = 9223372036854775807"

definition in_range :: "int \<Rightarrow> int \<Rightarrow> int \<Rightarrow> int option" where
  "in_range lo hi x = (if lo \<le> x \<and> x \<le> hi then Some x else None)"

text \<open>A division by zero and the quotient of the least number and -1 are undefined.\<close>

definition div_rem :: "int \<Rightarrow> int \<Rightarrow> int \<Rightarrow> int \<Rightarrow> (int \<times> int) option" where
  "div_rem lo hi numer denom =
     (if denom = 0 then None
      else do { q \<leftarrow> in_range lo hi (numer sdiv denom); Some (q, numer smod denom) })"

definition div_int :: "int \<Rightarrow> int \<Rightarrow> (int \<times> int) option" where "div_int = div_rem INT_MIN INT_MAX"
definition ldiv :: "int \<Rightarrow> int \<Rightarrow> (int \<times> int) option" where "ldiv = div_rem LONG_MIN LONG_MAX"
definition lldiv :: "int \<Rightarrow> int \<Rightarrow> (int \<times> int) option" where "lldiv = div_rem LLONG_MIN LLONG_MAX"
definition imaxdiv :: "int \<Rightarrow> int \<Rightarrow> (int \<times> int) option" where "imaxdiv = div_rem LLONG_MIN LLONG_MAX"

definition abs_int :: "int \<Rightarrow> int option" where "abs_int n = (if n < 0 then in_range INT_MIN INT_MAX (- n) else Some n)"
definition labs :: "int \<Rightarrow> int option" where "labs n = (if n < 0 then in_range LONG_MIN LONG_MAX (- n) else Some n)"
definition llabs :: "int \<Rightarrow> int option" where "llabs n = (if n < 0 then in_range LLONG_MIN LLONG_MAX (- n) else Some n)"
definition imaxabs :: "int \<Rightarrow> int option" where "imaxabs n = (if n < 0 then in_range LLONG_MIN LLONG_MAX (- n) else Some n)"

section \<open>Random numbers\<close>

text \<open>The state is the static variable \<open>seed\<close>.\<close>

definition rand :: "u32 \<Rightarrow> int \<times> u32" where
  "rand seed = (let seed = seed * 1103515245 + 12345 in (uint (seed div 65536 mod 32768), seed))"

definition srand :: "u32 \<Rightarrow> u32 \<Rightarrow> u32" where
  "srand new_seed seed = new_seed"

section \<open>Lemmas\<close>

text \<open>The classes of characters, on all integers.\<close>

lemma char_classes:
  "isalnum c \<longleftrightarrow> isalpha c \<or> isdigit c" "isalpha c \<longleftrightarrow> islower c \<or> isupper c"
  "isgraph c \<longleftrightarrow> isalnum c \<or> ispunct c" "isprint c \<longleftrightarrow> isgraph c \<or> c = 32"
  "isxdigit c \<Longrightarrow> isalnum c" "\<not> (isprint c \<and> iscntrl c)" "\<not> (isalnum c \<and> ispunct c)"
  "0 \<le> c \<Longrightarrow> c < 128 \<Longrightarrow> isprint c \<or> iscntrl c"
  unfolding ctype_defs by linarith+

lemma case_maps:
  "isupper c \<Longrightarrow> islower (tolower c)" "islower c \<Longrightarrow> isupper (toupper c)"
  "isupper c \<Longrightarrow> toupper (tolower c) = c" "islower c \<Longrightarrow> tolower (toupper c) = c"
  "tolower (tolower c) = tolower c" "toupper (toupper c) = toupper c" "isalpha (tolower c) = isalpha c"
  by (auto simp: ctype_defs tolower_def toupper_def)

lemma smod_sign:
  fixes a b :: int
  assumes "b \<noteq> 0"
  shows "\<bar>a smod b\<bar> < \<bar>b\<bar>" and "a smod b = 0 \<or> sgn (a smod b) = sgn a"
proof -
  have m: "0 \<le> \<bar>a\<bar> mod \<bar>b\<bar>" "\<bar>a\<bar> mod \<bar>b\<bar> < \<bar>b\<bar>" using assms by simp_all
  show "\<bar>a smod b\<bar> < \<bar>b\<bar>" using m assms by (cases "a = 0") (auto simp: signed_modulo_int_def abs_mult sgn_if)
  show "a smod b = 0 \<or> sgn (a smod b) = sgn a" using m by (auto simp: signed_modulo_int_def sgn_if)
qed

lemma div_rem_Some:
  assumes "div_rem lo hi a b = Some (q, r)"
  shows "b * q + r = a \<and> \<bar>r\<bar> < \<bar>b\<bar> \<and> (r = 0 \<or> sgn r = sgn a)"
proof -
  have "b \<noteq> 0" "q = a sdiv b" "r = a smod b"
    using assms by (auto simp: div_rem_def in_range_def bind_eq_Some split: if_splits)
  then show ?thesis using smod_sign [of b a] mult_sdiv_smod_eq [of b a] by simp
qed

text \<open>The division is defined but for a zero denominator and the least number divided by -1.\<close>

lemma div_rem_None:
  assumes "lo \<le> a" "a \<le> hi" "lo = - hi - 1"
  shows "div_rem lo hi a b = None \<longleftrightarrow> b = 0 \<or> a = lo \<and> b = -1"
proof -
  have big: "lo \<le> a sdiv b \<and> a sdiv b \<le> hi" if b: "b \<noteq> 0" "b \<noteq> -1" "b \<noteq> 1"
  proof -
    have "\<bar>a\<bar> div \<bar>b\<bar> \<le> \<bar>a\<bar> div 2" by (rule zdiv_mono2) (use b in auto)
    moreover have "0 \<le> \<bar>a\<bar> div \<bar>b\<bar>" using b(1) by (simp add: pos_imp_zdiv_nonneg_iff)
    moreover define q where "q = \<bar>a\<bar> div \<bar>b\<bar>"
    ultimately have "\<bar>a sdiv b\<bar> \<le> \<bar>a\<bar> div 2"
      unfolding signed_divide_int_def q_def [symmetric] by (auto simp: abs_mult sgn_if)
    then show ?thesis using assms by auto
  qed
  have "div_rem lo hi a b = None \<longleftrightarrow> b = 0 \<or> \<not> (lo \<le> a sdiv b \<and> a sdiv b \<le> hi)"
    by (auto simp: div_rem_def in_range_def bind_eq_None_conv)
  then show ?thesis using big assms by (cases "b = 1"; cases "b = -1") auto
qed

lemma rand_range: "fst (rand s) \<in> {0..32767}"
proof -
  have "w mod 32768 \<le> 32767" for w :: u32
    by (simp add: word_le_nat_alt unat_mod)
  then show ?thesis by (simp add: rand_def Let_def word_le_def)
qed

end
