(* ===== verification/Conv.thy ===== *)
theory Conv
  imports Ctype Strings
begin

text \<open>
  Conversion of strings to numbers: \<^verbatim>\<open>Software/src/std/stdlib/conv_functions.c\<close> and the wrappers of
  \<^verbatim>\<open>Software/h/stdlib.h\<close>. \<open>errno\<close> is passed along. A \<open>long\<close> has 32 bits, a \<open>long long\<close> 64.
\<close>

section \<open>Scanning\<close>

partial_function (option) skip_spaces :: "addr \<Rightarrow> ram \<Rightarrow> addr option" where
  "skip_spaces str m = do { c \<leftarrow> m str; if isspace (uint c) then skip_spaces (str + 1) m else Some str }"

text \<open>The sign, and the base when it is 0: what \<open>strtoll\<close> and \<open>strtoull\<close> do before the digits.\<close>

definition scan_sign :: "addr \<Rightarrow> ram \<Rightarrow> (addr \<times> int) option" where
  "scan_sign str m = do {
     c \<leftarrow> m str;
     if c = 45 then Some (str + 1, -1)
     else if c = 43 then Some (str + 1, 1)
     else Some (str, 1)
   }"

definition scan_base :: "addr \<Rightarrow> int \<Rightarrow> ram \<Rightarrow> (addr \<times> int) option" where
  "scan_base str base m =
     (if base = 0
      then do {
        c \<leftarrow> m str;
        if c = 48
        then do {
          d \<leftarrow> m (str + 1);
          if d = 120 \<or> d = 88 then Some (str + 2, 16) else Some (str, 8)
        }
        else Some (str, 10)
      }
      else Some (str, base))"

definition digit_of :: "u8 \<Rightarrow> int option" where
  "digit_of c =
     (if c \<ge> 48 \<and> c \<le> 57 then Some (uint c - 48)
      else if c \<ge> 97 \<and> c \<le> 122 then Some (uint c - 97 + 10)
      else if c \<ge> 65 \<and> c \<le> 90 then Some (uint c - 65 + 10)
      else None)"

section \<open>Signed numbers\<close>

text \<open>The digits: where the loop stops, the result, \<open>errno\<close>.\<close>

partial_function (option) strtoll_loop :: "addr \<Rightarrow> int \<Rightarrow> int \<Rightarrow> int \<Rightarrow> ram \<Rightarrow> (addr \<times> int \<times> int) option" where
  "strtoll_loop str base result errno m = do {
     c \<leftarrow> m str;
     if c = 0 then Some (str, result, errno)
     else case digit_of c of
       None \<Rightarrow> Some (str, result, errno)
     | Some digit \<Rightarrow>
         if digit \<ge> base then Some (str, result, errno)
         else if result > (LLONG_MAX - digit) sdiv base then Some (str, LLONG_MAX, ERANGE)
         else if result < (LLONG_MIN + digit) sdiv base then Some (str, LLONG_MIN, ERANGE)
         else strtoll_loop (str + 1) base (result * base + digit) errno m
   }"

definition store_end :: "addr \<Rightarrow> addr \<Rightarrow> ram \<Rightarrow> ram option" where
  "store_end str_end str m = (if str_end \<noteq> NULL then store32 str_end str m else Some m)"

definition strtoll :: "addr \<Rightarrow> addr \<Rightarrow> int \<Rightarrow> int \<times> ram \<Rightarrow> (int \<times> int \<times> ram) option" where
  "strtoll str str_end base = (\<lambda>(errno, m). do {
     str \<leftarrow> skip_spaces str m;
     (str, sign) \<leftarrow> scan_sign str m;
     (str, base) \<leftarrow> scan_base str base m;
     (str, result, errno) \<leftarrow> strtoll_loop str base 0 errno m;
     m \<leftarrow> store_end str_end str m;
     Some (result * sign, errno, m)
   })"

definition strtol :: "addr \<Rightarrow> addr \<Rightarrow> int \<Rightarrow> int \<times> ram \<Rightarrow> (int \<times> int \<times> ram) option" where
  "strtol str str_end base s = do {
     (result, errno, m) \<leftarrow> strtoll str str_end base s;
     if result > LONG_MAX then Some (LONG_MAX, ERANGE, m)
     else if result < LONG_MIN then Some (LONG_MIN, ERANGE, m)
     else Some (result, errno, m)
   }"

definition atoi :: "addr \<Rightarrow> int \<times> ram \<Rightarrow> (int \<times> int \<times> ram) option" where "atoi str s = strtol str NULL 10 s"
definition atol :: "addr \<Rightarrow> int \<times> ram \<Rightarrow> (int \<times> int \<times> ram) option" where "atol str s = strtol str NULL 10 s"
definition atoll :: "addr \<Rightarrow> int \<times> ram \<Rightarrow> (int \<times> int \<times> ram) option" where "atoll str s = strtoll str NULL 10 s"

section \<open>Unsigned numbers\<close>

definition ULLONG_MAX :: u64 where "ULLONG_MAX = 0xFFFFFFFFFFFFFFFF"
definition ULONG_MAX :: int where "ULONG_MAX = 4294967295"

partial_function (option) strtoull_loop :: "addr \<Rightarrow> int \<Rightarrow> u64 \<Rightarrow> int \<Rightarrow> ram \<Rightarrow> (addr \<times> u64 \<times> int) option" where
  "strtoull_loop str base result errno m = do {
     c \<leftarrow> m str;
     if c = 0 then Some (str, result, errno)
     else case digit_of c of
       None \<Rightarrow> Some (str, result, errno)
     | Some digit \<Rightarrow>
         if digit \<ge> base then Some (str, result, errno)
         else if result > (ULLONG_MAX - of_int digit) div of_int base then Some (str, of_int LLONG_MAX, ERANGE)
         else strtoull_loop (str + 1) base (result * of_int base + of_int digit) errno m
   }"

definition strtoull :: "addr \<Rightarrow> addr \<Rightarrow> int \<Rightarrow> int \<times> ram \<Rightarrow> (u64 \<times> int \<times> ram) option" where
  "strtoull str str_end base = (\<lambda>(errno, m). do {
     str \<leftarrow> skip_spaces str m;
     (str, sign) \<leftarrow> scan_sign str m;
     (str, base) \<leftarrow> scan_base str base m;
     (str, result, errno) \<leftarrow> strtoull_loop str base 0 errno m;
     m \<leftarrow> store_end str_end str m;
     Some (result * of_int sign, errno, m)
   })"

text \<open>The result is converted to a signed \<open>long long\<close> and back.\<close>

definition strtoul :: "addr \<Rightarrow> addr \<Rightarrow> int \<Rightarrow> int \<times> ram \<Rightarrow> (u32 \<times> int \<times> ram) option" where
  "strtoul str str_end base s = do {
     (r, errno, m) \<leftarrow> strtoull str str_end base s;
     let result = sint r;
     if result > ULONG_MAX then Some (of_int ULONG_MAX, ERANGE, m)
     else Some (of_int result, errno, m)
   }"

end
