(* ===== verification/Conv_Properties.thy ===== *)
theory Conv_Properties
  imports Conv String_Properties
begin

text \<open>
  The properties of the conversions.
\<close>

section \<open>The digits\<close>

definition value_of :: "int \<Rightarrow> int \<Rightarrow> u8 list \<Rightarrow> int" where
  "value_of base acc ds = foldl (\<lambda>r d. r * base + the (digit_of d)) acc ds"

definition digits_in :: "int \<Rightarrow> u8 list \<Rightarrow> bool" where
  "digits_in base ds \<longleftrightarrow> (\<forall>d\<in>set ds. \<exists>k. digit_of d = Some k \<and> k < base)"

text \<open>The rest of the text does not begin with a digit.\<close>

definition stops :: "int \<Rightarrow> u8 list \<Rightarrow> bool" where
  "stops base rest \<longleftrightarrow> (case rest of [] \<Rightarrow> True | c # _ \<Rightarrow> (case digit_of c of None \<Rightarrow> True | Some k \<Rightarrow> base \<le> k))"

lemma uint_sub: "b \<le> a \<Longrightarrow> uint (a - b) = uint a - uint (b :: u8)"
  by (simp add: uint_sub_lem word_le_def)

lemma digit_of_range: "digit_of c = Some k \<Longrightarrow> 0 \<le> k \<and> k \<le> 35"
  by (auto simp: digit_of_def word_le_def split: if_splits)

lemma value_of_simps: "value_of base acc [] = acc" "value_of base acc (d # ds) = value_of base (acc * base + the (digit_of d)) ds"
  by (simp_all add: value_of_def)

lemma value_of_ge:
  "digits_in base ds \<Longrightarrow> 1 \<le> base \<Longrightarrow> 0 \<le> acc \<Longrightarrow> acc \<le> value_of base acc ds"
proof (induction ds arbitrary: acc)
  case (Cons d ds)
  obtain k where k: "digit_of d = Some k" "0 \<le> k" using Cons.prems(1) digit_of_range by (fastforce simp: digits_in_def)
  have "acc \<le> acc * base" using Cons.prems(2,3) by (simp add: mult_le_cancel_left1)
  moreover have "acc * base + k \<le> value_of base (acc * base + k) ds"
    using Cons.IH [of "acc * base + k"] Cons.prems k(2) by (simp add: digits_in_def)
  ultimately show ?case using k by (simp add: value_of_simps)
qed (simp add: value_of_simps)

lemma overflow_test:
  fixes r base d b :: int
  assumes "0 < base" "0 \<le> b - d"
  shows "(b - d) sdiv base < r \<longleftrightarrow> b < r * base + d"
proof -
  have "(b - d) sdiv base = (b - d) div base" using assms by (cases "b = d") (auto simp: signed_divide_int_def)
  moreover have "(b - d) div base < r \<longleftrightarrow> b - d < r * base"
  proof
    assume "(b - d) div base < r"
    then have "((b - d) div base + 1) * base \<le> r * base" using assms(1) by (intro mult_right_mono) auto
    moreover have "b - d < ((b - d) div base + 1) * base"
      using assms(1) div_mult_mod_eq [of "b - d" base] pos_mod_bound [of base "b - d"] unfolding distrib_right by linarith
    ultimately show "b - d < r * base" by linarith
  next
    assume a: "b - d < r * base"
    show "(b - d) div base < r"
    proof (rule ccontr)
      assume "\<not> (b - d) div base < r"
      then have "r * base \<le> (b - d) div base * base" using assms(1) by (intro mult_right_mono) auto
      then show False using a assms(1) div_mult_mod_eq [of "b - d" base] pos_mod_sign [of base "b - d"] by linarith
    qed
  qed
  ultimately show ?thesis by linarith
qed

text \<open>The loop reads the digits and saturates.\<close>

lemma cstr_Cons: "cstr m p (c # cs) \<longleftrightarrow> m p = Some c \<and> c \<noteq> 0 \<and> cstr m (p + 1) cs \<and> length cs < 4294967294"
proof
  assume A: "cstr m p (c # cs)"
  have "cstr m (p + of_nat 1) (drop 1 (c # cs))" by (rule cstr_drop [OF A]) simp
  then show "m p = Some c \<and> c \<noteq> 0 \<and> cstr m (p + 1) cs \<and> length cs < 4294967294"
    using cstr_nth [OF A, of 0] cstr_length [OF A] by simp
next
  assume B: "m p = Some c \<and> c \<noteq> 0 \<and> cstr m (p + 1) cs \<and> length cs < 4294967294"
  have "m (p + of_nat i) = Some ((c # cs @ [0]) ! i)" if "i < length (c # cs @ [0])" for i
  proof (cases i)
    case (Suc j)
    then show ?thesis using B bytes_at_nth [of m "p + 1" "cs @ [0]" j] that by (simp add: cstr_def add.assoc)
  qed (use B in simp)
  then show "cstr m p (c # cs)" using B by (simp add: cstr_def bytes_at_def)
qed

lemma cstr_Nil: "cstr m p [] \<longleftrightarrow> m p = Some 0"
  by (simp add: cstr_def bytes_at_def)

lemma strtoll_loop_reads:
  assumes "cstr m p (ds @ rest)" and "digits_in base ds" and "stops base rest" and "2 \<le> base" "base \<le> 36"
    and "0 \<le> acc" "acc \<le> LLONG_MAX"
  shows "\<exists>q. strtoll_loop p base acc e m = Some (q, min (value_of base acc ds) LLONG_MAX, if value_of base acc ds > LLONG_MAX then ERANGE else e)"
  using assms
proof (induction ds arbitrary: p acc)
  case Nil
  show ?case
  proof (cases rest)
    case Nil
    then show ?thesis using Nil.prems by (subst strtoll_loop.simps) (simp add: cstr_Nil value_of_simps)
  next
    case (Cons c cs)
    then show ?thesis
      using Nil.prems by (subst strtoll_loop.simps) (auto simp: cstr_Cons value_of_simps stops_def split: option.splits)
  qed
next
  case (Cons d ds)
  obtain k where k: "digit_of d = Some k" "k < base" "0 \<le> k" "k \<le> 35"
    using Cons.prems(2) digit_of_range by (fastforce simp: digits_in_def)
  have c: "m p = Some d" "d \<noteq> 0" "cstr m (p + 1) (ds @ rest)" using Cons.prems(1) by (simp_all add: cstr_Cons)
  have ds: "digits_in base ds" using Cons.prems(2) by (simp add: digits_in_def)
  let ?acc = "acc * base + k"
  have pos: "0 \<le> ?acc" using Cons.prems(4,6) k(3) by simp
  have t: "(LLONG_MAX - k) sdiv base < acc \<longleftrightarrow> LLONG_MAX < ?acc"
    by (rule overflow_test) (use k Cons.prems(4) in \<open>simp_all add: LLONG_MAX_def\<close>)
  have "(LLONG_MIN + k) sdiv base \<le> 0"
    using k Cons.prems(4) by (auto simp: signed_divide_int_def LLONG_MIN_def sgn_if pos_imp_zdiv_nonneg_iff)
  then have neg: "\<not> acc < (LLONG_MIN + k) sdiv base" using Cons.prems(6) by linarith
  show ?case
  proof (cases "LLONG_MAX < ?acc")
    case True
    have "?acc \<le> value_of base ?acc ds" by (rule value_of_ge [OF ds _ pos]) (use Cons.prems(4) in simp)
    then have "LLONG_MAX < value_of base ?acc ds" using True by linarith
    then show ?thesis using True c k t by (subst strtoll_loop.simps) (simp add: value_of_simps)
  next
    case False
    have "strtoll_loop p base acc e m = strtoll_loop (p + 1) base ?acc e m"
      using False c k t neg by (subst strtoll_loop.simps) simp
    then show ?thesis using Cons.IH [OF c(3) ds Cons.prems(3-5) pos] False k(1) by (simp add: value_of_simps)
  qed
qed

section \<open>Spaces, sign, digits\<close>

lemma skip_spaces_reads:
  "cstr m p (ws @ cs) \<Longrightarrow> \<forall>w\<in>set ws. isspace (uint w) \<Longrightarrow> (case cs of [] \<Rightarrow> True | c # _ \<Rightarrow> \<not> isspace (uint c)) \<Longrightarrow>
    \<exists>q. skip_spaces p m = Some q \<and> cstr m q cs"
proof (induction ws arbitrary: p)
  case Nil
  then show ?case by (subst skip_spaces.simps) (auto simp: cstr_Cons cstr_Nil isspace_def split: list.splits)
next
  case (Cons w ws)
  then have c: "m p = Some w" "cstr m (p + 1) (ws @ cs)" by (simp_all add: cstr_Cons)
  then show ?case using Cons.IH [OF c(2)] Cons.prems by (subst skip_spaces.simps) simp
qed

text \<open>A number as the parser accepts it: spaces, an optional sign, digits, and a rest.\<close>

definition sign_value :: "u8 list \<Rightarrow> int" where "sign_value sg = (if sg = [45] then -1 else 1)"

lemma digit_not_space: "digit_of c = Some k \<Longrightarrow> \<not> isspace (uint c) \<and> c \<noteq> 43 \<and> c \<noteq> 45"
  by (auto simp: digit_of_def isspace_def word_le_def split: if_splits)

lemma strtoll_reads:
  assumes p: "cstr m p (ws @ sg @ ds @ rest)" and w: "\<forall>w\<in>set ws. isspace (uint w)" and sg: "sg \<in> {[], [43], [45]}"
    and ds: "digits_in base ds" "ds \<noteq> []" and rest: "stops base rest" and b: "2 \<le> base" "base \<le> 36"
  shows "strtoll p NULL base (e, m) =
    Some (sign_value sg * min (value_of base 0 ds) LLONG_MAX, if value_of base 0 ds > LLONG_MAX then ERANGE else e, m)"
proof -
  obtain d ds' where d: "ds = d # ds'" using ds(2) by (cases ds) auto
  obtain k where k: "digit_of d = Some k" using ds(1) d by (auto simp: digits_in_def)
  have "case sg @ ds @ rest of [] \<Rightarrow> True | c # _ \<Rightarrow> \<not> isspace (uint c)"
    using sg d digit_not_space [OF k] by (auto simp: isspace_def)
  from skip_spaces_reads [OF p w this] obtain q where q: "skip_spaces p m = Some q" "cstr m q (sg @ ds @ rest)" by blast
  obtain r where r: "scan_sign q m = Some (r, sign_value sg)" "cstr m r (ds @ rest)"
    using sg q(2) d digit_not_space [OF k] by (auto simp: scan_sign_def sign_value_def cstr_Cons)
  obtain x where "strtoll_loop r base 0 e m = Some (x, min (value_of base 0 ds) LLONG_MAX, if value_of base 0 ds > LLONG_MAX then ERANGE else e)"
    using strtoll_loop_reads [OF r(2) ds(1) rest b, of 0 e] by (auto simp: LLONG_MAX_def)
  then show ?thesis using q(1) r(1) b by (simp add: strtoll_def scan_base_def store_end_def mult.commute)
qed

text \<open>
  C33: \<open>strtol\<close> reads a number: after spaces and an optional sign it takes the longest sequence of digits of the base and
  returns their value, clamped to the range of a \<open>long\<close>; \<open>errno\<close> becomes \<open>ERANGE\<close> exactly if the value is out of range.
\<close>

theorem strtol_reads:
  assumes p: "cstr m p (ws @ sg @ ds @ rest)" and w: "\<forall>w\<in>set ws. isspace (uint w)" and sg: "sg \<in> {[], [43], [45]}"
    and ds: "digits_in base ds" "ds \<noteq> []" and rest: "stops base rest" and b: "2 \<le> base" "base \<le> 36"
    and v: "v = sign_value sg * value_of base 0 ds"
  shows "strtol p NULL base (e, m) =
    Some (max LONG_MIN (min LONG_MAX v), if v < LONG_MIN \<or> LONG_MAX < v then ERANGE else e, m)"
proof -
  have pos: "0 \<le> value_of base 0 ds" by (rule value_of_ge [OF ds(1)]) (use b in simp_all)
  have "sign_value sg = 1 \<or> sign_value sg = -1" by (simp add: sign_value_def)
  then show ?thesis
    using strtoll_reads [OF p w sg ds rest b, of e] pos
    by (auto simp: strtol_def v LONG_MAX_def LONG_MIN_def LLONG_MAX_def min_def max_def)
qed

theorem strtol_reads_witness:
  "strtol 0x100 NULL 10 (0, put 0x100 [9, 45, 52, 50, 33] (\<lambda>_. Some 0)) = Some (-42, 0, put 0x100 [9, 45, 52, 50, 33] (\<lambda>_. Some 0))"
proof -
  let ?m = "put 0x100 [9, 45, 52, 50, 33] (\<lambda>_. Some 0)"
  have c: "cstr ?m 0x100 ([9] @ [45] @ [52, 50] @ [33])" by (auto simp: cstr_def bytes_at_def less_Suc_eq)
  have v: "sign_value [45] * value_of 10 0 [52, 50] = -42" by (simp add: sign_value_def value_of_def digit_of_def)
  have "strtol 0x100 NULL 10 (0, ?m) = Some (max LONG_MIN (min LONG_MAX (-42)), if (-42 :: int) < LONG_MIN \<or> LONG_MAX < -42 then ERANGE else 0, ?m)"
    by (rule strtol_reads [OF c _ _ _ _ _ _ _ v [symmetric]]) (simp_all add: isspace_def digits_in_def digit_of_def stops_def)
  then show ?thesis by (simp add: LONG_MIN_def LONG_MAX_def)
qed

section \<open>Printing and reading back\<close>

text \<open>The digits of a number, most significant first, as a reference printer writes them.\<close>

definition digit_char :: "nat \<Rightarrow> u8" where
  "digit_char k = (if k < 10 then of_nat (48 + k) else of_nat (87 + k))"

fun show_nat :: "nat \<Rightarrow> nat \<Rightarrow> u8 list" where
  "show_nat b n = (if b < 2 \<or> n < b then [digit_char n] else show_nat b (n div b) @ [digit_char (n mod b)])"

declare show_nat.simps [simp del]

definition show_int :: "nat \<Rightarrow> int \<Rightarrow> u8 list" where
  "show_int b n = (if n < 0 then 45 # show_nat b (nat (- n)) else show_nat b (nat n))"

lemma digit_of_uint:
  "digit_of c = (if 48 \<le> uint c \<and> uint c \<le> 57 then Some (uint c - 48)
     else if 97 \<le> uint c \<and> uint c \<le> 122 then Some (uint c - 97 + 10)
     else if 65 \<le> uint c \<and> uint c \<le> 90 then Some (uint c - 65 + 10) else None)"
  by (simp add: digit_of_def word_le_def)

lemma digit_char_value:
  assumes "k < 36"
  shows "digit_of (digit_char k) = Some (int k)"
proof -
  have "uint (of_nat i :: u8) = int i" if "i < 256" for i
    using that by (simp add: uint_nat unat_of_nat take_bit_nat_eq_self)
  then have "uint (digit_char k) = (if k < 10 then int (48 + k) else int (87 + k))"
    using assms unfolding digit_char_def by (simp del: of_nat_add)
  then show ?thesis using assms unfolding digit_of_uint by (cases "k < 10") simp_all
qed

lemma value_of_append: "value_of base acc (xs @ ys) = value_of base (value_of base acc xs) ys"
  by (simp add: value_of_def)

lemma show_nat_value:
  assumes "2 \<le> b" "b \<le> 36"
  shows "digits_in (int b) (show_nat b n) \<and> value_of (int b) 0 (show_nat b n) = int n \<and> show_nat b n \<noteq> []"
  using assms
proof (induction b n rule: show_nat.induct)
  case (1 b n)
  show ?case
  proof (cases "n < b")
    case True
    then show ?thesis
      using "1.prems" digit_char_value [of n] by (simp add: show_nat.simps [of b n] digits_in_def value_of_simps)
  next
    case False
    have r: "n mod b < 36" "n mod b < b" using "1.prems" by (auto intro: order.strict_trans2 [OF mod_less_divisor])
    have IH: "digits_in (int b) (show_nat b (n div b))" "value_of (int b) 0 (show_nat b (n div b)) = int (n div b)"
      using "1.IH" "1.prems" False by auto
    have "int (n div b) * int b + int (n mod b) = int n" by (metis div_mult_mod_eq of_nat_add of_nat_mult)
    then show ?thesis
      using False "1.prems" IH r digit_char_value [OF r(1)]
      by (auto simp: show_nat.simps [of b n] digits_in_def value_of_append value_of_simps)
  qed
qed

text \<open>
  C34: What is printed in base 2 to 36 is read back by \<open>strtol\<close>: every \<open>long\<close>, the least one included, with \<open>errno\<close> untouched.
\<close>

theorem strtol_show:
  assumes "cstr m p (show_int b n)" and "2 \<le> b" "b \<le> 36" and n: "LONG_MIN \<le> n" "n \<le> LONG_MAX"
  shows "strtol p NULL (int b) (e, m) = Some (n, e, m)"
proof -
  let ?ds = "show_nat b (nat \<bar>n\<bar>)" and ?sg = "if n < 0 then [45 :: u8] else []"
  have ds: "digits_in (int b) ?ds" "value_of (int b) 0 ?ds = \<bar>n\<bar>" "?ds \<noteq> []"
    using show_nat_value [OF assms(2,3), of "nat \<bar>n\<bar>"] by simp_all
  have p: "cstr m p ([] @ ?sg @ ?ds @ [])" using assms(1) by (simp add: show_int_def split: if_splits)
  have v: "n = sign_value ?sg * value_of (int b) 0 ?ds" using ds(2) by (simp add: sign_value_def)
  have "strtol p NULL (int b) (e, m) = Some (max LONG_MIN (min LONG_MAX n), if n < LONG_MIN \<or> LONG_MAX < n then ERANGE else e, m)"
    by (rule strtol_reads [OF p _ _ ds(1,3) _ _ _ v]) (use assms(2,3) in \<open>simp_all add: stops_def\<close>)
  then show ?thesis using n by simp
qed

theorem strtol_show_witness:
  "strtol 0x100 NULL 16 (0, put 0x100 [45, 56, 48, 48, 48, 48, 48, 48, 48] (\<lambda>_. Some 0))
     = Some (LONG_MIN, 0, put 0x100 [45, 56, 48, 48, 48, 48, 48, 48, 48] (\<lambda>_. Some 0))"
proof -
  let ?m = "put 0x100 [45, 56, 48, 48, 48, 48, 48, 48, 48] (\<lambda>_. Some 0)"
  have "show_int 16 LONG_MIN = [45, 56, 48, 48, 48, 48, 48, 48, 48]"
    by (simp add: show_int_def LONG_MIN_def show_nat.simps digit_char_def)
  moreover have "cstr ?m 0x100 [45, 56, 48, 48, 48, 48, 48, 48, 48]" by (auto simp: cstr_def bytes_at_def less_Suc_eq)
  ultimately have "cstr ?m 0x100 (show_int 16 LONG_MIN)" by simp
  from strtol_show [OF this, of 0] show ?thesis by (simp add: LONG_MIN_def LONG_MAX_def)
qed

end
