(* ===== verification/Stdlib.thy ===== *)
theory Stdlib
  imports Strings
begin

text \<open>
  Allocation, binary search and time of the C library: \<^verbatim>\<open>Software/src/std/stdlib/alloc_functions.c\<close>,
  \<^verbatim>\<open>algorithm_functions.c\<close> and \<^verbatim>\<open>Software/src/std/time/time_formatting.c\<close>.
\<close>

section \<open>Allocation\<close>

definition calloc :: "addr \<Rightarrow> u32 \<Rightarrow> u32 \<Rightarrow> 'a kstate_scheme \<Rightarrow> (addr \<times> 'a kstate_scheme) option" where
  "calloc slot num sz s = do {
     let bytes = num * sz;
     (ptr, s) \<leftarrow> malloc bytes s;
     if ptr = NULL then Some (NULL, s)
     else do {
       (_, m) \<leftarrow> memset slot ptr 0 bytes (kram s);
       Some (ptr, s\<lparr>kram := m\<rparr>)
     }
   }"

text \<open>\<open>try_realloc\<close> stands for \<open>__try_realloc\<close>, which the code declares but does not define.\<close>

definition realloc ::
  "(addr \<Rightarrow> u32 \<Rightarrow> 'a kstate_scheme \<Rightarrow> (bool \<times> 'a kstate_scheme) option) \<Rightarrow> addr \<Rightarrow> u32 \<Rightarrow> 'a kstate_scheme \<Rightarrow> (addr \<times> 'a kstate_scheme) option" where
  "realloc try_realloc ptr sz s =
     (if ptr = NULL then malloc sz s
      else if sz = 0 then do { s \<leftarrow> free ptr s; Some (NULL, s) }
      else do {
        (expanded, s) \<leftarrow> try_realloc ptr sz s;
        if expanded then Some (ptr, s)
        else do {
          (new_ptr, s) \<leftarrow> malloc sz s;
          if new_ptr = NULL then Some (NULL, s)
          else do {
            (_, m) \<leftarrow> memcpy new_ptr ptr sz (kram s);
            s \<leftarrow> free ptr (s\<lparr>kram := m\<rparr>);
            Some (new_ptr, s)
          }
        }
      })"

section \<open>Binary search\<close>

text \<open>\<open>cmp\<close> is the caller's comparison; it traps (\<open>None\<close>) on a pointer that it may not read.\<close>

partial_function (option) bsearch_loop :: "(addr \<Rightarrow> addr \<Rightarrow> int option) \<Rightarrow> addr \<Rightarrow> addr \<Rightarrow> u32 \<Rightarrow> u32 \<Rightarrow> u32 \<Rightarrow> addr option" where
  "bsearch_loop cmp key base sz left right =
     (if left \<le> right
      then do {
        let middle = left + (right - left) div 2;
        comparison \<leftarrow> cmp key (base + middle * sz);
        if comparison = 0 then Some (base + middle * sz)
        else if comparison < 0 then bsearch_loop cmp key base sz left (middle - 1)
        else bsearch_loop cmp key base sz (middle + 1) right
      }
      else Some NULL)"

definition bsearch :: "addr \<Rightarrow> addr \<Rightarrow> u32 \<Rightarrow> u32 \<Rightarrow> (addr \<Rightarrow> addr \<Rightarrow> int option) \<Rightarrow> addr option" where
  "bsearch key base num sz cmp = bsearch_loop cmp key base sz 0 (num - 1)"

section \<open>Time\<close>

text \<open>
  \<open>now\<close> is what \<open>time\<close> reads (the low word of the time counter, a signed number), \<open>ticks\<close> what \<open>clock\<close> reads. The
  product of two \<open>long\<close>s wraps around.
\<close>

record timespec =
  tv_sec :: "32 word"
  tv_nsec :: "32 word"

definition CLOCKS_PER_SEC :: u32 where "CLOCKS_PER_SEC = 50000000"
definition TIME_UTC :: int where "TIME_UTC = 1"
definition TIME_MONOTONIC :: int where "TIME_MONOTONIC = 2"

definition timespec_get :: "u32 \<Rightarrow> u64 \<Rightarrow> int \<Rightarrow> timespec \<Rightarrow> int \<times> timespec" where
  "timespec_get now ticks base ts =
     (if base = TIME_UTC then (0, ts)
      else if base = TIME_MONOTONIC
      then let seconds = now;
               nanoseconds = ucast ((ticks - scast (seconds * CLOCKS_PER_SEC)) * (1000000000 div scast CLOCKS_PER_SEC))
           in (TIME_MONOTONIC, ts\<lparr>tv_sec := seconds, tv_nsec := nanoseconds\<rparr>)
      else (0, ts))"

definition timespec_getres :: "int \<Rightarrow> timespec \<Rightarrow> int \<times> timespec" where
  "timespec_getres base ts =
     (if base = TIME_UTC then (0, ts)
      else if base = TIME_MONOTONIC
      then (TIME_MONOTONIC, ts\<lparr>tv_sec := 0, tv_nsec := 1000000000 div CLOCKS_PER_SEC\<rparr>)
      else (0, ts))"

text \<open>The difference is computed on \<open>long\<close>s; every \<open>long\<close> is a \<open>double\<close>.\<close>

definition difftime :: "u32 \<Rightarrow> u32 \<Rightarrow> int" where
  "difftime time_end time_beg = sint (time_end - time_beg)"

end
