(* ===== verification/Search_Properties.thy ===== *)
theory Search_Properties
  imports Stdlib
begin

text \<open>
  The properties of binary search.
\<close>

section \<open>Binary search\<close>

lemma middle_word:
  assumes "l \<le> r" "r < 4294967296"
  shows "(of_nat l :: u32) + (of_nat r - of_nat l) div 2 = of_nat (l + (r - l) div 2)"
proof -
  obtain k where k: "r = l + k" using assms(1) le_iff_add by blast
  have "(of_nat k :: u32) div 2 = of_nat (k div 2)"
    using assms(2) k by (simp add: word_arith_nat_div unat_of_nat_u32)
  then show ?thesis by (simp add: k)
qed

lemma pred_word: "0 < unat num \<Longrightarrow> (of_nat (unat num - 1) :: u32) = num - 1"
  by (simp add: of_nat_diff)

lemma le_word: "l < 4294967296 \<Longrightarrow> r < 4294967296 \<Longrightarrow> (of_nat l :: u32) \<le> of_nat r \<longleftrightarrow> l \<le> r"
  by (simp add: word_le_nat_alt unat_of_nat_u32)

text \<open>The array is sorted: \<open>c i\<close>, the comparison of the key with element \<open>i\<close>, falls from positive over zero to negative.\<close>

definition compares :: "(addr \<Rightarrow> addr \<Rightarrow> int option) \<Rightarrow> addr \<Rightarrow> addr \<Rightarrow> nat \<Rightarrow> u32 \<Rightarrow> (nat \<Rightarrow> int) \<Rightarrow> bool" where
  "compares cmp key base n sz c \<longleftrightarrow> (\<forall>i<n. cmp key (base + of_nat i * sz) = Some (c i))
     \<and> (\<forall>i j. i \<le> j \<longrightarrow> j < n \<longrightarrow> sgn (c j) \<le> sgn (c i))"

lemma bsearch_loop_finds:
  assumes C: "compares cmp key base n sz c" and n: "n < 4294967296" and c0: "0 \<le> c 0"
  shows "l \<le> Suc r \<Longrightarrow> r < n \<Longrightarrow> \<forall>i<l. 0 < c i \<Longrightarrow> \<forall>i. r < i \<longrightarrow> i < n \<longrightarrow> c i < 0 \<Longrightarrow>
    \<exists>p. bsearch_loop cmp key base sz (of_nat l) (of_nat r) = Some p
      \<and> (if \<exists>i<n. c i = 0 then \<exists>i<n. c i = 0 \<and> p = base + of_nat i * sz else p = NULL)"
proof (induction "Suc r - l" arbitrary: l r rule: less_induct)
  case less
  have cv: "cmp key (base + of_nat i * sz) = Some (c i)" if "i < n" for i using C that by (simp add: compares_def)
  have mono: "sgn (c j) \<le> sgn (c i)" if "i \<le> j" "j < n" for i j using C that by (simp add: compares_def)
  have lr: "l < 4294967296" "r < 4294967296" using less.prems(1,2) n by linarith+
  show ?case
  proof (cases "l \<le> r")
    case False
    then have "0 < c i \<or> c i < 0" if "i < n" for i using less.prems(3,4) that by (cases "i < l") auto
    then have none: "\<not> (\<exists>i<n. c i = 0)" by force
    have "bsearch_loop cmp key base sz (of_nat l) (of_nat r) = Some NULL"
      using False le_word [OF lr] by (subst bsearch_loop.simps) simp
    then show ?thesis unfolding if_not_P [OF none] by blast
  next
    case True
    let ?m = "l + (r - l) div 2"
    have m: "l \<le> ?m" "?m \<le> r" "?m < n" using True less.prems(2) by auto
    have step: "bsearch_loop cmp key base sz (of_nat l) (of_nat r) =
      (if c ?m = 0 then Some (base + of_nat ?m * sz)
       else if c ?m < 0 then bsearch_loop cmp key base sz (of_nat l) (of_nat ?m - 1)
       else bsearch_loop cmp key base sz (of_nat ?m + 1) (of_nat r))"
      using True le_word [OF lr] cv [OF m(3)] middle_word [OF True lr(2)] by (subst bsearch_loop.simps) simp
    consider "c ?m = 0" | "c ?m < 0" | "0 < c ?m" by linarith
    then show ?thesis
    proof cases
      case 1
      then show ?thesis unfolding step using m(3) by auto
    next
      case 2
      have "?m \<noteq> 0" using 2 c0 by (metis not_less)
      then obtain k where k: "?m = Suc k" using not0_implies_Suc by blast
      have "c i < 0" if "k < i" "i < n" for i
        using mono [of ?m i] that k 2 by (simp add: sgn_if split: if_splits)
      moreover have "Suc k - l < Suc r - l" "l \<le> Suc k" "k < n" using k m by linarith+
      ultimately have "\<exists>p. bsearch_loop cmp key base sz (of_nat l) (of_nat k) = Some p
        \<and> (if \<exists>i<n. c i = 0 then \<exists>i<n. c i = 0 \<and> p = base + of_nat i * sz else p = NULL)"
        using less.hyps [of k l] less.prems(3) by blast
      moreover have "(of_nat ?m :: u32) - 1 = of_nat k" unfolding k by simp
      ultimately show ?thesis unfolding step using 2 by simp
    next
      case 3
      have "0 < c i" if "i < Suc ?m" for i
        using mono [of i ?m] that m(3) 3 by (simp add: sgn_if split: if_splits)
      moreover have "Suc r - Suc ?m < Suc r - l" "Suc ?m \<le> Suc r" using m by linarith+
      ultimately have "\<exists>p. bsearch_loop cmp key base sz (of_nat (Suc ?m)) (of_nat r) = Some p
        \<and> (if \<exists>i<n. c i = 0 then \<exists>i<n. c i = 0 \<and> p = base + of_nat i * sz else p = NULL)"
        using less.hyps [of r "Suc ?m"] less.prems(2,4) by blast
      moreover have "(of_nat ?m :: u32) + 1 = of_nat (Suc ?m)" by simp
      ultimately show ?thesis unfolding step using 3 by (metis less_irrefl not_less_iff_gr_or_eq)
    qed
  qed
qed

text \<open>
  C35: Binary search in a sorted array whose first element is not above the key terminates without reading outside the array
  and returns an element that equals the key, or null if there is none.
\<close>

theorem bsearch_finds:
  assumes C: "compares cmp key base (unat num) sz c" and n: "0 < unat num" and c0: "0 \<le> c 0"
  shows "\<exists>p. bsearch key base num sz cmp = Some p
    \<and> (if \<exists>i<unat num. c i = 0 then \<exists>i<unat num. c i = 0 \<and> p = base + of_nat i * sz else p = NULL)"
proof -
  note r = pred_word [OF n]
  have "\<forall>i. unat num - 1 < i \<longrightarrow> i < unat num \<longrightarrow> c i < 0" by (intro allI impI) linarith
  from bsearch_loop_finds [OF C unat_less_2p32 c0, of 0 "unat num - 1"] this n show ?thesis
    unfolding r by (simp add: bsearch_def)
qed

text \<open>Example: the numbers 10, 20, 30 as addresses; \<open>cmp\<close> compares the key with the address.\<close>

definition addr_cmp :: "addr \<Rightarrow> addr \<Rightarrow> int option" where
  "addr_cmp key p = (if p \<in> {10, 20, 30} then Some (uint key - uint p) else None)"

theorem bsearch_finds_witness: "bsearch 20 10 3 10 addr_cmp = Some 20 \<and> bsearch 25 10 3 10 addr_cmp = Some NULL"
proof -
  have i3: "i < 3 \<longleftrightarrow> i = 0 \<or> i = 1 \<or> i = 2" for i :: nat by auto
  have C: "compares addr_cmp k 10 (unat (3 :: u32)) 10 (\<lambda>i. uint k - 10 * (int i + 1))" for k
    by (auto simp: compares_def addr_cmp_def i3 sgn_if)
  have A: "\<exists>p. bsearch k 10 3 10 addr_cmp = Some p
    \<and> (if \<exists>i<unat (3 :: u32). uint k - 10 * (int i + 1) = 0 then \<exists>i<unat (3 :: u32). uint k - 10 * (int i + 1) = 0 \<and> p = 10 + of_nat i * 10 else p = NULL)"
    if "10 \<le> uint k" for k
    by (rule bsearch_finds [OF C]) (use that in simp_all)
  have u: "uint (20 :: u32) = 20" "uint (25 :: u32) = 25" "unat (3 :: u32) = 3" by simp_all
  have none: "\<not> (\<exists>i<3. 25 - 10 * (int i + 1) = 0)" by presburger
  have "(\<exists>i<3. 20 - 10 * (int i + 1) = 0 \<and> p = 10 + of_nat i * (10 :: u32)) \<longleftrightarrow> p = 20" for p by (auto simp: i3)
  moreover have "\<exists>i<3. 20 - 10 * (int i + 1) = 0" by (rule exI [of _ 1]) simp
  ultimately show ?thesis using A [of 20] A [of 25] unfolding u if_not_P [OF none] by simp
qed

text \<open>
  C36: A key below the first element, or an empty array, makes the search leave the array: the upper bound wraps around below 0,
  and the search compares with element \<open>0x7FFFFFFF\<close>.
\<close>

theorem bsearch_leaves_array:
  assumes n: "unat num \<le> 0x7FFFFFFF" and c: "\<forall>i<unat num. \<exists>x<0. cmp key (base + of_nat i * sz) = Some x"
    and out: "cmp key (base + 0x7FFFFFFF * sz) = None"
  shows "bsearch key base num sz cmp = None"
proof -
  have wrap: "bsearch_loop cmp key base sz 0 (- 1) = None"
    using out by (subst bsearch_loop.simps) simp
  have "r < unat num \<Longrightarrow> bsearch_loop cmp key base sz 0 (of_nat r) = None" for r
  proof (induction r rule: less_induct)
    case (less r)
    let ?m = "r div 2"
    have r: "r < 4294967296" using less.prems unat_less_2p32 [of num] by linarith
    obtain x where x: "x < 0" "cmp key (base + of_nat ?m * sz) = Some x" using c less.prems by (metis div_le_dividend le_less_trans)
    have step: "bsearch_loop cmp key base sz 0 (of_nat r) = bsearch_loop cmp key base sz 0 (of_nat ?m - 1)"
      using x middle_word [of 0 r] r by (subst bsearch_loop.simps) simp
    show ?case
    proof (cases "?m = 0")
      case True
      then show ?thesis unfolding step True using wrap by simp
    next
      case False
      then have "(of_nat ?m :: u32) - 1 = of_nat (?m - 1)" by (simp add: of_nat_diff)
      moreover have "?m - 1 < r" "?m - 1 < unat num" using False less.prems by linarith+
      ultimately show ?thesis unfolding step using less.IH by simp
    qed
  qed
  note L = this
  show ?thesis
  proof (cases "num = 0")
    case True
    then show ?thesis using wrap by (simp add: bsearch_def)
  next
    case False
    then have n0: "0 < unat num" by (simp add: unat_gt_0)
    then show ?thesis using L [of "unat num - 1"] unfolding pred_word [OF n0] by (simp add: bsearch_def)
  qed
qed

theorem bsearch_leaves_array_witness: "bsearch 5 10 3 10 addr_cmp = None"
proof -
  have i3: "i < 3 \<longleftrightarrow> i = 0 \<or> i = 1 \<or> i = 2" for i :: nat by auto
  show ?thesis by (rule bsearch_leaves_array) (auto simp: addr_cmp_def i3)
qed

end
