(* ===== verification/Buddy.thy ===== *)
theory Buddy
  imports Prelude
begin

text \<open>
  The buddy allocator: \<^verbatim>\<open>Software/src/kernel/mem_alloc/buddy_allocator.c\<close>. The headers of the blocks are a partial map; an access
  through a null pointer or outside the memory is \<open>None\<close>, and so is an index past the end of \<open>free_blocks\<close>.
\<close>

section \<open>State\<close>

record free_block =
  fb_next :: addr
  fb_prev :: addr
  order :: u32

record buddy =
  fbs :: "addr \<rightharpoonup> free_block"
  free_blocks :: "addr list"

definition BLOCK_SIZES :: u32 where "BLOCK_SIZES = 10"
definition KMEM_PAGE_SIZE :: u32 where "KMEM_PAGE_SIZE = 1024"

definition get_head :: "u32 \<Rightarrow> 'a buddy_scheme \<Rightarrow> addr option" where
  "get_head i b = (if unat i < length (free_blocks b) then Some (free_blocks b ! unat i) else None)"

definition set_head :: "u32 \<Rightarrow> addr \<Rightarrow> 'a buddy_scheme \<Rightarrow> 'a buddy_scheme option" where
  "set_head i p b = (if unat i < length (free_blocks b) then Some (b\<lparr>free_blocks := (free_blocks b)[unat i := p]\<rparr>) else None)"

definition upd_fb :: "addr \<Rightarrow> (free_block \<Rightarrow> free_block) \<Rightarrow> 'a buddy_scheme \<Rightarrow> 'a buddy_scheme option" where
  "upd_fb p f b = (case fbs b p of None \<Rightarrow> None | Some x \<Rightarrow> Some (b\<lparr>fbs := (fbs b)(p \<mapsto> f x)\<rparr>))"

section \<open>Operations\<close>

definition block_size :: "free_block \<Rightarrow> addr" where
  "block_size x = ucast (push_bit (unat (order x)) (1 :: u64))"

definition find_buddy :: "addr \<Rightarrow> 'a buddy_scheme \<Rightarrow> addr option" where
  "find_buddy p b = do { x \<leftarrow> fbs b p; Some (p XOR block_size x) }"

lemma unat_half: "unat (drop_bit 1 (n :: u32)) = unat n div 2"
  unfolding drop_bit_eq_div by (simp add: unat_div)

function clog2_loop :: "u32 \<Rightarrow> u32 \<Rightarrow> u32" where
  "clog2_loop log n = (let n = drop_bit 1 n in if n \<noteq> 0 then clog2_loop (log + 1) n else log)"
  by pat_completeness auto
termination
proof (relation "measure (\<lambda>(_, n). unat n)", goal_cases)
  case (2 log n m)
  then have "0 < unat n" by (auto simp: unat_gt_0)
  then have "unat m < unat n" unfolding 2(1) unat_half by simp
  then show ?case by simp
qed simp

declare clog2_loop.simps [simp del]

definition clog2 :: "u32 \<Rightarrow> u32" where
  "clog2 n = clog2_loop 0 n"

partial_function (option) find_free_order_loop :: "u32 \<Rightarrow> 'a buddy_scheme \<Rightarrow> u32 option" where
  "find_free_order_loop i b =
     (if i < BLOCK_SIZES
      then do { p \<leftarrow> get_head i b; if p \<noteq> NULL then Some i else find_free_order_loop (i + 1) b }
      else Some BLOCK_SIZES)"

definition find_free_order :: "u32 \<Rightarrow> 'a buddy_scheme \<Rightarrow> u32 option" where
  "find_free_order from_order b = find_free_order_loop from_order b"

definition remove_block :: "addr \<Rightarrow> 'a buddy_scheme \<Rightarrow> 'a buddy_scheme option" where
  "remove_block block b = do {
     x \<leftarrow> fbs b block;
     b \<leftarrow> (if fb_prev x \<noteq> NULL then upd_fb (fb_prev x) (\<lambda>y. y\<lparr>fb_next := fb_next x\<rparr>) b
           else set_head (order x) (fb_next x) b);
     x \<leftarrow> fbs b block;
     if fb_next x \<noteq> NULL then upd_fb (fb_next x) (\<lambda>y. y\<lparr>fb_prev := fb_prev x\<rparr>) b else Some b
   }"

definition insert_block :: "addr \<Rightarrow> 'a buddy_scheme \<Rightarrow> 'a buddy_scheme option" where
  "insert_block block b = do {
     x \<leftarrow> fbs b block;
     h \<leftarrow> get_head (order x) b;
     b \<leftarrow> upd_fb block (\<lambda>y. y\<lparr>fb_next := h, fb_prev := NULL\<rparr>) b;
     b \<leftarrow> (if h \<noteq> NULL then upd_fb h (\<lambda>y. y\<lparr>fb_prev := block\<rparr>) b else Some b);
     x \<leftarrow> fbs b block;
     set_head (order x) block b
   }"

partial_function (option) contains_loop :: "addr \<Rightarrow> addr \<Rightarrow> 'a buddy_scheme \<Rightarrow> bool option" where
  "contains_loop block cur b =
     (if cur = NULL then Some False
      else if cur = block then Some True
      else do { x \<leftarrow> fbs b cur; contains_loop block (fb_next x) b })"

definition contains_block :: "addr \<Rightarrow> u32 \<Rightarrow> 'a buddy_scheme \<Rightarrow> bool option" where
  "contains_block block ord b = do { h \<leftarrow> get_head ord b; contains_loop block h b }"

partial_function (option) recursive_join :: "addr \<Rightarrow> 'a buddy_scheme \<Rightarrow> 'a buddy_scheme option" where
  "recursive_join block b = do {
     buddy \<leftarrow> find_buddy block b;
     x \<leftarrow> fbs b block;
     found \<leftarrow> contains_block buddy (order x) b;
     if found
     then do {
       b \<leftarrow> remove_block buddy b;
       b \<leftarrow> remove_block block b;
       let block = (if block < buddy then block else buddy);
       b \<leftarrow> upd_fb block (\<lambda>y. y\<lparr>order := order y + 1\<rparr>) b;
       b \<leftarrow> insert_block block b;
       recursive_join block b
     }
     else Some b
   }"

partial_function (option) split_loop :: "addr \<Rightarrow> u32 \<Rightarrow> u32 \<Rightarrow> 'a buddy_scheme \<Rightarrow> 'a buddy_scheme option" where
  "split_loop block from_order to_order b =
     (if from_order > to_order
      then do {
        b \<leftarrow> upd_fb block (\<lambda>y. y\<lparr>order := order y - 1\<rparr>) b;
        x \<leftarrow> fbs b block;
        buddy \<leftarrow> find_buddy block b;
        b \<leftarrow> upd_fb buddy (\<lambda>y. y\<lparr>order := order x\<rparr>) b;
        b \<leftarrow> insert_block buddy b;
        split_loop block (from_order - 1) to_order b
      }
      else Some b)"

definition recursive_split :: "u32 \<Rightarrow> u32 \<Rightarrow> 'a buddy_scheme \<Rightarrow> 'a buddy_scheme option" where
  "recursive_split from_order to_order b = do {
     block \<leftarrow> get_head from_order b;
     b \<leftarrow> remove_block block b;
     b \<leftarrow> split_loop block from_order to_order b;
     insert_block block b
   }"

text \<open>\<open>BUDDY_START\<close> and \<open>BUDDY_END\<close> are symbols the linker would define.\<close>

definition kbuddy_init :: "addr \<Rightarrow> addr \<Rightarrow> 'a buddy_scheme \<Rightarrow> 'a buddy_scheme option" where
  "kbuddy_init BUDDY_START BUDDY_END b = do {
     let bytes = BUDDY_END - BUDDY_START;
     let blocks = bytes div KMEM_PAGE_SIZE;
     let ord = clog2 blocks;
     b \<leftarrow> upd_fb BUDDY_START (\<lambda>y. y\<lparr>order := ord, fb_next := NULL, fb_prev := NULL\<rparr>) b;
     set_head ord BUDDY_START b
   }"

definition kbuddy_alloc :: "u32 \<Rightarrow> 'a buddy_scheme \<Rightarrow> (addr \<times> 'a buddy_scheme) option" where
  "kbuddy_alloc pages b = do {
     let ord = clog2 pages;
     free_order \<leftarrow> find_free_order ord b;
     if free_order = BLOCK_SIZES then Some (NULL, b)
     else do {
       b \<leftarrow> (if free_order > BLOCK_SIZES then recursive_split free_order ord b else Some b);
       block \<leftarrow> get_head ord b;
       b \<leftarrow> remove_block block b;
       Some (block, b)
     }
   }"

definition kbuddy_dealloc :: "addr \<Rightarrow> u32 \<Rightarrow> 'a buddy_scheme \<Rightarrow> 'a buddy_scheme option" where
  "kbuddy_dealloc ptr pages b =
     (if ptr = NULL then Some b
      else do {
        let ord = clog2 (pages * KMEM_PAGE_SIZE);
        b \<leftarrow> upd_fb ptr (\<lambda>y. y\<lparr>order := ord\<rparr>) b;
        b \<leftarrow> insert_block ptr b;
        recursive_join ptr b
      })"

section \<open>The order of a number of pages\<close>

lemma clog2_loop_log:
  "n \<noteq> 0 \<Longrightarrow> \<exists>k. clog2_loop log n = log + of_nat k \<and> 2 ^ k \<le> unat n \<and> unat n < 2 ^ Suc k"
proof (induction log n rule: clog2_loop.induct)
  case (1 log n)
  have n0: "0 < unat n" using "1.prems" by (simp add: unat_gt_0)
  note half = unat_half [of n]
  show ?case
  proof (cases "drop_bit 1 n = 0")
    case True
    then have "unat n div 2 = 0" using half by simp
    then have "unat n = 1" using n0 by linarith
    then show ?thesis using True by (intro exI [of _ 0]) (simp add: clog2_loop.simps [of log n])
  next
    case False
    from "1.IH" [OF refl False False] obtain k where k: "clog2_loop (log + 1) (drop_bit 1 n) = log + 1 + of_nat k"
      "2 ^ k \<le> unat n div 2" "unat n div 2 < 2 ^ Suc k" unfolding half by blast
    have "clog2_loop log n = log + of_nat (Suc k)"
      using False k(1) by (simp add: clog2_loop.simps [of log n] Let_def)
    moreover have "2 ^ Suc k \<le> unat n" "unat n < 2 ^ Suc (Suc k)" using k(2,3) by simp_all
    ultimately show ?thesis by blast
  qed
qed

text \<open>\<open>clog2\<close> rounds down, in spite of its name.\<close>

lemma clog2_log:
  assumes "n \<noteq> 0"
  shows "2 ^ unat (clog2 n) \<le> unat n \<and> unat n < 2 ^ Suc (unat (clog2 n))"
proof -
  have two32: "(2 :: nat) ^ 32 = 4294967296" by simp
  obtain k where k: "clog2 n = of_nat k" "2 ^ k \<le> unat n" "unat n < 2 ^ Suc k"
    using clog2_loop_log [OF assms, of 0] by (auto simp: clog2_def)
  have "(2 :: nat) ^ k < 2 ^ 32" using k(2) unat_less_2p32 [of n] unfolding two32 by (rule le_less_trans)
  then have "k < 32" by (rule power_less_imp_less_exp [rotated]) simp
  then have "unat (clog2 n) = k" using k(1) by (simp add: unat_of_nat_u32)
  then show ?thesis using k by simp
qed

section \<open>Allocation and release\<close>

lemma find_free_order_finds:
  assumes len: "length (free_blocks b) = 10" and i: "i \<le> 10"
  shows "find_free_order (of_nat i) b = Some (of_nat (case find (\<lambda>j. free_blocks b ! j \<noteq> NULL) [i..<10] of None \<Rightarrow> 10 | Some j \<Rightarrow> j))"
  unfolding find_free_order_def using i
proof (induction rule: inc_induct)
  case base
  then show ?case by (subst find_free_order_loop.simps) (simp add: BLOCK_SIZES_def)
next
  case (step i)
  have u: "unat (of_nat i :: u32) = i" "(of_nat i :: u32) < 10"
    using step.hyps(2) by (simp_all add: unat_of_nat_u32 word_less_nat_alt)
  show ?case
    using step.IH step.hyps(2) u len
    by (subst find_free_order_loop.simps) (simp add: BLOCK_SIZES_def get_head_def upt_conv_Cons add.commute [of 1])
qed

lemma remove_null: "fbs b NULL = None \<Longrightarrow> remove_block NULL b = None"
  by (simp add: remove_block_def)

end
