(* ===== verification/Slab.thy ===== *)
theory Slab
  imports Buddy
begin

text \<open>
  The slab and cache allocators: \<^verbatim>\<open>Software/src/kernel/mem_alloc/slab_allocator.c\<close> and \<^verbatim>\<open>cache_allocator.c\<close>. A slab is one page with a
  header, the list of its free slots, and the slots. Indices past the array of a slab, which would hit
  other memory, are \<open>None\<close>.
\<close>

section \<open>Slabs\<close>

record kslab =
  sl_ctor :: addr
  sl_dtor :: addr
  type_size :: u32
  num_slots :: u32
  free_slot :: u32
  sl_next :: addr
  free_slots :: "u16 list"

text \<open>\<open>slot_calls\<close> records the calls of constructors and destructors, code the allocator only calls.\<close>

record slabs = buddy +
  kslabs :: "addr \<rightharpoonup> kslab"
  slot_calls :: "(addr \<times> addr) list"

definition sizeof_kslab :: u32 where "sizeof_kslab = 24"

abbreviation NO_SLOT :: u32 where "NO_SLOT \<equiv> 65535"

definition get_slots :: "addr \<Rightarrow> kslab \<Rightarrow> addr" where
  "get_slots slab k = slab + sizeof_kslab + num_slots k * 2"

definition upd_slab :: "addr \<Rightarrow> (kslab \<Rightarrow> kslab) \<Rightarrow> 'a slabs_scheme \<Rightarrow> 'a slabs_scheme option" where
  "upd_slab p f s = (case kslabs s p of None \<Rightarrow> None | Some k \<Rightarrow> Some (s\<lparr>kslabs := (kslabs s)(p \<mapsto> f k)\<rparr>))"

text \<open>The slots a constructor or destructor is called on, in order.\<close>

definition slot_addrs :: "addr \<Rightarrow> kslab \<Rightarrow> addr list" where
  "slot_addrs slab k = map (\<lambda>i. get_slots slab k + of_nat i * type_size k) [0..<unat (num_slots k)]"

definition call_slots :: "addr \<Rightarrow> addr \<Rightarrow> kslab \<Rightarrow> 'a slabs_scheme \<Rightarrow> 'a slabs_scheme" where
  "call_slots f slab k s = (if f \<noteq> NULL then s\<lparr>slot_calls := slot_calls s @ map (Pair f) (slot_addrs slab k)\<rparr> else s)"

text \<open>The page is not tested: a write to the null pointer traps. So does the last free slot of a slab without slots.\<close>

definition kslab_create :: "u32 \<Rightarrow> addr \<Rightarrow> addr \<Rightarrow> 'a slabs_scheme \<Rightarrow> (addr \<times> 'a slabs_scheme) option" where
  "kslab_create tsize ctor dtor s = do {
     (slab, s) \<leftarrow> kbuddy_alloc 1 s;
     if slab = NULL \<or> tsize + 2 = 0 then None
     else do {
       let n = (KMEM_PAGE_SIZE - sizeof_kslab) div (tsize + 2);
       if n = 0 then None
       else do {
         let fs = (map (\<lambda>i. of_nat (Suc i)) [0..<unat n])[unat n - 1 := - 1];
         let k = \<lparr>sl_ctor = ctor, sl_dtor = dtor, type_size = tsize, num_slots = n, free_slot = 0, sl_next = NULL, free_slots = fs\<rparr>;
         let s = s\<lparr>kslabs := (kslabs s)(slab \<mapsto> k)\<rparr>;
         Some (slab, call_slots ctor slab k s)
       }
     }
   }"

definition kslab_destroy :: "addr \<Rightarrow> 'a slabs_scheme \<Rightarrow> 'a slabs_scheme option" where
  "kslab_destroy slab s = do {
     k \<leftarrow> kslabs s slab;
     let s = call_slots (sl_dtor k) slab k s;
     s \<leftarrow> kbuddy_dealloc slab 1 s;
     Some (s\<lparr>kslabs := (kslabs s)(slab := None)\<rparr>)
   }"

definition kslab_alloc :: "addr \<Rightarrow> 'a slabs_scheme \<Rightarrow> (addr \<times> 'a slabs_scheme) option" where
  "kslab_alloc slab s = do {
     k \<leftarrow> kslabs s slab;
     if free_slot k = NO_SLOT then Some (NULL, s)
     else do {
       let slot = get_slots slab k + free_slot k * type_size k;
       if unat (free_slot k) < length (free_slots k)
       then do {
         s \<leftarrow> upd_slab slab (\<lambda>k. k\<lparr>free_slot := ucast (free_slots k ! unat (free_slot k))\<rparr>) s;
         Some (slot, s)
       }
       else None
     }
   }"

definition kslab_dealloc :: "addr \<Rightarrow> addr \<Rightarrow> 'a slabs_scheme \<Rightarrow> (bool \<times> 'a slabs_scheme) option" where
  "kslab_dealloc slab ptr s = do {
     k \<leftarrow> kslabs s slab;
     let slots = get_slots slab k;
     let last_slot = slots + (num_slots k - 1) * type_size k;
     if ptr < slots \<or> ptr > last_slot then Some (False, s)
     else if type_size k = 0 then None
     else do {
       let index = (ptr - slots) div type_size k;
       if unat index < length (free_slots k)
       then do {
         s \<leftarrow> upd_slab slab (\<lambda>k. k\<lparr>free_slots := (free_slots k)[unat index := ucast (free_slot k)], free_slot := index\<rparr>) s;
         Some (True, s)
       }
       else None
     }
   }"

definition kslab_get_next :: "addr \<Rightarrow> 'a slabs_scheme \<Rightarrow> addr option" where
  "kslab_get_next slab s = map_option sl_next (kslabs s slab)"

definition kslab_set_next :: "addr \<Rightarrow> addr \<Rightarrow> 'a slabs_scheme \<Rightarrow> 'a slabs_scheme option" where
  "kslab_set_next slab nx s = upd_slab slab (\<lambda>k. k\<lparr>sl_next := nx\<rparr>) s"

definition kslab_has_free_slots :: "addr \<Rightarrow> 'a slabs_scheme \<Rightarrow> bool option" where
  "kslab_has_free_slots slab s = map_option (\<lambda>k. free_slot k \<noteq> NO_SLOT) (kslabs s slab)"

text \<open>The loop counts the free slots; the index is a 16-bit number.\<close>

partial_function (option) count_free :: "u16 list \<Rightarrow> u16 \<Rightarrow> u32 \<Rightarrow> u32 option" where
  "count_free fs i n =
     (if i \<noteq> - 1
      then if unat i < length fs then count_free fs (fs ! unat i) (n + 1) else None
      else Some n)"

definition kslab_has_allocated_slots :: "addr \<Rightarrow> 'a slabs_scheme \<Rightarrow> bool option" where
  "kslab_has_allocated_slots slab s = do {
     k \<leftarrow> kslabs s slab;
     n \<leftarrow> count_free (free_slots k) (ucast (free_slot k)) 0;
     Some (n \<noteq> num_slots k)
   }"

section \<open>Caches\<close>

record kcache =
  c_type_size :: u32
  c_ctor :: addr
  c_dtor :: addr
  fully_allocated :: addr
  partially_allocated :: addr
  fully_free :: addr

definition kcache_alloc :: "kcache \<times> 'a slabs_scheme \<Rightarrow> (addr \<times> kcache \<times> 'a slabs_scheme) option" where
  "kcache_alloc = (\<lambda>(c, s). do {
     (c, s) \<leftarrow>
       (if partially_allocated c = NULL
        then if fully_free c \<noteq> NULL
          then do {
            let p = fully_free c;
            nx \<leftarrow> kslab_get_next p s;
            s \<leftarrow> kslab_set_next p NULL s;
            Some (c\<lparr>partially_allocated := p, fully_free := nx\<rparr>, s)
          }
          else do {
            (p, s) \<leftarrow> kslab_create (c_type_size c) (c_ctor c) (c_dtor c) s;
            Some (c\<lparr>partially_allocated := p\<rparr>, s)
          }
        else Some (c, s));
     if partially_allocated c = NULL then Some (NULL, c, s)
     else do {
       (slot, s) \<leftarrow> kslab_alloc (partially_allocated c) s;
       if slot = NULL then Some (NULL, c, s)
       else do {
         free_left \<leftarrow> kslab_has_free_slots (partially_allocated c) s;
         if \<not> free_left
         then do {
           let temp = partially_allocated c;
           nx \<leftarrow> kslab_get_next temp s;
           s \<leftarrow> kslab_set_next temp (fully_allocated c) s;
           Some (slot, c\<lparr>partially_allocated := nx, fully_allocated := temp\<rparr>, s)
         }
         else Some (slot, c, s)
       }
     }
   })"

text \<open>The search through the partially allocated slabs: \<open>None\<close> in the cache's place if no slab took the pointer.\<close>

partial_function (option) dealloc_partial ::
  "addr \<Rightarrow> addr \<Rightarrow> addr \<Rightarrow> kcache \<Rightarrow> 'a slabs_scheme \<Rightarrow> (kcache option \<times> 'a slabs_scheme) option" where
  "dealloc_partial ptr prev cur c s =
     (if cur = NULL then Some (None, s)
      else do {
        (freed, s) \<leftarrow> kslab_dealloc cur ptr s;
        if \<not> freed then do { nx \<leftarrow> kslab_get_next cur s; dealloc_partial ptr cur nx c s }
        else do {
          used \<leftarrow> kslab_has_allocated_slots cur s;
          if \<not> used
          then do {
            nx \<leftarrow> kslab_get_next cur s;
            (c, s) \<leftarrow> (if prev \<noteq> NULL then do { s \<leftarrow> kslab_set_next prev nx s; Some (c, s) }
                       else Some (c\<lparr>partially_allocated := nx\<rparr>, s));
            s \<leftarrow> kslab_set_next cur (fully_free c) s;
            Some (Some (c\<lparr>fully_free := cur\<rparr>), s)
          }
          else Some (Some c, s)
        }
      })"

text \<open>The second loop returns in its first round.\<close>

definition dealloc_full :: "kcache \<Rightarrow> 'a slabs_scheme \<Rightarrow> (kcache \<times> 'a slabs_scheme) option" where
  "dealloc_full c s =
     (if fully_allocated c = NULL then Some (c, s)
      else do {
        let cur = fully_allocated c;
        nx \<leftarrow> kslab_get_next cur s;
        let c = c\<lparr>fully_allocated := nx\<rparr>;
        used \<leftarrow> kslab_has_allocated_slots cur s;
        if \<not> used
        then do { s \<leftarrow> kslab_set_next cur (fully_free c) s; Some (c\<lparr>fully_free := cur\<rparr>, s) }
        else do { s \<leftarrow> kslab_set_next cur (partially_allocated c) s; Some (c\<lparr>partially_allocated := cur\<rparr>, s) }
      })"

definition kcache_dealloc :: "addr \<Rightarrow> kcache \<times> 'a slabs_scheme \<Rightarrow> (kcache \<times> 'a slabs_scheme) option" where
  "kcache_dealloc ptr = (\<lambda>(c, s). do {
     (r, s) \<leftarrow> dealloc_partial ptr NULL (partially_allocated c) c s;
     case r of Some c \<Rightarrow> Some (c, s) | None \<Rightarrow> dealloc_full c s
   })"

partial_function (option) shrink_loop :: "addr \<Rightarrow> 'a slabs_scheme \<Rightarrow> 'a slabs_scheme option" where
  "shrink_loop cur s =
     (if cur = NULL then Some s
      else do { nx \<leftarrow> kslab_get_next cur s; s \<leftarrow> kslab_destroy cur s; shrink_loop nx s })"

definition kcache_shrink :: "kcache \<times> 'a slabs_scheme \<Rightarrow> (kcache \<times> 'a slabs_scheme) option" where
  "kcache_shrink = (\<lambda>(c, s). do { s \<leftarrow> shrink_loop (fully_free c) s; Some (c\<lparr>fully_free := NULL\<rparr>, s) })"

end
