(* ===== verification/Slab_Correct.thy ===== *)
theory Slab_Correct
  imports Slab Interfaces
begin

text \<open>
  A slab is a pool of slots: it hands out each of its slots once, and takes them back.
\<close>

section \<open>The list of free slots\<close>

fun slot_chain :: "u16 list \<Rightarrow> u32 \<Rightarrow> nat list \<Rightarrow> bool" where
  "slot_chain fs p [] \<longleftrightarrow> p = NO_SLOT"
| "slot_chain fs p (i # is) \<longleftrightarrow> p = of_nat i \<and> i < length fs \<and> slot_chain fs (ucast (fs ! i)) is"

lemma slot_chain_frame: "i \<notin> set is \<Longrightarrow> slot_chain (fs[i := v]) p is = slot_chain fs p is"
  by (induction "is" arbitrary: p) auto

lemma slot_chain_range: "slot_chain fs p is \<Longrightarrow> set is \<subseteq> {..<length fs}"
  by (induction "is" arbitrary: p) auto

text \<open>The geometry of a slab: header, indices and slots fit in the page at \<open>p\<close>.\<close>

definition slab_fits :: "addr \<Rightarrow> nat \<Rightarrow> nat \<Rightarrow> bool" where
  "slab_fits p n ts \<longleftrightarrow> 0 < n \<and> 0 < ts \<and> 24 + 2 * n + n * ts \<le> 1024 \<and> unat p + 1024 \<le> 4294967296"

definition slot_addr :: "addr \<Rightarrow> nat \<Rightarrow> nat \<Rightarrow> nat \<Rightarrow> addr" where
  "slot_addr p n ts i = p + of_nat (24 + 2 * n + i * ts)"

definition slab_rep :: "addr \<Rightarrow> nat \<Rightarrow> nat \<Rightarrow> 'a slabs_scheme \<Rightarrow> addr list \<Rightarrow> bool" where
  "slab_rep p n ts s xs \<longleftrightarrow> slab_fits p n ts \<and> (\<exists>k is. kslabs s p = Some k \<and> type_size k = of_nat ts \<and> num_slots k = of_nat n
     \<and> length (free_slots k) = n \<and> slot_chain (free_slots k) (free_slot k) is \<and> distinct is \<and> xs = map (slot_addr p n ts) is)"

lemma slab_small: "slab_fits p n ts \<Longrightarrow> n \<le> 500"
  unfolding slab_fits_def by linarith

lemma slot_end:
  assumes "slab_fits p n ts" and "i < n"
  shows "24 + 2 * n + i * ts + ts \<le> 1024"
proof -
  have "(i + 1) * ts \<le> n * ts" using assms(2) by (intro mult_right_mono) auto
  then show ?thesis using assms(1) by (simp add: slab_fits_def)
qed

lemma unat_slot_addr:
  assumes "slab_fits p n ts" and "i < n"
  shows "unat (slot_addr p n ts i) = unat p + (24 + 2 * n + i * ts)"
proof -
  have s: "24 + 2 * n + i * ts < 1024" "unat p + 1024 \<le> 4294967296" using slot_end [OF assms] assms(1) by (auto simp: slab_fits_def)
  then have u: "unat (of_nat (24 + 2 * n + i * ts) :: u32) = 24 + 2 * n + i * ts" by (intro unat_of_nat_u32) linarith
  show ?thesis unfolding slot_addr_def using s u unat_add_small [of p "of_nat (24 + 2 * n + i * ts)"] by linarith
qed

lemma slot_addr_inj:
  assumes "slab_fits p n ts" and "i < n" "j < n"
  shows "slot_addr p n ts i = slot_addr p n ts j \<longleftrightarrow> i = j"
proof
  assume "slot_addr p n ts i = slot_addr p n ts j"
  then have "unat (slot_addr p n ts i) = unat (slot_addr p n ts j)" by simp
  then have "i * ts = j * ts" unfolding unat_slot_addr [OF assms(1,2)] unat_slot_addr [OF assms(1,3)] by simp
  then show "i = j" using assms(1) by (simp add: slab_fits_def)
qed simp

text \<open>Slot numbers fit in 16 bits.\<close>

lemma slot_word:
  assumes "i \<le> 500"
  shows "unat (of_nat i :: u32) = i" and "(of_nat i :: u32) \<noteq> NO_SLOT"
proof -
  show u: "unat (of_nat i :: u32) = i" using assms by (intro unat_of_nat_u32) linarith
  have "unat (NO_SLOT) = 65535" by simp
  then show "(of_nat i :: u32) \<noteq> NO_SLOT" using u assms by auto
qed

lemma ucast_16_32: "unat (w :: u32) < 65536 \<Longrightarrow> ucast (ucast w :: u16) = w"
  by (simp add: unsigned_ucast_eq word_unat_eq_iff unsigned_take_bit_eq take_bit_nat_eq_self)

lemma chain_head_small: "slot_chain fs p is \<Longrightarrow> length fs \<le> 500 \<Longrightarrow> unat p < 65536"
  using slot_word(1) by (cases "is") auto

lemma slot_addr_code:
  "num_slots k = of_nat n \<Longrightarrow> type_size k = of_nat ts \<Longrightarrow> get_slots p k + of_nat i * type_size k = slot_addr p n ts i"
  by (simp add: get_slots_def slot_addr_def sizeof_kslab_def algebra_simps)

section \<open>Taking and giving back\<close>

lemma slab_grab:
  assumes "slab_rep p n ts s (x # xs)"
  shows "\<exists>s'. kslab_alloc p s = Some (x, s') \<and> slab_rep p n ts s' xs"
proof -
  obtain k js where f: "slab_fits p n ts" and k: "kslabs s p = Some k" "type_size k = of_nat ts" "num_slots k = of_nat n"
    "length (free_slots k) = n" "slot_chain (free_slots k) (free_slot k) js" "distinct js" "x # xs = map (slot_addr p n ts) js"
    using assms unfolding slab_rep_def by (elim conjE exE) (rule that)
  obtain i "is" where js: "js = i # is" using k(7) by (cases js) auto
  have x: "x = slot_addr p n ts i" "xs = map (slot_addr p n ts) is" "distinct is" using k(6,7) by (simp_all add: js)
  have i: "i < n" "free_slot k = of_nat i" "slot_chain (free_slots k) (ucast (free_slots k ! i)) is" using k(4,5) by (simp_all add: js)
  have "i \<le> 500" using i(1) slab_small [OF f] by linarith
  note w = slot_word [OF this]
  let ?k = "k\<lparr>free_slot := ucast (free_slots k ! i)\<rparr>"
  have "kslab_alloc p s = Some (x, s\<lparr>kslabs := (kslabs s)(p \<mapsto> ?k)\<rparr>)"
    using k(1,4) w i x(1) slot_addr_code [OF k(3,2), of p i] by (simp add: kslab_alloc_def upd_slab_def)
  moreover have "slab_rep p n ts (s\<lparr>kslabs := (kslabs s)(p \<mapsto> ?k)\<rparr>) xs"
    unfolding slab_rep_def using f k(2-4) i(3) x(2,3) by (intro conjI exI [of _ ?k] exI [of _ "is"]) simp_all
  ultimately show ?thesis by blast
qed

lemma slab_grab_empty: "slab_rep p n ts s [] \<Longrightarrow> kslab_alloc p s = Some (NULL, s)"
  by (auto simp: slab_rep_def kslab_alloc_def)

lemma slab_give:
  assumes r: "slab_rep p n ts s xs" and x: "x \<in> slot_addr p n ts ` {..<n}" "x \<notin> set xs"
  shows "\<exists>s'. kslab_dealloc p x s = Some (True, s') \<and> slab_rep p n ts s' (x # xs)"
proof -
  obtain k "is" where f: "slab_fits p n ts" and k: "kslabs s p = Some k" "type_size k = of_nat ts" "num_slots k = of_nat n"
    "length (free_slots k) = n" "slot_chain (free_slots k) (free_slot k) is" "distinct is" "xs = map (slot_addr p n ts) is"
    using r unfolding slab_rep_def by (elim conjE exE) (rule that)
  obtain i where i: "i < n" "x = slot_addr p n ts i" using x(1) by auto
  have fresh: "i \<notin> set is" using x(2) k(7) i(2) by auto
  have n: "n \<le> 500" "0 < n" "0 < ts" "ts \<le> 1024" using slab_small [OF f] f slot_end [OF f i(1)] by (auto simp: slab_fits_def)
  have first: "get_slots p k = slot_addr p n ts 0" using slot_addr_code [OF k(3,2), of p 0] by simp
  have lst: "get_slots p k + (num_slots k - 1) * type_size k = slot_addr p n ts (n - 1)"
    using slot_addr_code [OF k(3,2), of p "n - 1"] k(3) n(2) by (simp add: of_nat_diff)
  have u: "unat x = unat p + (24 + 2 * n + i * ts)" "unat (slot_addr p n ts 0) = unat p + (24 + 2 * n + 0 * ts)"
    "unat (slot_addr p n ts (n - 1)) = unat p + (24 + 2 * n + (n - 1) * ts)"
    unfolding i(2) using n(2) i(1) by (intro unat_slot_addr [OF f]; simp)+
  have le: "slot_addr p n ts 0 \<le> x" "x \<le> slot_addr p n ts (n - 1)"
    unfolding word_le_nat_alt u using i(1) by (auto intro!: mult_right_mono)
  have "x - slot_addr p n ts 0 = of_nat (i * ts)" unfolding i(2) slot_addr_def by simp
  moreover have it: "i * ts < 1024" using slot_end [OF f i(1)] n(3) by linarith
  ultimately have idx: "(x - slot_addr p n ts 0) div of_nat ts = of_nat i"
    using n(3,4) by (simp add: word_arith_nat_div unat_of_nat_u32 del: of_nat_mult)
  have "i \<le> 500" using i(1) n(1) by linarith
  note ui = slot_word(1) [OF this]
  have ts0: "(of_nat ts :: u32) \<noteq> 0" using n(3,4) unat_of_nat_u32 [of ts] by force
  let ?k = "k\<lparr>free_slots := (free_slots k)[i := ucast (free_slot k)], free_slot := of_nat i\<rparr>"
  let ?s = "s\<lparr>kslabs := (kslabs s)(p \<mapsto> ?k)\<rparr>"
  have "kslab_dealloc p x s = Some (True, ?s)"
    unfolding kslab_dealloc_def k(1) bind.bind_lunit Let_def lst unfolding first k(2)
    using le idx ui i(1) ts0 k(1,4) by (simp add: upd_slab_def not_less)
  moreover have "slot_chain ((free_slots k)[i := ucast (free_slot k)]) (of_nat i) (i # is)"
    using i(1) k(4) slot_chain_frame [OF fresh] k(5) ucast_16_32 [OF chain_head_small [OF k(5)]] n(1) by simp
  then have "slab_rep p n ts ?s (x # xs)"
    unfolding slab_rep_def using f k(2-4,6,7) fresh i(2)
    by (intro conjI exI [of _ ?k] exI [of _ "i # is"]) (simp_all del: slot_chain.simps)
  ultimately show ?thesis by blast
qed

interpretation sp: slot_pool "kslab_alloc p" "kslab_dealloc p" "slab_rep p n ts" "slot_addr p n ts ` {..<n}" for p n ts
  by unfold_locales (use slab_grab slab_grab_empty slab_give in blast)+

section \<open>Creation\<close>

lemma unat_16_32: "unat (ucast (i :: u16) :: u32) = unat i"
proof -
  have "unat i < 65536" using unsigned_less [where 'a = nat, of i] by simp
  then show ?thesis by (simp add: unsigned_ucast_eq take_bit_nat_eq_self)
qed

lemma minus_1_16: "unat (- 1 :: u16) = 65535"
  by (simp add: unsigned_minus_1_eq_mask mask_eq_exp_minus_1)

lemma slab_fitsI: "0 < n \<Longrightarrow> 0 < ts \<Longrightarrow> n * (ts + 2) \<le> 1000 \<Longrightarrow> unat p + 1024 \<le> 4294967296 \<Longrightarrow> slab_fits p n ts"
  by (simp add: slab_fits_def algebra_simps)

lemma slab_create_rep:
  assumes c: "kslab_create (of_nat ts) ctor dtor s = Some (p, s')" and ts: "0 < ts" "ts \<le> 998" and p: "unat p + 1024 \<le> 4294967296"
  shows "slab_rep p (1000 div (ts + 2)) ts s' (map (slot_addr p (1000 div (ts + 2)) ts) [0..<1000 div (ts + 2)])"
proof -
  let ?n = "1000 div (ts + 2)"
  have n: "0 < ?n" "?n \<le> 500" using ts by (auto simp: div_greater_zero_iff intro!: div_le_mono2 [of 2 "ts + 2" 1000, simplified])
  have f: "slab_fits p ?n ts" by (rule slab_fitsI [OF n(1) ts(1) div_times_less_eq_dividend p])
  have w: "(of_nat ts :: u32) + 2 = of_nat (ts + 2)" by simp
  have u: "unat (of_nat (ts + 2) :: u32) = ts + 2" using ts(2) by (intro unat_of_nat_u32) linarith
  then have w0: "(of_nat (ts + 2) :: u32) \<noteq> 0" by (metis add_2_eq_Suc' nat.distinct(1) unsigned_0)
  have q: "(KMEM_PAGE_SIZE - sizeof_kslab) div of_nat (ts + 2) = (of_nat ?n :: u32)"
    using u by (simp add: KMEM_PAGE_SIZE_def sizeof_kslab_def word_arith_nat_div)
  have un: "unat (of_nat ?n :: u32) = ?n" using n(2) by (intro unat_of_nat_u32) linarith
  then have q0: "(of_nat ?n :: u32) \<noteq> 0" using n(1) by (metis less_irrefl unsigned_0)
  define fs :: "u16 list" where "fs = (map (\<lambda>i. of_nat (Suc i)) [0..<?n])[?n - 1 := - 1]"
  define k where "k = \<lparr>sl_ctor = ctor, sl_dtor = dtor, type_size = of_nat ts, num_slots = of_nat ?n, free_slot = 0, sl_next = NULL, free_slots = fs\<rparr>"
  have k: "kslabs s' p = Some k"
    using c w0 q0 unfolding kslab_create_def w q un Let_def
    by (auto simp: bind_eq_Some k_def fs_def call_slots_def split: if_splits prod.splits)
  have fs: "length fs = ?n" "\<And>i. i < ?n \<Longrightarrow> ucast (fs ! i) = (if i = ?n - 1 then NO_SLOT else of_nat (Suc i))"
  proof -
    show "length fs = ?n" by (simp add: fs_def)
    fix i assume i: "i < ?n"
    have "unat (of_nat (Suc i) :: u16) = Suc i"
      unfolding unat_of_nat using i n(2) by (simp add: take_bit_nat_eq_self del: of_nat_Suc)
    then have "unat (ucast (of_nat (Suc i) :: u16) :: u32) = unat (of_nat (Suc i) :: u32)"
      unfolding unat_16_32 using i n(2) by (simp add: unat_of_nat_u32 del: of_nat_Suc)
    then have "(ucast (of_nat (Suc i) :: u16) :: u32) = of_nat (Suc i)" by (rule unsigned_word_eqI)
    moreover have "unat (ucast (- 1 :: u16) :: u32) = unat NO_SLOT"
      unfolding unat_16_32 by (simp add: minus_1_16)
    then have "(ucast (- 1 :: u16) :: u32) = NO_SLOT" by (rule unsigned_word_eqI)
    ultimately show "ucast (fs ! i) = (if i = ?n - 1 then NO_SLOT else of_nat (Suc i))"
      using i by (simp add: fs_def nth_list_update)
  qed
  have "slot_chain fs (of_nat i) [i..<?n]" if "i < ?n" for i
    using that
  proof (induction "?n - i" arbitrary: i)
    case (Suc j)
    show ?case
    proof (cases "Suc i = ?n")
      case True
      then show ?thesis using fs(1) fs(2) [OF Suc.prems] Suc.prems by (simp add: upt_conv_Cons)
    next
      case False
      have "j = ?n - Suc i" "Suc i < ?n" using False Suc.hyps(2) Suc.prems by linarith+
      then have "slot_chain fs (of_nat (Suc i)) [Suc i..<?n]" by (rule Suc.hyps(1))
      then show ?thesis using fs(1) fs(2) [OF Suc.prems] Suc.prems False by (simp add: upt_conv_Cons)
    qed
  qed simp
  from this [of 0] n(1) have "slot_chain fs 0 [0..<?n]" by simp
  then show ?thesis
    unfolding slab_rep_def using f k fs(1) by (intro conjI exI [of _ k] exI [of _ "[0..<?n]"]) (simp_all add: k_def)
qed

section \<open>Counting\<close>

lemma count_free_chain:
  "slot_chain fs (ucast i) is \<Longrightarrow> length fs \<le> 500 \<Longrightarrow> count_free fs i c = Some (c + of_nat (length is))"
proof (induction "is" arbitrary: i c)
  case Nil
  then have "unat (ucast i :: u32) = 65535" by simp
  then have "unat i = unat (- 1 :: u16)" unfolding unat_16_32 by (simp add: minus_1_16)
  then have "i = - 1" by (rule unsigned_word_eqI)
  then show ?case by (simp add: count_free.simps)
next
  case (Cons j "is")
  have j: "ucast i = (of_nat j :: u32)" "j < length fs" "slot_chain fs (ucast (fs ! j)) is" using Cons.prems(1) by auto
  have "j \<le> 500" using j(2) Cons.prems(2) by linarith
  then have "unat (ucast i :: u32) = j" unfolding j(1) by (rule slot_word(1))
  then have u: "unat i = j" unfolding unat_16_32 .
  then have "i \<noteq> - 1" using \<open>j \<le> 500\<close> minus_1_16 by auto
  then have "count_free fs i c = count_free fs (fs ! j) (c + 1)" using j(2) u by (subst count_free.simps) simp
  also have "\<dots> = Some (c + 1 + of_nat (length is))" by (rule Cons.IH [OF j(3) Cons.prems(2)])
  finally show ?case by (simp add: add.assoc)
qed

lemma slab_allocated:
  assumes "slab_rep p n ts s xs"
  shows "kslab_has_allocated_slots p s = Some (length xs \<noteq> n)"
proof -
  obtain k "is" where f: "slab_fits p n ts" and k: "kslabs s p = Some k" "type_size k = of_nat ts" "num_slots k = of_nat n"
    "length (free_slots k) = n" "slot_chain (free_slots k) (free_slot k) is" "distinct is" "xs = map (slot_addr p n ts) is"
    using assms unfolding slab_rep_def by (elim conjE exE) (rule that)
  have n: "n \<le> 500" by (rule slab_small [OF f])
  have "slot_chain (free_slots k) (ucast (ucast (free_slot k) :: u16)) is"
    using k(5) ucast_16_32 [OF chain_head_small [OF k(5)]] k(4) n by simp
  from count_free_chain [OF this] have c: "count_free (free_slots k) (ucast (free_slot k)) 0 = Some (of_nat (length is))"
    using k(4) n by simp
  have "length is \<le> n"
    using card_mono [OF _ slot_chain_range [OF k(5)]] k(4,6) distinct_card [of "is"] by simp
  then have "(of_nat (length is) :: u32) = of_nat n \<longleftrightarrow> length is = n" using n by (intro of_nat_u32_inj) linarith+
  then show ?thesis using k c by (simp add: kslab_has_allocated_slots_def)
qed

end
