(* ===== verification/Pool_Properties.thy ===== *)
theory Pool_Properties
  imports Slab_Correct
begin

text \<open>
  The properties of the buddy, slab and cache allocators.
\<close>

section \<open>Buddies\<close>

lemma kbuddy_alloc_order:
  assumes len: "length (free_blocks b) = 10" and null: "fbs b NULL = None" and o: "unat (clog2 pages) = k" "k < 10"
  shows "kbuddy_alloc pages b =
    (if free_blocks b ! k \<noteq> NULL then do { b' \<leftarrow> remove_block (free_blocks b ! k) b; Some (free_blocks b ! k, b') }
     else if \<exists>j. k < j \<and> j < 10 \<and> free_blocks b ! j \<noteq> NULL then None else Some (NULL, b))"
proof -
  have ord: "clog2 pages = of_nat k" using o(1) by auto
  have head: "get_head (of_nat k) b = Some (free_blocks b ! k)" using o len by (simp add: get_head_def unat_of_nat_u32)
  have small: "(of_nat j :: u32) \<noteq> BLOCK_SIZES \<and> \<not> BLOCK_SIZES < of_nat j" if "j < 10" for j
    using that by (simp add: BLOCK_SIZES_def word_less_nat_alt unat_of_nat_u32 word_unat_eq_iff)
  have run: "kbuddy_alloc pages b = do { b' \<leftarrow> remove_block (free_blocks b ! k) b; Some (free_blocks b ! k, b') }"
    if "find_free_order (of_nat k) b = Some (of_nat j)" "j < 10" for j
    using that(1) small [OF that(2)] head by (simp add: kbuddy_alloc_def ord)
  have F: "find_free_order (of_nat k) b =
    Some (of_nat (case find (\<lambda>j. free_blocks b ! j \<noteq> NULL) (k # [Suc k..<10]) of None \<Rightarrow> 10 | Some j \<Rightarrow> j))"
    using find_free_order_finds [OF len, of k] o(2) by (simp only: upt_conv_Cons less_imp_le)
  show ?thesis
  proof (cases "free_blocks b ! k = NULL")
    case False
    then have "find_free_order (of_nat k) b = Some (of_nat k)" unfolding F by simp
    from run [OF this o(2)] show ?thesis using False by simp
  next
    case True
    show ?thesis
    proof (cases "find (\<lambda>j. free_blocks b ! j \<noteq> NULL) [Suc k..<10]")
      case None
      then have none: "\<not> (\<exists>j. k < j \<and> j < 10 \<and> free_blocks b ! j \<noteq> NULL)" by (auto simp: find_None_iff)
      have "find_free_order (of_nat k) b = Some BLOCK_SIZES" unfolding F using True None by (simp add: BLOCK_SIZES_def)
      then have "kbuddy_alloc pages b = Some (NULL, b)" by (simp add: kbuddy_alloc_def ord)
      then show ?thesis unfolding if_not_P [OF none] using True by simp
    next
      case (Some j)
      then have j: "j \<in> set [Suc k..<10]" "free_blocks b ! j \<noteq> NULL" using nth_mem unfolding find_Some_iff by fastforce+
      then have ex: "\<exists>j. k < j \<and> j < 10 \<and> free_blocks b ! j \<noteq> NULL"
        by (intro exI [of _ j]) auto
      have "find_free_order (of_nat k) b = Some (of_nat j)" unfolding F using True Some by simp
      from run [OF this] j(1) have "kbuddy_alloc pages b = None" using True remove_null [OF null] by simp
      then show ?thesis unfolding if_P [OF ex] using True by simp
    qed
  qed
qed

text \<open>
  C38: The buddy allocator never splits a block. A request is served from a free block of exactly its order; if there is none, but a
  larger block is free, the code removes a block through a null pointer; if there is no larger block either it returns null.
\<close>

theorem kbuddy_alloc_exact:
  assumes "length (free_blocks b) = 10" and "fbs b NULL = None" and "unat (clog2 pages) = k" "k < 10"
  shows "kbuddy_alloc pages b =
    (if free_blocks b ! k \<noteq> NULL then do { b' \<leftarrow> remove_block (free_blocks b ! k) b; Some (free_blocks b ! k, b') }
     else if \<exists>j. k < j \<and> j < 10 \<and> free_blocks b ! j \<noteq> NULL then None else Some (NULL, b))"
  using assms by (rule kbuddy_alloc_order)

text \<open>Example: one free page of order 1; a request for one page faults.\<close>

definition pair_state :: buddy where
  "pair_state = \<lparr>fbs = [0x50002000 \<mapsto> \<lparr>fb_next = 0, fb_prev = 0, order = 1\<rparr>], free_blocks = (replicate 10 0)[1 := 0x50002000]\<rparr>"

lemma clog2_1: "clog2 1 = 0"
  unfolding clog2_def by (subst clog2_loop.simps) simp

theorem kbuddy_alloc_exact_witness: "kbuddy_alloc 1 pair_state = None"
proof -
  have ex: "\<exists>j. 0 < j \<and> j < 10 \<and> free_blocks pair_state ! j \<noteq> NULL" by (rule exI [of _ 1]) (simp add: pair_state_def)
  have "free_blocks pair_state ! 0 = NULL" by (simp add: pair_state_def)
  moreover have "length (free_blocks pair_state) = 10" "fbs pair_state NULL = None" by (simp_all add: pair_state_def)
  ultimately show ?thesis using kbuddy_alloc_exact [of pair_state 1 0] clog2_1 ex by simp
qed

section \<open>Slabs\<close>

fun slab_alloc_times :: "addr \<Rightarrow> nat \<Rightarrow> 'a slabs_scheme \<Rightarrow> (addr list \<times> 'a slabs_scheme) option" where
  "slab_alloc_times p 0 s = Some ([], s)"
| "slab_alloc_times p (Suc i) s = do { (x, s) \<leftarrow> kslab_alloc p s; (xs, s) \<leftarrow> slab_alloc_times p i s; Some (x # xs, s) }"

lemma slab_alloc_times_grab: "slab_alloc_times p i s = sp.grab_times p i s"
  by (induction i arbitrary: s) simp_all

text \<open>
  C37: A new slab for objects of \<open>ts\<close> bytes hands out \<open>1000 div (ts + 2)\<close> slots and then null. The slots lie in the page behind the
  header and the indices, and no two of them overlap. Any slot that is given back is the next to be handed out.
\<close>

theorem slab_hands_out_all:
  assumes c: "kslab_create (of_nat ts) ctor dtor s = Some (p, s')" and ts: "0 < ts" "ts \<le> 998" and p: "unat p + 1024 \<le> 4294967296"
    and n: "n = 1000 div (ts + 2)"
  shows "\<exists>xs s1. slab_alloc_times p n s' = Some (xs, s1) \<and> length xs = n \<and> kslab_alloc p s1 = Some (NULL, s1)
    \<and> (\<forall>x\<in>set xs. unat p + 24 + 2 * n \<le> unat x \<and> unat x + ts \<le> unat p + 1024)
    \<and> (\<forall>i<n. \<forall>j<i. unat (xs ! j) + ts \<le> unat (xs ! i))
    \<and> (\<forall>x\<in>set xs. \<exists>s2 s3. kslab_dealloc p x s1 = Some (True, s2) \<and> kslab_alloc p s2 = Some (x, s3) \<and> slab_rep p n ts s3 [])"
proof -
  let ?xs = "map (slot_addr p n ts) [0..<n]"
  have rep: "slab_rep p n ts s' (?xs @ [])" using slab_create_rep [OF c ts p] n by simp
  have f: "slab_fits p n ts" using rep by (simp add: slab_rep_def)
  obtain s1 where s1: "slab_alloc_times p n s' = Some (?xs, s1)" "slab_rep p n ts s1 []"
    using sp.grab_times_rep [OF rep] by (auto simp: slab_alloc_times_grab)
  have "unat p + 24 + 2 * n \<le> unat x \<and> unat x + ts \<le> unat p + 1024" if "x \<in> set ?xs" for x
    using that unat_slot_addr [OF f] slot_end [OF f] by fastforce
  moreover have "unat (?xs ! j) + ts \<le> unat (?xs ! i)" if "i < n" "j < i" for i j
  proof -
    have "(j + 1) * ts \<le> i * ts" using that(2) by (intro mult_right_mono) auto
    then show ?thesis using that unat_slot_addr [OF f, of i] unat_slot_addr [OF f, of j] by simp
  qed
  moreover have "\<exists>s2 s3. kslab_dealloc p x s1 = Some (True, s2) \<and> kslab_alloc p s2 = Some (x, s3) \<and> slab_rep p n ts s3 []"
    if "x \<in> set ?xs" for x
    by (rule sp.give_grab [OF s1(2)]) (use that in auto)
  ultimately show ?thesis
    using s1(1) slab_grab_empty [OF s1(2)] by (intro exI [of _ ?xs] exI [of _ s1]) simp
qed

text \<open>Example: a page of order 0 at \<open>0x50002000\<close>.\<close>

definition page_state :: slabs where
  "page_state = \<lparr>fbs = [0x50002000 \<mapsto> \<lparr>fb_next = 0, fb_prev = 0, order = 0\<rparr>], free_blocks = 0x50002000 # replicate 9 0,
     kslabs = Map.empty, slot_calls = []\<rparr>"

lemma page_alloc: "kbuddy_alloc 1 page_state = Some (0x50002000, page_state\<lparr>free_blocks := 0 # replicate 9 0\<rparr>)"
  using kbuddy_alloc_order [of page_state 1 0] clog2_1 by (simp add: page_state_def remove_block_def set_head_def)

lemma page_slab: "\<exists>s. kslab_create (of_nat 498) 0 0 page_state = Some (0x50002000, s)"
  by (simp add: kslab_create_def page_alloc KMEM_PAGE_SIZE_def sizeof_kslab_def Let_def)

theorem slab_hands_out_all_witness:
  "\<exists>s xs s1. kslab_create 498 0 0 page_state = Some (0x50002000, s) \<and> slab_alloc_times 0x50002000 2 s = Some (xs, s1) \<and> length xs = 2"
proof -
  obtain s where s: "kslab_create (of_nat 498) 0 0 page_state = Some (0x50002000, s)" using page_slab by blast
  from slab_hands_out_all [OF s, of 2] show ?thesis using s by auto
qed

section \<open>Caches\<close>

lemma set_next_rep:
  assumes "slab_rep p n ts s xs"
  shows "\<exists>s'. kslab_set_next p nx s = Some s' \<and> slab_rep p n ts s' xs"
proof -
  obtain k where k: "kslabs s p = Some k" using assms unfolding slab_rep_def by blast
  have "slab_rep p n ts (s\<lparr>kslabs := (kslabs s)(p \<mapsto> k\<lparr>sl_next := nx\<rparr>)\<rparr>) xs"
    using assms k by (auto simp: slab_rep_def)
  then show ?thesis using k by (simp add: kslab_set_next_def upd_slab_def)
qed

text \<open>
  A slot of a full slab is never freed. When every slab of a cache is full, \<open>kcache_dealloc\<close> moves the first full slab, whether the
  pointer is in it or not, to the partially allocated ones and frees nothing; the next allocation then returns null although
  new slabs could be made.
\<close>

theorem kcache_dealloc_frees_nothing:
  assumes s: "slab_rep p n ts s []" and c: "partially_allocated c = NULL" "fully_allocated c = p" "p \<noteq> NULL"
  shows "\<exists>c' s'. kcache_dealloc ptr (c, s) = Some (c', s') \<and> slab_rep p n ts s' [] \<and> partially_allocated c' = p
    \<and> kcache_alloc (c', s') = Some (NULL, c', s')"
proof -
  have "0 < n" using s by (simp add: slab_rep_def slab_fits_def)
  then have used: "kslab_has_allocated_slots p s = Some True" using slab_allocated [OF s] by simp
  obtain nx where nx: "kslab_get_next p s = Some nx" using s by (auto simp: kslab_get_next_def slab_rep_def)
  obtain s' where s': "kslab_set_next p NULL s = Some s'" "slab_rep p n ts s' []" using set_next_rep [OF s] by blast
  let ?c = "c\<lparr>fully_allocated := nx, partially_allocated := p\<rparr>"
  have d: "kcache_dealloc ptr (c, s) = Some (?c, s')"
    using c nx used s'(1) by (simp add: kcache_dealloc_def dealloc_partial.simps dealloc_full_def Let_def)
  have "kcache_alloc (?c, s') = Some (NULL, ?c, s')"
    using c(3) slab_grab_empty [OF s'(2)] by (simp add: kcache_alloc_def)
  then show ?thesis using d s'(2) by (intro exI [of _ ?c] exI [of _ s']) simp
qed

definition full_state :: slabs where
  "full_state = page_state\<lparr>kslabs := [0x50002000 \<mapsto> \<lparr>sl_ctor = 0, sl_dtor = 0, type_size = 998, num_slots = 1, free_slot = 65535, sl_next = 0,
     free_slots = [0]\<rparr>]\<rparr>"

theorem kcache_dealloc_frees_nothing_witness:
  "\<exists>c s. kcache_dealloc 0x5000201A (\<lparr>c_type_size = 998, c_ctor = 0, c_dtor = 0, fully_allocated = 0x50002000, partially_allocated = 0, fully_free = 0\<rparr>, full_state)
     = Some (c, s) \<and> kcache_alloc (c, s) = Some (NULL, c, s)"
proof -
  have "slab_rep 0x50002000 1 998 full_state []" by (simp add: slab_rep_def slab_fits_def full_state_def)
  from kcache_dealloc_frees_nothing [OF this, of "\<lparr>c_type_size = 998, c_ctor = 0, c_dtor = 0, fully_allocated = 0x50002000,
      partially_allocated = 0, fully_free = 0\<rparr>" "0x5000201A"] show ?thesis by auto
qed

end
