(* ===== verification/User_Api.thy ===== *)
theory User_Api
  imports Exceptions Strings
begin

text \<open>
  The C library's wrappers of system calls: \<^verbatim>\<open>Software/h/threads.h\<close>, \<^verbatim>\<open>signal.h\<close> and \<^verbatim>\<open>stdio.h\<close>. A stub of
  \<^verbatim>\<open>Software/src/common/syscalls.S\<close> has its arguments in \<open>a0\<close>, \<open>a1\<close>, \<open>a2\<close>, puts the number of the call in \<open>a5\<close> and
  executes \<open>ecall\<close>; the trap saves the registers of the current thread, and the result is in its \<open>a0\<close>.
\<close>

section \<open>Calls\<close>

definition set_args :: "u32 \<Rightarrow> u32 list \<Rightarrow> kthread \<Rightarrow> kthread" where
  "set_args code args t = set_reg REG_A5 code (fold (\<lambda>(i, v). set_reg (REG_A0 + i) v) (enumerate 0 args) t)"

definition ecall :: "image \<Rightarrow> kthread \<Rightarrow> u32 \<Rightarrow> u32 list \<Rightarrow> kernel \<Rightarrow> kernel option" where
  "ecall im junk code args s = do {
     s \<leftarrow> upd_thr (kthread_current s) (set_args code args) s;
     exception_handler im junk (exception_code EXCEPTION_USER_ECALL) s
   }"

text \<open>The value the calling thread finds when it goes on.\<close>

definition sys_value :: "image \<Rightarrow> kthread \<Rightarrow> u32 \<Rightarrow> u32 list \<Rightarrow> kernel \<Rightarrow> (u32 \<times> kernel) option" where
  "sys_value im junk code args s = do {
     let me = kthread_current s;
     s \<leftarrow> ecall im junk code args s;
     t \<leftarrow> thrs s me;
     Some (get_reg REG_A0 t, s)
   }"

text \<open>\<open>*p\<close> for a handle the user keeps in memory.\<close>

definition deref :: "addr \<Rightarrow> kernel \<Rightarrow> u32 option" where
  "deref p s = load32 p (kram s)"

section \<open>Threads\<close>

definition thrd_create :: "image \<Rightarrow> kthread \<Rightarrow> addr \<Rightarrow> addr \<Rightarrow> u32 \<Rightarrow> kernel \<Rightarrow> (u32 \<times> kernel) option" where
  "thrd_create im junk thr func arg s = sys_value im junk (syscall_code SYSCALL_THREAD_CREATE) [thr, func, arg] s"
definition thrd_equal :: "addr \<Rightarrow> addr \<Rightarrow> bool" where
  "thrd_equal lhs rhs = (lhs = rhs)"
definition thrd_current :: "image \<Rightarrow> kthread \<Rightarrow> kernel \<Rightarrow> (u32 \<times> kernel) option" where
  "thrd_current im junk s = sys_value im junk (syscall_code SYSCALL_THREAD_GET_CURRENT) [] s"
definition thrd_yield :: "image \<Rightarrow> kthread \<Rightarrow> kernel \<Rightarrow> kernel option" where
  "thrd_yield im junk s = ecall im junk (syscall_code SYSCALL_THREAD_DISPATCH) [] s"
definition thrd_exit :: "image \<Rightarrow> kthread \<Rightarrow> u32 \<Rightarrow> kernel \<Rightarrow> kernel option" where
  "thrd_exit im junk res s = ecall im junk (syscall_code SYSCALL_THREAD_EXIT) [res] s"
definition thrd_detach :: "image \<Rightarrow> kthread \<Rightarrow> addr \<Rightarrow> kernel \<Rightarrow> (u32 \<times> kernel) option" where
  "thrd_detach im junk thr s = sys_value im junk (syscall_code SYSCALL_THREAD_DETACH) [thr] s"

definition mtx_init :: "image \<Rightarrow> kthread \<Rightarrow> addr \<Rightarrow> u32 \<Rightarrow> kernel \<Rightarrow> (u32 \<times> kernel) option" where
  "mtx_init im junk mutex type s = sys_value im junk (syscall_code SYSCALL_MUTEX_CREATE) [mutex, type] s"
definition mtx_lock :: "image \<Rightarrow> kthread \<Rightarrow> addr \<Rightarrow> kernel \<Rightarrow> (u32 \<times> kernel) option" where
  "mtx_lock im junk mutex s = do { m \<leftarrow> deref mutex s; sys_value im junk (syscall_code SYSCALL_MUTEX_LOCK) [m] s }"
definition mtx_trylock :: "image \<Rightarrow> kthread \<Rightarrow> addr \<Rightarrow> kernel \<Rightarrow> (u32 \<times> kernel) option" where
  "mtx_trylock im junk mutex s = do { m \<leftarrow> deref mutex s; sys_value im junk (syscall_code SYSCALL_MUTEX_TRY_LOCK) [m] s }"
definition mtx_unlock :: "image \<Rightarrow> kthread \<Rightarrow> addr \<Rightarrow> kernel \<Rightarrow> (u32 \<times> kernel) option" where
  "mtx_unlock im junk mutex s = do { m \<leftarrow> deref mutex s; sys_value im junk (syscall_code SYSCALL_MUTEX_UNLOCK) [m] s }"
definition mtx_destroy :: "image \<Rightarrow> kthread \<Rightarrow> addr \<Rightarrow> kernel \<Rightarrow> kernel option" where
  "mtx_destroy im junk mutex s = do { m \<leftarrow> deref mutex s; ecall im junk (syscall_code SYSCALL_MUTEX_DESTROY) [m] s }"

definition cnd_init :: "image \<Rightarrow> kthread \<Rightarrow> addr \<Rightarrow> kernel \<Rightarrow> (u32 \<times> kernel) option" where
  "cnd_init im junk cond s = sys_value im junk (syscall_code SYSCALL_CONDITION_CREATE) [cond] s"
definition cnd_signal :: "image \<Rightarrow> kthread \<Rightarrow> addr \<Rightarrow> kernel \<Rightarrow> (u32 \<times> kernel) option" where
  "cnd_signal im junk cond s = do { c \<leftarrow> deref cond s; sys_value im junk (syscall_code SYSCALL_CONDITION_SIGNAL) [c] s }"
definition cnd_broadcast :: "image \<Rightarrow> kthread \<Rightarrow> addr \<Rightarrow> kernel \<Rightarrow> (u32 \<times> kernel) option" where
  "cnd_broadcast im junk cond s = do { c \<leftarrow> deref cond s; sys_value im junk (syscall_code SYSCALL_CONDITION_SIGNAL_ALL) [c] s }"
definition cnd_wait :: "image \<Rightarrow> kthread \<Rightarrow> addr \<Rightarrow> addr \<Rightarrow> kernel \<Rightarrow> (u32 \<times> kernel) option" where
  "cnd_wait im junk cond mutex s = do { c \<leftarrow> deref cond s; m \<leftarrow> deref mutex s; sys_value im junk (syscall_code SYSCALL_CONDITION_WAIT) [c, m] s }"
definition cnd_destroy :: "image \<Rightarrow> kthread \<Rightarrow> addr \<Rightarrow> kernel \<Rightarrow> kernel option" where
  "cnd_destroy im junk cond s = do { c \<leftarrow> deref cond s; ecall im junk (syscall_code SYSCALL_CONDITION_DESTROY) [c] s }"

definition tss_create :: "image \<Rightarrow> kthread \<Rightarrow> addr \<Rightarrow> addr \<Rightarrow> kernel \<Rightarrow> (u32 \<times> kernel) option" where
  "tss_create im junk key dtor s = sys_value im junk (syscall_code SYSCALL_THREAD_STORAGE_CREATE) [key, dtor] s"
definition tss_get :: "image \<Rightarrow> kthread \<Rightarrow> addr \<Rightarrow> kernel \<Rightarrow> (u32 \<times> kernel) option" where
  "tss_get im junk key s = sys_value im junk (syscall_code SYSCALL_THREAD_STORAGE_GET) [key] s"
definition tss_set :: "image \<Rightarrow> kthread \<Rightarrow> addr \<Rightarrow> u32 \<Rightarrow> kernel \<Rightarrow> (u32 \<times> kernel) option" where
  "tss_set im junk key val s = sys_value im junk (syscall_code SYSCALL_THREAD_STORAGE_SET) [key, val] s"
definition tss_delete :: "image \<Rightarrow> kthread \<Rightarrow> addr \<Rightarrow> kernel \<Rightarrow> kernel option" where
  "tss_delete im junk key s = ecall im junk (syscall_code SYSCALL_THREAD_STORAGE_DESTROY) [key] s"

section \<open>Signals\<close>

definition signal_handler :: "image \<Rightarrow> kthread \<Rightarrow> u32 \<Rightarrow> addr \<Rightarrow> kernel \<Rightarrow> (u32 \<times> kernel) option" where
  "signal_handler im junk sig func s = sys_value im junk (syscall_code SYSCALL_SIGNAL_SET_HANDLER) [sig, func] s"
definition raise_signal :: "image \<Rightarrow> kthread \<Rightarrow> u32 \<Rightarrow> kernel \<Rightarrow> (u32 \<times> kernel) option" where
  "raise_signal im junk sig s = do { s \<leftarrow> ecall im junk (syscall_code SYSCALL_SIGNAL_RAISE) [sig] s; Some (0, s) }"

section \<open>Output\<close>

text \<open>\<open>stdout\<close> and \<open>stderr\<close> are the number of the display, \<open>EOF\<close> is -1.\<close>

definition file_write :: "image \<Rightarrow> kthread \<Rightarrow> u32 \<Rightarrow> addr \<Rightarrow> u32 \<Rightarrow> kernel \<Rightarrow> (u32 \<times> kernel) option" where
  "file_write im junk file buffer sz s = sys_value im junk (syscall_code SYSCALL_FILE_WRITE) [file, buffer, sz] s"

definition stdout :: u32 where "stdout = 0"
definition EOF :: u32 where "EOF = - 1"

definition fputs :: "image \<Rightarrow> kthread \<Rightarrow> addr \<Rightarrow> u32 \<Rightarrow> kernel \<Rightarrow> (u32 \<times> kernel) option" where
  "fputs im junk str stream s = do {
     len \<leftarrow> strlen_loop str 0 (kram s);
     (chars, s) \<leftarrow> file_write im junk stream str len s;
     if chars \<noteq> len then Some (EOF, s) else Some (chars, s)
   }"

text \<open>\<open>slot\<close> is the address of the local variable \<open>c\<close>.\<close>

definition fputc :: "image \<Rightarrow> kthread \<Rightarrow> addr \<Rightarrow> u32 \<Rightarrow> u32 \<Rightarrow> kernel \<Rightarrow> (u32 \<times> kernel) option" where
  "fputc im junk slot ch stream s = do {
     m \<leftarrow> store8 slot (ucast ch) (kram s);
     (res, s) \<leftarrow> file_write im junk stream slot 1 (s\<lparr>kram := m\<rparr>);
     if res \<noteq> 1 then Some (EOF, s) else Some (ch, s)
   }"

definition puts :: "image \<Rightarrow> kthread \<Rightarrow> addr \<Rightarrow> addr \<Rightarrow> kernel \<Rightarrow> (u32 \<times> kernel) option" where
  "puts im junk slot str s = do {
     (res, s) \<leftarrow> fputs im junk str stdout s;
     if res = EOF then Some (EOF, s)
     else do {
       (r, s) \<leftarrow> fputc im junk slot 10 stdout s;
       if r = EOF then Some (EOF, s) else Some (res + 1, s)
     }
   }"

definition putchar :: "image \<Rightarrow> kthread \<Rightarrow> addr \<Rightarrow> u32 \<Rightarrow> kernel \<Rightarrow> (u32 \<times> kernel) option" where
  "putchar im junk slot ch s = fputc im junk slot ch stdout s"

end
