(* ===== verification/Default_Handler.thy ===== *)
theory Default_Handler
  imports User_Api
begin

text \<open>
  Code that runs in user threads on top of the library: the default handler of signals
  (\<^verbatim>\<open>handle_illegal_action\<close> in \<^verbatim>\<open>Software/src/kernel/signals.c\<close>) and the demo program \<^verbatim>\<open>Software/src/main.c\<close>. String
  literals, code addresses and the addresses of local variables are parameters: the linker and the compiler choose them.
\<close>

section \<open>The default handler\<close>

primrec store_bytes :: "addr \<Rightarrow> u8 list \<Rightarrow> ram \<Rightarrow> ram option" where
  "store_bytes p [] m = Some m"
| "store_bytes p (b # bs) m = do { m \<leftarrow> store8 p b m; store_bytes (p + 1) bs m }"

text \<open>
  \<open>fatal\<close> and \<open>label\<close> are the addresses of the two literals, \<open>cbuf\<close> and \<open>abuf\<close> those of the arrays \<open>cause_str\<close> and
  \<open>addr_str\<close>, \<open>slot\<close> that of the local character of \<open>fputc\<close>.
\<close>

definition handle_illegal_action ::
  "image \<Rightarrow> kthread \<Rightarrow> addr \<Rightarrow> addr \<Rightarrow> addr \<Rightarrow> addr \<Rightarrow> addr \<Rightarrow> u32 \<Rightarrow> kernel \<Rightarrow> kernel option" where
  "handle_illegal_action im junk fatal label cbuf abuf slot cause s = do {
     let s = s\<lparr>dev := lcd_clear (dev s)\<rparr>;
     (_, s) \<leftarrow> puts im junk slot fatal s;
     m \<leftarrow> store_bytes cbuf (cause_str cause @ [0]) (kram s);
     (_, s) \<leftarrow> puts im junk slot cbuf (s\<lparr>kram := m\<rparr>);
     (_, s) \<leftarrow> puts im junk slot label s;
     m \<leftarrow> store_bytes abuf (addr_str (ksig_addr s) @ [0]) (kram s);
     (_, s) \<leftarrow> puts im junk slot abuf (s\<lparr>kram := m\<rparr>);
     Some s
   }"

section \<open>The demo program\<close>

text \<open>\<open>errno\<close> is a variable of the running thread at the address \<open>e\<close> (\<^verbatim>\<open>__errno_location\<close> in \<^verbatim>\<open>Software/h/errno.h\<close>).\<close>

definition set_errno :: "addr \<Rightarrow> u32 \<Rightarrow> kernel \<Rightarrow> kernel option" where
  "set_errno e v s = do { m \<leftarrow> store32 e v (kram s); Some (s\<lparr>kram := m\<rparr>) }"

definition calculate_ok :: "addr \<Rightarrow> kernel \<Rightarrow> kernel option" where
  "calculate_ok e s = set_errno e 0 s"
definition calculate_faulty :: "addr \<Rightarrow> kernel \<Rightarrow> kernel option" where
  "calculate_faulty e s = set_errno e 1 s"

definition show_errno :: "u8 \<Rightarrow> addr \<Rightarrow> kernel \<Rightarrow> kernel option" where
  "show_errno led e s = do {
     v \<leftarrow> load32 e (kram s);
     d \<leftarrow> leds_set_single led (v = 0) (dev s);
     Some (s\<lparr>dev := d\<rparr>)
   }"

definition first_thread :: "addr \<Rightarrow> kernel \<Rightarrow> (u32 \<times> kernel) option" where
  "first_thread e s = do {
     s \<leftarrow> calculate_ok e s;
     s \<leftarrow> show_errno 0 e s;
     s \<leftarrow> calculate_faulty e s;
     s \<leftarrow> show_errno 1 e s;
     s \<leftarrow> calculate_ok e s;
     s \<leftarrow> show_errno 2 e s;
     Some (0, s)
   }"

definition second_thread :: "kernel \<Rightarrow> (u32 \<times> kernel) option" where
  "second_thread s = do { d \<leftarrow> leds_toggle_single 1 (dev s); Some (0, s\<lparr>dev := d\<rparr>) }"

definition btn_on_pressed :: "kernel \<Rightarrow> kernel option" where
  "btn_on_pressed s = do { d \<leftarrow> leds_toggle_single 3 (dev s); Some (s\<lparr>dev := d\<rparr>) }"

text \<open>
  \<open>main\<close> up to its endless loop. \<open>started\<close> and \<open>created\<close> are the literals, \<open>handles\<close> the local array, \<open>pressed\<close>, \<open>first\<close> and
  \<open>second\<close> the code addresses.
\<close>

definition main_program ::
  "image \<Rightarrow> (nat \<Rightarrow> kthread) \<Rightarrow> addr \<Rightarrow> addr \<Rightarrow> addr \<Rightarrow> addr \<Rightarrow> addr \<Rightarrow> addr \<Rightarrow> addr \<Rightarrow> kernel \<Rightarrow> kernel option" where
  "main_program im junk slot started created handles pressed first second s = do {
     let s = s\<lparr>dev := leds_on (dev s)\<rparr>;
     let s = s\<lparr>dev := ssds_on (dev s)\<rparr>;
     (_, s) \<leftarrow> puts im (junk 0) slot started s;
     let s = s\<lparr>dev := ssds_set_dec_num 1234 (dev s)\<rparr>;
     (_, s) \<leftarrow> signal_handler im (junk 0) 5 pressed s;
     (_, s) \<leftarrow> signal_handler im (junk 0) 6 pressed s;
     (_, s) \<leftarrow> signal_handler im (junk 0) 7 pressed s;
     (_, s) \<leftarrow> signal_handler im (junk 0) 8 pressed s;
     (_, s) \<leftarrow> thrd_create im (junk 1) handles first 0 s;
     (_, s) \<leftarrow> thrd_create im (junk 2) (handles + 4) second 0 s;
     (_, s) \<leftarrow> puts im (junk 0) slot created s;
     Some s
   }"

end
