(* ===== verification/User_Properties.thy ===== *)
theory User_Properties
  imports Default_Handler Conv_Properties Device_Properties
begin

text \<open>
  From a call of the C library to the display.
\<close>

section \<open>Writing to the display\<close>

lemma set_args_regs:
  assumes "length (regs (ctx t)) = 16"
  shows "get_reg REG_A5 (set_args c [x, y, z] t) = c" "get_reg REG_A0 (set_args c [x, y, z] t) = x"
    "get_reg (REG_A0 + 1) (set_args c [x, y, z] t) = y" "get_reg (REG_A0 + 2) (set_args c [x, y, z] t) = z"
    "length (regs (ctx (set_args c [x, y, z] t))) = 16"
  using assms by (simp_all add: set_args_def set_reg_def get_reg_def REG_A0_def REG_A5_def)

lemma file_write_display:
  assumes t: "thrs s (kthread_current s) = Some t" "length (regs (ctx t)) = 16"
    and bs: "\<forall>i<length bs. kram s (buffer + of_nat i) = Some (bs ! i)" and n: "unat n = length bs"
  shows "\<exists>t'. file_write im junk 0 buffer n s = Some (n, s\<lparr>thrs := (thrs s)(kthread_current s \<mapsto> t'),
      dev := (dev s)\<lparr>lcd_log := lcd_log (dev s) @ map lcd_effect bs\<rparr>\<rparr>) \<and> length (regs (ctx t')) = 16"
proof -
  let ?me = "kthread_current s"
  let ?t1 = "set_args 0x61 [0, buffer, n] t"
  note R = set_args_regs [OF t(2), of "0x61" 0 buffer n]
  let ?t2 = "?t1\<lparr>ctx := (ctx ?t1)\<lparr>pc := pc (ctx ?t1) + 4\<rparr>\<rparr>"
  let ?s2 = "s\<lparr>thrs := (thrs s)(?me \<mapsto> ?t2)\<rparr>"
  have g: "get_reg i ?t2 = get_reg i ?t1" for i by (simp add: get_reg_def)
  have l: "length (regs (ctx ?t2)) = 16" using R(5) by simp
  let ?s3 = "?s2\<lparr>dev := (dev s)\<lparr>lcd_log := lcd_log (dev s) @ map lcd_effect bs\<rparr>\<rparr>"
  have w: "klcd_write buffer n ?s2 = Some (n, ?s3)" using klcd_write_bytes [of bs ?s2 buffer n] bs n by simp
  have p: "get_param 0 ?s2 = Some 0" "get_param 1 ?s2 = Some buffer" "get_param 2 ?s2 = Some n"
    using g R(2-4) by (simp_all add: get_param_def)
  let ?t3 = "set_reg REG_A0 n ?t2"
  let ?s4 = "s\<lparr>thrs := (thrs s)(?me \<mapsto> ?t3), dev := (dev s)\<lparr>lcd_log := lcd_log (dev s) @ map lcd_effect bs\<rparr>\<rparr>"
  have "syscall_file_write ?s2 = Some ?s4"
    using p w by (simp add: syscall_file_write_def kfile_write_def set_ret_value_def kernel_simps)
  then have "handle_syscall im junk (s\<lparr>thrs := (thrs s)(?me \<mapsto> ?t1)\<rparr>) = Some ?s4"
    using g R(1) by (simp add: handle_syscall_def kernel_simps syscalls_def)
  then have "ecall im junk 0x61 [0, buffer, n] s = Some ?s4"
    using t(1) by (simp add: ecall_def kernel_simps exception_handler_def)
  moreover have "get_reg REG_A0 ?t3 = n" using l by (simp add: get_reg_def set_reg_def REG_A0_def)
  ultimately have "file_write im junk 0 buffer n s = Some (n, ?s4)" by (simp add: file_write_def sys_value_def)
  moreover have "length (regs (ctx ?t3)) = 16" using l by (simp add: set_reg_def)
  ultimately show ?thesis by blast
qed

lemma puts_display:
  assumes t: "thrs s (kthread_current s) = Some t" "length (regs (ctx t)) = 16"
    and p: "cstr (kram s) p xs" and slot: "slot \<in> dom (kram s)"
  shows "\<exists>t'. puts im junk slot p s = Some (of_nat (Suc (length xs)), s\<lparr>kram := (kram s)(slot \<mapsto> 10),
      thrs := (thrs s)(kthread_current s \<mapsto> t'), dev := (dev s)\<lparr>lcd_log := lcd_log (dev s) @ map lcd_effect xs @ [LCD_CMD 0xC0]\<rparr>\<rparr>)
    \<and> length (regs (ctx t')) = 16"
proof -
  let ?n = "of_nat (length xs) :: u32" and ?me = "kthread_current s"
  let ?d = "(dev s)\<lparr>lcd_log := lcd_log (dev s) @ map lcd_effect xs\<rparr>"
  have n: "unat ?n = length xs" using cstr_length [OF p] by (intro unat_of_nat_u32) linarith
  have len: "strlen_loop p 0 (kram s) = Some ?n" using strlen_cstr [OF p] by (simp add: strlen_def)
  obtain t1 where t1: "file_write im junk 0 p ?n s = Some (?n, s\<lparr>thrs := (thrs s)(?me \<mapsto> t1), dev := ?d\<rparr>)" "length (regs (ctx t1)) = 16"
    using file_write_display [OF t _ n, of p im junk] cstr_nth(1) [OF p] by blast
  let ?s1 = "s\<lparr>thrs := (thrs s)(?me \<mapsto> t1), dev := ?d\<rparr>"
  have f: "fputs im junk p stdout s = Some (?n, ?s1)" using len t1(1) by (simp add: fputs_def stdout_def)
  let ?m = "(kram s)(slot \<mapsto> 10)"
  let ?s2 = "?s1\<lparr>kram := ?m\<rparr>"
  have st: "store8 slot 10 (kram ?s1) = Some ?m" using slot by (auto simp: store8_def)
  have "\<exists>t'. file_write im junk 0 slot 1 ?s2 = Some (1, ?s2\<lparr>thrs := (thrs ?s2)(kthread_current ?s2 \<mapsto> t'),
      dev := (dev ?s2)\<lparr>lcd_log := lcd_log (dev ?s2) @ map lcd_effect [10]\<rparr>\<rparr>) \<and> length (regs (ctx t')) = 16"
    by (rule file_write_display [where t = t1]) (use t1(2) in simp_all)
  then obtain t2 where t2: "file_write im junk 0 slot 1 ?s2 = Some (1, s\<lparr>kram := ?m, thrs := (thrs s)(?me \<mapsto> t2),
      dev := (dev s)\<lparr>lcd_log := lcd_log (dev s) @ map lcd_effect xs @ [LCD_CMD 0xC0]\<rparr>\<rparr>)" "length (regs (ctx t2)) = 16"
    by auto
  have c: "fputc im junk slot 10 stdout ?s1 = Some (10, s\<lparr>kram := ?m, thrs := (thrs s)(?me \<mapsto> t2),
      dev := (dev s)\<lparr>lcd_log := lcd_log (dev s) @ map lcd_effect xs @ [LCD_CMD 0xC0]\<rparr>\<rparr>)"
    using st t2(1) by (simp add: fputc_def stdout_def)
  have "unat EOF = 4294967295" by (simp add: EOF_def unsigned_minus_1_eq_mask mask_eq_exp_minus_1)
  then have e: "?n \<noteq> EOF" "(10 :: u32) \<noteq> EOF" using n cstr_length [OF p] by (auto simp: EOF_def)
  show ?thesis
    using f c e t2(2) by (intro exI [of _ t2]) (simp add: puts_def add.commute)
qed

text \<open>
  C39: \<open>puts\<close> prints its string and a line feed on the display, byte by byte through the system call and the kernel's file table, and
  returns the number of characters.
\<close>

theorem puts_prints:
  assumes t: "thrs s (kthread_current s) = Some t" "length (regs (ctx t)) = 16"
    and p: "cstr (kram s) p xs" and slot: "slot \<in> dom (kram s)"
  shows "\<exists>s'. puts im junk slot p s = Some (of_nat (Suc (length xs)), s')
    \<and> lcd_log (dev s') = lcd_log (dev s) @ map lcd_effect xs @ [LCD_CMD 0xC0]"
  using puts_display [OF assms, of im junk] by auto

theorem puts_prints_witness:
  "\<forall>im junk. \<exists>s'. puts im junk 0x200 0x100 (demo_kernel demo_ready [0x100 \<mapsto> 72, 0x101 \<mapsto> 105, 0x102 \<mapsto> 0, 0x200 \<mapsto> 0] []) = Some (3, s')
    \<and> lcd_log (dev s') = [LCD_DATA 72, LCD_DATA 105, LCD_CMD 0xC0]"
proof (intro allI)
  fix im junk
  let ?m = "[0x100 \<mapsto> 72, 0x101 \<mapsto> 105, 0x102 \<mapsto> 0, 0x200 \<mapsto> 0] :: ram"
  let ?s = "demo_kernel demo_ready ?m []"
  have m: "kram ?s = ?m" "lcd_log (dev ?s) = []" "kthread_current ?s = T1" "thrs ?s = thrs demo_ready"
    by (simp_all add: demo_kernel_def kernel.defs kstate.defs demo_devices_def demo_ready_def demo_state_def)
  have "thrs ?s (kthread_current ?s) = Some (demo_thread RUNNING 0 0 MTX)"
    unfolding m by (simp add: demo_ready_def demo_state_def demo_addr)
  moreover have "length (regs (ctx (demo_thread RUNNING 0 0 MTX))) = 16" by (simp add: demo_thread_def demo_regs_def)
  moreover have "cstr (kram ?s) 0x100 [72, 105]" unfolding m by (auto simp: cstr_def bytes_at_def less_Suc_eq)
  moreover have "0x200 \<in> dom (kram ?s)" unfolding m by simp
  ultimately show "\<exists>s'. puts im junk 0x200 0x100 ?s = Some (3, s') \<and> lcd_log (dev s') = [LCD_DATA 72, LCD_DATA 105, LCD_CMD 0xC0]"
    using puts_prints [of ?s "demo_thread RUNNING 0 0 MTX" "0x100" "[72, 105]" "0x200" im junk] unfolding m(2) by auto
qed

section \<open>The default handler\<close>

lemma store_bytes_span:
  assumes "span p (length bs) \<subseteq> dom m" and "length bs < 4294967296"
  shows "\<exists>m'. store_bytes p bs m = Some m' \<and> bytes_at m' p bs \<and> dom m' = dom m \<and> (\<forall>q. q \<notin> span p (length bs) \<longrightarrow> m' q = m q)"
  using assms
proof (induction bs arbitrary: p m)
  case Nil
  then show ?case by (simp add: bytes_at_def)
next
  case (Cons b bs)
  have in_span: "q \<in> span p (length (b # bs))" if "q = p \<or> q \<in> span (p + 1) (length bs)" for q
  proof -
    have "p \<in> span p (length (b # bs))" by (auto simp: span_shift intro!: exI [of _ "0 :: nat"])
    moreover have "q \<in> span p (length (b # bs))" if "q \<in> span (p + 1) (length bs)"
    proof -
      from that obtain k where "k < length bs" "q = p + 1 + of_nat k" by (auto simp: span_shift)
      then show ?thesis by (auto simp: span_shift intro!: exI [of _ "Suc k"])
    qed
    ultimately show ?thesis using that by blast
  qed
  have p0: "p \<notin> span (p + 1) (length bs)"
  proof
    assume "p \<in> span (p + 1) (length bs)"
    then obtain k where k: "k < length bs" "p = p + 1 + of_nat k" by (auto simp: span_shift)
    then have "(of_nat (Suc k) :: u32) = 0" by (simp add: add.assoc)
    moreover have "unat (of_nat (Suc k) :: u32) = Suc k" using k Cons.prems(2) by (intro unat_of_nat_u32) simp
    ultimately show False by simp
  qed
  let ?m = "m(p \<mapsto> b)"
  have st: "store8 p b m = Some ?m" using in_span [of p] Cons.prems(1) by (auto simp: store8_def)
  have "span (p + 1) (length bs) \<subseteq> dom ?m" using in_span Cons.prems(1) by auto
  then obtain m' where m': "store_bytes (p + 1) bs ?m = Some m'" "bytes_at m' (p + 1) bs" "dom m' = dom ?m"
    "\<forall>q. q \<notin> span (p + 1) (length bs) \<longrightarrow> m' q = ?m q"
    using Cons.IH [of "p + 1" ?m] Cons.prems(2) by (fastforce simp del: fun_upd_apply)
  have "m' (p + of_nat i) = Some ((b # bs) ! i)" if "i < length (b # bs)" for i
    using that m'(4) p0 bytes_at_nth [OF m'(2), of "i - 1"] by (cases i) (simp_all add: add.assoc)
  then have "bytes_at m' p (b # bs)" by (simp add: bytes_at_def)
  moreover have "m' q = m q" if "q \<notin> span p (length (b # bs))" for q
  proof -
    have "q \<noteq> p" "q \<notin> span (p + 1) (length bs)" using that in_span by blast+
    then show ?thesis using m'(4) by simp
  qed
  moreover have "dom m' = dom m" using m'(3) in_span [of p] Cons.prems(1) by auto
  ultimately show ?case using st m'(1) by simp
qed

lemma store_cstr:
  assumes "span p (Suc (length bs)) \<subseteq> dom m" and "length bs < 4294967295" and "0 \<notin> set bs"
  shows "\<exists>m'. store_bytes p (bs @ [0]) m = Some m' \<and> cstr m' p bs \<and> dom m' = dom m \<and> (\<forall>q. q \<notin> span p (Suc (length bs)) \<longrightarrow> m' q = m q)"
  using store_bytes_span [of p "bs @ [0]" m] assms by (simp add: cstr_def)

text \<open>The digits of the two numbers.\<close>

lemma digit_cases:
  fixes d :: int
  shows "0 \<le> d \<Longrightarrow> d < 16 \<Longrightarrow> d = 0 \<or> d = 1 \<or> d = 2 \<or> d = 3 \<or> d = 4 \<or> d = 5 \<or> d = 6 \<or> d = 7 \<or> d = 8 \<or> d = 9
    \<or> d = 10 \<or> d = 11 \<or> d = 12 \<or> d = 13 \<or> d = 14 \<or> d = 15"
  by presburger

lemma small_word:
  fixes d :: u32
  assumes "uint d < 16"
  shows "d = 0 \<or> d = 1 \<or> d = 2 \<or> d = 3 \<or> d = 4 \<or> d = 5 \<or> d = 6 \<or> d = 7 \<or> d = 8 \<or> d = 9
    \<or> d = 10 \<or> d = 11 \<or> d = 12 \<or> d = 13 \<or> d = 14 \<or> d = 15"
proof -
  obtain k where k: "d = word_of_int k" "0 \<le> k" "k < 16" using assms uint_nonnegative word_of_int_uint by metis
  from digit_cases [OF k(2,3)] show ?thesis using k(1) by (elim disjE) simp_all
qed

lemma hex_char_digit:
  assumes "uint d < 16"
  shows "digit_of (hex_char d) = Some (uint d)" and "hex_char d \<noteq> 0"
proof -
  have "digit_of (hex_char d) = Some (uint d) \<and> hex_char d \<noteq> 0"
    using small_word [OF assms] by (elim disjE) (simp_all add: hex_char_def digit_of_def)
  then show "digit_of (hex_char d) = Some (uint d)" "hex_char d \<noteq> 0" by simp_all
qed

lemma nibble:
  fixes a :: u32
  shows "uint (drop_bit n a AND 0xF) = uint a div 2 ^ n mod 16"
proof -
  have "drop_bit n a AND 0xF = take_bit 4 (drop_bit n a)" by (simp add: take_bit_eq_mask mask_eq_exp_minus_1)
  then have "uint (drop_bit n a AND 0xF) = take_bit 4 (uint (drop_bit n a))" by (simp only: unsigned_take_bit_eq)
  moreover have "uint (drop_bit n a) = drop_bit n (uint a)"
    using uint_lt2p [of a] by (simp add: unsigned_drop_bit_eq take_bit_int_eq_self)
  ultimately have "uint (drop_bit n a AND 0xF) = take_bit 4 (drop_bit n (uint a))" by simp
  then show ?thesis by (simp add: take_bit_eq_mod drop_bit_eq_div)
qed

lemma addr_str_digits:
  "drop 2 (addr_str a) = map (\<lambda>i. hex_char (drop_bit (28 - i * 4) a AND 0xF)) [0..<8]"
  by (simp add: addr_str_def)

lemma addr_str_value:
  assumes "k \<le> 8"
  shows "value_of 16 0 (map (\<lambda>i. hex_char (drop_bit (28 - i * 4) a AND 0xF)) [0..<k]) = uint a div 2 ^ (32 - 4 * k)"
  using assms
proof (induction k)
  case 0
  have "uint a < 2 ^ 32" using uint_lt2p [of a] by simp
  then show ?case using uint_nonnegative [of a] by (simp add: value_of_simps)
next
  case (Suc k)
  let ?n = "28 - k * 4"
  have e: "32 - 4 * k = ?n + 4" "32 - 4 * Suc k = ?n" using Suc.prems by simp_all
  have d: "digit_of (hex_char (drop_bit ?n a AND 0xF)) = Some (uint a div 2 ^ ?n mod 16)"
    using hex_char_digit(1) [of "drop_bit ?n a AND 0xF"] unfolding nibble by simp
  have "uint a div 2 ^ (?n + 4) * 16 + uint a div 2 ^ ?n mod 16 = uint a div 2 ^ ?n"
    by (simp add: power_add zdiv_zmult2_eq)
  then show ?case using Suc e d by (simp add: value_of_append value_of_simps)
qed

lemma addr_str_ok:
  "digits_in 16 (drop 2 (addr_str a))" "value_of 16 0 (drop 2 (addr_str a)) = uint a" "0 \<notin> set (addr_str a)"
  "addr_str a = [48, 120] @ drop 2 (addr_str a)" "length (addr_str a) = 10"
proof -
  have d: "digit_of (hex_char (drop_bit n a AND 0xF)) = Some (uint a div 2 ^ n mod 16)" "hex_char (drop_bit n a AND 0xF) \<noteq> 0" for n
    using hex_char_digit [of "drop_bit n a AND 0xF"] unfolding nibble by simp_all
  show "digits_in 16 (drop 2 (addr_str a))" unfolding addr_str_digits digits_in_def using d(1) by auto
  show "value_of 16 0 (drop 2 (addr_str a)) = uint a" unfolding addr_str_digits using addr_str_value [of 8 a] by simp
  show "0 \<notin> set (addr_str a)" unfolding addr_str_def using d(2) by (auto simp del: set_upt)
  show "addr_str a = [48, 120] @ drop 2 (addr_str a)" "length (addr_str a) = 10" by (simp_all add: addr_str_def)
qed

lemma cause_str_ok:
  assumes "cause < 100"
  shows "\<exists>ds. cause_str cause = ds @ [10] \<and> length ds = 2 \<and> digits_in 10 ds \<and> value_of 10 0 ds = uint cause \<and> 0 \<notin> set ds"
proof -
  have u: "uint cause < 100" using assms by (simp add: word_less_def)
  let ?ds = "[48 + ucast (cause div 10), 48 + ucast (cause mod 10)] :: u8 list"
  have dec: "digit_of (48 + ucast c) = Some (uint c) \<and> (48 + ucast c :: u8) \<noteq> 0" if "uint (c :: u32) < 10" for c
  proof -
    have "uint c < 16" using that by simp
    from small_word [OF this] show ?thesis using that by (elim disjE) (simp_all add: digit_of_def)
  qed
  have q: "uint (cause div 10) = uint cause div 10" "uint (cause mod 10) = uint cause mod 10"
    by (simp_all add: uint_div uint_mod)
  have d: "digit_of (48 + ucast (cause div 10)) = Some (uint cause div 10)" "(48 + ucast (cause div 10) :: u8) \<noteq> 0"
    "digit_of (48 + ucast (cause mod 10)) = Some (uint cause mod 10)" "(48 + ucast (cause mod 10) :: u8) \<noteq> 0"
    using dec [of "cause div 10"] dec [of "cause mod 10"] u unfolding q by auto
  have "digits_in 10 ?ds" "value_of 10 0 ?ds = uint cause" "0 \<notin> set ?ds"
    using d u by (auto simp: digits_in_def value_of_def)
  then show ?thesis by (intro exI [of _ ?ds]) (simp add: cause_str_def)
qed

text \<open>
  C40: The default handler clears the display and prints the literal, the signal as two decimal digits, the second literal, and the
  recorded address as \<open>0x\<close> and eight hexadecimal digits whose value is this address; each goes through \<open>puts\<close>, which ends the line.
\<close>

theorem handle_illegal_action_prints:
  assumes t: "thrs s (kthread_current s) = Some t" "length (regs (ctx t)) = 16"
    and lit: "cstr (kram s) fatal fs" "cstr (kram s) label ls" and cause: "cause < 100"
    and locals: "slot \<in> dom (kram s)" "span cbuf 4 \<subseteq> dom (kram s)" "span abuf 11 \<subseteq> dom (kram s)"
    and apart: "span label (Suc (length ls)) \<inter> (insert slot (span cbuf 4)) = {}"
  shows "\<exists>s' ds hs. handle_illegal_action im junk fatal label cbuf abuf slot cause s = Some s'
    \<and> lcd_log (dev s') = lcd_log (lcd_clear (dev s)) @ map lcd_effect (fs @ [10] @ ds @ [10, 10] @ ls @ [10] @ [48, 120] @ hs @ [10])
    \<and> length ds = 2 \<and> digits_in 10 ds \<and> value_of 10 0 ds = uint cause
    \<and> length hs = 8 \<and> digits_in 16 hs \<and> value_of 16 0 hs = uint (ksig_addr s)"
proof -
  let ?me = "kthread_current s"
  let ?s0 = "s\<lparr>dev := lcd_clear (dev s)\<rparr>"
  obtain ds where ds: "cause_str cause = ds @ [10]" "length ds = 2" "digits_in 10 ds" "value_of 10 0 ds = uint cause" "0 \<notin> set ds"
    using cause_str_ok [OF cause] by blast
  note A = addr_str_ok [of "ksig_addr s"]
  let ?hs = "drop 2 (addr_str (ksig_addr s))"
  obtain t1 n1 s1 where s1: "puts im junk slot fatal ?s0 = Some (n1, s1)" "thrs s1 ?me = Some t1" "length (regs (ctx t1)) = 16"
    "kthread_current s1 = ?me" "ksig_addr s1 = ksig_addr s" "kram s1 = (kram s)(slot \<mapsto> 10)"
    "lcd_log (dev s1) = lcd_log (lcd_clear (dev s)) @ map lcd_effect (fs @ [10])"
    using puts_display [of ?s0 t fatal fs slot im junk] t lit(1) locals(1) by auto
  have d1: "dom (kram s1) = dom (kram s)" using s1(6) locals(1) by auto
  obtain m1 where m1: "store_bytes cbuf (cause_str cause @ [0]) (kram s1) = Some m1" "cstr m1 cbuf (cause_str cause)" "dom m1 = dom (kram s)"
    "\<forall>q. q \<notin> span cbuf 4 \<longrightarrow> m1 q = kram s1 q"
    using store_cstr [of cbuf "cause_str cause" "kram s1"] ds locals(2) d1 by auto
  let ?s1 = "s1\<lparr>kram := m1\<rparr>"
  obtain t2 n2 s2 where s2: "puts im junk slot cbuf ?s1 = Some (n2, s2)" "thrs s2 ?me = Some t2" "length (regs (ctx t2)) = 16"
    "kthread_current s2 = ?me" "ksig_addr s2 = ksig_addr s" "kram s2 = m1(slot \<mapsto> 10)"
    "lcd_log (dev s2) = lcd_log (dev s1) @ map lcd_effect (ds @ [10, 10])"
    using puts_display [of ?s1 t1 cbuf "cause_str cause" slot im junk] s1 m1(2,3) locals(1) ds(1) by auto
  have "cstr (kram s2) label ls = cstr (kram s) label ls"
  proof (rule cstr_cong, rule ballI)
    fix q assume "q \<in> span label (Suc (length ls))"
    then have "q \<noteq> slot" "q \<notin> span cbuf 4" using apart by blast+
    then show "kram s2 q = kram s q" using s2(6) m1(4) s1(6) by simp
  qed
  then have l2: "cstr (kram s2) label ls" using lit(2) by simp
  have d2: "slot \<in> dom (kram s2)" using s2(6) by simp
  obtain t3 n3 s3 where s3: "puts im junk slot label s2 = Some (n3, s3)" "thrs s3 ?me = Some t3" "length (regs (ctx t3)) = 16"
    "kthread_current s3 = ?me" "ksig_addr s3 = ksig_addr s" "kram s3 = (kram s2)(slot \<mapsto> 10)"
    "lcd_log (dev s3) = lcd_log (dev s2) @ map lcd_effect (ls @ [10])"
    using puts_display [of s2 t2 label ls slot im junk] s2 l2 d2 by auto
  have d3: "dom (kram s3) = dom (kram s)" using s3(6) s2(6) m1(3) locals(1) by auto
  obtain m3 where m3: "store_bytes abuf (addr_str (ksig_addr s) @ [0]) (kram s3) = Some m3" "cstr m3 abuf (addr_str (ksig_addr s))"
    "dom m3 = dom (kram s)"
    using store_cstr [of abuf "addr_str (ksig_addr s)" "kram s3"] A(3,5) locals(3) d3 by auto
  let ?s3 = "s3\<lparr>kram := m3\<rparr>"
  obtain n4 s4 where s4: "puts im junk slot abuf ?s3 = Some (n4, s4)"
    "lcd_log (dev s4) = lcd_log (dev s3) @ map lcd_effect (addr_str (ksig_addr s) @ [10])"
    using puts_display [of ?s3 t3 abuf "addr_str (ksig_addr s)" slot im junk] s3 m3 locals(1) by auto
  have "handle_illegal_action im junk fatal label cbuf abuf slot cause s = Some s4"
    using s1(1) m1(1) s2(1) s3(1,5) m3(1) s4(1) by (simp add: handle_illegal_action_def)
  moreover have "lcd_log (dev s4) = lcd_log (lcd_clear (dev s))
      @ map lcd_effect (fs @ [10] @ ds @ [10, 10] @ ls @ [10] @ [48, 120] @ ?hs @ [10])"
    using s4(2) s3(7) s2(7) s1(7) A(4) by (metis append.assoc map_append)
  ultimately show ?thesis using ds A by (intro exI [of _ s4] exI [of _ ds] exI [of _ ?hs]) simp
qed

theorem handle_illegal_action_prints_witness:
  "\<forall>im junk. \<exists>s' ds hs. handle_illegal_action im junk 0x100 0x110 0x200 0x210 0x220 3
      (demo_kernel demo_ready (put 0x100 [72, 105, 0] (put 0x110 [65, 0] (\<lambda>_. Some 0))) []) = Some s'
    \<and> lcd_log (dev s') = lcd_log (lcd_clear demo_devices) @ map lcd_effect ([72, 105, 10] @ ds @ [10, 10, 65, 10, 48, 120] @ hs @ [10])
    \<and> value_of 10 0 ds = 3 \<and> value_of 16 0 hs = 0"
proof (intro allI)
  fix im junk
  let ?m = "put 0x100 [72, 105, 0] (put 0x110 [65, 0] (\<lambda>_. Some 0))"
  let ?s = "demo_kernel demo_ready ?m []"
  have m: "kram ?s = ?m" "dev ?s = demo_devices" "kthread_current ?s = T1" "thrs ?s = thrs demo_ready" "ksig_addr ?s = 0"
    by (simp_all add: demo_kernel_def kernel.defs kstate.defs demo_devices_def demo_ready_def demo_state_def)
  have t: "thrs ?s (kthread_current ?s) = Some (demo_thread RUNNING 0 0 MTX)" "length (regs (ctx (demo_thread RUNNING 0 0 MTX))) = 16"
    unfolding m by (simp_all add: demo_ready_def demo_state_def demo_addr demo_thread_def demo_regs_def)
  have c: "cstr (kram ?s) 0x100 [72, 105]" "cstr (kram ?s) 0x110 [65]"
    unfolding m by (auto simp: cstr_def bytes_at_def less_Suc_eq)
  have a: "span 0x110 (Suc (length [65 :: u8])) \<inter> insert 0x220 (span 0x200 4) = {}"
    by (simp add: span_def lessThan_nat_numeral lessThan_Suc)
  have d: "q \<in> dom (kram ?s)" for q unfolding m by auto
  have "(3 :: u32) < 100" by simp
  from handle_illegal_action_prints [OF t c this d _ _ a, of "0x210" im junk] d
  show "\<exists>s' ds hs. handle_illegal_action im junk 0x100 0x110 0x200 0x210 0x220 3 ?s = Some s'
    \<and> lcd_log (dev s') = lcd_log (lcd_clear demo_devices) @ map lcd_effect ([72, 105, 10] @ ds @ [10, 10, 65, 10, 48, 120] @ hs @ [10])
    \<and> value_of 10 0 ds = 3 \<and> value_of 16 0 hs = 0"
    unfolding m by fastforce
qed

end
