(* ===== verification/Kernel_System.thy ===== *)
theory Kernel_System
  imports Mutual_Exclusion
begin

text \<open>
  The kernel with its signal processor: what the mutex and the condition of the ring look like while threads run, and that the other
  threads do not disturb them.
\<close>

section \<open>The processor's mutex and condition\<close>

text \<open>
  \<open>m\<close> and \<open>c\<close> are the addresses of the two objects, \<open>p\<close> is the processor. Nobody else uses the mutex; the condition's only waiter is
  the processor, and then the mutex is free, so an interrupt can hand it over.
\<close>

definition listens :: "addr \<Rightarrow> addr \<Rightarrow> addr \<Rightarrow> 'a kstate_scheme \<Rightarrow> (qid \<Rightarrow> addr list) \<Rightarrow> bool" where
  "listens p m c s Q \<longleftrightarrow> (\<exists>x. mtxs s m = Some x \<and> \<not> recursive x \<and> (owner x = NULL \<or> owner x = p)
       \<and> (Q (QCond c) = [] \<or> Q (QCond c) = [p] \<and> info s p = Some (BLOCKED, m) \<and> owner x = NULL))
     \<and> Q (QMutex m) = [] \<and> cnds s c \<noteq> None
     \<and> (\<forall>d y. y \<in> set (Q (QCond d)) \<longrightarrow> info s y = Some (BLOCKED, m) \<longrightarrow> d = c)"

lemma listensI:
  assumes "mtxs s m = Some x" "\<not> recursive x" "owner x = NULL \<or> owner x = p"
    and "Q (QCond c) = [] \<or> Q (QCond c) = [p] \<and> info s p = Some (BLOCKED, m) \<and> owner x = NULL"
    and "Q (QMutex m) = []" "cnds s c \<noteq> None"
    and "\<And>d y. y \<in> set (Q (QCond d)) \<Longrightarrow> info s y = Some (BLOCKED, m) \<Longrightarrow> d = c"
  shows "listens p m c s Q"
  unfolding listens_def using assms by blast

lemma listens_frame:
  assumes L: "listens p m c s Q" and m: "mtxs s' m = mtxs s m" "Q' (QMutex m) = Q (QMutex m)"
    and c: "Q' (QCond c) = Q (QCond c)" "dom (cnds s') = dom (cnds s)" and i: "p \<in> set (Q (QCond c)) \<Longrightarrow> info s' p = info s p"
    and w: "\<And>d y. y \<in> set (Q' (QCond d)) \<Longrightarrow> info s' y = Some (BLOCKED, m) \<Longrightarrow> y \<in> set (Q (QCond d)) \<and> info s y = Some (BLOCKED, m)"
  shows "listens p m c s' Q'"
proof -
  obtain x where x: "mtxs s m = Some x" "\<not> recursive x" "owner x = NULL \<or> owner x = p"
    "Q (QCond c) = [] \<or> Q (QCond c) = [p] \<and> info s p = Some (BLOCKED, m) \<and> owner x = NULL"
    using L by (auto simp: listens_def)
  have "\<exists>x. mtxs s' m = Some x \<and> \<not> recursive x \<and> (owner x = NULL \<or> owner x = p)
       \<and> (Q' (QCond c) = [] \<or> Q' (QCond c) = [p] \<and> info s' p = Some (BLOCKED, m) \<and> owner x = NULL)"
    using x m(1) c(1) i by (intro exI [of _ x]) auto
  moreover have "cnds s' c \<noteq> None" using L c(2) by (metis domIff listens_def)
  moreover have "\<forall>d y. y \<in> set (Q' (QCond d)) \<longrightarrow> info s' y = Some (BLOCKED, m) \<longrightarrow> d = c"
    using w L unfolding listens_def by blast
  ultimately show ?thesis using m(2) L by (simp add: listens_def)
qed

lemma listens_same:
  assumes "listens p m c s Q" and "mtxs s' = mtxs s" "cnds s' = cnds s" "info s' = info s" "\<And>r. r \<noteq> QReady \<Longrightarrow> Q' r = Q r"
  shows "listens p m c s' Q'"
  using assms by (simp add: listens_def)

section \<open>Switching threads\<close>

text \<open>A dispatch does not touch who waits for a condition.\<close>

lemma dispatch_keeps_waiters:
  assumes I: "kinv s Q" and d: "kthread_dispatch s = Some s'"
    and c: "kthread_current s \<noteq> NULL \<Longrightarrow> kthread_current s \<in> dom (thrs s)"
    and q: "kthread_current s \<noteq> NULL \<Longrightarrow> map_option fst (info s (kthread_current s)) \<noteq> Some BLOCKED \<Longrightarrow> \<not> queued Q (kthread_current s)"
    and y: "y \<in> set (Q (QCond d'))"
  shows "info s' y = info s y"
proof -
  obtain s1 where s1: "kthread_dispatch s = Some s1" "kthread_current s1 = (if requeued s Q = [] then kthread_main s else hd (requeued s Q))"
    using kthread_dispatch_kinv [OF I c q] by blast
  have e: "s1 = s'" using s1(1) d by simp
  obtain w where w: "info s y = Some (BLOCKED, w)" using kinvD(2) [OF I y] by auto
  have "y \<notin> set (Q QReady)" using kinvD(2) [OF I, of y QReady] w by auto
  then have "y \<notin> set (requeued s Q)" using w by (auto simp: requeued_def)
  moreover have "y \<noteq> kthread_main s" using kinvD(4) [OF I] y by (auto simp: main_ok_def queued_def)
  ultimately have "kthread_current s' \<noteq> y" using s1(2) hd_in_set unfolding e by (metis (no_types))
  then show ?thesis using dispatch_info [OF d _ w] by simp
qed

lemma dispatch_listens:
  assumes I: "kinv s Q" and L: "listens p m c s Q" and d: "kthread_dispatch s = Some s'"
    and cur: "kthread_current s \<noteq> NULL \<Longrightarrow> kthread_current s \<in> dom (thrs s)"
    and q: "kthread_current s \<noteq> NULL \<Longrightarrow> map_option fst (info s (kthread_current s)) \<noteq> Some BLOCKED \<Longrightarrow> \<not> queued Q (kthread_current s)"
  shows "\<exists>Q'. kinv s' Q' \<and> running s' Q' \<and> listens p m c s' Q'"
proof -
  let ?Q = "Q(QReady := tl (requeued s Q))"
  obtain s1 where s1: "kthread_dispatch s = Some s1" "kinv s1 ?Q" "running s1 ?Q" "sched_frame s s1"
    using kthread_dispatch_kinv [OF I cur q] by blast
  have e: "s1 = s'" using s1(1) d by simp
  note K = dispatch_keeps_waiters [OF I d cur q]
  have "listens p m c s' ?Q"
    by (rule listens_frame [OF L]) (use sched_frameD(1,2) [OF s1(4)] K e in auto)
  then show ?thesis using s1(2,3) e by blast
qed

text \<open>The end of every call: a result, and for a thread that has blocked a dispatch.\<close>

lemma ret_listens:
  assumes I: "kinv s Q" and run: "running s Q" and L: "listens p m c s Q" and r: "set_ret_value v s = Some s'"
  shows "kinv s' Q \<and> running s' Q \<and> listens p m c s' Q"
proof -
  obtain s1 where s1: "set_ret_value v s = Some s1" "kinv s1 Q" "info s1 = info s" "nxt s1 = nxt s" "same_objects s s1"
    "mtxs s1 = mtxs s" "cnds s1 = cnds s"
    using set_ret_value_kinv [OF I running_live [OF run]] by blast
  have e: "s1 = s'" using s1(1) r by simp
  have "running s1 Q" by (rule running_frame [OF run]) (use s1 run in \<open>simp_all add: same_objects_def running_def\<close>)
  moreover have "listens p m c s1 Q" by (rule listens_same [OF L s1(6,7,3)]) simp
  ultimately show ?thesis using s1(2) e by simp
qed

lemma block_end_listens:
  assumes I: "kinv s Q" and c: "kthread_current s \<in> dom (thrs s)"
    and b: "running s Q \<or> (\<exists>w. info s (kthread_current s) = Some (BLOCKED, w))" and L: "listens p m c s Q"
    and r: "do { s \<leftarrow> set_ret_value v s; u \<leftarrow> thrs s (kthread_current s); if state u = BLOCKED then kthread_dispatch s else Some s } = Some s'"
  shows "\<exists>Q'. kinv s' Q' \<and> running s' Q' \<and> listens p m c s' Q'"
proof -
  obtain s1 where s1: "set_ret_value v s = Some s1" "kinv s1 Q" "info s1 = info s" "nxt s1 = nxt s" "same_objects s s1"
    "mtxs s1 = mtxs s" "cnds s1 = cnds s"
    using set_ret_value_kinv [OF I c] by blast
  obtain u where u: "thrs s1 (kthread_current s1) = Some u" "(if state u = BLOCKED then kthread_dispatch s1 else Some s1) = Some s'"
    using r s1(1) by (auto simp: bind_eq_Some_conv)
  have L1: "listens p m c s1 Q" by (rule listens_same [OF L s1(6,7,3)]) simp
  show ?thesis
  proof (cases "state u = BLOCKED")
    case True
    then show ?thesis using u by (intro dispatch_listens [OF s1(2) L1]) (auto simp: info_def)
  next
    case False
    have "info s1 (kthread_current s1) = Some (state u, waiting_on u)" using u(1) by (simp add: info_def)
    then have "info s (kthread_current s) = Some (state u, waiting_on u)" using s1(3,5) by (simp add: same_objects_def)
    then have "running s Q" using b False by auto
    then show ?thesis using False u(2) ret_listens [OF I _ L s1(1)] by auto
  qed
qed

section \<open>Calls on other objects\<close>

text \<open>Calls that do not name the processor's objects leave them alone.\<close>

lemma unlock_keeps_waiters:
  assumes I: "kinv s Q" and u: "kmutex_unlock k a s1 = Some (st, s')" and m: "mtxs s1 = mtxs s" and y: "y \<in> set (Q (QCond d))"
  shows "info s' y = info s1 y"
proof -
  obtain x where x: "mtxs s1 k = Some x" "if owner x \<noteq> a then s' = s1
     else \<exists>x'. mtxs s' = (mtxs s1)(k \<mapsto> x') \<and> (info s' = info s1
       \<or> mq_head x \<noteq> NULL \<and> owner x' = mq_head x \<and> (\<forall>y. y \<noteq> mq_head x \<longrightarrow> info s' y = info s1 y))"
    using unlock_effect [OF u] by blast
  have "y \<noteq> mq_head x" if "mq_head x \<noteq> NULL"
    using head_in_queue [OF I, of k x] that x(1) m queuesD(4) [OF kinvD(1) [OF I] y, of "QMutex k"] by auto
  then show ?thesis using x(2) by (auto split: if_splits)
qed

lemma unlock_other_mutex:
  assumes "kmutex_unlock k a s = Some (st, s')" and "k \<noteq> m" shows "mtxs s' m = mtxs s m"
  using unlock_effect [OF assms(1)] assms(2) by (auto split: if_splits)

lemma unlock_queues_other:
  "r \<noteq> QMutex k \<Longrightarrow> r \<noteq> QReady \<Longrightarrow> unlock_queues x k a Q r = Q r"
  by (auto simp: unlock_queues_def split: list.split)

lemma lock_listens:
  assumes I: "kinv s Q" and run: "running s Q" and L: "listens p m c s Q" and user: "kthread_current s \<noteq> kthread_main s"
    and a: "get_param 0 s = Some k" "k \<noteq> NULL" "mtxs s k = Some x" "k \<noteq> m" and l: "syscall_mutex_lock s = Some s'"
  shows "\<exists>Q'. kinv s' Q' \<and> running s' Q' \<and> listens p m c s' Q'"
proof -
  let ?c = "kthread_current s"
  obtain s1 where s1: "kmutex_lock k ?c s = Some s1" "kinv s1 (lock_queues x k ?c Q)" "same_objects s s1"
    "info s1 ?c = (if owner x = NULL \<or> owner x = ?c then info s ?c else Some (BLOCKED, k))" "\<forall>y. y \<noteq> ?c \<longrightarrow> info s1 y = info s y"
    "owner x = NULL \<or> owner x = ?c \<longrightarrow> thrs s1 = thrs s"
    using kmutex_lock_kinv [OF I a(3) running_idle [OF run user]] by blast
  have c1: "kthread_current s1 = ?c" using s1(3) by (simp add: same_objects_def)
  have nq: "?c \<notin> set (Q r)" for r using run by (auto simp: running_def queued_def)
  have "mtxs s1 m = mtxs s m" using lock_effect [OF s1(1)] a(4) by auto
  moreover have "info s1 y = info s y" if "y \<in> set (Q (QCond d))" for d y using s1(5) that nq by metis
  ultimately have "listens p m c s1 (lock_queues x k ?c Q)"
    using a(4) s1(3) by (intro listens_frame [OF L]) (auto simp: lock_queues_def same_objects_def split: if_splits)
  moreover have "running s1 (lock_queues x k ?c Q) \<or> (\<exists>w. info s1 (kthread_current s1) = Some (BLOCKED, w))"
    using s1(4,6) c1 run by (auto simp: lock_queues_def running_def info_def nxt_def)
  ultimately show ?thesis
    using block_end_listens [OF s1(2)] s1(1,3) a l running_live [OF run]
    by (auto simp: same_objects_def syscall_mutex_lock_def)
qed

lemma try_lock_listens:
  assumes I: "kinv s Q" and run: "running s Q" and L: "listens p m c s Q"
    and a: "get_param 0 s = Some k" "k \<noteq> NULL" "mtxs s k = Some x" "k \<noteq> m" and l: "syscall_mutex_try_lock s = Some s'"
  shows "\<exists>Q'. kinv s' Q' \<and> running s' Q' \<and> listens p m c s' Q'"
proof (cases "owner x = NULL")
  case True
  let ?s = "s\<lparr>mtxs := (mtxs s)(k \<mapsto> x\<lparr>owner := kthread_current s, lock_count := 1\<rparr>)\<rparr>"
  have i: "info ?s = info s" "nxt ?s = nxt s" by (simp_all add: info_def nxt_def fun_eq_iff)
  have I1: "kinv ?s Q" using kmutex_lock_free(2) [OF I a(3) True] live_thread [OF I running_live [OF run]] by simp
  have r1: "running ?s Q" using run i by (simp add: running_def)
  have L1: "listens p m c ?s Q" by (rule listens_frame [OF L]) (use a(4) i in simp_all)
  have "set_ret_status STATUS_SUCCESS ?s = Some s'"
    using l a True by (simp add: syscall_mutex_try_lock_def kmutex_try_lock_def kernel_simps)
  then show ?thesis using ret_listens [OF I1 r1 L1] by blast
next
  case False
  then have "set_ret_status STATUS_BUSY s = Some s'" using l a by (simp add: syscall_mutex_try_lock_def kmutex_try_lock_def)
  then show ?thesis using ret_listens [OF I run L] by blast
qed

lemma unlock_listens:
  assumes I: "kinv s Q" and run: "running s Q" and L: "listens p m c s Q"
    and a: "get_param 0 s = Some k" "k \<noteq> NULL" "mtxs s k = Some x" "k \<noteq> m" and l: "syscall_mutex_unlock s = Some s'"
  shows "\<exists>Q'. kinv s' Q' \<and> running s' Q' \<and> listens p m c s' Q'"
proof -
  let ?Q = "unlock_queues x k (kthread_current s) Q"
  obtain st s1 where s1: "kmutex_unlock k (kthread_current s) s = Some (st, s1)" "kinv s1 ?Q" "running s1 ?Q" "same_objects s s1"
    using unlock_running [OF I run a(3)] by blast
  have "listens p m c s1 ?Q"
    by (rule listens_frame [OF L unlock_other_mutex [OF s1(1) a(4)]])
      (use unlock_keeps_waiters [OF I s1(1) refl] s1(4) a(4) in \<open>auto simp: unlock_queues_other same_objects_def\<close>)
  moreover have "set_ret_value (status_code st) s1 = Some s'" using l a s1(1) by (simp add: syscall_mutex_unlock_def)
  ultimately show ?thesis using ret_listens [OF s1(2,3)] by blast
qed

lemma wait_listens:
  assumes I: "kinv s Q" and run: "running s Q" and L: "listens p m c s Q" and user: "kthread_current s \<noteq> kthread_main s"
    and a: "get_param 0 s = Some d" "d \<noteq> NULL" "get_param 1 s = Some k" "k \<noteq> NULL" "cnds s d = Some z" "mtxs s k = Some x" "d \<noteq> c" "k \<noteq> m"
    and w: "syscall_cond_wait s = Some s'"
  shows "\<exists>Q'. kinv s' Q' \<and> running s' Q' \<and> listens p m c s' Q'"
proof -
  let ?c = "kthread_current s" and ?Q = "wait_queues x d k (kthread_current s) Q"
  obtain s2 where s2: "kcond_wait d k ?c s = Some s2" "kinv s2 ?Q" "same_objects s s2" "info s2 ?c = Some (BLOCKED, k)"
    using kcond_wait_kinv [OF I a(5,6) running_idle [OF run user]] by blast
  obtain s1 st where s1: "kmutex_unlock k ?c s1 = Some (st, s2)" "mtxs s1 = mtxs s" "\<forall>y. y \<noteq> ?c \<longrightarrow> info s1 y = info s y"
    using wait_effect [OF s2(1)] by blast
  have nq: "?c \<notin> set (Q r)" for r using run by (auto simp: running_def queued_def)
  have old: "info s2 y = info s y" if "y \<in> set (Q (QCond e))" for e y
    using unlock_keeps_waiters [OF I s1(1,2) that] s1(3) that nq by metis
  have Qm: "?Q (QMutex m) = Q (QMutex m)" "?Q (QCond e) = (if e = d then Q (QCond e) @ [?c] else Q (QCond e))" for e
    using a(8) by (simp_all add: wait_queues_def unlock_queues_other)
  have "listens p m c s2 ?Q"
  proof (rule listens_frame [OF L])
    show "mtxs s2 m = mtxs s m" using unlock_other_mutex [OF s1(1) a(8)] s1(2) by simp
    show "?Q (QMutex m) = Q (QMutex m)" "?Q (QCond c) = Q (QCond c)" using Qm a(7) by simp_all
    show "dom (cnds s2) = dom (cnds s)" using s2(3) by (simp add: same_objects_def)
    show "p \<in> set (Q (QCond c)) \<Longrightarrow> info s2 p = info s p" by (rule old)
    show "y \<in> set (Q (QCond e)) \<and> info s y = Some (BLOCKED, m)" if "y \<in> set (?Q (QCond e))" "info s2 y = Some (BLOCKED, m)" for e y
      using that old [of y e] s2(4) a(8) unfolding Qm by (cases "y = ?c") (auto split: if_splits)
  qed
  then show ?thesis
    using block_end_listens [OF s2(2)] s2(1,3,4) a w running_live [OF run]
    by (auto simp: same_objects_def syscall_cond_wait_def)
qed

lemma signal_other_mutex:
  assumes "kcond_signal d False s = Some s'" and "\<And>z. cnds s d = Some z \<Longrightarrow> cq_head z \<noteq> NULL \<Longrightarrow> info s (cq_head z) \<noteq> Some (BLOCKED, m)"
    and b: "\<And>z. cnds s d = Some z \<Longrightarrow> cq_head z \<noteq> NULL \<Longrightarrow> map_option fst (info s (cq_head z)) = Some BLOCKED"
  shows "mtxs s' m = mtxs s m"
proof -
  obtain z where z: "cnds s d = Some z" using assms(1) by (auto simp: kcond_signal_def bind_eq_Some_conv)
  show ?thesis
  proof (cases "cq_head z = NULL")
    case True
    then show ?thesis using assms(1) z by (simp add: kcond_signal_def)
  next
    case False
    then obtain b s1 s2 where s: "thrs s (cq_head z) = Some b" "upd_cnd d (\<lambda>c. c\<lparr>cq_head := next_thr b\<rparr>) s = Some s1"
      "(if next_thr b = NULL then upd_cnd d (\<lambda>c. c\<lparr>cq_tail := NULL\<rparr>) s1 else Some s1) = Some s2"
      "kmutex_lock (waiting_on b) (cq_head z) s2 = Some s'"
      using assms(1) z by (auto simp: kcond_signal_def bind_eq_Some_conv Let_def)
    have "mtxs s2 = mtxs s" using upd_info(3) [OF s(2)] s(3) by (auto split: if_splits dest: upd_info(3))
    moreover have "waiting_on b \<noteq> m" using assms(2,3) [OF z False] s(1) by (auto simp: info_def)
    ultimately show ?thesis using lock_effect [OF s(4)] by auto
  qed
qed

lemma head_in_cond:
  assumes I: "kinv s Q" and z: "cnds s d = Some z" "cq_head z \<noteq> NULL"
  shows "cq_head z \<in> set (Q (QCond d))"
proof -
  have "is_queue (nxt s) (cq_head z) (cq_tail z) (Q (QCond d))"
    using queuesD(1) [OF kinvD(1) [OF I], of "QCond d"] z(1) by simp
  then show ?thesis using z(2) by (cases "Q (QCond d)") (auto simp: is_queue_def)
qed

lemma waiters_other:
  assumes "listens p m c s Q" and "waiters_ok s Q d k" and "d \<noteq> c" and "y \<in> set (Q (QCond d))"
  shows "info s y = Some (BLOCKED, k) \<and> k \<noteq> m"
proof -
  have i: "info s y = Some (BLOCKED, k)" using assms(2,4) unfolding waiters_ok_def by blast
  have "info s y = Some (BLOCKED, m) \<longrightarrow> d = c" using assms(1,4) unfolding listens_def by blast
  then show ?thesis using i assms(3) by auto
qed

lemma signal_listens:
  assumes I: "kinv s Q" and run: "running s Q" and L: "listens p m c s Q"
    and a: "get_param 0 s = Some d" "d \<noteq> NULL" "cnds s d = Some z" "waiters_ok s Q d k" "length (Q (QCond d)) \<le> 1" "d \<noteq> c"
    and l: "syscall_cond_signal s = Some s'"
  shows "\<exists>Q'. kinv s' Q' \<and> running s' Q' \<and> listens p m c s' Q'"
proof -
  let ?Q = "signal_queues False d k Q"
  obtain s1 where s1: "kcond_signal d False s = Some s1" "kinv s1 ?Q" "running s1 ?Q" "same_objects s s1" "info s1 = info s"
    using signal_running [OF I run a(3,4,5)] by blast
  note w = waiters_other [OF L a(4,6)]
  have "mtxs s1 m = mtxs s m"
    by (rule signal_other_mutex [OF s1(1)]) (use head_in_cond [OF I] w in fastforce)+
  moreover have "?Q (QMutex m) = Q (QMutex m)" "set (?Q (QCond e)) \<subseteq> set (Q (QCond e))" "?Q (QCond c) = Q (QCond c)" for e
    using w [of "hd (Q (QCond d))"] a(6) by (cases "Q (QCond d)"; auto simp: signal_queues_def)+
  ultimately have "listens p m c s1 ?Q"
    by (intro listens_frame [OF L]) (use s1(4,5) in \<open>auto simp: same_objects_def\<close>)
  moreover have "set_ret_status STATUS_SUCCESS s1 = Some s'" using l a(1,2) s1(1) by (simp add: syscall_cond_signal_def)
  ultimately show ?thesis using ret_listens [OF s1(2,3)] by blast
qed

lemma broadcast_listens:
  assumes I: "kinv s Q" and run: "running s Q" and L: "listens p m c s Q"
    and a: "get_param 0 s = Some d" "d \<noteq> NULL" "cnds s d = Some z" "waiters_ok s Q d k" "d \<noteq> c"
    and l: "syscall_cond_signal_all s = Some s'"
  shows "\<exists>Q'. kinv s' Q' \<and> running s' Q' \<and> listens p m c s' Q'"
proof -
  let ?Q = "broadcast_queues d k Q"
  obtain s1 where s1: "kcond_signal_all d s = Some s1" "kinv s1 ?Q" "running s1 ?Q" "same_objects s s1" "info s1 = info s"
    "if Q (QCond d) = [] then mtxs s1 = mtxs s else \<exists>y. mtxs s1 = (mtxs s)(k \<mapsto> y)"
    using broadcast_running [OF I run a(3,4)] by blast
  have w: "k \<noteq> m" if "Q (QCond d) \<noteq> []"
    using waiters_other [OF L a(4,5)] hd_in_set [OF that] by blast
  have "mtxs s1 m = mtxs s m" using s1(6) w by (auto split: if_splits)
  moreover have "?Q (QMutex m) = Q (QMutex m)" "set (?Q (QCond e)) \<subseteq> set (Q (QCond e))" "?Q (QCond c) = Q (QCond c)" for e
    using w a(5) by (auto simp: broadcast_queues_def)
  ultimately have "listens p m c s1 ?Q"
    by (intro listens_frame [OF L]) (use s1(4,5) in \<open>auto simp: same_objects_def\<close>)
  moreover have "set_ret_status STATUS_SUCCESS s1 = Some s'" using l a(1,2) s1(1) by (simp add: syscall_cond_signal_all_def)
  ultimately show ?thesis using ret_listens [OF s1(2,3)] by blast
qed

section \<open>The processor's own calls\<close>

lemma listens_awake: "listens p m c s Q \<Longrightarrow> running s Q \<Longrightarrow> kthread_current s = p \<Longrightarrow> Q (QCond c) = []"
  by (auto simp: listens_def running_def)

lemma listens_mutex:
  assumes L: "listens p m c s Q" "Q (QCond c) = []" and x: "mtxs s' m = Some x'" "\<not> recursive x'" "owner x' = NULL \<or> owner x' = p"
    and s: "info s' = info s" "dom (cnds s') = dom (cnds s)"
  shows "listens p m c s' Q"
proof -
  have "cnds s' c \<noteq> None" using L(1) s(2) by (metis domIff listens_def)
  then show ?thesis using L x s(1) by (simp add: listens_def)
qed

lemma unlock_free_effect:
  assumes "kmutex_unlock k a s = Some (st, s')" and x: "mtxs s k = Some x" "\<not> recursive x" "mq_head x = NULL"
  shows "info s' = info s \<and> (\<exists>x'. mtxs s' = (mtxs s)(k \<mapsto> x') \<and> \<not> recursive x' \<and> owner x' = (if owner x = a then NULL else owner x))"
proof (cases "owner x = a")
  case False
  then have "s' = s" using assms by (simp add: kmutex_unlock_def)
  then show ?thesis using x False by (intro conjI exI [of _ x]) (simp_all add: fun_upd_idem)
next
  case True
  then have "s' = s\<lparr>mtxs := (mtxs s)(k \<mapsto> x\<lparr>lock_count := lock_count x - 1, owner := NULL\<rparr>)\<rparr>"
    using assms by (auto simp: kmutex_unlock_def kernel_simps)
  then show ?thesis using x True by (auto simp: info_def fun_eq_iff)
qed

lemma listens_no_head:
  assumes I: "kinv s Q" and L: "listens p m c s Q" and x: "mtxs s m = Some x"
  shows "mq_head x = NULL" "\<not> recursive x" "owner x = NULL \<or> owner x = p"
  using head_in_queue [OF I x] L x by (auto simp: listens_def)

lemma own_lock_listens:
  assumes I: "kinv s Q" and run: "running s Q" and L: "listens p m c s Q" and user: "kthread_current s \<noteq> kthread_main s"
    and p: "kthread_current s = p" "get_param 0 s = Some m" "m \<noteq> NULL" and l: "syscall_mutex_lock s = Some s'"
  shows "\<exists>Q'. kinv s' Q' \<and> running s' Q' \<and> listens p m c s' Q'"
proof -
  obtain x where x: "mtxs s m = Some x" using L by (auto simp: listens_def)
  note X = listens_no_head [OF I L x]
  obtain s1 where s1: "kmutex_lock m p s = Some s1" "kinv s1 (lock_queues x m p Q)" "same_objects s s1" "thrs s1 = thrs s"
    using kmutex_lock_kinv [OF I x running_idle [OF run user]] X(3) p(1) by auto
  have Q: "lock_queues x m p Q = Q" using X(3) by (auto simp: lock_queues_def)
  have i: "info s1 = info s" "nxt s1 = nxt s" using s1(4) by (simp_all add: info_def nxt_def fun_eq_iff)
  have "running s1 Q" by (rule running_frame [OF run]) (use s1(3) i run in \<open>simp_all add: same_objects_def running_def\<close>)
  moreover obtain x' where x': "mtxs s1 m = Some x'" "recursive x' = recursive x" "owner x' = p"
    using lock_effect [OF s1(1)] x X(3) by (auto split: if_splits)
  have "dom (cnds s1) = dom (cnds s)" using s1(3) unfolding same_objects_def by blast
  then have "listens p m c s1 Q"
    using listens_mutex [OF L listens_awake [OF L run p(1)] x'(1) _ _ i(1)] X(2) x'(2,3) by simp
  ultimately show ?thesis
    using block_end_listens [of s1 Q p m c] s1(1,2,3) p l Q running_live [OF run] by (auto simp: same_objects_def syscall_mutex_lock_def)
qed

lemma own_unlock_listens:
  assumes I: "kinv s Q" and run: "running s Q" and L: "listens p m c s Q"
    and p: "kthread_current s = p" "get_param 0 s = Some m" "m \<noteq> NULL" and l: "syscall_mutex_unlock s = Some s'"
  shows "\<exists>Q'. kinv s' Q' \<and> running s' Q' \<and> listens p m c s' Q'"
proof -
  obtain x where x: "mtxs s m = Some x" using L by (auto simp: listens_def)
  note X = listens_no_head [OF I L x]
  have "Q (QMutex m) = []" using L by (simp add: listens_def)
  then have Q: "unlock_queues x m p Q = Q" by (simp add: unlock_queues_def)
  obtain st s1 where s1: "kmutex_unlock m p s = Some (st, s1)" "kinv s1 Q" "running s1 Q" "same_objects s s1"
    using unlock_running [OF I run x] Q p(1) by auto
  obtain x' where x': "info s1 = info s" "mtxs s1 m = Some x'" "\<not> recursive x'" "owner x' = (if owner x = p then NULL else owner x)"
    using unlock_free_effect [OF s1(1) x X(2,1)] by auto
  have "listens p m c s1 Q"
    using listens_mutex [OF L listens_awake [OF L run p(1)] x'(2,3) _ x'(1)] x'(4) X(3) s1(4) by (auto simp: same_objects_def split: if_splits)
  moreover have "set_ret_value (status_code st) s1 = Some s'" using l p s1(1) by (simp add: syscall_mutex_unlock_def)
  ultimately show ?thesis using ret_listens [OF s1(2,3)] by blast
qed

lemma own_wait_listens:
  assumes I: "kinv s Q" and run: "running s Q" and L: "listens p m c s Q" and user: "kthread_current s \<noteq> kthread_main s"
    and p: "kthread_current s = p" "get_param 0 s = Some c" "c \<noteq> NULL" "get_param 1 s = Some m" "m \<noteq> NULL" and w: "syscall_cond_wait s = Some s'"
  shows "\<exists>Q'. kinv s' Q' \<and> running s' Q' \<and> listens p m c s' Q'"
proof -
  obtain x z where x: "mtxs s m = Some x" "cnds s c = Some z" using L by (auto simp: listens_def)
  note X = listens_no_head [OF I L x(1)]
  have Qm: "Q (QMutex m) = []" using L by (simp add: listens_def)
  note Qc = listens_awake [OF L run p(1)]
  let ?Q = "Q(QCond c := [p])"
  have Q: "wait_queues x c m p Q = ?Q" using Qm Qc by (simp add: wait_queues_def unlock_queues_def)
  obtain s2 where s2: "kcond_wait c m p s = Some s2" "kinv s2 ?Q" "same_objects s s2" "info s2 p = Some (BLOCKED, m)"
    using kcond_wait_kinv [OF I x(2,1) running_idle [OF run user]] Q p(1) by auto
  obtain s1 st where s1: "kmutex_unlock m p s1 = Some (st, s2)" "mtxs s1 = mtxs s" "\<forall>y. y \<noteq> p \<longrightarrow> info s1 y = info s y"
    using wait_effect [OF s2(1)] by blast
  obtain x' where x': "info s2 = info s1" "mtxs s2 m = Some x'" "\<not> recursive x'" "owner x' = (if owner x = p then NULL else owner x)"
    using unlock_free_effect [OF s1(1)] x X(2,1) s1(2) by auto
  have o: "owner x' = NULL" using x'(4) X(3) by (auto split: if_splits)
  have nq: "p \<notin> set (Q r)" for r using run p(1) by (auto simp: running_def queued_def)
  have c2: "cnds s2 c \<noteq> None" using x(2) s2(3) by (auto simp: same_objects_def)
  have "listens p m c s2 ?Q"
  proof (rule listensI [OF x'(2,3) _ _ _ c2])
    fix d y assume y: "y \<in> set (?Q (QCond d))" "info s2 y = Some (BLOCKED, m)"
    show "d = c"
    proof (rule ccontr)
      assume "d \<noteq> c"
      then have q: "y \<in> set (Q (QCond d))" using y(1) by simp
      then have "y \<noteq> p" using nq by blast
      then have "info s y = Some (BLOCKED, m)" using s1(3) x'(1) y(2) by simp
      then show False using L q \<open>d \<noteq> c\<close> unfolding listens_def by blast
    qed
  qed (use o s2(4) Qm in simp_all)
  then show ?thesis
    using block_end_listens [OF s2(2)] s2(1,3,4) p w running_live [OF run]
    by (auto simp: same_objects_def syscall_cond_wait_def)
qed


section \<open>Steps of threads\<close>

text \<open>
  A step of the running thread that does not change the heap: the steps of \<open>kstep\<close>, where only the processor \<open>p\<close> names its mutex \<open>m\<close> and
  its condition \<open>c\<close>, and \<open>c\<close> only to wait for it with \<open>m\<close>. The user's own code sets the 16 registers and the bytes of the memory; with them
  it covers the calls that only return a value.
\<close>

inductive task_step :: "addr \<Rightarrow> addr \<Rightarrow> addr \<Rightarrow> 'a kstate_scheme \<Rightarrow> addr set \<Rightarrow> 'a kstate_scheme \<Rightarrow> bool" for p m c where
  dispatch: "kthread_dispatch s = Some s' \<Longrightarrow> task_step p m c s {} s'"
| exit: "kthread_current s \<noteq> kthread_main s \<Longrightarrow> kthread_stop s = Some s' \<Longrightarrow> task_step p m c s {kthread_current s} s'"
| lock: "kthread_current s \<noteq> kthread_main s \<Longrightarrow> get_param 0 s = Some k \<Longrightarrow> k \<noteq> NULL \<Longrightarrow> mtxs s k = Some x \<Longrightarrow>
    k = m \<longrightarrow> kthread_current s = p \<Longrightarrow> syscall_mutex_lock s = Some s' \<Longrightarrow> task_step p m c s {} s'"
| try_lock: "get_param 0 s = Some k \<Longrightarrow> k \<noteq> NULL \<Longrightarrow> mtxs s k = Some x \<Longrightarrow> k \<noteq> m \<Longrightarrow>
    syscall_mutex_try_lock s = Some s' \<Longrightarrow> task_step p m c s {} s'"
| unlock: "get_param 0 s = Some k \<Longrightarrow> k \<noteq> NULL \<Longrightarrow> mtxs s k = Some x \<Longrightarrow>
    k = m \<longrightarrow> kthread_current s = p \<Longrightarrow> syscall_mutex_unlock s = Some s' \<Longrightarrow> task_step p m c s {} s'"
| wait: "kthread_current s \<noteq> kthread_main s \<Longrightarrow> get_param 0 s = Some d \<Longrightarrow> d \<noteq> NULL \<Longrightarrow> get_param 1 s = Some k \<Longrightarrow> k \<noteq> NULL \<Longrightarrow>
    cnds s d = Some z \<Longrightarrow> mtxs s k = Some x \<Longrightarrow> d \<noteq> c \<and> k \<noteq> m \<or> d = c \<and> k = m \<and> kthread_current s = p \<Longrightarrow>
    syscall_cond_wait s = Some s' \<Longrightarrow> task_step p m c s {} s'"
| signal: "get_param 0 s = Some d \<Longrightarrow> d \<noteq> NULL \<Longrightarrow> cnds s d = Some z \<Longrightarrow> d \<noteq> c \<Longrightarrow> queues s Q \<Longrightarrow> waiters_ok s Q d k \<Longrightarrow>
    length (Q (QCond d)) \<le> 1 \<Longrightarrow> syscall_cond_signal s = Some s' \<Longrightarrow> task_step p m c s {} s'"
| broadcast: "get_param 0 s = Some d \<Longrightarrow> d \<noteq> NULL \<Longrightarrow> cnds s d = Some z \<Longrightarrow> d \<noteq> c \<Longrightarrow> queues s Q \<Longrightarrow> waiters_ok s Q d k \<Longrightarrow>
    syscall_cond_signal_all s = Some s' \<Longrightarrow> task_step p m c s {} s'"
| user: "thrs s (kthread_current s) = Some t \<Longrightarrow> length (regs v) = 16 \<Longrightarrow> dom r = dom (kram s) \<Longrightarrow>
    task_step p m c s {} (s\<lparr>kram := r, thrs := (thrs s)(kthread_current s \<mapsto> t\<lparr>ctx := v\<rparr>)\<rparr>)"

lemma task_kstep: "task_step p m c s X s' \<Longrightarrow> kstep s X s'"
  by (induction rule: task_step.induct) (rule kstep.intros; assumption)+

lemma quiet_listens:
  assumes I: "kinv s Q" and run: "running s Q" and L: "listens p m c s Q" and t: "thrs s (kthread_current s) = Some t"
    and s': "s' = s\<lparr>kheap := h, kram := r, thrs := (thrs s)(kthread_current s \<mapsto> t\<lparr>ctx := v\<rparr>)\<rparr>"
  shows "kinv s' Q \<and> running s' Q \<and> listens p m c s' Q"
proof -
  have i: "info s' = info s" "nxt s' = nxt s" using t by (simp_all add: s' info_def nxt_def fun_eq_iff)
  have d: "dom (thrs s') = dom (thrs s)" using t by (auto simp: s')
  have "kinv s' Q" by (rule kinv_frame [OF I i(2,1) d]) (simp_all add: s')
  moreover have "running s' Q" using run i by (simp add: running_def s')
  moreover have "listens p m c s' Q" by (rule listens_same [OF L]) (use i s' in simp_all)
  ultimately show ?thesis by blast
qed

lemma task_listens:
  assumes I: "kinv s Q" and run: "running s Q" and L: "listens p m c s Q" and st: "task_step p m c s X s'"
  shows "\<exists>Q'. queues s' Q' \<and> listens p m c s' Q'"
proof -
  have K: "\<exists>Q'. queues s' Q' \<and> listens p m c s' Q'" if "\<exists>Q'. kinv s' Q' \<and> running s' Q' \<and> listens p m c s' Q'"
    using that kinvD(1) by blast
  have Q: "queues s R \<Longrightarrow> R = Q" for R using queues_unique kinvD(1) [OF I] by metis
  from st show ?thesis
  proof (cases rule: task_step.cases)
    case dispatch
    then show ?thesis using dispatch_listens [OF I L] running_live [OF run] run by (intro K) (auto simp: running_def)
  next
    case exit
    have "listens p m c (s\<lparr>kthread_current := NULL\<rparr>) Q"
      by (rule listens_same [OF L]) (simp_all add: info_def fun_eq_iff)
    from dispatch_listens [OF kinv_set_current [OF I] this] exit show ?thesis by (intro K) (simp add: kthread_stop_def)
  next
    case (lock k x)
    then show ?thesis
      using lock_listens [OF I run L, of k x s'] own_lock_listens [OF I run L, of s'] by (intro K) (cases "k = m"; auto)
  next
    case (try_lock k x)
    then show ?thesis using try_lock_listens [OF I run L, of k x s'] by (intro K) auto
  next
    case (unlock k x)
    then show ?thesis
      using unlock_listens [OF I run L, of k x s'] own_unlock_listens [OF I run L, of s'] by (intro K) (cases "k = m"; auto)
  next
    case (wait d k z x)
    then show ?thesis
      using wait_listens [OF I run L, of d k z x s'] own_wait_listens [OF I run L, of s'] by (intro K) (cases "k = m"; auto)
  next
    case (signal d z R k)
    then show ?thesis using signal_listens [OF I run L, of d z k s'] Q [of R] by (intro K) auto
  next
    case (broadcast d z R k)
    then show ?thesis using broadcast_listens [OF I run L, of d z k s'] Q [of R] by (intro K) auto
  next
    case (user t v r)
    then have "s' = s\<lparr>kheap := kheap s, kram := r, thrs := (thrs s)(kthread_current s \<mapsto> t\<lparr>ctx := v\<rparr>)\<rparr>" by simp
    from quiet_listens [OF I run L user(3) this] show ?thesis by (intro K) blast
  qed
qed

end
