(* ===== verification/Kernel_Shape.thy ===== *)
theory Kernel_Shape
  imports Sync_Frame
begin

text \<open>
  The shape of the kernel's state: register files of 16 words, a ring of ten signals with indices in range, nine handlers. Every
  operation of the kernel keeps it, and none makes memory appear or disappear.
\<close>

section \<open>Shape\<close>

definition regs_ok :: "'a kstate_scheme \<Rightarrow> bool" where
  "regs_ok s \<longleftrightarrow> (\<forall>p t. thrs s p = Some t \<longrightarrow> length (regs (ctx t)) = 16)"

definition shape :: "'a kstate_scheme \<Rightarrow> 'a kstate_scheme \<Rightarrow> bool" where
  "shape s s' \<longleftrightarrow> dom (kram s') = dom (kram s) \<and> kthread_main s' = kthread_main s \<and> kstate.more s' = kstate.more s
     \<and> (regs_ok s \<longrightarrow> regs_ok s')"

lemma shape_refl: "shape s s"
  by (simp add: shape_def)

lemma shape_trans: "shape s1 s2 \<Longrightarrow> shape s2 s3 \<Longrightarrow> shape s1 s3"
  by (simp add: shape_def)

lemma regs_ok_upd [simp]:
  "regs_ok (s\<lparr>kheap := a\<rparr>) = regs_ok s" "regs_ok (s\<lparr>kram := b\<rparr>) = regs_ok s" "regs_ok (s\<lparr>mtxs := c\<rparr>) = regs_ok s"
  "regs_ok (s\<lparr>cnds := d\<rparr>) = regs_ok s" "regs_ok (s\<lparr>lss := e\<rparr>) = regs_ok s" "regs_ok (s\<lparr>lds := f\<rparr>) = regs_ok s"
  "regs_ok (s\<lparr>kscheduler_head := g\<rparr>) = regs_ok s" "regs_ok (s\<lparr>kscheduler_tail := g\<rparr>) = regs_ok s"
  "regs_ok (s\<lparr>kthread_current := g\<rparr>) = regs_ok s" "regs_ok (s\<lparr>dtor_calls := h\<rparr>) = regs_ok s"
  by (simp_all add: regs_ok_def)

lemma regs_ok_thr:
  "regs_ok s \<Longrightarrow> length (regs (ctx t)) = 16 \<Longrightarrow> regs_ok (s\<lparr>thrs := (thrs s)(p \<mapsto> t)\<rparr>)"
  "regs_ok s \<Longrightarrow> regs_ok (s\<lparr>thrs := (thrs s)(p := None)\<rparr>)"
  by (auto simp: regs_ok_def)

lemma upd_thr_shape:
  assumes "upd_thr p f s = Some s'" and "\<And>t. length (regs (ctx (f t))) = length (regs (ctx t))"
  shows "shape s s'"
proof -
  obtain t where t: "thrs s p = Some t" "s' = s\<lparr>thrs := (thrs s)(p \<mapsto> f t)\<rparr>"
    using assms(1) by (auto simp: upd_thr_def split: option.splits)
  then show ?thesis using assms(2) by (auto simp: shape_def regs_ok_def)
qed

lemma upd_shape:
  "upd_thr p (\<lambda>t. t\<lparr>state := v\<rparr>) s = Some s' \<Longrightarrow> shape s s'"
  "upd_thr p (\<lambda>t. t\<lparr>next_thr := q\<rparr>) s = Some s' \<Longrightarrow> shape s s'"
  "upd_thr p (\<lambda>t. t\<lparr>waiting_on := q\<rparr>) s = Some s' \<Longrightarrow> shape s s'"
  "upd_thr p (\<lambda>t. t\<lparr>local_data_head := q\<rparr>) s = Some s' \<Longrightarrow> shape s s'"
  "upd_thr p (\<lambda>t. t\<lparr>ctx := (ctx t)\<lparr>pc := pc (ctx t) + 4\<rparr>\<rparr>) s = Some s' \<Longrightarrow> shape s s'"
  "upd_mtx p f s = Some s' \<Longrightarrow> shape s s'"
  "upd_cnd p g s = Some s' \<Longrightarrow> shape s s'"
  "upd_ls p h s = Some s' \<Longrightarrow> shape s s'"
  "upd_ld p i s = Some s' \<Longrightarrow> shape s s'"
proof -
  show "upd_thr p (\<lambda>t. t\<lparr>state := v\<rparr>) s = Some s' \<Longrightarrow> shape s s'" by (erule upd_thr_shape) simp
  show "upd_thr p (\<lambda>t. t\<lparr>next_thr := q\<rparr>) s = Some s' \<Longrightarrow> shape s s'" by (erule upd_thr_shape) simp
  show "upd_thr p (\<lambda>t. t\<lparr>waiting_on := q\<rparr>) s = Some s' \<Longrightarrow> shape s s'" by (erule upd_thr_shape) simp
  show "upd_thr p (\<lambda>t. t\<lparr>local_data_head := q\<rparr>) s = Some s' \<Longrightarrow> shape s s'" by (erule upd_thr_shape) simp
  show "upd_thr p (\<lambda>t. t\<lparr>ctx := (ctx t)\<lparr>pc := pc (ctx t) + 4\<rparr>\<rparr>) s = Some s' \<Longrightarrow> shape s s'" by (erule upd_thr_shape) simp
qed (auto simp: upd_mtx_def upd_cnd_def upd_ls_def upd_ld_def shape_def split: option.splits)

lemma kalloc_shape: "kalloc n s = Some (p, s') \<Longrightarrow> shape s s'"
  by (auto simp: kalloc_def bind_eq_Some_conv shape_def)

lemma kfree_shape: "kfree p s = Some s' \<Longrightarrow> shape s s'"
  by (auto simp: kfree_def bind_eq_Some_conv shape_def)

lemma set_ret_value_shape: "set_ret_value v s = Some s' \<Longrightarrow> shape s s'"
  unfolding set_ret_value_def by (erule upd_thr_shape) (simp add: set_reg_def)

lemma store32_dom:
  assumes "store32 p v m = Some m'" shows "dom m' = dom m"
proof -
  obtain m1 m2 m3 where "store8 p (ucast v) m = Some m1" "store8 (p + 1) (ucast (drop_bit 8 v)) m1 = Some m2"
    "store8 (p + 2) (ucast (drop_bit 16 v)) m2 = Some m3" "store8 (p + 3) (ucast (drop_bit 24 v)) m3 = Some m'"
    using assms by (auto simp: store32_def bind_eq_Some_conv split: if_splits)
  then show ?thesis by (metis store8_dom)
qed

lemma put_word_shape:
  assumes "put_word l p s = Some s'" shows "shape s s'"
proof -
  obtain m where "store32 l p (kram s) = Some m" "s' = s\<lparr>kram := m\<rparr>"
    using assms by (auto simp: put_word_def bind_eq_Some_conv)
  then show ?thesis using store32_dom by (simp add: shape_def)
qed

section \<open>Scheduling and synchronisation\<close>

lemma kscheduler_enqueue_shape: "kscheduler_enqueue a s = Some s' \<Longrightarrow> shape s s'"
  by (auto simp: kscheduler_enqueue_def bind_eq_Some_conv split: if_splits dest!: upd_shape) (auto simp: shape_def)

lemma kscheduler_dequeue_shape: "kscheduler_dequeue s = Some (a, s') \<Longrightarrow> shape s s'"
  by (auto simp: kscheduler_dequeue_def bind_eq_Some_conv Let_def shape_refl split: if_splits dest!: upd_shape) (auto simp: shape_def)

lemma kthread_dispatch_shape: "kthread_dispatch s = Some s' \<Longrightarrow> shape s s'"
  by (auto simp: kthread_dispatch_def bind_eq_Some_conv Let_def split: if_splits
      dest!: upd_shape kscheduler_enqueue_shape kscheduler_dequeue_shape) (auto simp: shape_def)

lemma kthread_stop_shape: "kthread_stop s = Some s' \<Longrightarrow> shape s s'"
  by (auto simp: kthread_stop_def dest!: kthread_dispatch_shape) (auto simp: shape_def)

lemma kmutex_lock_shape: "kmutex_lock m a s = Some s' \<Longrightarrow> shape s s'"
  by (auto simp: kmutex_lock_def bind_eq_Some_conv shape_refl split: if_splits dest!: upd_shape) (auto simp: shape_def)

lemma kmutex_try_lock_shape: "kmutex_try_lock m a s = Some (r, s') \<Longrightarrow> shape s s'"
  by (auto simp: kmutex_try_lock_def bind_eq_Some_conv shape_refl split: if_splits dest!: upd_shape) (auto simp: shape_def)

lemma kmutex_unlock_shape: "kmutex_unlock m a s = Some (st, s') \<Longrightarrow> shape s s'"
  by (auto simp: kmutex_unlock_def bind_eq_Some_conv shape_refl Let_def split: if_splits dest!: upd_shape kscheduler_enqueue_shape)
    (auto simp: shape_def)

lemma kcond_wait_shape: "kcond_wait c m a s = Some s' \<Longrightarrow> shape s s'"
  by (auto simp: kcond_wait_def bind_eq_Some_conv split: if_splits dest!: upd_shape kmutex_unlock_shape) (auto simp: shape_def)

lemma kcond_signal_shape: "kcond_signal c e s = Some s' \<Longrightarrow> shape s s'"
  by (auto simp: kcond_signal_def bind_eq_Some_conv shape_refl Let_def split: if_splits
      dest!: upd_shape kmutex_lock_shape kscheduler_enqueue_shape) (auto simp: shape_def)

lemma signal_all_loop_shape: "signal_all_loop a s = Some s' \<Longrightarrow> shape s s'"
proof (rule signal_all_loop.raw_induct [where P = "\<lambda>a s s'. shape s s'"])
  fix f :: "addr \<Rightarrow> 'a kstate_scheme \<Rightarrow> 'a kstate_scheme option" and a and s s' :: "'a kstate_scheme"
  assume "\<And>a s s'. f a s = Some s' \<Longrightarrow> shape s s'"
    and "(if a = NULL then Some s else do { t \<leftarrow> thrs s a; let nx = next_thr t; s \<leftarrow> kmutex_lock (waiting_on t) a s; f nx s }) = Some s'"
  then show "shape s s'"
    by (auto simp: bind_eq_Some_conv Let_def shape_refl split: if_splits dest!: kmutex_lock_shape intro: shape_trans)
qed

lemma kcond_signal_all_shape: "kcond_signal_all c s = Some s' \<Longrightarrow> shape s s'"
  by (auto simp: kcond_signal_all_def bind_eq_Some_conv dest!: upd_shape signal_all_loop_shape) (auto simp: shape_def)

section \<open>Memory transfers\<close>

lemma dma_engine_dom: "dom (snd (dma_engine ctrl src dest cnt m)) = dom m"
proof (induction ctrl src dest cnt m rule: dma_engine.induct)
  case (1 ctrl src dest cnt m)
  show ?case
  proof (cases "m src")
    case None
    then show ?thesis by (simp add: dma_engine.simps [of ctrl src])
  next
    case (Some b)
    note src = this
    show ?thesis
    proof (cases "store8 dest b m")
      case None
      then show ?thesis using src by (simp add: dma_engine.simps [of ctrl src])
    next
      case (Some m1)
      have d: "dom m1 = dom m" by (rule conjunct1 [OF store8_dom [OF Some]])
      show ?thesis
      proof (cases "cnt = 0")
        case True
        then show ?thesis using src Some d by (simp add: dma_engine.simps [of ctrl src])
      next
        case False
        then show ?thesis using 1 [OF src Some False] src Some d by (simp add: dma_engine.simps [of ctrl src])
      qed
    qed
  qed
qed

lemma dma_transfer_dom: "dma_transfer src dest n sm dm burst m = Some m' \<Longrightarrow> dom m' = dom m"
  by (simp add: dma_transfer_def Let_def split: if_splits prod.splits) (metis dma_engine_dom snd_conv)

lemma dma_fill_dom: "dma_fill slot dest n v burst m = Some m' \<Longrightarrow> dom m' = dom m"
  by (simp add: dma_fill_def bind_eq_Some_conv) (metis store8_dom dma_transfer_dom)

lemma allocate_tdata_shape:
  assumes "kthread_allocate_tdata im s = Some (p, s')" shows "shape s s'"
proof -
  let ?n = "TDATA_END im - TDATA_START im" and ?k = "TBSS_END im - TBSS_START im"
  obtain d s1 where a: "kalloc (?n + ?k) s = Some (d, s1)"
    "(if d = NULL then Some (NULL, s1) else do {
        m \<leftarrow> dma_copy (TDATA_START im) d ?n True (kram s1);
        m \<leftarrow> dma_fill (fill_slot im) (d + ?n) ?k 0 True m;
        Some (d, s1\<lparr>kram := m\<rparr>) }) = Some (p, s')"
    using assms by (auto simp: kthread_allocate_tdata_def Let_def bind_eq_Some_conv)
  show ?thesis
  proof (cases "d = NULL")
    case True
    then show ?thesis using a kalloc_shape by simp
  next
    case False
    then obtain m1 m2 where m: "dma_copy (TDATA_START im) d ?n True (kram s1) = Some m1"
      "dma_fill (fill_slot im) (d + ?n) ?k 0 True m1 = Some m2" "s' = s1\<lparr>kram := m2\<rparr>"
      using a(2) by (auto simp: bind_eq_Some_conv)
    have "dom m2 = dom (kram s1)" using dma_fill_dom [OF m(2)] dma_transfer_dom m(1) by (simp add: dma_copy_def)
    then have "shape s1 s'" using m(3) by (simp add: shape_def)
    then show ?thesis using kalloc_shape [OF a(1)] shape_trans by blast
  qed
qed

section \<open>Threads and thread-specific storage\<close>

lemma kthread_create_shape:
  assumes "kthread_create im junk f arg svm s = Some (p, s')" and "length (regs (ctx junk)) = 16"
  shows "shape s s'"
  using assms
  by (auto simp: kthread_create_def Let_def bind_eq_Some_conv shape_refl set_reg_def split: if_splits
      dest!: kalloc_shape kfree_shape allocate_tdata_shape)
    (auto simp: shape_def intro!: regs_ok_thr)

lemma ls_create_shape: "kthread_ls_create dtor s = Some (p, s') \<Longrightarrow> shape s s'"
  by (auto simp: kthread_ls_create_def bind_eq_Some_conv split: if_splits dest!: kalloc_shape) (simp add: shape_def)

lemma ls_destroy_loop_shape: "ls_destroy_loop p s = Some s' \<Longrightarrow> shape s s'"
proof (rule ls_destroy_loop.raw_induct [where P = "\<lambda>p s s'. shape s s'"])
  fix f :: "addr \<Rightarrow> 'a kstate_scheme \<Rightarrow> 'a kstate_scheme option" and p and s s' :: "'a kstate_scheme"
  assume IH: "\<And>p s s'. f p s = Some s' \<Longrightarrow> shape s s'"
    and r: "(if p = NULL then Some s
      else do {
        d \<leftarrow> lds s p;
        s \<leftarrow> (if prev_thread d \<noteq> NULL
              then upd_ld (prev_thread d) (\<lambda>r. r\<lparr>next_thread := next_thread d\<rparr>) s
              else upd_thr (ld_thread d) (\<lambda>t. t\<lparr>local_data_head := next_thread d\<rparr>) s);
        d' \<leftarrow> lds s p;
        s \<leftarrow> (if next_thread d' \<noteq> NULL
              then upd_ld (next_thread d') (\<lambda>r. r\<lparr>prev_thread := prev_thread d'\<rparr>) s
              else Some s);
        s \<leftarrow> kfree p s;
        f (next_thread d) (s\<lparr>lds := (lds s)(p := None)\<rparr>)
      }) = Some s'"
  show "shape s s'"
  proof (cases "p = NULL")
    case True
    then show ?thesis using r by (simp add: shape_refl)
  next
    case False
    obtain d d' :: kthread_ld and s1 s2 s3 where 1: "(if prev_thread d \<noteq> NULL
              then upd_ld (prev_thread d) (\<lambda>r. r\<lparr>next_thread := next_thread d\<rparr>) s
              else upd_thr (ld_thread d) (\<lambda>t. t\<lparr>local_data_head := next_thread d\<rparr>) s) = Some s1"
      and 2: "(if next_thread d' \<noteq> NULL
              then upd_ld (next_thread d') (\<lambda>r. r\<lparr>prev_thread := prev_thread d'\<rparr>) s1 else Some s1) = Some s2"
      and 3: "kfree p s2 = Some s3" "f (next_thread d) (s3\<lparr>lds := (lds s3)(p := None)\<rparr>) = Some s'"
    proof -
      from r False show thesis by (simp add: bind_eq_Some_conv) (elim exE conjE, rule that, assumption+)
    qed
    have "shape s s1" "shape s1 s2" "shape s2 s3" using 1 2 kfree_shape [OF 3(1)] by (auto split: if_splits dest: upd_shape simp: shape_refl)
    moreover have "shape s3 s'" using IH [OF 3(2)] by (simp add: shape_def)
    ultimately show ?thesis by (blast intro: shape_trans)
  qed
qed

lemma ls_destroy_shape: "kthread_ls_destroy k s = Some s' \<Longrightarrow> shape s s'"
  by (auto simp: kthread_ls_destroy_def bind_eq_Some_conv dest!: ls_destroy_loop_shape kfree_shape) (simp add: shape_def)

lemma ls_set_shape:
  assumes "kthread_ls_set k t v s = Some (st, s')" shows "shape s s'"
  using assms
  by (auto simp: kthread_ls_set_def bind_eq_Some_conv Let_def split: if_splits dest!: kalloc_shape upd_shape)
    (simp_all add: shape_def)

lemma clean_td_loop_shape: "clean_td_loop p s = Some s' \<Longrightarrow> shape s s'"
proof (rule clean_td_loop.raw_induct [where P = "\<lambda>p s s'. shape s s'"])
  fix f :: "addr \<Rightarrow> 'a kstate_scheme \<Rightarrow> 'a kstate_scheme option" and p and s s' :: "'a kstate_scheme"
  assume IH: "\<And>p s s'. f p s = Some s' \<Longrightarrow> shape s s'"
    and r: "(if p = NULL then Some s
      else do {
        d \<leftarrow> lds s p;
        s \<leftarrow> (if prev_data d \<noteq> NULL
              then upd_ld (prev_data d) (\<lambda>r. r\<lparr>next_data := next_data d\<rparr>) s
              else upd_ls (ld_storage d) (\<lambda>l. l\<lparr>data_head := next_data d\<rparr>) s);
        d' \<leftarrow> lds s p;
        s \<leftarrow> (if next_data d' \<noteq> NULL
              then upd_ld (next_data d') (\<lambda>r. r\<lparr>prev_data := prev_data d'\<rparr>) s
              else Some s);
        d' \<leftarrow> lds s p;
        l \<leftarrow> lss s (ld_storage d');
        let s = (if ls_dtor l \<noteq> NULL then s\<lparr>dtor_calls := dtor_calls s @ [(ls_dtor l, ld_data d')]\<rparr> else s);
        s \<leftarrow> kfree p s;
        f (next_data d) (s\<lparr>lds := (lds s)(p := None)\<rparr>)
      }) = Some s'"
  show "shape s s'"
  proof (cases "p = NULL")
    case True
    then show ?thesis using r by (simp add: shape_refl)
  next
    case False
    obtain d d' e :: kthread_ld and l :: kthread_ls and s1 s2 s3 where 1: "(if prev_data d \<noteq> NULL
              then upd_ld (prev_data d) (\<lambda>r. r\<lparr>next_data := next_data d\<rparr>) s
              else upd_ls (ld_storage d) (\<lambda>l. l\<lparr>data_head := next_data d\<rparr>) s) = Some s1"
      and 2: "(if next_data d' \<noteq> NULL
              then upd_ld (next_data d') (\<lambda>r. r\<lparr>prev_data := prev_data d'\<rparr>) s1 else Some s1) = Some s2"
      and 3: "kfree p (if ls_dtor l \<noteq> NULL then s2\<lparr>dtor_calls := dtor_calls s2 @ [(ls_dtor l, ld_data e)]\<rparr> else s2) = Some s3"
        "f (next_data d) (s3\<lparr>lds := (lds s3)(p := None)\<rparr>) = Some s'"
    proof -
      from r False show thesis by (simp add: bind_eq_Some_conv Let_def) (elim exE conjE, rule that, assumption+)
    qed
    have "shape s s1" "shape s1 s2" using 1 2 by (auto split: if_splits dest: upd_shape simp: shape_refl)
    moreover have "shape s2 s3" using kfree_shape [OF 3(1)] by (auto simp: shape_def split: if_splits)
    moreover have "shape s3 s'" using IH [OF 3(2)] by (simp add: shape_def)
    ultimately show ?thesis by (blast intro: shape_trans)
  qed
qed

lemma kthread_destroy_shape:
  assumes "kthread_destroy p s = Some s'" shows "shape s s'"
  using assms
  by (auto simp: kthread_destroy_def kthread_clean_td_def bind_eq_Some_conv split: if_splits dest!: clean_td_loop_shape kfree_shape)
    (simp_all add: shape_def regs_ok_thr)

lemma destroy_waiters_shape: "destroy_waiters p s = Some s' \<Longrightarrow> shape s s'"
proof (rule destroy_waiters.raw_induct [where P = "\<lambda>p s s'. shape s s'"])
  fix f :: "addr \<Rightarrow> 'a kstate_scheme \<Rightarrow> 'a kstate_scheme option" and p and s s' :: "'a kstate_scheme"
  assume "\<And>p s s'. f p s = Some s' \<Longrightarrow> shape s s'"
    and "(if p = NULL then Some s else do { t \<leftarrow> thrs s p; s \<leftarrow> kthread_destroy p s; f (next_thr t) s }) = Some s'"
  then show "shape s s'"
    by (auto simp: bind_eq_Some_conv shape_refl split: if_splits dest!: kthread_destroy_shape intro: shape_trans)
qed

end
