(* ===== verification/Kernel_Types.thy ===== *)
theory Kernel_Types
  imports Kernel_Shape
begin

text \<open>
  The types of the kernel's state: every thread's register file has 16 words, the running thread exists, the ring of signals has
  ten entries with indices in range, and there are nine handlers. Every trap keeps them.
\<close>

section \<open>Well-typed states\<close>

definition live :: "'a kstate_scheme \<Rightarrow> bool" where
  "live s \<longleftrightarrow> kthread_current s \<in> dom (thrs s)"

definition ring_wf :: "kernel \<Rightarrow> bool" where
  "ring_wf s \<longleftrightarrow> length (requests s) = 10 \<and> req_head s < 10 \<and> req_tail s < 10 \<and> length (sig_handlers s) = 9"

definition kernel_wf :: "kernel \<Rightarrow> bool" where
  "kernel_wf s \<longleftrightarrow> regs_ok s \<and> live s \<and> ring_wf s"

text \<open>What no operation changes: which addresses are memory, and the addresses of the kernel's static objects.\<close>

definition same_static :: "kernel \<Rightarrow> kernel \<Rightarrow> bool" where
  "same_static s s' \<longleftrightarrow> dom (kram s') = dom (kram s) \<and> kthread_main s' = kthread_main s
     \<and> requests_mutex s' = requests_mutex s \<and> requests_cond s' = requests_cond s"

definition keeps :: "kernel \<Rightarrow> kernel \<Rightarrow> bool" where
  "keeps s s' \<longleftrightarrow> same_static s s' \<and> (regs_ok s \<longrightarrow> regs_ok s') \<and> (ring_wf s \<longrightarrow> ring_wf s')"

lemma keeps_refl: "keeps s s"
  by (simp add: keeps_def same_static_def)

lemma keeps_trans: "keeps s1 s2 \<Longrightarrow> keeps s2 s3 \<Longrightarrow> keeps s1 s3"
  by (simp add: keeps_def same_static_def)

lemma more_fields:
  fixes s s' :: kernel
  assumes "kstate.more s' = kstate.more s"
  shows "requests s' = requests s \<and> req_head s' = req_head s \<and> req_tail s' = req_tail s \<and> sig_handlers s' = sig_handlers s
    \<and> requests_mutex s' = requests_mutex s \<and> requests_cond s' = requests_cond s"
  using assms
  unfolding requests_def req_head_def req_tail_def sig_handlers_def requests_mutex_def requests_cond_def kstate.more_def
  by simp

lemma keeps_shape:
  assumes "shape s s'" shows "keeps s s'"
proof -
  have "kstate.more s' = kstate.more s" using assms by (simp add: shape_def)
  from more_fields [OF this] show ?thesis using assms by (simp add: shape_def keeps_def same_static_def ring_wf_def)
qed

section \<open>The running thread\<close>

lemma ret_live: "set_ret_value v s = Some s' \<Longrightarrow> live s'"
  by (auto simp: set_ret_value_def upd_thr_def live_def split: option.splits)

lemma dispatch_live: "kthread_dispatch s = Some s' \<Longrightarrow> live s'"
  by (auto simp: kthread_dispatch_def bind_eq_Some_conv Let_def upd_thr_def live_def split: option.splits)

lemma stop_live: "kthread_stop s = Some s' \<Longrightarrow> live s'"
  by (simp add: kthread_stop_def dispatch_live)

lemma kfree_live: "kfree p s = Some s' \<Longrightarrow> live s' = live s"
  by (auto simp: kfree_def bind_eq_Some_conv live_def)

text \<open>Waking a thread does not change the running one.\<close>

lemma upd_current:
  "upd_thr p f s = Some s' \<Longrightarrow> kthread_current s' = kthread_current s"
  "upd_mtx p g s = Some s' \<Longrightarrow> kthread_current s' = kthread_current s"
  "upd_cnd p h s = Some s' \<Longrightarrow> kthread_current s' = kthread_current s"
  by (auto simp: upd_thr_def upd_mtx_def upd_cnd_def split: option.splits)

lemma enqueue_current: "kscheduler_enqueue a s = Some s' \<Longrightarrow> kthread_current s' = kthread_current s"
  by (auto simp: kscheduler_enqueue_def bind_eq_Some_conv split: if_splits dest!: upd_current)

lemma lock_current: "kmutex_lock m a s = Some s' \<Longrightarrow> kthread_current s' = kthread_current s"
  by (auto simp: kmutex_lock_def bind_eq_Some_conv split: if_splits dest!: upd_current)

lemma signal_current: "kcond_signal c e s = Some s' \<Longrightarrow> kthread_current s' = kthread_current s"
  by (auto simp: kcond_signal_def bind_eq_Some_conv Let_def split: if_splits dest!: upd_current lock_current enqueue_current)

lemma sync_frame_dom:
  assumes "sync_frame s s'" shows "dom (thrs s') = dom (thrs s)"
proof -
  have "map_option frozen (thrs s' x) = map_option frozen (thrs s x)" for x
    using assms unfolding sync_frame_def frozen_thrs_def by metis
  then have "x \<in> dom (thrs s') \<longleftrightarrow> x \<in> dom (thrs s)" for x by (metis option.map_disc_iff domIff)
  then show ?thesis by blast
qed

lemma signal_live: "kcond_signal c e s = Some s' \<Longrightarrow> live s' = live s"
  unfolding live_def by (metis signal_current sync_frame_dom kcond_signal_frame)

section \<open>Signals\<close>

lemma ring_put_keeps: "ring_put sig s = Some s' \<Longrightarrow> keeps s s' \<and> live s' = live s"
proof -
  assume r: "ring_put sig s = Some s'"
  have "(req_tail s + 1) mod 10 < 10" by (simp add: word_mod_less_divisor)
  then show ?thesis using r
    by (auto simp: ring_put_def keeps_def same_static_def ring_wf_def regs_ok_def live_def split: if_splits)
qed

lemma take_request_keeps: "take_request s = Some (sig, s') \<Longrightarrow> keeps s s' \<and> live s' = live s"
proof -
  assume r: "take_request s = Some (sig, s')"
  have "(req_head s + 1) mod 10 < 10" by (simp add: word_mod_less_divisor)
  then show ?thesis using r
    by (auto simp: take_request_def keeps_def same_static_def ring_wf_def regs_ok_def live_def split: if_splits)
qed

lemma ksignal_send_keeps:
  assumes "ksignal_send sig s = Some s'" shows "keeps s s'" "live s' = live s"
proof -
  obtain s1 where s1: "ring_put sig s = Some s1" "kcond_signal (requests_cond s1) True s1 = Some s'"
    using assms by (auto simp: ksignal_send_def bind_eq_Some_conv)
  show "keeps s s'" using ring_put_keeps [OF s1(1)] keeps_shape [OF kcond_signal_shape [OF s1(2)]] keeps_trans by blast
  show "live s' = live s" using ring_put_keeps [OF s1(1)] signal_live [OF s1(2)] by simp
qed

lemma ksignal_handle_keeps: "ksignal_handle sig h s = Some (p, s') \<Longrightarrow> keeps s s'"
  by (auto simp: ksignal_handle_def keeps_def same_static_def ring_wf_def regs_ok_def split: if_splits)

lemma file_write_keeps: "kfile_write f b n s = Some (w, s') \<Longrightarrow> keeps s s'"
  by (auto simp: kfile_write_def klcd_write_def bind_eq_Some_conv keeps_def same_static_def ring_wf_def regs_ok_def split: if_splits)

section \<open>System calls\<close>

text \<open>A call keeps the types, and its caller, the current thread or another one, is live afterwards.\<close>

definition good :: "kernel \<Rightarrow> kernel \<Rightarrow> bool" where
  "good s s' \<longleftrightarrow> keeps s s' \<and> (live s \<longrightarrow> live s')"

lemma goodI: "shape s s' \<Longrightarrow> live s' \<Longrightarrow> good s s'"
  by (simp add: good_def keeps_shape)

lemma good_keeps: "keeps s s' \<Longrightarrow> live s' \<Longrightarrow> good s s'"
  by (simp add: good_def)

lemma ret_ends: "set_ret_value v s = Some s' \<Longrightarrow> shape s s' \<and> live s'"
  using set_ret_value_shape ret_live by blast

lemma dispatch_ends: "kthread_dispatch s = Some s' \<Longrightarrow> shape s s' \<and> live s'"
  using kthread_dispatch_shape dispatch_live by blast

lemma stop_ends: "kthread_stop s = Some s' \<Longrightarrow> shape s s' \<and> live s'"
  using kthread_stop_shape stop_live by blast

lemmas memory_call_defs = syscall_mem_alloc_def syscall_mem_try_expand_def
lemmas thread_call_defs = syscall_thread_create_def syscall_thread_detach_def syscall_thread_get_current_def
lemmas mutex_call_defs = syscall_mutex_create_def syscall_mutex_unlock_def syscall_mutex_destroy_def syscall_mutex_try_lock_def
lemmas cond_call_defs = syscall_cond_create_def syscall_cond_signal_def syscall_cond_signal_all_def syscall_cond_destroy_def
lemmas storage_call_defs = syscall_ts_create_def syscall_ts_destroy_def syscall_ts_get_def syscall_ts_set_def

lemmas call_splits = bind_eq_Some_conv Let_def

lemmas op_shapes = kalloc_shape kfree_shape put_word_shape kscheduler_enqueue_shape kthread_destroy_shape
  kmutex_unlock_shape kmutex_try_lock_shape kcond_signal_shape kcond_signal_all_shape
  destroy_waiters_shape ls_create_shape ls_destroy_shape ls_set_shape ret_ends

lemma memory_calls_good:
  "syscall_mem_alloc s = Some s' \<Longrightarrow> good s s'" "syscall_mem_try_expand s = Some s' \<Longrightarrow> good s s'"
  "syscall_mem_free s = Some s' \<Longrightarrow> good s s'"
proof -
  show "syscall_mem_alloc s = Some s' \<Longrightarrow> good s s'" "syscall_mem_try_expand s = Some s' \<Longrightarrow> good s s'"
    by (auto simp: memory_call_defs call_splits dest!: op_shapes intro!: goodI) (simp_all add: shape_def)
  show "good s s'" if f: "syscall_mem_free s = Some s'"
  proof -
    obtain p where "kfree p s = Some s'" using f unfolding syscall_mem_free_def bind_eq_Some_conv by blast
    from keeps_shape [OF kfree_shape [OF this]] kfree_live [OF this] show ?thesis by (simp add: good_def)
  qed
qed

lemma thread_calls_good:
  assumes "length (regs (ctx junk)) = 16"
  shows "syscall_thread_create im junk s = Some s' \<Longrightarrow> good s s'" "syscall_thread_detach s = Some s' \<Longrightarrow> good s s'"
    "syscall_thread_get_current s = Some s' \<Longrightarrow> good s s'"
  by (auto simp: thread_call_defs call_splits split: if_splits dest!: op_shapes kthread_create_shape [OF _ assms] intro!: goodI)
    (simp_all add: shape_def)

lemma mutex_calls_good:
  "syscall_mutex_create s = Some s' \<Longrightarrow> good s s'" "syscall_mutex_unlock s = Some s' \<Longrightarrow> good s s'"
  "syscall_mutex_destroy s = Some s' \<Longrightarrow> good s s'" "syscall_mutex_try_lock s = Some s' \<Longrightarrow> good s s'"
  by (auto simp: mutex_call_defs kmutex_destroy_def kmutex_init_def call_splits split: if_splits dest!: op_shapes intro!: goodI)
    (simp_all add: shape_def)

lemma cond_calls_good:
  "syscall_cond_create s = Some s' \<Longrightarrow> good s s'" "syscall_cond_signal s = Some s' \<Longrightarrow> good s s'"
  "syscall_cond_signal_all s = Some s' \<Longrightarrow> good s s'" "syscall_cond_destroy s = Some s' \<Longrightarrow> good s s'"
  by (auto simp: cond_call_defs kcond_destroy_def kcond_init_def call_splits split: if_splits dest!: op_shapes intro!: goodI)
    (simp_all add: shape_def)

lemma storage_calls_good:
  "syscall_ts_create s = Some s' \<Longrightarrow> good s s'" "syscall_ts_destroy s = Some s' \<Longrightarrow> good s s'"
  "syscall_ts_get s = Some s' \<Longrightarrow> good s s'" "syscall_ts_set s = Some s' \<Longrightarrow> good s s'"
  by (auto simp: storage_call_defs call_splits split: if_splits dest!: op_shapes intro!: goodI)
    (simp_all add: shape_def)

text \<open>Two calls may block their caller.\<close>

lemma blocking_calls_good:
  "syscall_mutex_lock s = Some s' \<Longrightarrow> good s s'" "syscall_cond_wait s = Some s' \<Longrightarrow> good s s'"
  by (auto simp: syscall_mutex_lock_def syscall_cond_wait_def call_splits split: if_splits
      dest!: ret_ends dispatch_ends kmutex_lock_shape kcond_wait_shape intro!: goodI)
    (simp_all add: shape_def)

lemma kernel_calls_good:
  "syscall_sig_set_handler s = Some s' \<Longrightarrow> good s s'" "syscall_sig_raise s = Some s' \<Longrightarrow> good s s'"
  "syscall_file_write s = Some s' \<Longrightarrow> good s s'"
  by (auto simp: syscall_sig_set_handler_def syscall_sig_raise_def syscall_file_write_def bind_eq_Some_conv
      intro!: good_keeps dest!: ksignal_handle_keeps ksignal_send_keeps(1) file_write_keeps ret_ends keeps_shape
      intro: keeps_trans)

lemma switch_good:
  "kthread_dispatch s = Some s' \<Longrightarrow> good s s'" "kthread_stop s = Some s' \<Longrightarrow> good s s'"
  by (auto dest!: dispatch_ends stop_ends intro!: goodI)

lemma syscalls_good:
  assumes "length (regs (ctx junk)) = 16" and "syscalls im junk c s = Some s'"
  shows "good s s'"
proof -
  have "good s s" by (simp add: good_def keeps_refl)
  then show ?thesis
    using assms(2) unfolding syscalls_def
    by (auto simp: syscall_thread_join_def syscall_file_read_def kfile_read_def bind_eq_Some_conv split: if_split_asm
        dest: memory_calls_good thread_calls_good [OF assms(1)] mutex_calls_good cond_calls_good storage_calls_good
          blocking_calls_good kernel_calls_good switch_good)
qed

lemma good_trans: "good s1 s2 \<Longrightarrow> good s2 s3 \<Longrightarrow> good s1 s3"
  using keeps_trans by (auto simp: good_def)

lemma handle_syscall_good:
  assumes "length (regs (ctx junk)) = 16" and "handle_syscall im junk s = Some s'"
  shows "good s s'"
proof -
  obtain s1 t where s1: "upd_thr (kthread_current s) (\<lambda>t. t\<lparr>ctx := (ctx t)\<lparr>pc := pc (ctx t) + 4\<rparr>\<rparr>) s = Some s1"
    "syscalls im junk (get_reg REG_A5 t) s1 = Some s'"
    using assms(2) by (auto simp: handle_syscall_def bind_eq_Some_conv)
  have "live s1" using s1(1) by (auto simp: upd_thr_def live_def split: option.splits)
  then have "good s s1" using goodI upd_shape(5) [OF s1(1)] by blast
  then show ?thesis using syscalls_good [OF assms(1) s1(2)] good_trans by blast
qed

section \<open>Traps\<close>

lemma keeps_dev: "keeps s (s\<lparr>dev := d\<rparr>)" "live (s\<lparr>dev := d\<rparr>) = live s"
  by (simp_all add: keeps_def same_static_def ring_wf_def regs_ok_def live_def)

lemma ext_intr_loop_good: "ext_intr_loop s = Some s' \<Longrightarrow> good s s'"
proof (rule ext_intr_loop.raw_induct [where P = "\<lambda>s s'. good s s'"])
  fix f :: "kernel \<Rightarrow> kernel option" and s s' :: kernel
  assume IH: "\<And>s s'. f s = Some s' \<Longrightarrow> good s s'"
    and r: "(let (intr, d) = plic_get_next (dev s); s = s\<lparr>dev := d\<rparr>
      in if intr = 0 then Some s else if 16 \<le> intr then None
         else do {
           s \<leftarrow> (case ext_intr_signal intr of None \<Rightarrow> Some s | Some sig \<Rightarrow> ksignal_send (signal_code sig) s);
           f s
         }) = Some s'"
  obtain intr d where d: "plic_get_next (dev s) = (intr, d)" by fastforce
  let ?s = "s\<lparr>dev := d\<rparr>"
  have g: "good s ?s" using keeps_dev by (simp add: good_def)
  show "good s s'"
  proof (cases "intr = 0")
    case True
    then show ?thesis using r d g by simp
  next
    case False
    then obtain s1 where s1: "(case ext_intr_signal intr of None \<Rightarrow> Some ?s | Some sig \<Rightarrow> ksignal_send (signal_code sig) ?s) = Some s1"
      "f s1 = Some s'"
      using r d by (auto simp: bind_eq_Some_conv Let_def split: if_splits)
    have "good ?s s1"
      using s1(1) ksignal_send_keeps by (cases "ext_intr_signal intr") (auto simp: good_def keeps_refl)
    then show ?thesis using g IH [OF s1(2)] good_trans by blast
  qed
qed

lemma handle_ext_intr_good: "handle_ext_intr s = Some s' \<Longrightarrow> good s s'"
proof -
  assume "handle_ext_intr s = Some s'"
  then obtain s1 where s1: "ext_intr_loop s = Some s1" "s' = clear_interrupt EXTERNAL_INTERRUPT s1"
    by (auto simp: handle_ext_intr_def bind_eq_Some_conv)
  have "good s1 s'"
    by (simp add: s1(2) clear_interrupt_def good_def keeps_def same_static_def ring_wf_def regs_ok_def live_def)
  then show "good s s'" using ext_intr_loop_good [OF s1(1)] good_trans by blast
qed

lemma fault_good: "fault sig s = Some s' \<Longrightarrow> good s s'"
proof -
  assume "fault sig s = Some s'"
  then obtain t :: kthread and s1 where s1: "ksignal_send (signal_code sig) (s\<lparr>ksig_addr := pc (ctx t)\<rparr>) = Some s1" "kthread_stop s1 = Some s'"
    by (auto simp: fault_def bind_eq_Some_conv)
  have "good s (s\<lparr>ksig_addr := pc (ctx t)\<rparr>)"
    by (simp add: good_def keeps_def same_static_def ring_wf_def regs_ok_def live_def)
  moreover have "good (s\<lparr>ksig_addr := pc (ctx t)\<rparr>) s1" using ksignal_send_keeps [OF s1(1)] by (simp add: good_def)
  ultimately show "good s s'" using switch_good(2) [OF s1(2)] good_trans by blast
qed

lemma exception_handler_good:
  assumes "length (regs (ctx junk)) = 16" and "exception_handler im junk cause s = Some s'"
  shows "good s s'"
  using assms(2) unfolding exception_handler_def
  by (auto split: if_split_asm dest: handle_syscall_good [OF assms(1)] fault_good handle_ext_intr_good switch_good)

section \<open>Initialisation\<close>

lemma allocate_tdata_live: "kthread_allocate_tdata im s = Some (p, s') \<Longrightarrow> live s' = live s"
  by (auto simp: kthread_allocate_tdata_def kalloc_def Let_def bind_eq_Some_conv live_def split: if_splits)

lemma kalloc_live: "kalloc n s = Some (p, s') \<Longrightarrow> live s' = live s"
  by (auto simp: kalloc_def bind_eq_Some_conv live_def)

lemma create_live: "kthread_create im junk f arg svm s = Some (p, s') \<Longrightarrow> live s \<Longrightarrow> live s'"
  by (auto simp: kthread_create_def Let_def bind_eq_Some_conv split: if_splits
      dest!: kalloc_live kfree_live allocate_tdata_live) (auto simp: live_def)

lemma enqueue_live: "kscheduler_enqueue p s = Some s' \<Longrightarrow> live s' = live s"
  unfolding live_def by (metis enqueue_current sync_frame_dom kscheduler_enqueue_frame)

lemma good_shape: "shape s s' \<Longrightarrow> (live s \<Longrightarrow> live s') \<Longrightarrow> good s s'"
  by (simp add: good_def keeps_shape)

lemma kernel_init_good:
  assumes "kernel_init HS HE im j1 j2 sp mn s = Some s'" and j: "length (regs (ctx j1)) = 16" "length (regs (ctx j2)) = 16"
  shows "good s s'"
proof -
  let ?s0 = "\<lambda>h. s\<lparr>kheap := h, dev := btns_enable_all (plic_allow_all (lcd_init (dev s)))\<rparr>"
  let ?s1 = "\<lambda>h. kcond_init (requests_cond s) (kmutex_init (requests_mutex s) False (?s0 h))"
  obtain h p s2 s3 q s4 where 1: "kthread_create im j1 sp 0 False (?s1 h) = Some (p, s2)" "kscheduler_enqueue p s2 = Some s3"
    "kthread_create im j2 mn 0 False s3 = Some (q, s4)" "kscheduler_enqueue q s4 = Some s'"
    using assms(1) by (auto simp: kernel_init_def ksignal_init_def kmutex_init_def Let_def bind_eq_Some_conv)
  have "good s (?s1 h)"
    by (simp add: good_def keeps_def same_static_def ring_wf_def regs_ok_def live_def kmutex_init_def kcond_init_def)
  moreover have "good (?s1 h) s2" "good s2 s3" "good s3 s4" "good s4 s'"
    using good_shape [OF kthread_create_shape [OF 1(1) j(1)] create_live [OF 1(1)]]
      good_shape [OF kscheduler_enqueue_shape [OF 1(2)]] enqueue_live [OF 1(2)]
      good_shape [OF kthread_create_shape [OF 1(3) j(2)] create_live [OF 1(3)]]
      good_shape [OF kscheduler_enqueue_shape [OF 1(4)]] enqueue_live [OF 1(4)] by simp_all
  ultimately show ?thesis by (blast intro: good_trans)
qed

section \<open>Runs\<close>

text \<open>
  Between two traps the running thread changes its registers and the contents of the memory, and the signal processor takes
  signals from the ring. \<open>trap_runs\<close> are the states that such steps and traps of any cause reach; \<open>junk\<close> is the old contents of the memory of a new thread.
\<close>

inductive trap_runs :: "image \<Rightarrow> kernel \<Rightarrow> kernel \<Rightarrow> bool" for im s0 where
  start: "trap_runs im s0 s0"
| user: "trap_runs im s0 s \<Longrightarrow> thrs s (kthread_current s) = Some t \<Longrightarrow> length rs = length (regs (ctx t)) \<Longrightarrow> dom m = dom (kram s) \<Longrightarrow>
    trap_runs im s0 (s\<lparr>kram := m, thrs := (thrs s)(kthread_current s \<mapsto> t\<lparr>ctx := (ctx t)\<lparr>regs := rs, pc := p\<rparr>\<rparr>)\<rparr>)"
| take: "trap_runs im s0 s \<Longrightarrow> take_request s = Some (sig, s') \<Longrightarrow> trap_runs im s0 s'"
| trap: "trap_runs im s0 s \<Longrightarrow> length (regs (ctx junk)) = 16 \<Longrightarrow> exception_handler im junk cause s = Some s' \<Longrightarrow> trap_runs im s0 s'"

lemma trap_runs_good:
  assumes "trap_runs im s0 s" shows "good s0 s"
  using assms
proof (induction rule: trap_runs.induct)
  case start
  then show ?case by (simp add: good_def keeps_refl)
next
  case (user s t rs m p)
  have "good s (s\<lparr>kram := m, thrs := (thrs s)(kthread_current s \<mapsto> t\<lparr>ctx := (ctx t)\<lparr>regs := rs, pc := p\<rparr>\<rparr>)\<rparr>)"
    using user.hyps(2,3,4) by (auto simp: good_def keeps_def same_static_def ring_wf_def regs_ok_def live_def)
  then show ?case using user.IH good_trans by blast
next
  case (take s sig s')
  have "good s s'" using take.hyps(2) take_request_keeps by (simp add: good_def)
  then show ?case using take.IH good_trans by blast
next
  case (trap s junk cause s')
  then show ?case using exception_handler_good good_trans by blast
qed

end
