(* ===== verification/Signal_Thread.thy ===== *)
theory Signal_Thread
  imports User_Api Device_Properties Sync_Frame
begin

text \<open>
  The thread that processes signals (\<^verbatim>\<open>signal_processor\<close> in \<^verbatim>\<open>Software/src/kernel/signals.c\<close>). It runs as a user thread:
  between two of its steps other threads and interrupts run.
\<close>

section \<open>The loop\<close>

text \<open>Where the thread goes on when it next runs; \<open>At_Test\<close> is the condition of the inner loop.\<close>

datatype processor_point = At_Lock | At_Test | At_Wait | At_Take | At_Unlock u32 | At_Handle u32

text \<open>\<open>call h sig\<close> is the code at the address \<open>h\<close>, called with the signal.\<close>

fun signal_processor ::
  "image \<Rightarrow> kthread \<Rightarrow> (addr \<Rightarrow> u32 \<Rightarrow> kernel \<Rightarrow> kernel option) \<Rightarrow> processor_point \<Rightarrow> kernel \<Rightarrow> (processor_point \<times> kernel) option" where
  "signal_processor im junk call At_Lock s = do {
     s \<leftarrow> ecall im junk (syscall_code SYSCALL_MUTEX_LOCK) [requests_mutex s] s;
     Some (At_Test, s)
   }"
| "signal_processor im junk call At_Test s = Some (if req_head s = req_tail s then At_Wait else At_Take, s)"
| "signal_processor im junk call At_Wait s = do {
     s \<leftarrow> ecall im junk (syscall_code SYSCALL_CONDITION_WAIT) [requests_cond s, requests_mutex s] s;
     Some (At_Test, s)
   }"
| "signal_processor im junk call At_Take s = do {
     (sig, s) \<leftarrow> take_request s;
     Some (At_Unlock sig, s)
   }"
| "signal_processor im junk call (At_Unlock sig) s = do {
     s \<leftarrow> ecall im junk (syscall_code SYSCALL_MUTEX_UNLOCK) [requests_mutex s] s;
     Some (At_Handle sig, s)
   }"
| "signal_processor im junk call (At_Handle sig) s = do {
     h \<leftarrow> handler_of sig s;
     s \<leftarrow> (if h \<noteq> NULL then call h sig s else Some s);
     Some (At_Lock, s)
   }"

text \<open>\<open>n\<close> steps in a row, with no interrupt between them.\<close>

primrec processor_steps ::
  "image \<Rightarrow> kthread \<Rightarrow> (addr \<Rightarrow> u32 \<Rightarrow> kernel \<Rightarrow> kernel option) \<Rightarrow> nat \<Rightarrow> processor_point \<Rightarrow> kernel \<Rightarrow> (processor_point \<times> kernel) option" where
  "processor_steps im junk call 0 pt s = Some (pt, s)"
| "processor_steps im junk call (Suc n) pt s = do { (pt, s) \<leftarrow> signal_processor im junk call pt s; processor_steps im junk call n pt s }"

section \<open>Calls of the kernel\<close>

lemma ring_same:
  assumes "requests s' = requests s" "req_head s' = req_head s" "req_tail s' = req_tail s"
  shows "ring_ok s' = ring_ok s" "pending s' = pending s"
  using assms by (simp_all add: ring_ok_def pending_def)

lemma set_args_regs2:
  assumes "length (regs (ctx t)) = 16"
  shows "get_reg REG_A5 (set_args c [x, y] t) = c" "get_reg REG_A0 (set_args c [x, y] t) = x" "get_reg (Suc REG_A0) (set_args c [x, y] t) = y"
    "get_reg REG_A5 (set_args c [x] t) = c" "get_reg REG_A0 (set_args c [x] t) = x"
  using assms by (simp_all add: set_args_def set_reg_def get_reg_def REG_A0_def REG_A5_def)

text \<open>The state a system call starts with: the caller's registers hold the arguments, its \<open>pc\<close> is behind the \<open>ecall\<close>.\<close>

definition entered :: "u32 \<Rightarrow> u32 list \<Rightarrow> kernel \<Rightarrow> kernel" where
  "entered code args s = s\<lparr>thrs := (thrs s)(kthread_current s \<mapsto>
     (let t = set_args code args (the (thrs s (kthread_current s))) in t\<lparr>ctx := (ctx t)\<lparr>pc := pc (ctx t) + 4\<rparr>\<rparr>))\<rparr>"

lemma set_args_fields:
  "next_thr (set_args code args t) = next_thr t" "state (set_args code args t) = state t" "waiting_on (set_args code args t) = waiting_on t"
proof -
  have "next_thr (fold (\<lambda>(i, v). set_reg (REG_A0 + i) v) xs t) = next_thr t \<and> state (fold (\<lambda>(i, v). set_reg (REG_A0 + i) v) xs t) = state t
    \<and> waiting_on (fold (\<lambda>(i, v). set_reg (REG_A0 + i) v) xs t) = waiting_on t" for xs
    by (induction xs arbitrary: t) (auto simp: set_reg_def)
  then show "next_thr (set_args code args t) = next_thr t" "state (set_args code args t) = state t" "waiting_on (set_args code args t) = waiting_on t"
    by (simp_all add: set_args_def set_reg_def)
qed

lemma entered_fields [simp]:
  "mtxs (entered code args s) = mtxs s" "cnds (entered code args s) = cnds s" "kthread_current (entered code args s) = kthread_current s"
  "kthread_main (entered code args s) = kthread_main s" "requests (entered code args s) = requests s" "req_head (entered code args s) = req_head s"
  "req_tail (entered code args s) = req_tail s" "sig_handlers (entered code args s) = sig_handlers s"
  "requests_mutex (entered code args s) = requests_mutex s" "requests_cond (entered code args s) = requests_cond s"
  by (simp_all add: entered_def)

lemma entered_kinv:
  assumes I: "kinv s Q" and c: "thrs s (kthread_current s) = Some t"
  shows "kinv (entered code args s) Q" "info (entered code args s) = info s" "nxt (entered code args s) = nxt s"
    "running s Q \<Longrightarrow> running (entered code args s) Q" "dom (thrs (entered code args s)) = dom (thrs s)"
proof -
  let ?s = "entered code args s"
  have n: "nxt ?s = nxt s" using c by (auto simp: nxt_def entered_def set_args_fields fun_eq_iff Let_def)
  moreover have i: "info ?s = info s" using c by (auto simp: info_def entered_def set_args_fields fun_eq_iff Let_def)
  moreover have d: "dom (thrs ?s) = dom (thrs s)" using c by (auto simp: entered_def)
  moreover have "kinv ?s Q" by (rule kinv_frame [OF I n i d]) (simp_all add: entered_def)
  ultimately show "kinv ?s Q" "info ?s = info s" "nxt ?s = nxt s" "running s Q \<Longrightarrow> running ?s Q" "dom (thrs ?s) = dom (thrs s)"
    by (simp_all add: running_def)
qed

lemma ecall_entered:
  assumes c: "thrs s (kthread_current s) = Some t" "length (regs (ctx t)) = 16"
  shows "ecall im junk code [x] s = syscalls im junk code (entered code [x] s)" "get_param 0 (entered code [x] s) = Some x"
    "ecall im junk code [x, y] s = syscalls im junk code (entered code [x, y] s)" "get_param 0 (entered code [x, y] s) = Some x"
    "get_param (Suc 0) (entered code [x, y] s) = Some y"
proof -
  have g: "get_reg i (u\<lparr>ctx := (ctx u)\<lparr>pc := v\<rparr>\<rparr>) = get_reg i u" for i u v by (simp add: get_reg_def)
  note R = set_args_regs2 [OF c(2)]
  show "ecall im junk code [x] s = syscalls im junk code (entered code [x] s)"
    "ecall im junk code [x, y] s = syscalls im junk code (entered code [x, y] s)"
    using c(1) by (simp_all add: ecall_def kernel_simps exception_handler_def handle_syscall_def entered_def g R Let_def)
  show "get_param 0 (entered code [x] s) = Some x" "get_param 0 (entered code [x, y] s) = Some x"
    "get_param (Suc 0) (entered code [x, y] s) = Some y"
    using c(1) by (simp_all add: get_param_def entered_def g R Let_def)
qed

text \<open>Unlocking a mutex nobody waits for.\<close>

lemma ecall_unlock:
  assumes I: "kinv s Q" and run: "running s Q" and t: "thrs s (kthread_current s) = Some t" "length (regs (ctx t)) = 16"
    and m: "m \<noteq> NULL" "mtxs s m = Some x" "owner x = kthread_current s" "unlocked x" "Q (QMutex m) = []"
  shows "\<exists>s' x'. ecall im junk 0x23 [m] s = Some s' \<and> kinv s' Q \<and> running s' Q \<and> mtxs s' m = Some x' \<and> owner x' = NULL
    \<and> requests s' = requests s \<and> req_head s' = req_head s \<and> req_tail s' = req_tail s \<and> sig_handlers s' = sig_handlers s
    \<and> requests_mutex s' = requests_mutex s \<and> requests_cond s' = requests_cond s \<and> kthread_current s' = kthread_current s"
proof -
  let ?s = "entered 0x23 [m] s"
  note E = entered_kinv [OF I t(1), of "0x23" "[m]"]
  let ?x = "x\<lparr>lock_count := lock_count x - 1, owner := NULL\<rparr>"
  let ?s1 = "?s\<lparr>mtxs := (mtxs ?s)(m \<mapsto> ?x)\<rparr>"
  have u: "kmutex_unlock m (kthread_current s) ?s = Some (STATUS_SUCCESS, ?s1)" "kinv ?s1 Q"
    using kmutex_unlock_release [OF E(1), of m x] m by simp_all
  have r1: "running ?s1 Q" using E(4) [OF run] by (simp add: running_def info_def nxt_def)
  obtain s2 where s2: "set_ret_status STATUS_SUCCESS ?s1 = Some s2" "kinv s2 Q" "info s2 = info ?s1" "nxt s2 = nxt ?s1"
    "same_objects ?s1 s2" "mtxs s2 = mtxs ?s1"
    using set_ret_value_kinv [OF u(2) running_live [OF r1]] by blast
  have r2: "running s2 Q"
    by (rule running_frame [OF r1]) (use s2 r1 in \<open>simp_all add: same_objects_def running_def\<close>)
  have f: "requests s2 = requests s \<and> req_head s2 = req_head s \<and> req_tail s2 = req_tail s \<and> sig_handlers s2 = sig_handlers s
    \<and> requests_mutex s2 = requests_mutex s \<and> requests_cond s2 = requests_cond s \<and> kthread_current s2 = kthread_current s"
    using s2(1) by (auto simp: set_ret_value_def upd_thr_def split: option.splits)
  have "ecall im junk 0x23 [m] s = Some s2"
    using ecall_entered(1,2) [OF t, where code = "0x23" and x = m] u(1) s2(1) m(1) by (simp add: syscalls_def syscall_mutex_unlock_def)
  then show ?thesis using s2(2,6) r2 f by (intro exI [of _ s2] exI [of _ ?x]) simp
qed

text \<open>Waiting with a mutex nobody else waits for: the thread is left as the only waiter, another one runs.\<close>

lemma ecall_wait:
  assumes I: "kinv s Q" and run: "running s Q" and user: "kthread_current s \<noteq> kthread_main s"
    and t: "thrs s (kthread_current s) = Some t" "length (regs (ctx t)) = 16"
    and c: "c \<noteq> NULL" "cnds s c = Some z" "Q (QCond c) = []"
    and m: "m \<noteq> NULL" "mtxs s m = Some x" "owner x = kthread_current s" "unlocked x" "Q (QMutex m) = []"
  shows "\<exists>s' Q'. ecall im junk 0x32 [c, m] s = Some s' \<and> kinv s' Q' \<and> running s' Q' \<and> Q' (QCond c) = [kthread_current s]
    \<and> requests s' = requests s \<and> req_head s' = req_head s \<and> req_tail s' = req_tail s \<and> requests_cond s' = requests_cond s"
proof -
  let ?c = "kthread_current s"
  let ?s = "entered 0x32 [c, m] s"
  note E = entered_kinv [OF I t(1), of "0x32" "[c, m]"]
  have idle: "idle ?s Q ?c" using running_idle [OF E(4) [OF run]] user by simp
  have W: "wait_queues x c m ?c Q = Q(QCond c := [?c])"
    using m(3-5) c(3) by (simp add: wait_queues_def unlock_queues_def)
  obtain s1 where s1: "kcond_wait c m ?c ?s = Some s1" "kinv s1 (Q(QCond c := [?c]))" "same_objects ?s s1" "info s1 ?c = Some (BLOCKED, m)"
    using kcond_wait_kinv [OF E(1) _ _ idle, of c z m x] c(2) m(2) unfolding W by auto
  note f1 = sync_frame_ring [OF kcond_wait_frame [OF s1(1)]]
  have c1: "kthread_current s1 = ?c" using s1(3) by (simp add: same_objects_def)
  have d1: "kthread_current s1 \<in> dom (thrs s1)" using s1(4) c1 by (auto simp: info_def)
  obtain s2 where s2: "set_ret_status STATUS_SUCCESS s1 = Some s2" "kinv s2 (Q(QCond c := [?c]))" "info s2 = info s1" "same_objects s1 s2"
    using set_ret_value_kinv [OF s1(2) d1] by blast
  have c2: "kthread_current s2 = ?c" using s2(4) c1 by (simp add: same_objects_def)
  have f2: "requests s2 = requests s1 \<and> req_head s2 = req_head s1 \<and> req_tail s2 = req_tail s1 \<and> requests_cond s2 = requests_cond s1"
    using s2(1) by (auto simp: set_ret_value_def upd_thr_def split: option.splits)
  have i2: "info s2 (kthread_current s2) = Some (BLOCKED, m)" using s1(4) s2(3) c2 by simp
  then obtain t2 where t2: "thrs s2 (kthread_current s2) = Some t2" "state t2 = BLOCKED" by (auto simp: info_def)
  have R: "requeued s2 (Q(QCond c := [?c])) = Q QReady" using i2 by (simp add: requeued_def)
  obtain s3 where s3: "kthread_dispatch s2 = Some s3" "kinv s3 (Q(QCond c := [?c], QReady := tl (Q QReady)))"
    "running s3 (Q(QCond c := [?c], QReady := tl (Q QReady)))" "sched_frame s2 s3"
    using kthread_dispatch_kinv [OF s2(2)] t2 i2 unfolding R by auto
  note f3 = sync_frame_ring [OF sync_frame_sched [OF s3(4)]]
  have "syscall_cond_wait ?s = Some s3"
    using ecall_entered(4,5) [OF t, where code = "0x32" and x = c and y = m] c(1) m(1) s1(1) s2(1) t2 s3(1)
    by (simp add: syscall_cond_wait_def)
  then have "ecall im junk 0x32 [c, m] s = Some s3"
    using ecall_entered(3) [OF t, where code = "0x32" and x = c and y = m] by (simp add: syscalls_def)
  then show ?thesis using s3(2,3) f1 f2 f3
    by (intro exI [of _ s3] exI [of _ "Q(QCond c := [?c], QReady := tl (Q QReady))"]) auto
qed

section \<open>Signalling the processor\<close>

text \<open>Signalling from an interrupt hands the free mutex to the waiter and makes it ready.\<close>

lemma kcond_signal_grants:
  assumes I: "kinv s Q" and c: "cnds s c = Some z" and q: "Q (QCond c) = b # bs"
    and m: "info s b = Some (BLOCKED, m)" "mtxs s m = Some x" "owner x = NULL"
  shows "\<exists>s'. kcond_signal c True s = Some s' \<and> kinv s' (Q(QCond c := bs, QReady := Q QReady @ [b])) \<and> same_objects s s'
    \<and> mtxs s' = (mtxs s)(m \<mapsto> x\<lparr>owner := b, lock_count := 1\<rparr>) \<and> (\<forall>y. y \<noteq> b \<longrightarrow> info s' y = info s y)
    \<and> (\<forall>y. \<not> queued Q y \<longrightarrow> nxt s' y = nxt s y)"
proof -
  obtain s' where s': "kcond_signal c True s = Some s'" "kinv s' (Q(QCond c := bs, QReady := Q QReady @ [b]))" "same_objects s s'"
    "\<forall>y. y \<noteq> b \<longrightarrow> info s' y = info s y" "\<forall>y. \<not> queued Q y \<longrightarrow> nxt s' y = nxt s y"
    using kcond_signal_enqueue [OF I c q m(1,2)] m(3) q by (auto simp: signal_queues_def)
  obtain s1 where s1: "kcond_signal c True s = do { s \<leftarrow> kmutex_lock m b s1; kscheduler_enqueue b s }"
    "kinv s1 (Q(QCond c := bs))" "\<not> queued (Q(QCond c := bs)) b" "b \<in> dom (thrs s1)" "b \<noteq> kthread_main s1" "mtxs s1 = mtxs s"
    using kcond_signal_unlink [OF I c q m(1), of True] unfolding if_True by blast
  have b0: "b \<noteq> NULL" by (rule live_thread [OF s1(2,4)])
  let ?s2 = "s1\<lparr>mtxs := (mtxs s1)(m \<mapsto> x\<lparr>owner := b, lock_count := 1\<rparr>)\<rparr>"
  have s2: "kmutex_lock m b s1 = Some ?s2" "kinv ?s2 (Q(QCond c := bs))"
    using kmutex_lock_free [OF s1(2) _ m(3) b0, of m] m(2) s1(6) by auto
  obtain s3 where "kscheduler_enqueue b ?s2 = Some s3" "sched_frame ?s2 s3"
    using kscheduler_enqueue_kinv [OF s2(2) s1(3)] s1(4,5) by auto
  then have "mtxs s' = (mtxs s)(m \<mapsto> x\<lparr>owner := b, lock_count := 1\<rparr>)"
    using s'(1) s1(1,6) s2(1) sched_frameD [of ?s2 s3] by simp
  then show ?thesis using s' by blast
qed

text \<open>When only timer interrupts come, the thread at the end of the ready queue runs after one round.\<close>

lemma dispatch_times_frame:
  assumes "dispatch_times n s = Some s'" and "kinv s Q" and "running s Q"
  shows "sched_frame s s'"
  using assms
proof (induction n arbitrary: s Q)
  case 0
  then show ?case by (simp add: sched_frame_refl)
next
  case (Suc n)
  let ?c = "kthread_current s"
  have d: "?c \<in> dom (thrs s)" "\<not> queued Q ?c" using Suc.prems(3) running_live by (auto simp: running_def)
  obtain s1 where s1: "kthread_dispatch s = Some s1" "kinv s1 (Q(QReady := tl (requeued s Q)))"
    "running s1 (Q(QReady := tl (requeued s Q)))" "sched_frame s s1"
    using kthread_dispatch_kinv [OF Suc.prems(2)] d by blast
  have "dispatch_times n s1 = Some s'" using Suc.prems(1) s1(1) by simp
  then show ?case using Suc.IH s1 sched_frame_trans by blast
qed

lemma last_ready_runs:
  assumes I: "kinv s Q" and run: "running s Q" and q: "Q QReady = xs @ [p]"
  shows "\<exists>s' Q'. dispatch_times (Suc (length xs)) s = Some s' \<and> kinv s' Q' \<and> running s' Q' \<and> kthread_current s' = p
    \<and> sched_frame s s' \<and> (\<forall>r. r \<noteq> QReady \<longrightarrow> Q' r = Q r)"
proof -
  let ?c = "kthread_current s"
  have d: "?c \<in> dom (thrs s)" "\<not> queued Q ?c" using run running_live by (auto simp: running_def)
  let ?R = "requeued s Q"
  obtain s1 where s1: "kthread_dispatch s = Some s1" "kinv s1 (Q(QReady := tl ?R))" "running s1 (Q(QReady := tl ?R))" "sched_frame s s1"
    "kthread_current s1 = (if ?R = [] then kthread_main s else hd ?R)"
    using kthread_dispatch_kinv [OF I] d by blast
  have "?R = xs @ [p] \<or> ?R = xs @ [p, ?c]" using q by (simp add: requeued_def)
  then obtain ys where R: "?R = xs @ p # ys" by auto
  have main: "kthread_current s1 \<noteq> kthread_main s1"
  proof -
    have "hd ?R \<in> set (Q QReady)" using q R by (cases xs) auto
    then have "queued Q (kthread_current s1)" using s1(5) R by (auto simp: queued_def)
    then show ?thesis using kinvD(4) [OF I] sched_frameD(3) [OF s1(4)] by (auto simp: main_ok_def)
  qed
  have l: "kthread_current s1 # (Q(QReady := tl ?R)) QReady = ?R" using s1(5) R by simp
  obtain s' Q' where s': "dispatch_times (length xs) s1 = Some s'" "kinv s' Q'" "running s' Q'"
    "kthread_current s' # Q' QReady = rotate (length xs) ?R" "\<forall>r. r \<noteq> QReady \<longrightarrow> Q' r = (Q(QReady := tl ?R)) r"
    using dispatch_times_rotates [OF s1(2,3) main, of "length xs"] unfolding l by blast
  have "kthread_current s' = p" using s'(4) unfolding R rotate_append by simp
  moreover have "sched_frame s s'"
    by (rule sched_frame_trans [OF s1(4) dispatch_times_frame [OF s'(1) s1(2,3)]])
  ultimately show ?thesis using s1(1) s'(1-3,5) by (intro exI [of _ s'] exI [of _ Q']) simp
qed

end
