(* ===== verification/Signal_Delivery.thy ===== *)
theory Signal_Delivery
  imports Signal_Thread
begin

text \<open>
  The two halves of the delivery of a signal: sending it wakes the waiting processor, and the processor, once it runs, takes the
  oldest signal and calls its handler. Between the two only the scheduler runs.
\<close>

section \<open>Waking the processor\<close>

lemma ring_put_same:
  assumes "ring_put sig s = Some s0"
  shows "thrs s0 = thrs s" "mtxs s0 = mtxs s" "cnds s0 = cnds s" "kscheduler_head s0 = kscheduler_head s"
    "kscheduler_tail s0 = kscheduler_tail s" "kthread_main s0 = kthread_main s" "kthread_current s0 = kthread_current s"
    "requests_mutex s0 = requests_mutex s" "requests_cond s0 = requests_cond s" "sig_handlers s0 = sig_handlers s"
    "ksig_addr s0 = ksig_addr s" "dev s0 = dev s" "info s0 = info s" "nxt s0 = nxt s"
proof -
  show t: "thrs s0 = thrs s" using assms by (auto simp: ring_put_def split: if_splits)
  show "info s0 = info s" "nxt s0 = nxt s" using t by (simp_all add: nxt_def info_def fun_eq_iff)
qed (use assms in \<open>auto simp: ring_put_def split: if_splits\<close>)

lemma ring_put_kinv:
  assumes put: "ring_put sig s = Some s0" and I: "kinv s Q" and run: "running s Q"
  shows "kinv s0 Q" "running s0 Q"
proof -
  note same = ring_put_same [OF put]
  show "kinv s0 Q" by (rule kinv_frame [OF I]) (use same in simp_all)
  show "running s0 Q" using run same by (simp add: running_def)
qed

lemma send_grants:
  assumes I: "kinv s Q" and run: "running s Q" and put: "ring_put sig s = Some s0"
    and p: "Q (QCond (requests_cond s)) = [p]" "info s p = Some (BLOCKED, requests_mutex s)"
    and c: "cnds s (requests_cond s) = Some z" and m: "mtxs s (requests_mutex s) = Some x" "owner x = NULL"
  shows "\<exists>s1. ksignal_send sig s = Some s1 \<and> kinv s1 (Q(QCond (requests_cond s) := [], QReady := Q QReady @ [p]))
    \<and> running s1 (Q(QCond (requests_cond s) := [], QReady := Q QReady @ [p])) \<and> same_objects s s1
    \<and> mtxs s1 = (mtxs s)(requests_mutex s \<mapsto> x\<lparr>owner := p, lock_count := 1\<rparr>)
    \<and> (\<forall>y. y \<noteq> p \<longrightarrow> info s1 y = info s y) \<and> sync_frame s0 s1"
proof -
  let ?m = "requests_mutex s" and ?c = "requests_cond s"
  note same = ring_put_same [OF put]
  note I0 = ring_put_kinv [OF put I run]
  have nq: "\<not> queued Q (kthread_current s)" using run by (simp add: running_def)
  have pc: "kthread_current s \<noteq> p" using nq p(1) unfolding queued_def by (metis list.set_intros(1))
  let ?Q1 = "Q(QCond ?c := [], QReady := Q QReady @ [p])"
  obtain s1 where s1: "kcond_signal ?c True s0 = Some s1" "kinv s1 ?Q1" "same_objects s0 s1"
    "mtxs s1 = (mtxs s0)(?m \<mapsto> x\<lparr>owner := p, lock_count := 1\<rparr>)" "\<forall>y. y \<noteq> p \<longrightarrow> info s1 y = info s0 y"
    "\<forall>y. \<not> queued Q y \<longrightarrow> nxt s1 y = nxt s0 y"
    using kcond_signal_grants [OF I0(1), of ?c z p "[]" ?m x] same c p m by auto
  have send: "ksignal_send sig s = Some s1" using put s1(1) same(9) by (simp add: ksignal_send_def)
  have o: "same_objects s s1" using s1(3) same by (simp add: same_objects_def)
  have "\<not> queued ?Q1 (kthread_current s)" using nq pc by (auto simp: queued_def split: if_splits)
  then have "running s1 ?Q1" using run o s1(5,6) same(13,14) nq pc by (simp add: running_def same_objects_def)
  then show ?thesis using send s1(2,4,5) o same(2,13) kcond_signal_frame [OF s1(1)] by (intro exI [of _ s1]) simp
qed

lemma send_wakes:
  assumes I: "kinv s Q" and run: "running s Q" and ring: "ring_ok s" "length (pending s) < 9"
    and p: "Q (QCond (requests_cond s)) = [p]" "info s p = Some (BLOCKED, requests_mutex s)"
    and c: "cnds s (requests_cond s) = Some z" and m: "mtxs s (requests_mutex s) = Some x" "owner x = NULL"
  shows "\<exists>s1. ksignal_send sig s = Some s1 \<and> kinv s1 (Q(QCond (requests_cond s) := [], QReady := Q QReady @ [p]))
    \<and> running s1 (Q(QCond (requests_cond s) := [], QReady := Q QReady @ [p]))
    \<and> kthread_current s1 = kthread_current s \<and> kthread_main s1 = kthread_main s
    \<and> mtxs s1 (requests_mutex s) = Some (x\<lparr>owner := p, lock_count := 1\<rparr>) \<and> ring_ok s1 \<and> pending s1 = pending s @ [sig]
    \<and> sig_handlers s1 = sig_handlers s \<and> requests_mutex s1 = requests_mutex s \<and> ksig_addr s1 = ksig_addr s
    \<and> (\<forall>y t. thrs s y = Some t \<longrightarrow> (\<exists>t'. thrs s1 y = Some t' \<and> ctx t' = ctx t))"
proof -
  obtain s0 where s0: "ring_put sig s = Some s0" "ring_ok s0" "pending s0 = pending s @ [sig]"
    using ring_put_pending [OF ring] by blast
  note same = ring_put_same [OF s0(1)]
  obtain s1 where s1: "ksignal_send sig s = Some s1" "kinv s1 (Q(QCond (requests_cond s) := [], QReady := Q QReady @ [p]))"
    "running s1 (Q(QCond (requests_cond s) := [], QReady := Q QReady @ [p]))" "same_objects s s1"
    "mtxs s1 = (mtxs s)(requests_mutex s \<mapsto> x\<lparr>owner := p, lock_count := 1\<rparr>)" "sync_frame s0 s1"
    using send_grants [OF I run s0(1) p c m] by blast
  note f = sync_frame_ring [OF s1(6)]
  have "\<exists>t'. thrs s1 y = Some t' \<and> ctx t' = ctx t" if "thrs s y = Some t" for y t
    using sync_frame_regs [OF s1(6), of y t] that same(1) by simp
  then show ?thesis
    using s1(1-5) f same s0(2,3) ring_same [OF f(1-3)] by (intro exI [of _ s1]) (simp add: same_objects_def)
qed

section \<open>The processor's turn\<close>

lemma processor_handles:
  assumes I: "kinv s Q" and run: "running s Q" and p: "kthread_current s = p" "thrs s p = Some t" "length (regs (ctx t)) = 16"
    and ring: "ring_ok s" "pending s = sig # later"
    and m: "requests_mutex s \<noteq> NULL" "mtxs s (requests_mutex s) = Some x" "owner x = p" "unlocked x" "Q (QMutex (requests_mutex s)) = []"
    and h: "handler_of sig s = Some h" "h \<noteq> NULL"
  shows "\<exists>s'. processor_steps im junk call 3 At_Test s = Some (At_Handle sig, s') \<and> pending s' = later
    \<and> (\<exists>x'. mtxs s' (requests_mutex s) = Some x' \<and> owner x' = NULL)
    \<and> signal_processor im junk call (At_Handle sig) s' = map_option (Pair At_Lock) (call h sig s')"
proof -
  let ?m = "requests_mutex s"
  obtain s1 where "ring_take s = Some (Some sig, s1)" "pending s1 = later"
    using ring_take_pending [OF ring(1)] ring(2) by auto
  then have tk: "req_head s \<noteq> req_tail s" "take_request s = Some (sig, s1)" "pending s1 = later"
    by (auto simp: ring_take_def bind_eq_Some_conv split: if_splits)
  have e: "thrs s1 = thrs s" "mtxs s1 = mtxs s" "cnds s1 = cnds s" "kscheduler_head s1 = kscheduler_head s"
    "kscheduler_tail s1 = kscheduler_tail s" "kthread_main s1 = kthread_main s" "kthread_current s1 = p"
    "requests_mutex s1 = ?m" "sig_handlers s1 = sig_handlers s"
    using tk(2) p(1) by (auto simp: take_request_def split: if_splits)
  have n1: "nxt s1 = nxt s" and i1: "info s1 = info s" using e(1) by (simp_all add: nxt_def info_def fun_eq_iff)
  have I1: "kinv s1 Q" by (rule kinv_frame [OF I n1 i1]) (use e in simp_all)
  have run1: "running s1 Q" using run p(1) e(7) n1 i1 by (simp add: running_def)
  have t1: "thrs s1 (kthread_current s1) = Some t" using p(2) e(1,7) by simp
  obtain s2 x' where s2: "ecall im junk 0x23 [?m] s1 = Some s2" "mtxs s2 ?m = Some x'" "owner x' = NULL"
    "requests s2 = requests s1" "req_head s2 = req_head s1" "req_tail s2 = req_tail s1" "sig_handlers s2 = sig_handlers s1"
    using ecall_unlock [OF I1 run1 t1 p(3) m(1), of x im junk] m(2-5) e(2,7) by auto
  have "processor_steps im junk call 3 At_Test s = Some (At_Handle sig, s2)"
    using tk(1,2) e(8) s2(1) by (simp add: eval_nat_numeral)
  moreover have "pending s2 = later" using ring_same [OF s2(4-6)] tk(3) by simp
  moreover have "handler_of sig s2 = Some h" using h(1) s2(7) e(9) by (simp add: handler_of_def split: if_splits)
  then have "signal_processor im junk call (At_Handle sig) s2 = map_option (Pair At_Lock) (call h sig s2)"
    using h(2) by (cases "call h sig s2") simp_all
  ultimately show ?thesis using s2(2,3) by blast
qed

section \<open>Runs without a thread\<close>

text \<open>A thread that is neither running nor in a queue does not come back in any run.\<close>

lemma kruns_everyone:
  assumes "kruns s0 s E" and "kinv s0 Q0" "running s0 Q0"
  shows "\<exists>Q. kinv s Q \<and> running s Q \<and> everyone s Q \<subseteq> everyone s0 Q0 \<and> kthread_main s = kthread_main s0"
  using assms
proof (induction rule: kruns.induct)
  case start
  then show ?case by auto
next
  case (step s E X s')
  then obtain Q where Q: "kinv s Q" "running s Q" "everyone s Q \<subseteq> everyone s0 Q0" "kthread_main s = kthread_main s0" by blast
  obtain Q' where "kinv s' Q'" "running s' Q'" "kthread_main s' = kthread_main s" "everyone s' Q' = everyone s Q - X"
    using kstep_ok [OF Q(1,2) step.hyps(2)] by blast
  then show ?case using Q(3,4) by (intro exI [of _ Q']) auto
qed

lemma gone_for_good:
  assumes "kruns s0 s E" and "kinv s0 Q0" "running s0 Q0" and "x \<notin> everyone s0 Q0" "x \<noteq> kthread_main s0"
  shows "kthread_current s \<noteq> x"
proof
  assume x: "kthread_current s = x"
  obtain Q where "everyone s Q \<subseteq> everyone s0 Q0" "kthread_main s = kthread_main s0"
    using kruns_everyone [OF assms(1-3)] by blast
  then show False using x assms(4,5) by (auto simp: everyone_def)
qed

section \<open>Stopping\<close>

lemma stop_runs_next:
  assumes I: "kinv s Q" and q: "Q QReady \<noteq> []"
  shows "\<exists>s' Q'. kthread_stop s = Some s' \<and> kinv s' Q' \<and> running s' Q' \<and> everyone s' Q' = placed Q - {kthread_main s}
    \<and> kthread_main s' = kthread_main s \<and> kthread_current s' # Q' QReady = Q QReady \<and> (\<forall>r. r \<noteq> QReady \<longrightarrow> Q' r = Q r)
    \<and> kthread_current s' \<noteq> kthread_main s' \<and> mtxs s' = mtxs s \<and> sync_frame s s'"
proof -
  let ?s = "s\<lparr>kthread_current := NULL\<rparr>"
  have I0: "kinv ?s Q" by (rule kinv_set_current [OF I])
  have R: "requeued ?s Q = Q QReady" by (simp add: requeued_def)
  obtain s' where s': "kthread_dispatch ?s = Some s'" "kinv s' (Q(QReady := tl (Q QReady)))" "running s' (Q(QReady := tl (Q QReady)))"
    "sched_frame ?s s'" "kthread_current s' = hd (Q QReady)"
    using kthread_dispatch_kinv [OF I0] q unfolding R by auto
  have main: "kthread_main s' = kthread_main s" using sched_frameD(3) [OF s'(4)] by simp
  have "queued Q (kthread_current s')" unfolding queued_def s'(5) using hd_in_set [OF q] by blast
  then have "kthread_current s' \<noteq> kthread_main s'" using kinvD(4) [OF I] main by (auto simp: main_ok_def)
  moreover have "everyone s' (Q(QReady := tl (Q QReady))) = placed Q - {kthread_main s}"
  proof -
    have "insert (kthread_current s') (placed (Q(QReady := tl (Q QReady)))) = placed Q"
      using placed_upd [of Q QReady "tl (Q QReady)"] placed_split [of Q QReady] s'(5) q by (cases "Q QReady") auto
    then show ?thesis using main by (simp add: everyone_def)
  qed
  moreover have "sync_frame s s'"
    using sync_frame_sched [OF s'(4)] by (simp add: sync_frame_def)
  ultimately show ?thesis
    using s' main q sched_frameD [OF s'(4)]
    by (intro exI [of _ s'] exI [of _ "Q(QReady := tl (Q QReady))"]) (simp add: kthread_stop_def)
qed

end
