(* ===== verification/System_Invariant.thy ===== *)
theory System_Invariant
  imports Kernel_System Kernel_Types Signal_Delivery
begin

text \<open>
  The kernel with its signal processor: sending a signal, an external interrupt and a fault keep the queues well formed and the
  processor's objects as it needs them.
\<close>

section \<open>Sending\<close>

definition served :: "addr \<Rightarrow> kernel \<Rightarrow> (qid \<Rightarrow> addr list) \<Rightarrow> bool" where
  "served p s Q \<longleftrightarrow> kinv s Q \<and> running s Q \<and> listens p (requests_mutex s) (requests_cond s) s Q \<and> ring_wf s"

lemma ring_wf_put: "ring_wf s \<Longrightarrow> \<exists>s0. ring_put sig s = Some s0"
  by (auto simp: ring_wf_def ring_put_def word_less_nat_alt)

lemma ring_wf_ok: "ring_wf s \<Longrightarrow> ring_ok s"
  by (simp add: ring_wf_def ring_ok_def word_less_nat_alt)

lemma keeps_objects: "keeps s s' \<Longrightarrow> requests_mutex s' = requests_mutex s \<and> requests_cond s' = requests_cond s"
  by (simp add: keeps_def same_static_def)

lemma served_upd:
  assumes "served p s Q" and "thrs s' = thrs s" "mtxs s' = mtxs s" "cnds s' = cnds s" "kscheduler_head s' = kscheduler_head s"
    "kscheduler_tail s' = kscheduler_tail s" "kthread_main s' = kthread_main s" "kthread_current s' = kthread_current s"
    "requests_mutex s' = requests_mutex s" "requests_cond s' = requests_cond s" "ring_wf s'"
  shows "served p s' Q"
proof -
  have n: "info s' = info s" "nxt s' = nxt s" using assms(2) by (simp_all add: info_def nxt_def fun_eq_iff)
  have "kinv s' Q" by (rule kinv_frame [of s]) (use assms n in \<open>simp_all add: served_def\<close>)
  moreover have "running s' Q" using assms n by (simp add: running_def served_def)
  moreover have "listens p (requests_mutex s) (requests_cond s) s' Q"
    by (rule listens_same [of p _ _ s Q]) (use assms n in \<open>simp_all add: served_def\<close>)
  ultimately show ?thesis using assms by (simp add: served_def)
qed

lemma send_served:
  assumes S: "served p s Q"
  shows "\<exists>s1 Q1. ksignal_send sig s = Some s1 \<and> served p s1 Q1 \<and> same_objects s s1 \<and> dev s1 = dev s \<and> placed Q1 = placed Q
    \<and> Q1 (QCond (requests_cond s)) = [] \<and> requests_cond s1 = requests_cond s
    \<and> (length (pending s) < 9 \<longrightarrow> pending s1 = pending s @ [sig])"
proof -
  let ?m = "requests_mutex s" and ?c = "requests_cond s"
  have I: "kinv s Q" and run: "running s Q" and L: "listens p ?m ?c s Q" and W: "ring_wf s" using S by (simp_all add: served_def)
  obtain s0 where s0: "ring_put sig s = Some s0" using ring_wf_put [OF W] by blast
  note same = ring_put_same [OF s0]
  have pend: "length (pending s) < 9 \<longrightarrow> pending s0 = pending s @ [sig]"
    using ring_put_pending [OF ring_wf_ok [OF W], of sig] s0 by auto
  obtain x z where x: "mtxs s ?m = Some x" "cnds s ?c = Some z" using L by (auto simp: listens_def)
  show ?thesis
  proof (cases "Q (QCond ?c) = []")
    case True
    have "kcond_signal ?c True s0 = Some s0"
      by (rule kcond_signal_empty [OF ring_put_kinv(1) [OF s0 I run] _ True]) (use x(2) same in simp)
    then have "ksignal_send sig s = Some s0" using s0 same by (simp add: ksignal_send_def)
    moreover have "served p s0 Q"
      by (rule served_upd [OF S]) (use same ring_put_keeps [OF s0] W in \<open>simp_all add: keeps_def\<close>)
    ultimately show ?thesis using same pend True by (intro exI [of _ s0] exI [of _ Q]) (simp add: same_objects_def)
  next
    case False
    then have q: "Q (QCond ?c) = [p]" "info s p = Some (BLOCKED, ?m)" "owner x = NULL" "\<not> recursive x"
      using L x by (auto simp: listens_def)
    let ?Q = "Q(QCond ?c := [], QReady := Q QReady @ [p])"
    obtain s1 where s1: "ksignal_send sig s = Some s1" "kinv s1 ?Q" "running s1 ?Q" "same_objects s s1"
      "mtxs s1 = (mtxs s)(?m \<mapsto> x\<lparr>owner := p, lock_count := 1\<rparr>)" "\<forall>y. y \<noteq> p \<longrightarrow> info s1 y = info s y" "sync_frame s0 s1"
      using send_grants [OF I run s0 q(1,2) x(2,1) q(3)] by blast
    note K = ksignal_send_keeps(1) [OF s1(1)]
    have np: "p \<notin> set (Q (QCond d))" if "d \<noteq> ?c" for d
      using queuesD(4) [OF kinvD(1) [OF I], of p "QCond ?c" "QCond d"] q(1) that by auto
    have c1: "cnds s1 ?c \<noteq> None" using x(2) s1(4) unfolding same_objects_def by blast
    have m1: "mtxs s1 ?m = Some (x\<lparr>owner := p, lock_count := 1\<rparr>)" using s1(5) by simp
    have "listens p ?m ?c s1 ?Q"
    proof (rule listensI [OF m1 _ _ _ _ c1])
      fix d y assume y: "y \<in> set (?Q (QCond d))" "info s1 y = Some (BLOCKED, ?m)"
      show "d = ?c"
      proof (rule ccontr)
        assume d: "d \<noteq> ?c"
        then have "y \<in> set (Q (QCond d))" "y \<noteq> p" using y(1) np by (auto split: if_splits)
        then show False using L s1(6) y(2) d unfolding listens_def by metis
      qed
    qed (use q L in \<open>simp_all add: listens_def\<close>)
    then have "served p s1 ?Q" using s1(2,3) K W keeps_objects [OF K] by (simp add: served_def keeps_def)
    moreover have "placed ?Q = placed Q" by (rule placed_move) (use q(1) in simp_all)
    moreover have "dev s1 = dev s" using sync_frame_ring(7) [OF s1(7)] same(12) by simp
    moreover have "pending s1 = pending s0" using sync_frame_ring(1-3) [OF s1(7)] by (rule ring_same)
    moreover have "?Q (QCond ?c) = []" by simp
    ultimately show ?thesis using s1(1,4) keeps_objects [OF K] pend by (intro exI [of _ s1] exI [of _ ?Q]) (simp only:)
  qed
qed

section \<open>Traps\<close>

text \<open>The interrupt controller hands out the numbers of its sources, from 1 to 15.\<close>

definition claims_ok :: "devices \<Rightarrow> bool" where
  "claims_ok d \<longleftrightarrow> (\<forall>c\<in>set (plic_claims d). (ucast c :: u8) \<noteq> 0 \<and> (ucast c :: u8) < 16)"

lemma ext_intr_loop_served:
  assumes "served p s Q" and "claims_ok (dev s)"
  shows "\<exists>s1 Q1. ext_intr_loop s = Some s1 \<and> served p s1 Q1 \<and> same_objects s s1 \<and> placed Q1 = placed Q
    \<and> plic_claims (dev s1) = [] \<and> requests_cond s1 = requests_cond s
    \<and> (Q (QCond (requests_cond s)) = [] \<or> intr_signals (plic_claims (dev s)) \<noteq> [] \<longrightarrow> Q1 (QCond (requests_cond s)) = [])
    \<and> (length (pending s) + length (intr_signals (plic_claims (dev s))) \<le> 9 \<longrightarrow>
         pending s1 = pending s @ intr_signals (plic_claims (dev s)))"
  using assms
proof (induction "plic_claims (dev s)" arbitrary: s Q)
  case Nil
  then have n: "plic_get_next (dev s) = (0, dev s)" by (simp add: plic_get_next_def)
  have "ext_intr_loop s = Some s" using n by (subst ext_intr_loop.simps) simp
  then show ?case using Nil by (intro exI [of _ s] exI [of _ Q]) (simp add: same_objects_def intr_signals_simps)
next
  case (Cons c cs)
  let ?d = "(dev s)\<lparr>plic_claims := cs\<rparr>" and ?i = "ucast c :: u8"
  let ?s = "s\<lparr>dev := ?d\<rparr>"
  have cl: "plic_claims (dev s) = c # cs" using Cons.hyps(2) by simp
  have n: "plic_get_next (dev s) = (?i, ?d)" by (simp add: plic_get_next_def cl)
  have i: "?i \<noteq> 0" "\<not> 16 \<le> ?i" using Cons.prems(2) cl by (auto simp: claims_ok_def)
  have step: "ext_intr_loop s = do {
      s \<leftarrow> (case ext_intr_signal ?i of None \<Rightarrow> Some ?s | Some sig \<Rightarrow> ksignal_send (signal_code sig) ?s);
      ext_intr_loop s }"
    using n i by (subst ext_intr_loop.simps) (simp add: Let_def)
  have S: "served p ?s Q" by (rule served_upd [OF Cons.prems(1)]) (use Cons.prems(1) in \<open>simp_all add: served_def ring_wf_def\<close>)
  let ?c = "requests_cond s"
  obtain s1 Q1 xs where s1: "(case ext_intr_signal ?i of None \<Rightarrow> Some ?s | Some sig \<Rightarrow> ksignal_send (signal_code sig) ?s) = Some s1"
    "served p s1 Q1" "same_objects s s1" "dev s1 = ?d" "placed Q1 = placed Q" "requests_cond s1 = ?c"
    "intr_signals (c # cs) = xs @ intr_signals cs" "Q (QCond ?c) = [] \<or> xs \<noteq> [] \<longrightarrow> Q1 (QCond ?c) = []"
    "length (pending s) + length xs \<le> 9 \<longrightarrow> pending s1 = pending s @ xs"
  proof (cases "ext_intr_signal ?i")
    case None
    show thesis
      by (rule that [of ?s Q "[]"]) (use None S in \<open>simp_all add: same_objects_def intr_signals_simps ring_dev\<close>)
  next
    case (Some sig)
    obtain s1 Q1 where "ksignal_send (signal_code sig) ?s = Some s1" "served p s1 Q1" "same_objects ?s s1" "dev s1 = dev ?s"
      "placed Q1 = placed Q" "Q1 (QCond (requests_cond ?s)) = []" "requests_cond s1 = requests_cond ?s"
      "length (pending ?s) < 9 \<longrightarrow> pending s1 = pending ?s @ [signal_code sig]"
      using send_served [OF S, of "signal_code sig"] by blast
    then show thesis
      by (intro that [of s1 Q1 "[signal_code sig]"]) (use Some in \<open>simp_all add: same_objects_def intr_signals_simps ring_dev\<close>)
  qed
  have "claims_ok (dev s1)" using Cons.prems(2) s1(4) cl by (simp add: claims_ok_def)
  moreover have d1: "cs = plic_claims (dev s1)" using s1(4) by simp
  ultimately obtain s2 Q2 where s2: "ext_intr_loop s1 = Some s2" "served p s2 Q2" "same_objects s1 s2" "placed Q2 = placed Q1"
    "plic_claims (dev s2) = []" "requests_cond s2 = requests_cond s1"
    "Q1 (QCond (requests_cond s1)) = [] \<or> intr_signals cs \<noteq> [] \<longrightarrow> Q2 (QCond (requests_cond s1)) = []"
    "length (pending s1) + length (intr_signals cs) \<le> 9 \<longrightarrow> pending s2 = pending s1 @ intr_signals cs"
    using Cons.hyps(1) [OF d1 s1(2)] by blast
  have "length (pending s) + length (xs @ intr_signals cs) \<le> 9 \<longrightarrow> pending s2 = pending s @ xs @ intr_signals cs"
    using s1(9) s2(8) by auto
  moreover have "Q (QCond ?c) = [] \<or> xs @ intr_signals cs \<noteq> [] \<longrightarrow> Q2 (QCond ?c) = []"
    using s1(8) s2(7) unfolding s1(6) by auto
  ultimately show ?case unfolding cl s1(7)
    using step s1(1,3,5,6) s2(1-6) by (intro exI [of _ s2] exI [of _ Q2]) (simp add: same_objects_def)
qed

lemma handle_ext_intr_served:
  assumes "served p s Q" and "claims_ok (dev s)"
  shows "\<exists>s1 Q1. handle_ext_intr s = Some s1 \<and> served p s1 Q1 \<and> same_objects s s1 \<and> placed Q1 = placed Q
    \<and> plic_claims (dev s1) = []
    \<and> (intr_signals (plic_claims (dev s)) \<noteq> [] \<longrightarrow> Q1 (QCond (requests_cond s1)) = [])
    \<and> (length (pending s) + length (intr_signals (plic_claims (dev s))) \<le> 9 \<longrightarrow>
         pending s1 = pending s @ intr_signals (plic_claims (dev s)))"
proof -
  obtain s1 Q1 where s1: "ext_intr_loop s = Some s1" "served p s1 Q1" "same_objects s s1" "placed Q1 = placed Q"
    "plic_claims (dev s1) = []" "requests_cond s1 = requests_cond s"
    "intr_signals (plic_claims (dev s)) \<noteq> [] \<longrightarrow> Q1 (QCond (requests_cond s)) = []"
    "length (pending s) + length (intr_signals (plic_claims (dev s))) \<le> 9 \<longrightarrow> pending s1 = pending s @ intr_signals (plic_claims (dev s))"
    using ext_intr_loop_served [OF assms] by blast
  let ?s = "clear_interrupt EXTERNAL_INTERRUPT s1"
  have "served p ?s Q1"
    by (rule served_upd [OF s1(2)]) (use s1(2) in \<open>simp_all add: clear_interrupt_def served_def ring_wf_def\<close>)
  moreover have "pending ?s = pending s1" by (rule ring_same) (simp_all add: clear_interrupt_def)
  ultimately show ?thesis
    using s1 by (intro exI [of _ ?s] exI [of _ Q1]) (simp add: handle_ext_intr_def clear_interrupt_def same_objects_def)
qed

lemma stop_served:
  assumes S: "served p s Q"
  shows "\<exists>s1 Q1. kthread_stop s = Some s1 \<and> served p s1 Q1 \<and> dom (thrs s1) = dom (thrs s) \<and> kthread_main s1 = kthread_main s
    \<and> everyone s1 Q1 = placed Q - {kthread_main s}"
proof -
  let ?m = "requests_mutex s" and ?c = "requests_cond s"
  have I: "kinv s Q" and L: "listens p ?m ?c s Q" using S by (simp_all add: served_def)
  obtain s1 Q1 where s1: "kthread_stop s = Some s1" "kinv s1 Q1" "everyone s1 Q1 = placed Q - {kthread_main s}"
    "dom (thrs s1) = dom (thrs s)" "kthread_main s1 = kthread_main s"
    using kthread_stop_steps [OF I] by blast
  have "listens p ?m ?c (s\<lparr>kthread_current := NULL\<rparr>) Q"
    by (rule listens_same [OF L]) (simp_all add: info_def fun_eq_iff)
  from dispatch_listens [OF kinv_set_current [OF I] this] s1(1)
  obtain Q2 where Q2: "kinv s1 Q2" "running s1 Q2" "listens p ?m ?c s1 Q2" by (auto simp: kthread_stop_def)
  have e: "Q2 = Q1" using queues_unique kinvD(1) [OF Q2(1)] kinvD(1) [OF s1(2)] by blast
  have "good s s1" by (rule switch_good(2) [OF s1(1)])
  then have K: "keeps s s1" by (simp add: good_def)
  have "served p s1 Q1" using Q2 K keeps_objects [OF K] S unfolding e by (simp add: served_def keeps_def)
  then show ?thesis using s1 by blast
qed

lemma fault_served:
  assumes S: "served p s Q"
  shows "\<exists>s1 Q1. fault sig s = Some s1 \<and> served p s1 Q1 \<and> dom (thrs s1) = dom (thrs s) \<and> kthread_main s1 = kthread_main s
    \<and> everyone s1 Q1 = everyone s Q - {kthread_current s}"
proof -
  obtain t where t: "thrs s (kthread_current s) = Some t" using running_live [of s Q] S by (auto simp: served_def)
  let ?s = "s\<lparr>ksig_addr := pc (ctx t)\<rparr>"
  have "served p ?s Q" by (rule served_upd [OF S]) (use S in \<open>simp_all add: served_def ring_wf_def\<close>)
  then obtain s1 Q1 where s1: "ksignal_send (signal_code sig) ?s = Some s1" "served p s1 Q1" "same_objects ?s s1" "placed Q1 = placed Q"
    using send_served by blast
  obtain s2 Q2 where s2: "kthread_stop s1 = Some s2" "served p s2 Q2" "dom (thrs s2) = dom (thrs s1)" "kthread_main s2 = kthread_main s1"
    "everyone s2 Q2 = placed Q1 - {kthread_main s1}" using stop_served [OF s1(2)] by blast
  have o: "dom (thrs s1) = dom (thrs s)" "kthread_main s1 = kthread_main s" using s1(3) unfolding same_objects_def by simp_all
  have "kthread_current s \<notin> placed Q" using S by (simp add: served_def running_def placed_def)
  then have "everyone s2 Q2 = everyone s Q - {kthread_current s}" using s2(5) s1(4) o(2) by (auto simp: everyone_def)
  then show ?thesis using t s1(1) s2 o by (intro exI [of _ s2] exI [of _ Q2]) (simp add: fault_def)
qed

lemma ret_served:
  assumes S: "served p s Q" and r: "set_ret_value v s = Some s'"
  shows "served p s' Q \<and> same_objects s s'"
proof -
  obtain s1 where s1: "set_ret_value v s = Some s1" "same_objects s s1"
    using set_ret_value_kinv [of s Q v] running_live [of s Q] S by (auto simp: served_def)
  have K: "keeps s s'" using ret_ends [OF r] keeps_shape by blast
  show ?thesis
    using ret_listens [of s Q p "requests_mutex s" "requests_cond s" v s'] S r s1 K keeps_objects [OF K] by (simp add: served_def keeps_def)
qed

end
