(* ===== verification/Memory_Frame.thy ===== *)
theory Memory_Frame
  imports Kernel_Types
begin

text \<open>
  What scheduling, synchronisation, signals and interrupts leave alone: the heap, which objects exist, and what memory a thread owns.
\<close>

section \<open>The frame\<close>

definition kept :: "'a kstate_scheme \<Rightarrow> addr \<Rightarrow> (addr \<times> addr \<times> addr) option" where
  "kept s x = map_option (\<lambda>t. (stack t, tdata t, local_data_head t)) (thrs s x)"

definition mem_frame :: "'a kstate_scheme \<Rightarrow> 'a kstate_scheme \<Rightarrow> bool" where
  "mem_frame s s' \<longleftrightarrow> kheap s' = kheap s \<and> dom (mtxs s') = dom (mtxs s) \<and> dom (cnds s') = dom (cnds s) \<and> kept s' = kept s"

lemma mem_frame_refl: "mem_frame s s"
  by (simp add: mem_frame_def)

lemma mem_frame_trans: "mem_frame s1 s2 \<Longrightarrow> mem_frame s2 s3 \<Longrightarrow> mem_frame s1 s3"
  by (simp add: mem_frame_def)

lemma mem_frame_same:
  assumes "kheap s' = kheap s" "mtxs s' = mtxs s" "cnds s' = cnds s" "thrs s' = thrs s"
  shows "mem_frame s s'"
  unfolding mem_frame_def kept_def [abs_def] by (simp add: assms)

lemma kept_dom: "dom (kept s) = dom (thrs s)"
  by (auto simp: kept_def)

lemma mem_frame_thrs: "mem_frame s s' \<Longrightarrow> dom (thrs s') = dom (thrs s)"
  by (simp add: mem_frame_def kept_dom [symmetric])

lemma upd_mem:
  "upd_thr p (\<lambda>t. t\<lparr>state := v\<rparr>) s = Some s' \<Longrightarrow> mem_frame s s'"
  "upd_thr p (\<lambda>t. t\<lparr>next_thr := q\<rparr>) s = Some s' \<Longrightarrow> mem_frame s s'"
  "upd_thr p (\<lambda>t. t\<lparr>waiting_on := q\<rparr>) s = Some s' \<Longrightarrow> mem_frame s s'"
  "upd_thr p (\<lambda>t. t\<lparr>ctx := c t\<rparr>) s = Some s' \<Longrightarrow> mem_frame s s'"
  "upd_mtx p f s = Some s' \<Longrightarrow> mem_frame s s'"
  "upd_cnd p g s = Some s' \<Longrightarrow> mem_frame s s'"
  by (simp_all add: upd_thr_def upd_mtx_def upd_cnd_def mem_frame_def kept_def fun_eq_iff split: option.splits)
    (clarsimp simp: kept_def insert_absorb domI fun_eq_iff)+

lemma set_ret_value_mem: "set_ret_value v s = Some s' \<Longrightarrow> mem_frame s s'"
  unfolding set_ret_value_def set_reg_def by (rule upd_mem(4))

section \<open>The operations\<close>

lemma sched_fields_mem:
  "mem_frame s (s'\<lparr>kscheduler_head := a\<rparr>) = mem_frame s s'" "mem_frame s (s'\<lparr>kscheduler_tail := a\<rparr>) = mem_frame s s'"
  "mem_frame s (s'\<lparr>kthread_current := a\<rparr>) = mem_frame s s'" "mem_frame (s\<lparr>kscheduler_head := a\<rparr>) s' = mem_frame s s'"
  "mem_frame (s\<lparr>kscheduler_tail := a\<rparr>) s' = mem_frame s s'" "mem_frame (s\<lparr>kthread_current := a\<rparr>) s' = mem_frame s s'"
  by (simp_all add: mem_frame_def kept_def fun_eq_iff)

lemmas mem_steps = bind_eq_Some_conv Let_def sched_fields_mem mem_frame_refl

lemma enqueue_mem: "kscheduler_enqueue a s = Some s' \<Longrightarrow> mem_frame s s'"
  by (auto simp: kscheduler_enqueue_def mem_steps split: if_splits dest!: upd_mem) (auto simp: mem_frame_def)

lemma dequeue_mem: "kscheduler_dequeue s = Some (a, s') \<Longrightarrow> mem_frame s s'"
  by (auto simp: kscheduler_dequeue_def mem_steps split: if_splits dest!: upd_mem) (auto simp: mem_frame_def)

lemma dispatch_mem: "kthread_dispatch s = Some s' \<Longrightarrow> mem_frame s s'"
  by (auto simp: kthread_dispatch_def mem_steps split: if_splits dest!: upd_mem enqueue_mem dequeue_mem) (auto simp: mem_frame_def)

lemma stop_mem: "kthread_stop s = Some s' \<Longrightarrow> mem_frame s s'"
  unfolding kthread_stop_def by (drule dispatch_mem) (simp add: sched_fields_mem)

lemma lock_mem: "kmutex_lock m a s = Some s' \<Longrightarrow> mem_frame s s'"
  by (auto simp: kmutex_lock_def mem_steps split: if_splits dest!: upd_mem) (auto simp: mem_frame_def)

lemma try_lock_mem: "kmutex_try_lock m a s = Some (r, s') \<Longrightarrow> mem_frame s s'"
  by (auto simp: kmutex_try_lock_def mem_steps split: if_splits dest!: upd_mem) (auto simp: mem_frame_def)

lemma unlock_mem: "kmutex_unlock m a s = Some (st, s') \<Longrightarrow> mem_frame s s'"
  by (auto simp: kmutex_unlock_def mem_steps split: if_splits dest!: upd_mem enqueue_mem) (auto simp: mem_frame_def)

lemma wait_mem: "kcond_wait c m a s = Some s' \<Longrightarrow> mem_frame s s'"
  by (auto simp: kcond_wait_def mem_steps split: if_splits dest!: upd_mem unlock_mem) (auto simp: mem_frame_def)

lemma signal_mem: "kcond_signal c e s = Some s' \<Longrightarrow> mem_frame s s'"
  by (auto simp: kcond_signal_def mem_steps split: if_splits dest!: upd_mem lock_mem enqueue_mem) (auto simp: mem_frame_def)

lemma signal_all_loop_mem: "signal_all_loop a s = Some s' \<Longrightarrow> mem_frame s s'"
proof (rule signal_all_loop.raw_induct [where P = "\<lambda>a s s'. mem_frame s s'"])
  fix f :: "addr \<Rightarrow> 'a kstate_scheme \<Rightarrow> 'a kstate_scheme option" and a and s s' :: "'a kstate_scheme"
  assume "\<And>a s s'. f a s = Some s' \<Longrightarrow> mem_frame s s'"
    and "(if a = NULL then Some s else do { t \<leftarrow> thrs s a; let nx = next_thr t; s \<leftarrow> kmutex_lock (waiting_on t) a s; f nx s }) = Some s'"
  then show "mem_frame s s'"
    by (auto simp: mem_steps split: if_splits dest!: lock_mem intro: mem_frame_trans)
qed

lemma signal_all_mem: "kcond_signal_all c s = Some s' \<Longrightarrow> mem_frame s s'"
  by (auto simp: kcond_signal_all_def mem_steps dest!: upd_mem signal_all_loop_mem intro: mem_frame_trans)

section \<open>System calls and signals\<close>

lemma sync_calls_mem:
  "syscall_mutex_lock s = Some s' \<Longrightarrow> mem_frame s s'" "syscall_mutex_try_lock s = Some s' \<Longrightarrow> mem_frame s s'"
  "syscall_mutex_unlock s = Some s' \<Longrightarrow> mem_frame s s'" "syscall_cond_wait s = Some s' \<Longrightarrow> mem_frame s s'"
  "syscall_cond_signal s = Some s' \<Longrightarrow> mem_frame s s'" "syscall_cond_signal_all s = Some s' \<Longrightarrow> mem_frame s s'"
  by (auto simp: syscall_mutex_lock_def syscall_mutex_try_lock_def syscall_mutex_unlock_def syscall_cond_wait_def syscall_cond_signal_def
      syscall_cond_signal_all_def mem_steps split: if_splits
      dest!: set_ret_value_mem lock_mem try_lock_mem unlock_mem wait_mem signal_mem signal_all_mem dispatch_mem intro: mem_frame_trans)

lemma ring_put_mem: "ring_put sig s = Some s' \<Longrightarrow> mem_frame s s'"
  by (rule mem_frame_same) (auto simp: ring_put_def split: if_splits)

lemma take_request_mem: "take_request s = Some (sig, s') \<Longrightarrow> mem_frame s s'"
  by (rule mem_frame_same) (auto simp: take_request_def split: if_splits)

lemma send_mem: "ksignal_send sig s = Some s' \<Longrightarrow> mem_frame s s'"
  by (auto simp: ksignal_send_def mem_steps dest!: ring_put_mem signal_mem intro: mem_frame_trans)

lemma kernel_calls_mem:
  "syscall_sig_raise s = Some s' \<Longrightarrow> mem_frame s s'" "syscall_sig_set_handler s = Some s' \<Longrightarrow> mem_frame s s'"
proof -
  show "syscall_sig_raise s = Some s' \<Longrightarrow> mem_frame s s'"
    by (auto simp: syscall_sig_raise_def mem_steps dest!: send_mem set_ret_value_mem intro: mem_frame_trans)
  have h: "ksignal_handle sig h s = Some (p, s1) \<Longrightarrow> mem_frame s s1" for sig h p s1
    by (rule mem_frame_same) (auto simp: ksignal_handle_def split: if_splits)
  show "syscall_sig_set_handler s = Some s' \<Longrightarrow> mem_frame s s'"
    by (auto simp: syscall_sig_set_handler_def mem_steps dest!: h set_ret_value_mem intro: mem_frame_trans)
qed

lemma fault_mem: "fault sig s = Some s' \<Longrightarrow> mem_frame s s'"
proof -
  assume "fault sig s = Some s'"
  then obtain t :: kthread and s1 where s1: "ksignal_send (signal_code sig) (s\<lparr>ksig_addr := pc (ctx t)\<rparr>) = Some s1" "kthread_stop s1 = Some s'"
    by (auto simp: fault_def bind_eq_Some_conv)
  have "mem_frame s (s\<lparr>ksig_addr := pc (ctx t)\<rparr>)" by (rule mem_frame_same) simp_all
  then show ?thesis using send_mem [OF s1(1)] stop_mem [OF s1(2)] mem_frame_trans by blast
qed

lemma ext_intr_loop_mem: "ext_intr_loop s = Some s' \<Longrightarrow> mem_frame s s'"
proof (rule ext_intr_loop.raw_induct [where P = "\<lambda>s s'. mem_frame s s'"])
  fix f :: "kernel \<Rightarrow> kernel option" and s s' :: kernel
  assume IH: "\<And>s s'. f s = Some s' \<Longrightarrow> mem_frame s s'"
    and r: "(let (intr, d) = plic_get_next (dev s); s = s\<lparr>dev := d\<rparr>
      in if intr = 0 then Some s else if 16 \<le> intr then None
         else do {
           s \<leftarrow> (case ext_intr_signal intr of None \<Rightarrow> Some s | Some sig \<Rightarrow> ksignal_send (signal_code sig) s);
           f s
         }) = Some s'"
  obtain intr d where d: "plic_get_next (dev s) = (intr, d)" by fastforce
  have g: "mem_frame s (s\<lparr>dev := d\<rparr>)" by (rule mem_frame_same) simp_all
  show "mem_frame s s'"
    using r d g IH by (auto simp: mem_steps split: if_splits option.splits dest!: send_mem intro: mem_frame_trans)
qed

lemma handle_ext_intr_mem: "handle_ext_intr s = Some s' \<Longrightarrow> mem_frame s s'"
proof -
  have "mem_frame s1 (clear_interrupt irq s1)" for s1 :: kernel and irq by (rule mem_frame_same) (simp_all add: clear_interrupt_def)
  then show "handle_ext_intr s = Some s' \<Longrightarrow> mem_frame s s'"
    by (auto simp: handle_ext_intr_def mem_steps dest!: ext_intr_loop_mem intro: mem_frame_trans)
qed

end
