(* ===== verification/Kernel_Objects.thy ===== *)
theory Kernel_Objects
  imports Kernel_System Boot
begin

text \<open>
  Kernel objects come and go: threads, mutexes and conditions are created in fresh segments of the heap and destroyed. First, what this
  means for the queues; then, who owns which segment.
\<close>

section \<open>The queues\<close>

text \<open>
  The two states differ in objects that no queue mentions. A mutex that goes may not be what a thread behind a condition waits for.
\<close>

definition objects_changed :: "'a kstate_scheme \<Rightarrow> (qid \<Rightarrow> addr list) \<Rightarrow> 'a kstate_scheme \<Rightarrow> bool" where
  "objects_changed s Q s' \<longleftrightarrow> kscheduler_head s' = kscheduler_head s \<and> kscheduler_tail s' = kscheduler_tail s
     \<and> kthread_main s' = kthread_main s \<and> kthread_current s' = kthread_current s
     \<and> thrs s' NULL = None \<and> (\<forall>x. queued Q x \<or> x = kthread_main s \<or> x = kthread_current s \<longrightarrow> thrs s' x = thrs s x)
     \<and> (\<forall>k. mtxs s' k \<noteq> mtxs s k \<longrightarrow> Q (QMutex k) = []
          \<and> (mtxs s' k = None \<longrightarrow> (\<forall>d y. y \<in> set (Q (QCond d)) \<longrightarrow> info s y \<noteq> Some (BLOCKED, k)))
          \<and> (\<forall>x. mtxs s' k = Some x \<longrightarrow> mq_head x = NULL \<and> mq_tail x = NULL))
     \<and> (\<forall>d. cnds s' d \<noteq> cnds s d \<longrightarrow> Q (QCond d) = [] \<and> (\<forall>z. cnds s' d = Some z \<longrightarrow> cq_head z = NULL \<and> cq_tail z = NULL))"

lemma objects_changed_threads:
  assumes "objects_changed s Q s'" and "queued Q x \<or> x = kthread_main s \<or> x = kthread_current s"
  shows "thrs s' x = thrs s x" "nxt s' x = nxt s x" "info s' x = info s x"
  using assms by (auto simp: objects_changed_def nxt_def info_def)

lemma objects_changedD:
  assumes "objects_changed s Q s'"
  shows "mtxs s' k \<noteq> mtxs s k \<Longrightarrow> Q (QMutex k) = []"
    "mtxs s' k \<noteq> mtxs s k \<Longrightarrow> mtxs s' k = Some x \<Longrightarrow> mq_head x = NULL \<and> mq_tail x = NULL"
    "mtxs s' k \<noteq> mtxs s k \<Longrightarrow> mtxs s' k = None \<Longrightarrow> y \<in> set (Q (QCond d)) \<Longrightarrow> info s y \<noteq> Some (BLOCKED, k)"
    "cnds s' d \<noteq> cnds s d \<Longrightarrow> Q (QCond d) = []"
    "cnds s' d \<noteq> cnds s d \<Longrightarrow> cnds s' d = Some z \<Longrightarrow> cq_head z = NULL \<and> cq_tail z = NULL"
    "kthread_main s' = kthread_main s" "kthread_current s' = kthread_current s" "thrs s' NULL = None"
    "kscheduler_head s' = kscheduler_head s" "kscheduler_tail s' = kscheduler_tail s"
  using assms unfolding objects_changed_def by blast+

lemma objects_changed_queues:
  assumes I: "kinv s Q" and C: "objects_changed s Q s'"
  shows "queues s' Q"
proof (rule queuesI)
  note K = kinvD [OF I] and D = objects_changedD [OF C]
  have same: "is_queue (nxt s') h t (Q q)" if "is_queue (nxt s) h t (Q q)" for h t q
    using is_queue_cong [of "Q q" "nxt s'" "nxt s" h t] that objects_changed_threads(2) [OF C] by (auto simp: queued_def)
  have ends: "q_ends s' q = q_ends s q \<or> Q q = [] \<and> (q_ends s' q = None \<or> q_ends s' q = Some (NULL, NULL))" for q
  proof (cases q)
    case QReady
    then show ?thesis by (simp add: D(9,10))
  next
    case (QMutex k)
    then show ?thesis
    proof (cases "mtxs s' k = mtxs s k")
      case False
      then show ?thesis using D(1) [OF False] D(2) [OF False] QMutex by (cases "mtxs s' k") simp_all
    qed simp
  next
    case (QCond d)
    then show ?thesis
    proof (cases "cnds s' d = cnds s d")
      case False
      then show ?thesis using D(4) [OF False] D(5) [OF False] QCond by (cases "cnds s' d") simp_all
    qed simp
  qed
  show "is_queue (nxt s') h t (Q q)" if "q_ends s' q = Some (h, t)" for q h t
    using ends [of q] that same queuesD(1) [OF K(1)] by (auto simp: is_queue_empty)
  show "Q q = []" if "q_ends s' q = None" for q
    using ends [of q] that queuesD(2) [OF K(1), of q] by auto
  show "x \<in> dom (thrs s')" if "x \<in> set (Q q)" for q x
  proof -
    have "thrs s' x = thrs s x" by (rule objects_changed_threads(1) [OF C]) (use that in \<open>auto simp: queued_def\<close>)
    then show ?thesis using queuesD(3) [OF K(1) that] by (simp add: dom_def)
  qed
  show "q = r" if "x \<in> set (Q q)" "x \<in> set (Q r)" for x q r using queuesD(4) [OF K(1) that] .
  show "thrs s' NULL = None" by (rule D(8))
qed

lemma objects_changed_kinv:
  assumes I: "kinv s Q" and C: "objects_changed s Q s'"
  shows "kinv s' Q" "running s Q \<Longrightarrow> running s' Q"
proof -
  note K = kinvD [OF I] and T = objects_changed_threads [OF C] and D = objects_changedD [OF C]
  have "place_ok s' q x" if x: "x \<in> set (Q q)" for q x
  proof -
    have i: "info s' x = info s x" using T(3) x by (auto simp: queued_def)
    show ?thesis
    proof (cases q)
      case (QCond d)
      obtain m where m: "info s x = Some (BLOCKED, m)" "mtxs s m \<noteq> None" using K(2) [OF x] QCond by auto
      have "mtxs s' m \<noteq> None"
      proof (cases "mtxs s' m = mtxs s m")
        case False
        then show ?thesis using D(3) [OF False] x m(1) unfolding QCond by blast
      qed (use m(2) in simp)
      then show ?thesis using m(1) i QCond by simp
    qed (use K(2) [OF x] i in auto)
  qed
  moreover have "mutex_ok Q m x" if "mtxs s' m = Some x" for m x
  proof (cases "mtxs s' m = mtxs s m")
    case True
    then show ?thesis using K(3) that by simp
  next
    case False
    then show ?thesis using D(1) by (simp add: mutex_ok_def)
  qed
  moreover have "main_ok s' Q"
    using K(4) T [of "kthread_main s"] D(6) by (auto simp: main_ok_def dom_def)
  ultimately show "kinv s' Q" using objects_changed_queues [OF I C] by (simp add: kinv_def)
  show "running s' Q" if "running s Q"
    using that T [of "kthread_current s"] D(7) by (simp add: running_def)
qed

lemma objects_changed_listens:
  assumes L: "listens p m c s Q" and C: "objects_changed s Q s'" and m: "mtxs s' m = mtxs s m" and c: "cnds s' c = cnds s c"
  shows "listens p m c s' Q"
proof -
  have i: "info s' y = info s y" if "y \<in> set (Q q)" for y q
    using that objects_changed_threads(3) [OF C, of y] by (auto simp: queued_def)
  obtain x where x: "mtxs s m = Some x" "\<not> recursive x" "owner x = NULL \<or> owner x = p"
    "Q (QCond c) = [] \<or> Q (QCond c) = [p] \<and> info s p = Some (BLOCKED, m) \<and> owner x = NULL"
    using L by (auto simp: listens_def)
  have x': "mtxs s' m = Some x" using x(1) m by simp
  show ?thesis
  proof (rule listensI [OF x' x(2,3)])
    show "Q (QCond c) = [] \<or> Q (QCond c) = [p] \<and> info s' p = Some (BLOCKED, m) \<and> owner x = NULL"
      using x(4) i [of p "QCond c"] by auto
    show "cnds s' c \<noteq> None" "Q (QMutex m) = []" using L c by (simp_all add: listens_def)
    show "d = c" if "y \<in> set (Q (QCond d))" "info s' y = Some (BLOCKED, m)" for d y
      using that i L unfolding listens_def by metis
  qed
qed

end
