(* ===== verification/Memory_Owners.thy ===== *)
theory Memory_Owners
  imports Memory_Frame Kernel_Objects
begin

text \<open>
  Who owns the memory: every live segment of the heap belongs to exactly one kernel object, as its record, its stack or its thread-local
  data, or to the user, and every object has its segments.
\<close>

section \<open>Pieces of memory\<close>

text \<open>What a segment is used for; a stack and thread-local data belong to the thread at an address.\<close>

datatype piece = Thr | Stk addr | Tda addr | Mtx | Cnd | Usr

fun fits_piece :: "image \<Rightarrow> piece \<Rightarrow> nat \<Rightarrow> bool" where
  "fits_piece im Thr n = (n = blocks_of sizeof_kthread)"
| "fits_piece im (Stk t) n = (n = blocks_of KTHREAD_STACK_SIZE)"
| "fits_piece im (Tda t) n = (n = blocks_of (tdata_size im))"
| "fits_piece im Mtx n = (n = blocks_of sizeof_kmutex)"
| "fits_piece im Cnd n = (n = blocks_of sizeof_kcond)"
| "fits_piece im Usr n = True"

text \<open>The use of the address \<open>q\<close> in a state, where \<open>U\<close> are the addresses the user has allocated and not given back.\<close>

fun used_as :: "addr set \<Rightarrow> kernel \<Rightarrow> addr \<Rightarrow> piece \<Rightarrow> bool" where
  "used_as U s q Thr = (q \<in> dom (thrs s) \<and> q \<noteq> kthread_main s)"
| "used_as U s q (Stk t) = (t \<noteq> kthread_main s \<and> (\<exists>x. kept s t = Some (q, x)))"
| "used_as U s q (Tda t) = (t \<noteq> kthread_main s \<and> (\<exists>k l. kept s t = Some (k, q, l)))"
| "used_as U s q Mtx = (q \<in> dom (mtxs s) \<and> q \<noteq> requests_mutex s)"
| "used_as U s q Cnd = (q \<in> dom (cnds s) \<and> q \<noteq> requests_cond s)"
| "used_as U s q Usr = (q \<in> U)"

definition covers :: "image \<Rightarrow> (addr \<rightharpoonup> nat) \<Rightarrow> (addr \<Rightarrow> piece \<Rightarrow> bool) \<Rightarrow> bool" where
  "covers im L P \<longleftrightarrow> (\<forall>q. (\<exists>x. P q x) \<longleftrightarrow> q \<in> dom L) \<and> (\<forall>q x y. P q x \<longrightarrow> P q y \<longrightarrow> x = y)
     \<and> (\<forall>q x n. P q x \<longrightarrow> L q = Some n \<longrightarrow> fits_piece im x n)"

lemma coversD:
  assumes "covers im L P"
  shows "P q x \<Longrightarrow> q \<in> dom L" "q \<in> dom L \<Longrightarrow> \<exists>x. P q x" "P q x \<Longrightarrow> P q y \<Longrightarrow> x = y" "P q x \<Longrightarrow> L q = Some n \<Longrightarrow> fits_piece im x n"
  using assms unfolding covers_def by blast+

lemma covers_add:
  assumes C: "covers im L P" and q: "L q = None" and x: "fits_piece im x b"
    and P': "\<And>r y. P' r y \<longleftrightarrow> P r y \<or> r = q \<and> y = x"
  shows "covers im (L(q \<mapsto> b)) P'"
proof -
  have nq: "\<not> P q y" for y using coversD(1) [OF C, of q y] q by auto
  show ?thesis
    unfolding covers_def
  proof (intro conjI allI impI)
    show "(\<exists>x. P' r x) \<longleftrightarrow> r \<in> dom (L(q \<mapsto> b))" for r using coversD(1,2) [OF C, of r] P' by auto
    show "y = z" if "P' r y" "P' r z" for r y z using that P' nq coversD(3) [OF C, of r y z] by auto
    show "fits_piece im y n" if "P' r y" "(L(q \<mapsto> b)) r = Some n" for r y n
      using that P' nq coversD(4) [OF C, of r y n] x by (auto split: if_splits)
  qed
qed

lemma covers_remove:
  assumes C: "covers im L P" and P': "\<And>r y. P' r y \<longleftrightarrow> P r y \<and> r \<noteq> q"
  shows "covers im (L(q := None)) P'"
  unfolding covers_def
proof (intro conjI allI impI)
  show "(\<exists>x. P' r x) \<longleftrightarrow> r \<in> dom (L(q := None))" for r using coversD(1,2) [OF C, of r] P' by auto
  show "y = z" if "P' r y" "P' r z" for r y z using that P' coversD(3) [OF C, of r y z] by auto
  show "fits_piece im y n" if "P' r y" "(L(q := None)) r = Some n" for r y n
    using that P' coversD(4) [OF C, of r y n] by (auto split: if_splits)
qed

section \<open>The owners\<close>

definition owned :: "addr \<Rightarrow> nat \<Rightarrow> image \<Rightarrow> addr set \<Rightarrow> kernel \<Rightarrow> (addr \<rightharpoonup> nat) \<Rightarrow> bool" where
  "owned HS N im U s L \<longleftrightarrow> holds HS N L (kheap s) \<and> covers im L (used_as U s) \<and> image_ok HS N im (kram s)
     \<and> unat (kthread_main s) < unat HS \<and> unat (requests_mutex s) < unat HS \<and> unat (requests_cond s) < unat HS
     \<and> (\<forall>t k d l. kept s t = Some (k, d, l) \<longrightarrow> l = NULL)"

lemma kept_upd [simp]:
  "kept (s\<lparr>kheap := a\<rparr>) = kept s" "kept (s\<lparr>kram := b\<rparr>) = kept s" "kept (s\<lparr>mtxs := c\<rparr>) = kept s" "kept (s\<lparr>cnds := d\<rparr>) = kept s"
  by (simp_all add: kept_def fun_eq_iff)

lemma used_as_heap: "used_as U (s\<lparr>kheap := h\<rparr>) = used_as U s"
proof (intro ext)
  show "used_as U (s\<lparr>kheap := h\<rparr>) q x = used_as U s q x" for q x by (cases x) simp_all
qed

lemma piece_frame:
  assumes "mem_frame s s'" and "kthread_main s' = kthread_main s" "requests_mutex s' = requests_mutex s" "requests_cond s' = requests_cond s"
  shows "used_as U s' q x = used_as U s q x"
  using assms mem_frame_thrs [OF assms(1)] by (cases x) (simp_all add: mem_frame_def)

lemma owned_frame:
  assumes O: "owned HS N im U s L" and F: "mem_frame s s'" and k: "same_static s s'"
  shows "owned HS N im U s' L"
proof -
  have e: "kheap s' = kheap s" "kept s' = kept s" using F by (simp_all add: mem_frame_def)
  have k': "kthread_main s' = kthread_main s" "requests_mutex s' = requests_mutex s" "requests_cond s' = requests_cond s"
    "dom (kram s') = dom (kram s)" using k by (simp_all add: same_static_def)
  have "used_as U s' = used_as U s" by (intro ext) (rule piece_frame [OF F k'(1-3)])
  then show ?thesis using O e k' image_ok_dom [OF k'(4)] by (simp add: owned_def)
qed

text \<open>A fresh segment is behind all static data and is used for nothing.\<close>

lemma owned_fresh:
  assumes O: "owned HS N im U s L" and q: "L q = None" and h: "holds HS N (L(q \<mapsto> b)) h"
  shows "q \<notin> dom (thrs s)" "q \<notin> dom (mtxs s)" "q \<notin> dom (cnds s)" "q \<notin> U" "\<not> used_as U s q x" "unat HS \<le> unat q"
proof -
  have C: "covers im L (used_as U s)" using O by (simp add: owned_def)
  show n: "\<not> used_as U s q x" for x using coversD(1) [OF C] q by auto
  have "unat HS + 12 \<le> unat q" using holds_range(1) [OF h, of q b] by simp
  then show u: "unat HS \<le> unat q" by simp
  have s: "q \<noteq> kthread_main s" "q \<noteq> requests_mutex s" "q \<noteq> requests_cond s" using O u by (auto simp: owned_def)
  show "q \<notin> dom (thrs s)" "q \<notin> dom (mtxs s)" "q \<notin> dom (cnds s)" "q \<notin> U"
    using n [of Thr] n [of Mtx] n [of Cnd] n [of Usr] s by simp_all
qed

lemma owned_fresh_static:
  assumes O: "owned HS N im U s L" and q: "unat HS \<le> unat q"
  shows "q \<noteq> kthread_main s" "q \<noteq> requests_mutex s" "q \<noteq> requests_cond s"
  using assms by (auto simp: owned_def)

text \<open>The state changes the heap, the memory and the objects as said; what is not written out is unchanged.\<close>

lemma owned_user_add:
  assumes O: "owned HS N im U s L" and q: "L q = None" and h: "holds HS N (L(q \<mapsto> b)) h"
  shows "owned HS N im (insert q U) (s\<lparr>kheap := h\<rparr>) (L(q \<mapsto> b))"
proof -
  have C: "covers im L (used_as U s)" using O by (simp add: owned_def)
  have P: "used_as (insert q U) (s\<lparr>kheap := h\<rparr>) r y \<longleftrightarrow> used_as U s r y \<or> r = q \<and> y = Usr" for r y
    by (cases y) auto
  have f: "fits_piece im Usr b" by simp
  from covers_add [OF C q f P] show ?thesis using O h by (simp add: owned_def)
qed

lemma owned_user_remove:
  assumes O: "owned HS N im U s L" and q: "q \<in> U" and h: "holds HS N (L(q := None)) h"
  shows "owned HS N im (U - {q}) (s\<lparr>kheap := h\<rparr>) (L(q := None))"
proof -
  have C: "covers im L (used_as U s)" using O by (simp add: owned_def)
  have u: "used_as U s q y \<longleftrightarrow> y = Usr" for y using coversD(3) [OF C, of q y Usr] q by auto
  have P: "used_as (U - {q}) (s\<lparr>kheap := h\<rparr>) r y \<longleftrightarrow> used_as U s r y \<and> r \<noteq> q" for r y
    using u [of y] by (cases y) auto
  from covers_remove [OF C P] show ?thesis using O h by (simp add: owned_def)
qed

lemma owned_mutex_add:
  assumes O: "owned HS N im U s L" and q: "L q = None" and h: "holds HS N (L(q \<mapsto> blocks_of sizeof_kmutex)) h"
    and s': "s' = s\<lparr>kheap := h, mtxs := (mtxs s)(q \<mapsto> x)\<rparr>"
  shows "owned HS N im U s' (L(q \<mapsto> blocks_of sizeof_kmutex))"
proof -
  have C: "covers im L (used_as U s)" using O by (simp add: owned_def)
  note F = owned_fresh [OF O q h]
  have P: "used_as U s' r y \<longleftrightarrow> used_as U s r y \<or> r = q \<and> y = Mtx" for r y
    using owned_fresh_static [OF O F(6)] by (cases y) (auto simp: s')
  have f: "fits_piece im Mtx (blocks_of sizeof_kmutex)" by simp
  from covers_add [OF C q f P] show ?thesis using O h by (simp add: owned_def s')
qed

lemma owned_mutex_remove:
  assumes O: "owned HS N im U s L" and q: "q \<in> dom (mtxs s)" "q \<noteq> requests_mutex s" and h: "holds HS N (L(q := None)) h"
    and s': "s' = s\<lparr>kheap := h, mtxs := (mtxs s)(q := None)\<rparr>"
  shows "owned HS N im U s' (L(q := None))"
proof -
  have C: "covers im L (used_as U s)" using O by (simp add: owned_def)
  have u: "used_as U s q y \<longleftrightarrow> y = Mtx" for y using coversD(3) [OF C, of q y Mtx] q by auto
  have P: "used_as U s' r y \<longleftrightarrow> used_as U s r y \<and> r \<noteq> q" for r y
    using u [of y] by (cases y) (auto simp: s')
  from covers_remove [OF C P] show ?thesis using O h by (simp add: owned_def s')
qed

lemma owned_cond_add:
  assumes O: "owned HS N im U s L" and q: "L q = None" and h: "holds HS N (L(q \<mapsto> blocks_of sizeof_kcond)) h"
    and s': "s' = s\<lparr>kheap := h, cnds := (cnds s)(q \<mapsto> x)\<rparr>"
  shows "owned HS N im U s' (L(q \<mapsto> blocks_of sizeof_kcond))"
proof -
  have C: "covers im L (used_as U s)" using O by (simp add: owned_def)
  note F = owned_fresh [OF O q h]
  have P: "used_as U s' r y \<longleftrightarrow> used_as U s r y \<or> r = q \<and> y = Cnd" for r y
    using owned_fresh_static [OF O F(6)] by (cases y) (auto simp: s')
  have f: "fits_piece im Cnd (blocks_of sizeof_kcond)" by simp
  from covers_add [OF C q f P] show ?thesis using O h by (simp add: owned_def s')
qed

lemma owned_cond_remove:
  assumes O: "owned HS N im U s L" and q: "q \<in> dom (cnds s)" "q \<noteq> requests_cond s" and h: "holds HS N (L(q := None)) h"
    and s': "s' = s\<lparr>kheap := h, cnds := (cnds s)(q := None)\<rparr>"
  shows "owned HS N im U s' (L(q := None))"
proof -
  have C: "covers im L (used_as U s)" using O by (simp add: owned_def)
  have u: "used_as U s q y \<longleftrightarrow> y = Cnd" for y using coversD(3) [OF C, of q y Cnd] q by auto
  have P: "used_as U s' r y \<longleftrightarrow> used_as U s r y \<and> r \<noteq> q" for r y
    using u [of y] by (cases y) (auto simp: s')
  from covers_remove [OF C P] show ?thesis using O h by (simp add: owned_def s')
qed

lemma owned_thread_add:
  assumes O: "owned HS N im U s L" and p: "L p = None" "L k = None" "L d = None" "distinct [p, k, d]"
    and h: "holds HS N (L(p \<mapsto> blocks_of sizeof_kthread, k \<mapsto> blocks_of KTHREAD_STACK_SIZE, d \<mapsto> blocks_of (tdata_size im))) h"
    and m: "dom m = dom (kram s)" and t: "stack t = k" "tdata t = d" "local_data_head t = NULL"
    and s': "s' = s\<lparr>kheap := h, kram := m, thrs := (thrs s)(p \<mapsto> t)\<rparr>"
  shows "owned HS N im U s' (L(p \<mapsto> blocks_of sizeof_kthread, k \<mapsto> blocks_of KTHREAD_STACK_SIZE, d \<mapsto> blocks_of (tdata_size im)))"
proof -
  let ?L1 = "L(p \<mapsto> blocks_of sizeof_kthread)" and ?L2 = "L(p \<mapsto> blocks_of sizeof_kthread, k \<mapsto> blocks_of KTHREAD_STACK_SIZE)"
  have C: "covers im L (used_as U s)" using O by (simp add: owned_def)
  have kp: "kept s' = (kept s)(p \<mapsto> (k, d, NULL))" using t by (simp add: s' kept_def fun_eq_iff)
  have "unat HS + 12 \<le> unat p" using holds_range(1) [OF h, of p] p(4) by simp
  then have pm: "p \<noteq> kthread_main s" using O by (auto simp: owned_def)
  have pn: "\<not> used_as U s p Thr" using coversD(1) [OF C, of p Thr] p(1) by auto
  then have pd: "kept s p = None" using pm kept_dom [of s] by auto
  have C1: "covers im ?L1 (\<lambda>r y. used_as U s r y \<or> r = p \<and> y = Thr)" by (rule covers_add [OF C p(1)]) simp_all
  have C2: "covers im ?L2 (\<lambda>r y. used_as U s r y \<or> r = p \<and> y = Thr \<or> r = k \<and> y = Stk p)"
    by (rule covers_add [OF C1]) (use p in auto)
  have C3: "covers im (?L2(d \<mapsto> blocks_of (tdata_size im))) (used_as U s')"
  proof (rule covers_add [OF C2])
    show "used_as U s' r y \<longleftrightarrow> (used_as U s r y \<or> r = p \<and> y = Thr \<or> r = k \<and> y = Stk p) \<or> r = d \<and> y = Tda p" for r y
      using pm pd by (cases y) (auto simp: kp [unfolded s'] s')
  qed (use p in auto)
  have "l = NULL" if "kept s' x = Some (a, b, l)" for x a b l
    using that O unfolding kp by (cases "x = p") (auto simp: owned_def)
  then show ?thesis using C3 O h m image_ok_dom [of m "kram s"] unfolding s' by (simp add: owned_def)
qed

lemma owned_thread_remove:
  assumes O: "owned HS N im U s L" and p: "thrs s p = Some t" "p \<noteq> kthread_main s"
  shows "\<exists>h. kthread_destroy p s = Some (s\<lparr>kheap := h, thrs := (thrs s)(p := None)\<rparr>)
    \<and> owned HS N im U (s\<lparr>kheap := h, thrs := (thrs s)(p := None)\<rparr>) (L(stack t := None, tdata t := None, p := None))"
proof -
  have C: "covers im L (used_as U s)" and H: "holds HS N L (kheap s)" using O by (simp_all add: owned_def)
  have kt: "kept s p = Some (stack t, tdata t, local_data_head t)" using p(1) by (simp add: kept_def)
  then have ld: "local_data_head t = NULL" using O by (auto simp: owned_def)
  have u: "used_as U s (stack t) (Stk p)" "used_as U s (tdata t) (Tda p)" "used_as U s p Thr" using kt p by auto
  obtain a b c where l: "L (stack t) = Some a" "L (tdata t) = Some b" "L p = Some c" 
    using coversD(1) [OF C u(1)] coversD(1) [OF C u(2)] coversD(1) [OF C u(3)] by (auto simp: dom_def)
  have one: "used_as U s (stack t) y \<longleftrightarrow> y = Stk p" "used_as U s (tdata t) y \<longleftrightarrow> y = Tda p" "used_as U s p y \<longleftrightarrow> y = Thr" for y
    using coversD(3) [OF C _ u(1), of y] coversD(3) [OF C _ u(2), of y] coversD(3) [OF C _ u(3), of y] u by auto
  have ne: "stack t \<noteq> tdata t" "stack t \<noteq> p" "tdata t \<noteq> p"
    using one(2) [of "Stk p"] one(3) [of "Stk p"] one(3) [of "Tda p"] u(1,2) by auto
  obtain h where h: "kthread_destroy p s = Some (s\<lparr>kheap := h, thrs := (thrs s)(p := None)\<rparr>)"
    "holds HS N (L(stack t := None, tdata t := None, p := None)) h"
    using kthread_destroy_holds [OF H p(1) ld l ne] by blast
  let ?s = "s\<lparr>kheap := h, thrs := (thrs s)(p := None)\<rparr>"
  have kp: "kept ?s = (kept s)(p := None)" by (simp add: kept_def fun_eq_iff)
  have P: "used_as U ?s r y \<longleftrightarrow> ((used_as U s r y \<and> r \<noteq> stack t) \<and> r \<noteq> tdata t) \<and> r \<noteq> p" for r y
    using one(1) [of y] one(2) [of y] one(3) [of y] kt by (cases y) (auto simp: kp)
  have "covers im (L(stack t := None, tdata t := None, p := None)) (used_as U ?s)"
    by (rule covers_remove [OF covers_remove [OF covers_remove [OF C]] P]) auto
  moreover have "l = NULL" if "kept ?s x = Some (a, b, l)" for x a b l
    using that O unfolding kp by (cases "x = p") (auto simp: owned_def)
  ultimately show ?thesis using h O by (intro exI [of _ h]) (simp add: owned_def)
qed

end
