(* ===== verification/System_Steps.thy ===== *)
theory System_Steps
  imports System_Invariant Memory_Owners
begin

text \<open>
  The runs of the whole kernel: threads, their system calls, the creation and destruction of objects, signals, interrupts and
  faults; and their invariant.
\<close>

section \<open>The invariant\<close>

text \<open>
  \<open>p\<close> is the processor of signals, \<open>E\<close> the threads that have exited or faulted and still exist, \<open>U\<close> the user's memory, \<open>L\<close> the ledger of
  the heap. Every other thread runs or is in a queue.
\<close>

definition sound :: "addr \<Rightarrow> nat \<Rightarrow> image \<Rightarrow> addr \<Rightarrow> addr set \<Rightarrow> addr set \<Rightarrow> kernel \<Rightarrow> (qid \<Rightarrow> addr list) \<Rightarrow> (addr \<rightharpoonup> nat) \<Rightarrow> bool" where
  "sound HS N im p U E s Q L \<longleftrightarrow> served p s Q \<and> owned HS N im U s L \<and> regs_ok s
     \<and> everyone s Q = dom (thrs s) - {kthread_main s} - E"

lemma soundD:
  assumes "sound HS N im p U E s Q L"
  shows "served p s Q" "owned HS N im U s L" "regs_ok s" "everyone s Q = dom (thrs s) - {kthread_main s} - E"
    "kinv s Q" "running s Q" "holds HS N L (kheap s)"
  using assms by (simp_all add: sound_def served_def owned_def)

lemma sound_step:
  assumes S: "sound HS N im p U E s Q L" and s': "served p s' Q'" "everyone s' Q' = everyone s Q - X"
    and F: "mem_frame s s'" "keeps s s'"
  shows "sound HS N im p U ((E \<union> X) \<inter> dom (thrs s')) s' Q' L"
proof -
  have st: "same_static s s'" using F(2) by (simp add: keeps_def)
  have "everyone s' Q' = dom (thrs s') - {kthread_main s'} - ((E \<union> X) \<inter> dom (thrs s'))"
    using s'(2) soundD(4) [OF S] mem_frame_thrs [OF F(1)] st by (auto simp: same_static_def)
  then show ?thesis
    using s'(1) owned_frame [OF soundD(2) [OF S] F(1) st] soundD(3) [OF S] F(2) by (simp add: sound_def keeps_def)
qed

lemma sound_same:
  assumes S: "sound HS N im p U E s Q L" and s': "served p s' Q" "same_objects s s'" and F: "mem_frame s s'" "keeps s s'"
  shows "sound HS N im p U E s' Q L"
proof -
  have "everyone s' Q = everyone s Q" using s'(2) by (simp add: everyone_def same_objects_def)
  moreover have "same_static s s'" using F(2) by (simp add: keeps_def)
  ultimately show ?thesis
    using s' owned_frame [OF soundD(2) [OF S] F(1)] S F(2) by (auto simp: sound_def keeps_def same_objects_def)
qed

text \<open>A result is returned, a word of memory is written.\<close>

lemma ret_sound:
  assumes S: "sound HS N im p U E s Q L"
  shows "\<exists>s'. set_ret_value v s = Some s' \<and> sound HS N im p U E s' Q L \<and> get_param 0 s' = Some v"
proof -
  obtain t where t: "thrs s (kthread_current s) = Some t" using running_live [OF soundD(6) [OF S]] by blast
  then have s': "set_ret_value v s = Some (s\<lparr>thrs := (thrs s)(kthread_current s \<mapsto> set_reg REG_A0 v t)\<rparr>)"
    by (simp add: set_ret_value_def upd_thr_def)
  let ?s = "s\<lparr>thrs := (thrs s)(kthread_current s \<mapsto> set_reg REG_A0 v t)\<rparr>"
  note r = ret_served [OF soundD(1) [OF S] s']
  have K: "keeps s ?s" using ret_ends [OF s'] keeps_shape by blast
  have "sound HS N im p U E ?s Q L" by (rule sound_same [OF S]) (use r K set_ret_value_mem [OF s'] in simp_all)
  moreover have "length (regs (ctx t)) = 16" using soundD(3) [OF S] t by (simp add: regs_ok_def)
  then have "get_param 0 ?s = Some v" by (simp add: get_param_def get_reg_def set_reg_def REG_A0_def)
  ultimately show ?thesis using s' by blast
qed

lemma kram_sound:
  assumes S: "sound HS N im p U E s Q L" and m: "dom m = dom (kram s)"
  shows "sound HS N im p U E (s\<lparr>kram := m\<rparr>) Q L"
proof (rule sound_same [OF S])
  show "served p (s\<lparr>kram := m\<rparr>) Q"
    by (rule served_upd [OF soundD(1) [OF S]]) (use soundD(1) [OF S] in \<open>simp_all add: served_def ring_wf_def\<close>)
  show "keeps s (s\<lparr>kram := m\<rparr>)" using m by (simp add: keeps_def same_static_def ring_wf_def)
qed (simp_all add: same_objects_def mem_frame_same)

lemma put_word_sound:
  assumes S: "sound HS N im p U E s Q L" and w: "put_word l v s = Some s'"
  shows "sound HS N im p U E s' Q L"
proof -
  obtain m where m: "store32 l v (kram s) = Some m" "s' = s\<lparr>kram := m\<rparr>" using w by (auto simp: put_word_def bind_eq_Some_conv)
  show ?thesis unfolding m(2) by (rule kram_sound [OF S store32_dom [OF m(1)]])
qed

text \<open>The heap and the objects change, and the queues do not.\<close>

lemma served_objects:
  assumes S: "served p s Q" and C: "objects_changed s Q s'" and k: "kstate.more s' = kstate.more s"
    and m: "mtxs s' (requests_mutex s) = mtxs s (requests_mutex s)" and c: "cnds s' (requests_cond s) = cnds s (requests_cond s)"
  shows "served p s' Q"
proof -
  have "ring_wf s' = ring_wf s" using more_fields [OF k] by (simp add: ring_wf_def)
  then show ?thesis
    using S objects_changed_kinv [OF _ C] objects_changed_listens [OF _ C m c] more_fields [OF k] by (simp add: served_def)
qed

lemma queued_exists: "kinv s Q \<Longrightarrow> queued Q x \<Longrightarrow> x \<in> dom (thrs s)"
  unfolding queued_def using queuesD(3) [OF kinvD(1)] by blast

lemma no_object_no_queue:
  assumes "kinv s Q"
  shows "mtxs s k = None \<Longrightarrow> Q (QMutex k) = []" "cnds s d = None \<Longrightarrow> Q (QCond d) = []"
  using queuesD(2) [OF kinvD(1) [OF assms]] by simp_all

section \<open>Memory for the user\<close>

lemma heap_served:
  assumes S: "served p s Q" shows "served p (s\<lparr>kheap := h\<rparr>) Q"
  by (rule served_upd [OF S]) (use S in \<open>simp_all add: served_def ring_wf_def\<close>)

lemma alloc_sound:
  assumes S: "sound HS N im p U E s Q L" and n: "get_param 0 s = Some n" "good_size n"
  shows "\<exists>s' r L'. syscall_mem_alloc s = Some s' \<and> get_param 0 s' = Some r
    \<and> (r = NULL \<or> (\<forall>x. \<not> used_as U s r x)) \<and> sound HS N im p (if r = NULL then U else insert r U) E s' Q L'"
  using soundD(7) [OF S] n(2)
proof (cases rule: kalloc_cases)
  case none
  then show ?thesis using ret_sound [OF S, of NULL] n(1) by (auto simp: syscall_mem_alloc_def)
next
  case (some r h)
  let ?L = "L(r \<mapsto> blocks_of n)"
  have "sound HS N im p (insert r U) E (s\<lparr>kheap := h\<rparr>) Q ?L"
    using owned_user_add [OF soundD(2) [OF S] some(3,4)] heap_served [OF soundD(1) [OF S], of h] S
    by (simp add: sound_def everyone_def)
  from ret_sound [OF this, of r] obtain s' where "set_ret_value r (s\<lparr>kheap := h\<rparr>) = Some s'"
    "sound HS N im p (insert r U) E s' Q ?L" "get_param 0 s' = Some r" by blast
  moreover have "\<forall>x. \<not> used_as U s r x" using owned_fresh(5) [OF soundD(2) [OF S] some(3,4)] by blast
  ultimately show ?thesis
    using some(1,2) n(1) by (intro exI [of _ s'] exI [of _ r] exI [of _ ?L]) (simp add: syscall_mem_alloc_def)
qed

lemma free_sound:
  assumes S: "sound HS N im p U E s Q L" and q: "get_param 0 s = Some q" "q \<in> U"
  shows "\<exists>s' L'. syscall_mem_free s = Some s' \<and> sound HS N im p (U - {q}) E s' Q L'"
proof -
  have C: "covers im L (used_as U s)" using soundD(2) [OF S] by (simp add: owned_def)
  obtain n where "L q = Some n" using coversD(1) [OF C, of q Usr] q(2) by auto
  from kfree_holds [OF soundD(7) [OF S] this] obtain h where h: "kfree q s = Some (s\<lparr>kheap := h\<rparr>)" "holds HS N (L(q := None)) h" by blast
  have "sound HS N im p (U - {q}) E (s\<lparr>kheap := h\<rparr>) Q (L(q := None))"
    using owned_user_remove [OF soundD(2) [OF S] q(2) h(2)] heap_served [OF soundD(1) [OF S], of h] S
    by (simp add: sound_def everyone_def)
  then show ?thesis using h(1) q(1) by (auto simp: syscall_mem_free_def)
qed

section \<open>Mutexes and conditions\<close>

lemma mutex_add_sound:
  assumes S: "sound HS N im p U E s Q L" and k: "L k = None" "holds HS N (L(k \<mapsto> blocks_of sizeof_kmutex)) h"
  shows "sound HS N im p U E (kmutex_init k rec (s\<lparr>kheap := h\<rparr>)) Q (L(k \<mapsto> blocks_of sizeof_kmutex))"
proof -
  let ?x = "\<lparr>owner = NULL, mq_head = NULL, mq_tail = NULL, lock_count = 0, recursive = rec\<rparr>"
  let ?s = "s\<lparr>kheap := h, mtxs := (mtxs s)(k \<mapsto> ?x)\<rparr>"
  note F = owned_fresh [OF soundD(2) [OF S] k]
  have e: "kmutex_init k rec (s\<lparr>kheap := h\<rparr>) = ?s" by (simp add: kmutex_init_def)
  have q: "Q (QMutex k) = []" using no_object_no_queue(1) [OF soundD(5) [OF S]] F(2) by auto
  have "objects_changed s Q ?s"
    using q queuesD(5) [OF kinvD(1) [OF soundD(5) [OF S]]] by (auto simp: objects_changed_def)
  then have "served p ?s Q"
    using owned_fresh_static [OF soundD(2) [OF S] F(6)] by (intro served_objects [OF soundD(1) [OF S]]) simp_all
  then show ?thesis
    unfolding e using owned_mutex_add [OF soundD(2) [OF S] k refl, of ?x] S by (simp add: sound_def everyone_def)
qed

lemma cond_add_sound:
  assumes S: "sound HS N im p U E s Q L" and k: "L k = None" "holds HS N (L(k \<mapsto> blocks_of sizeof_kcond)) h"
  shows "sound HS N im p U E (kcond_init k (s\<lparr>kheap := h\<rparr>)) Q (L(k \<mapsto> blocks_of sizeof_kcond))"
proof -
  let ?z = "\<lparr>cq_head = NULL, cq_tail = NULL\<rparr>"
  let ?s = "s\<lparr>kheap := h, cnds := (cnds s)(k \<mapsto> ?z)\<rparr>"
  note F = owned_fresh [OF soundD(2) [OF S] k]
  have e: "kcond_init k (s\<lparr>kheap := h\<rparr>) = ?s" by (simp add: kcond_init_def)
  have q: "Q (QCond k) = []" using no_object_no_queue(2) [OF soundD(5) [OF S]] F(3) by auto
  have "objects_changed s Q ?s"
    using q queuesD(5) [OF kinvD(1) [OF soundD(5) [OF S]]] by (auto simp: objects_changed_def)
  then have "served p ?s Q"
    using owned_fresh_static [OF soundD(2) [OF S] F(6)] by (intro served_objects [OF soundD(1) [OF S]]) simp_all
  then show ?thesis
    unfolding e using owned_cond_add [OF soundD(2) [OF S] k refl, of ?z] S by (simp add: sound_def everyone_def)
qed

lemma good_object_sizes: "good_size sizeof_kmutex" "good_size sizeof_kcond"
  by (simp_all add: good_size_def sizeof_kmutex_def sizeof_kcond_def)

text \<open>The calls that create an object return its address in a word of the user's memory.\<close>

definition writable :: "addr \<Rightarrow> ram \<Rightarrow> bool" where
  "writable l m \<longleftrightarrow> l mod 4 = 0 \<and> {l, l + 1, l + 2, l + 3} \<subseteq> dom m"

lemma store32_writable: "writable l m \<Longrightarrow> \<exists>m'. store32 l v m = Some m'"
  by (auto simp: writable_def store32_def store8_def)

lemma location_sound:
  assumes S: "sound HS N im p U E s Q L"
  shows "do { s \<leftarrow> put_word l v s; set_ret_status st s } = Some s' \<Longrightarrow> sound HS N im p U E s' Q L"
    and "writable l (kram s) \<Longrightarrow> do { s \<leftarrow> put_word l v s; set_ret_status st s } \<noteq> None"
proof -
  show "sound HS N im p U E s' Q L" if "do { s \<leftarrow> put_word l v s; set_ret_status st s } = Some s'"
    using that ret_sound [OF put_word_sound [OF S], of l v _ "status_code st"] by (auto simp: bind_eq_Some_conv)
  assume "writable l (kram s)"
  then obtain s1 where "put_word l v s = Some s1" using store32_writable [of l "kram s" v] by (auto simp: put_word_def)
  then show "do { s \<leftarrow> put_word l v s; set_ret_status st s } \<noteq> None"
    using ret_sound [OF put_word_sound [OF S], of l v s1 "status_code st"] by auto
qed

lemma create_call:
  assumes S: "sound HS N im p U E s Q L" and n: "good_size n"
    and add: "\<And>k h. L k = None \<Longrightarrow> holds HS N (L(k \<mapsto> blocks_of n)) h \<Longrightarrow>
      sound HS N im p U E (f k (s\<lparr>kheap := h\<rparr>)) Q (L(k \<mapsto> blocks_of n)) \<and> kram (f k (s\<lparr>kheap := h\<rparr>)) = kram s"
    and call: "call = (if l = NULL then set_ret_status STATUS_ERROR s else do {
      (k, s) \<leftarrow> kalloc n s;
      if k = NULL then set_ret_status STATUS_NO_MEMORY s
      else do { s \<leftarrow> put_word l k (f k s); set_ret_status STATUS_SUCCESS s } })"
  shows "(\<forall>s'. call = Some s' \<longrightarrow> (\<exists>L'. sound HS N im p U E s' Q L')) \<and> (l = NULL \<or> writable l (kram s) \<longrightarrow> call \<noteq> None)"
proof -
  have status: "(\<forall>s'. set_ret_status st s = Some s' \<longrightarrow> (\<exists>L'. sound HS N im p U E s' Q L')) \<and> set_ret_status st s \<noteq> None" for st
    using ret_sound [OF S, of "status_code st"] by auto
  show ?thesis
  proof (cases "l = NULL")
    case True
    show ?thesis unfolding call if_P [OF True] using status [of STATUS_ERROR] by blast
  next
    case False
    from soundD(7) [OF S] n show ?thesis
    proof (cases rule: kalloc_cases)
      case none
      have e: "call = set_ret_status STATUS_NO_MEMORY s" using False none unfolding call by simp
      show ?thesis unfolding e using status [of STATUS_NO_MEMORY] by blast
    next
      case (some k h)
      let ?s = "f k (s\<lparr>kheap := h\<rparr>)"
      have S1: "sound HS N im p U E ?s Q (L(k \<mapsto> blocks_of n))" "kram ?s = kram s" using add [OF some(3,4)] by simp_all
      have e: "call = do { s \<leftarrow> put_word l k ?s; set_ret_status STATUS_SUCCESS s }" using False some(1,2) unfolding call by simp
      note W = location_sound [OF S1(1), where l = l and v = k and st = STATUS_SUCCESS, unfolded S1(2)]
      show ?thesis unfolding e
      proof (intro conjI allI impI)
        show "\<exists>L'. sound HS N im p U E s' Q L'" if "do { s \<leftarrow> put_word l k ?s; set_ret_status STATUS_SUCCESS s } = Some s'" for s'
          using W(1) [OF that] by blast
        show "do { s \<leftarrow> put_word l k ?s; set_ret_status STATUS_SUCCESS s } \<noteq> None" if "l = NULL \<or> writable l (kram s)"
          by (rule W(2)) (use that False in simp)
      qed
    qed
  qed
qed

lemma sound_params:
  assumes "sound HS N im p U E s Q L"
  shows "\<exists>l. get_param i s = Some l"
  using running_live [OF soundD(6) [OF assms]] by (auto simp: get_param_def)

lemma mutex_create_sound:
  assumes S: "sound HS N im p U E s Q L" and l: "get_param 0 s = Some l"
  shows "(\<forall>s'. syscall_mutex_create s = Some s' \<longrightarrow> (\<exists>L'. sound HS N im p U E s' Q L'))
    \<and> (l = NULL \<or> writable l (kram s) \<longrightarrow> syscall_mutex_create s \<noteq> None)"
proof -
  obtain mode where a: "get_param 1 s = Some mode" using sound_params [OF S] by blast
  show ?thesis
  proof (rule create_call [OF S good_object_sizes(1)])
    show "sound HS N im p U E (kmutex_init k (mode AND 2 \<noteq> 0) (s\<lparr>kheap := h\<rparr>)) Q (L(k \<mapsto> blocks_of sizeof_kmutex))
      \<and> kram (kmutex_init k (mode AND 2 \<noteq> 0) (s\<lparr>kheap := h\<rparr>)) = kram s"
      if "L k = None" "holds HS N (L(k \<mapsto> blocks_of sizeof_kmutex)) h" for k h
      using mutex_add_sound [OF S that] by (simp add: kmutex_init_def)
  qed (unfold syscall_mutex_create_def Let_def, simp add: l a [simplified])
qed

lemma cond_create_sound:
  assumes S: "sound HS N im p U E s Q L" and l: "get_param 0 s = Some l"
  shows "(\<forall>s'. syscall_cond_create s = Some s' \<longrightarrow> (\<exists>L'. sound HS N im p U E s' Q L'))
    \<and> (l = NULL \<or> writable l (kram s) \<longrightarrow> syscall_cond_create s \<noteq> None)"
proof (rule create_call [OF S good_object_sizes(2)])
  show "sound HS N im p U E (kcond_init k (s\<lparr>kheap := h\<rparr>)) Q (L(k \<mapsto> blocks_of sizeof_kcond))
    \<and> kram (kcond_init k (s\<lparr>kheap := h\<rparr>)) = kram s"
    if "L k = None" "holds HS N (L(k \<mapsto> blocks_of sizeof_kcond)) h" for k h
    using cond_add_sound [OF S that] by (simp add: kcond_init_def)
qed (unfold syscall_cond_create_def Let_def, simp add: l)

text \<open>Destroying an object that nobody waits for; a mutex must not be what a thread behind a condition waits for either.\<close>

lemma mutex_destroy_sound:
  assumes S: "sound HS N im p U E s Q L" and k: "get_param 0 s = Some k" "k \<noteq> NULL" "k \<in> dom (mtxs s)" "k \<noteq> requests_mutex s"
    and q: "Q (QMutex k) = []" "\<forall>d y. y \<in> set (Q (QCond d)) \<longrightarrow> info s y \<noteq> Some (BLOCKED, k)"
  shows "\<exists>s' L'. syscall_mutex_destroy s = Some s' \<and> sound HS N im p U E s' Q L'"
proof -
  obtain x where x: "mtxs s k = Some x" using k(3) by blast
  have C: "covers im L (used_as U s)" using soundD(2) [OF S] by (simp add: owned_def)
  have "mq_head x = NULL" using head_in_queue [OF soundD(5) [OF S] x] q(1) by auto
  then have d: "kmutex_destroy k s = Some s" using x by (simp add: kmutex_destroy_def destroy_waiters.simps)
  obtain n where "L k = Some n" using coversD(1) [OF C, of k Mtx] k(3,4) by auto
  from kfree_holds [OF soundD(7) [OF S] this] obtain h where h: "kfree k s = Some (s\<lparr>kheap := h\<rparr>)" "holds HS N (L(k := None)) h" by blast
  let ?s = "s\<lparr>kheap := h, mtxs := (mtxs s)(k := None)\<rparr>"
  have "objects_changed s Q ?s"
    using q queuesD(5) [OF kinvD(1) [OF soundD(5) [OF S]]] by (auto simp: objects_changed_def)
  then have "served p ?s Q" using k(4) by (intro served_objects [OF soundD(1) [OF S]]) simp_all
  then have "sound HS N im p U E ?s Q (L(k := None))"
    using owned_mutex_remove [OF soundD(2) [OF S] k(3,4) h(2) refl] S by (simp add: sound_def everyone_def)
  from ret_sound [OF this, of "status_code STATUS_SUCCESS"] show ?thesis
    using k(1,2) d h(1) by (auto simp: syscall_mutex_destroy_def)
qed

lemma cond_destroy_sound:
  assumes S: "sound HS N im p U E s Q L" and k: "get_param 0 s = Some k" "k \<noteq> NULL" "k \<in> dom (cnds s)" "k \<noteq> requests_cond s"
    and q: "Q (QCond k) = []"
  shows "\<exists>s' L'. syscall_cond_destroy s = Some s' \<and> sound HS N im p U E s' Q L'"
proof -
  obtain z where z: "cnds s k = Some z" using k(3) by blast
  have C: "covers im L (used_as U s)" using soundD(2) [OF S] by (simp add: owned_def)
  have "cq_head z = NULL" using head_in_cond [OF soundD(5) [OF S] z] q by auto
  then have d: "kcond_destroy k s = Some s" using z by (simp add: kcond_destroy_def destroy_waiters.simps)
  obtain n where "L k = Some n" using coversD(1) [OF C, of k Cnd] k(3,4) by auto
  from kfree_holds [OF soundD(7) [OF S] this] obtain h where h: "kfree k s = Some (s\<lparr>kheap := h\<rparr>)" "holds HS N (L(k := None)) h" by blast
  let ?s = "s\<lparr>kheap := h, cnds := (cnds s)(k := None)\<rparr>"
  have "objects_changed s Q ?s"
    using q queuesD(5) [OF kinvD(1) [OF soundD(5) [OF S]]] by (auto simp: objects_changed_def)
  then have "served p ?s Q" using k(4) by (intro served_objects [OF soundD(1) [OF S]]) simp_all
  then have "sound HS N im p U E ?s Q (L(k := None))"
    using owned_cond_remove [OF soundD(2) [OF S] k(3,4) h(2) refl] S by (simp add: sound_def everyone_def)
  from ret_sound [OF this, of "status_code STATUS_SUCCESS"] show ?thesis
    using k(1,2) d h(1) by (auto simp: syscall_cond_destroy_def)
qed

section \<open>Threads\<close>

text \<open>A thread in no queue, like one that has exited, becomes ready.\<close>

lemma enqueue_sound:
  assumes S: "sound HS N im p U (insert x E) s Q L" and x: "x \<in> dom (thrs s)" "x \<noteq> kthread_main s" "x \<notin> E"
  shows "\<exists>s'. kscheduler_enqueue x s = Some s' \<and> sound HS N im p U E s' (Q(QReady := Q QReady @ [x])) L"
proof -
  let ?Q = "Q(QReady := Q QReady @ [x])"
  have "x \<notin> everyone s Q" using soundD(4) [OF S] by simp
  then have x': "\<not> queued Q x" "x \<noteq> kthread_current s" using x(2) by (auto simp: everyone_def placed_def)
  obtain s' where s': "kscheduler_enqueue x s = Some s'" "kinv s' ?Q" "sched_frame s s'" "kthread_current s' = kthread_current s"
    "\<forall>y. y \<noteq> x \<longrightarrow> info s' y = info s y" "\<forall>y. y \<noteq> x \<longrightarrow> \<not> queued Q y \<longrightarrow> nxt s' y = nxt s y"
    using kscheduler_enqueue_kinv [OF soundD(5) [OF S] x'(1) x(1,2)] by blast
  note K = keeps_shape [OF kscheduler_enqueue_shape [OF s'(1)]] and f = sched_frameD [OF s'(3)]
  have pl: "placed ?Q = insert x (placed Q)" by (rule placed_push)
  have "running s' ?Q"
    using soundD(6) [OF S] s'(4-6) x'(2) pl unfolding running_def placed_def by auto
  moreover have "listens p (requests_mutex s) (requests_cond s) s' ?Q"
  proof (rule listens_frame)
    show "listens p (requests_mutex s) (requests_cond s) s Q" using soundD(1) [OF S] by (simp add: served_def)
    have n: "y \<noteq> x" if "y \<in> set (Q (QCond d))" for y d using that x'(1) by (auto simp: queued_def)
    show "info s' p = info s p" if "p \<in> set (Q (QCond (requests_cond s)))" using s'(5) n [OF that] by blast
    show "y \<in> set (Q (QCond d)) \<and> info s y = Some (BLOCKED, requests_mutex s)"
      if "y \<in> set (?Q (QCond d))" "info s' y = Some (BLOCKED, requests_mutex s)" for d y
      using that s'(5) n [of y d] by simp
  qed (use f in simp_all)
  ultimately have "served p s' ?Q" using s'(2) K keeps_objects [OF K] S by (simp add: sound_def served_def keeps_def)
  moreover have "everyone s' ?Q = dom (thrs s') - {kthread_main s'} - E"
    using soundD(4) [OF S] x s'(4) f(3,5) pl by (auto simp: everyone_def)
  moreover have "owned HS N im U s' L"
    by (rule owned_frame [OF soundD(2) [OF S] enqueue_mem [OF s'(1)]]) (use K in \<open>simp add: keeps_def\<close>)
  ultimately show ?thesis using s'(1) K S by (auto simp: sound_def keeps_def)
qed

lemma new_thread_sound:
  assumes S: "sound HS N im p U E s Q L" and j: "length (regs (ctx junk)) = 16"
    and x: "L x = None" "L k = None" "L d = None" "distinct [x, k, d]" "x \<noteq> NULL"
    and h: "holds HS N (L(x \<mapsto> 2, k \<mapsto> 65, d \<mapsto> blocks_of (tdata_size im))) h" and m: "dom m = dom (kram s)"
    and s': "s' = s\<lparr>kheap := h, kram := m, thrs := (thrs s)(x \<mapsto> new_thread im junk f arg svm k d)\<rparr>"
  shows "sound HS N im p U (insert x E) s' Q (L(x \<mapsto> 2, k \<mapsto> 65, d \<mapsto> blocks_of (tdata_size im)))"
    "x \<notin> dom (thrs s)" "x \<noteq> kthread_main s"
proof -
  let ?t = "new_thread im junk f arg svm k d" and ?L = "L(x \<mapsto> 2, k \<mapsto> 65, d \<mapsto> blocks_of (tdata_size im))"
  have "unat HS + 12 \<le> unat x" using holds_range(1) [OF h, of x] x(4) by simp
  then have xm: "x \<noteq> kthread_main s" using soundD(2) [OF S] by (auto simp: owned_def)
  then show "x \<noteq> kthread_main s" .
  have "covers im L (used_as U s)" using soundD(2) [OF S] by (simp add: owned_def)
  from coversD(1) [OF this, of x Thr] show fresh: "x \<notin> dom (thrs s)" using x(1) xm by auto
  have I: "kinv s Q" by (rule soundD(5) [OF S])
  have nq: "\<not> queued Q x" using queued_exists [OF I, of x] fresh by blast
  have xc: "x \<noteq> kthread_current s" using running_live [OF soundD(6) [OF S]] fresh by auto
  have "objects_changed s Q s'"
    using nq xm xc x(5) queuesD(5) [OF kinvD(1) [OF I]] by (auto simp: objects_changed_def s')
  then have "served p s' Q" by (rule served_objects [OF soundD(1) [OF S]]) (simp_all add: s')
  moreover have "owned HS N im U s' ?L"
    using owned_thread_add [OF soundD(2) [OF S] x(1-4) h [folded blocks_of_sizes] m _ _ _ s']
    by (simp add: new_thread_def blocks_of_sizes)
  moreover have "regs_ok s'" using soundD(3) [OF S] j by (auto simp: regs_ok_def s' new_thread_def)
  moreover have "everyone s' Q = dom (thrs s') - {kthread_main s'} - insert x E"
    using soundD(4) [OF S] fresh by (auto simp: everyone_def s')
  ultimately show "sound HS N im p U (insert x E) s' Q ?L" by (simp add: sound_def)
qed

lemma thread_create_sound:
  assumes S: "sound HS N im p U E s Q L" and j: "length (regs (ctx junk)) = 16" and E: "E \<subseteq> dom (thrs s)"
    and l: "get_param 0 s = Some l"
  shows "(\<forall>s'. syscall_thread_create im junk s = Some s' \<longrightarrow>
      (\<exists>Q' L'. sound HS N im p U E s' Q' L' \<and> dom (thrs s) \<subseteq> dom (thrs s')))
    \<and> (l = NULL \<or> writable l (kram s) \<longrightarrow> syscall_thread_create im junk s \<noteq> None)"
proof -
  obtain func arg where a: "get_param 1 s = Some func" "get_param 2 s = Some arg" using sound_params [OF S] by metis
  have status: "\<exists>s'. set_ret_status st s1 = Some s' \<and> sound HS N im p U E s' Q' L' \<and> dom (thrs s') = dom (thrs s1)"
    if "sound HS N im p U E s1 Q' L'" for st s1 Q' L'
    using ret_sound [OF that, of "status_code st"] mem_frame_thrs set_ret_value_mem by blast
  have ends: "(\<forall>s'. set_ret_status st s1 = Some s' \<longrightarrow>
      (\<exists>Q' L'. sound HS N im p U E s' Q' L' \<and> dom (thrs s) \<subseteq> dom (thrs s'))) \<and> set_ret_status st s1 \<noteq> None"
    if r: "sound HS N im p U E s1 Q L" "dom (thrs s1) = dom (thrs s)" for st s1
  proof -
    obtain s' where s': "set_ret_status st s1 = Some s'" "sound HS N im p U E s' Q L" "dom (thrs s') = dom (thrs s1)"
      using status [OF r(1)] by blast
    have "dom (thrs s) \<subseteq> dom (thrs s')" unfolding s'(3) r(2) by (rule subset_refl)
    then show ?thesis using s'(2) unfolding s'(1) by blast
  qed
  show ?thesis
  proof (cases "l = NULL \<or> func = NULL")
    case True
    then have e: "syscall_thread_create im junk s = set_ret_status STATUS_ERROR s" using l a by (auto simp: syscall_thread_create_def)
    show ?thesis unfolding e using ends [OF S refl, of STATUS_ERROR] by blast
  next
    case False
    have im: "image_ok HS N im (kram s)" using soundD(2) [OF S] by (simp add: owned_def)
    from soundD(7) [OF S] im show ?thesis
    proof (cases rule: kthread_create_cases [where junk = junk and f = func and arg = arg and svm = False])
      case (none h)
      have S1: "sound HS N im p U E (s\<lparr>kheap := h\<rparr>) Q L"
        using S none(2) heap_served [OF soundD(1) [OF S], of h] by (simp add: sound_def owned_def everyone_def used_as_heap)
      have e: "syscall_thread_create im junk s = set_ret_status STATUS_NO_MEMORY (s\<lparr>kheap := h\<rparr>)"
        using False l a none(1) by (simp add: syscall_thread_create_def)
      show ?thesis unfolding e using ends [OF S1, of STATUS_NO_MEMORY] by simp
    next
      case (some x k d h m)
      let ?s = "s\<lparr>kheap := h, kram := m, thrs := (thrs s)(x \<mapsto> new_thread im junk func arg False k d)\<rparr>"
      have m: "dom m = dom (kram s)" using some(12) by (simp add: tdata_ready_def)
      have dis: "distinct [x, k, d]" using some(5-7) by simp
      note N = new_thread_sound [where f = func and arg = arg and svm = False, OF S j some(8-10) dis some(2,11) m refl]
      have e: "syscall_thread_create im junk s = do { s \<leftarrow> put_word l x ?s; s \<leftarrow> kscheduler_enqueue x s; set_ret_status STATUS_SUCCESS s }"
        using False l a some(1,2) by (simp add: syscall_thread_create_def)
      have go: "\<exists>s2 s3 Q3 L3. kscheduler_enqueue x s1 = Some s2 \<and> set_ret_status STATUS_SUCCESS s2 = Some s3
          \<and> sound HS N im p U E s3 Q3 L3 \<and> dom (thrs s) \<subseteq> dom (thrs s3)" if w: "put_word l x ?s = Some s1" for s1
      proof -
        have "thrs s1 = thrs ?s" "kthread_main s1 = kthread_main s" using w by (auto simp: put_word_def bind_eq_Some_conv)
        then have x1: "x \<in> dom (thrs s1)" "x \<noteq> kthread_main s1" "x \<notin> E" "dom (thrs s1) = insert x (dom (thrs s))"
          using N(2,3) E by auto
        obtain s2 where s2: "kscheduler_enqueue x s1 = Some s2" "sound HS N im p U E s2 (Q(QReady := Q QReady @ [x]))
            (L(x \<mapsto> 2, k \<mapsto> 65, d \<mapsto> blocks_of (tdata_size im)))"
          using enqueue_sound [OF put_word_sound [OF N(1) w] x1(1-3)] by blast
        have "dom (thrs s) \<subseteq> dom (thrs s2)" using mem_frame_thrs [OF enqueue_mem [OF s2(1)]] x1(4) by auto
        then show ?thesis using s2 status [OF s2(2), of STATUS_SUCCESS] by metis
      qed
      show ?thesis unfolding e
      proof (intro conjI allI impI)
        fix s' assume "do { s \<leftarrow> put_word l x ?s; s \<leftarrow> kscheduler_enqueue x s; set_ret_status STATUS_SUCCESS s } = Some s'"
        then obtain s1 where "put_word l x ?s = Some s1" "do { s \<leftarrow> kscheduler_enqueue x s1; set_ret_status STATUS_SUCCESS s } = Some s'"
          by (auto simp: bind_eq_Some_conv)
        then show "\<exists>Q' L'. sound HS N im p U E s' Q' L' \<and> dom (thrs s) \<subseteq> dom (thrs s')" using go by fastforce
      next
        assume "l = NULL \<or> writable l (kram s)"
        then have "writable l m" using False m by (auto simp: writable_def)
        then obtain s1 where "put_word l x ?s = Some s1" using store32_writable [of l m x] by (auto simp: put_word_def)
        then show "do { s \<leftarrow> put_word l x ?s; s \<leftarrow> kscheduler_enqueue x s; set_ret_status STATUS_SUCCESS s } \<noteq> None"
          using go by fastforce
      qed
    qed
  qed
qed

lemma thread_detach_sound:
  assumes S: "sound HS N im p U E s Q L" and x: "get_param 0 s = Some x" "x \<in> E" "x \<in> dom (thrs s)" "x \<noteq> kthread_main s"
  shows "\<exists>s' L'. syscall_thread_detach s = Some s' \<and> sound HS N im p U (E \<inter> dom (thrs s')) s' Q L'"
proof -
  obtain t where t: "thrs s x = Some t" using x(3) by blast
  have I: "kinv s Q" by (rule soundD(5) [OF S])
  have x0: "x \<noteq> NULL" using live_thread [OF I x(3)] .
  have "x \<notin> everyone s Q" using soundD(4) [OF S] x(2) by simp
  then have x': "\<not> queued Q x" "x \<noteq> kthread_current s" using x(4) by (auto simp: everyone_def placed_def)
  obtain h where h: "kthread_destroy x s = Some (s\<lparr>kheap := h, thrs := (thrs s)(x := None)\<rparr>)"
    "owned HS N im U (s\<lparr>kheap := h, thrs := (thrs s)(x := None)\<rparr>) (L(stack t := None, tdata t := None, x := None))"
    using owned_thread_remove [OF soundD(2) [OF S] t x(4)] by blast
  let ?s = "s\<lparr>kheap := h, thrs := (thrs s)(x := None)\<rparr>" and ?L = "L(stack t := None, tdata t := None, x := None)"
  have "objects_changed s Q ?s"
    using x' x(4) queuesD(5) [OF kinvD(1) [OF I]] by (auto simp: objects_changed_def)
  then have "served p ?s Q" by (rule served_objects [OF soundD(1) [OF S]]) simp_all
  moreover have "regs_ok ?s" using soundD(3) [OF S] by (auto simp: regs_ok_def)
  moreover have "everyone ?s Q = dom (thrs ?s) - {kthread_main ?s} - (E \<inter> dom (thrs ?s))"
    using soundD(4) [OF S] x(2) by (auto simp: everyone_def)
  ultimately have S1: "sound HS N im p U (E \<inter> dom (thrs ?s)) ?s Q ?L" using h(2) by (simp add: sound_def)
  obtain s' where s': "set_ret_status STATUS_SUCCESS ?s = Some s'" "sound HS N im p U (E \<inter> dom (thrs ?s)) s' Q ?L"
    using ret_sound [OF S1] by blast
  have "dom (thrs s') = dom (thrs ?s)" by (rule mem_frame_thrs [OF set_ret_value_mem [OF s'(1)]])
  then show ?thesis using s' x(1) x0 h(1) by (intro exI [of _ s'] exI [of _ ?L]) (simp add: syscall_thread_detach_def)
qed

end
