(* ===== verification/System_Runs.thy ===== *)
theory System_Runs
  imports System_Steps
begin

text \<open>
  The runs of the whole kernel from its start: the steps of the running thread, the calls that create and destroy objects, signals,
  interrupts and faults; every step keeps the invariant \<open>sound\<close>.
\<close>

section \<open>Steps of the running thread\<close>

lemma task_keeps:
  assumes "task_step p m c s X s'"
  shows "keeps s s'"
proof -
  have "good s s' \<or> keeps s s'"
    using assms
  proof (cases rule: task_step.cases)
    case (user t v r)
    then have "keeps s s'" by (auto simp: keeps_def same_static_def ring_wf_def regs_ok_def)
    then show ?thesis ..
  qed (simp_all add: switch_good blocking_calls_good mutex_calls_good cond_calls_good)
  then show ?thesis by (auto simp: good_def)
qed

lemma task_mem:
  assumes "task_step p m c s X s'"
  shows "mem_frame s s'"
  using assms
proof (cases rule: task_step.cases)
  case (user t v r)
  then have "kept s' = kept s" by (auto simp: kept_def fun_eq_iff)
  then show ?thesis using user by (simp add: mem_frame_def)
qed (simp_all add: dispatch_mem stop_mem sync_calls_mem)

lemma task_served:
  assumes S: "served p s Q" and t: "task_step p (requests_mutex s) (requests_cond s) s X s'"
  shows "\<exists>Q'. served p s' Q' \<and> everyone s' Q' = everyone s Q - X"
proof -
  have I: "kinv s Q" and run: "running s Q" and L: "listens p (requests_mutex s) (requests_cond s) s Q" using S by (simp_all add: served_def)
  obtain Q1 where Q1: "kinv s' Q1" "running s' Q1" "everyone s' Q1 = everyone s Q - X"
    using kstep_ok [OF I run task_kstep [OF t]] by blast
  obtain Q2 where Q2: "queues s' Q2" "listens p (requests_mutex s) (requests_cond s) s' Q2" using task_listens [OF I run L t] by blast
  have "Q2 = Q1" using queues_unique Q2(1) kinvD(1) [OF Q1(1)] by blast
  then have "served p s' Q1" using Q1(1,2) Q2(2) task_keeps [OF t] S by (simp add: served_def keeps_def same_static_def)
  then show ?thesis using Q1(3) by blast
qed

section \<open>Steps of the system\<close>

text \<open>
  A step of the kernel with its processor \<open>p\<close>: a step of the running thread, the processor taking a signal from the ring, a call that
  raises a signal or sets a handler, a change in the devices, an external interrupt, a fault of the running thread, or a call that
  creates or destroys an object. \<open>U\<close> and \<open>U'\<close> are the addresses the user has from the heap before and after the step, \<open>X\<close> the threads that
  exit in it. A call frees what the user has, detaches a thread that has exited, and destroys an object nobody waits for, not the
  kernel's own.
\<close>

inductive sys_step :: "image \<Rightarrow> addr \<Rightarrow> addr set \<Rightarrow> kernel \<Rightarrow> addr set \<Rightarrow> addr set \<Rightarrow> kernel \<Rightarrow> bool" for im p U where
  task: "task_step p (requests_mutex s) (requests_cond s) s X s' \<Longrightarrow> sys_step im p U s X U s'"
| take: "kthread_current s = p \<Longrightarrow> take_request s = Some (sig, s') \<Longrightarrow> sys_step im p U s {} U s'"
| raise: "syscall_sig_raise s = Some s' \<Longrightarrow> sys_step im p U s {} U s'"
| handler: "syscall_sig_set_handler s = Some s' \<Longrightarrow> sys_step im p U s {} U s'"
| device: "sys_step im p U s {} U (s\<lparr>dev := d\<rparr>)"
| interrupt: "claims_ok (dev s) \<Longrightarrow> handle_ext_intr s = Some s' \<Longrightarrow> sys_step im p U s {} U s'"
| fault: "fault sig s = Some s' \<Longrightarrow> sys_step im p U s {kthread_current s} U s'"
| alloc: "get_param 0 s = Some n \<Longrightarrow> good_size n \<Longrightarrow> syscall_mem_alloc s = Some s' \<Longrightarrow> get_param 0 s' = Some r \<Longrightarrow>
    sys_step im p U s {} (if r = NULL then U else insert r U) s'"
| free: "get_param 0 s = Some q \<Longrightarrow> q \<in> U \<Longrightarrow> syscall_mem_free s = Some s' \<Longrightarrow> sys_step im p U s {} (U - {q}) s'"
| mutex_create: "syscall_mutex_create s = Some s' \<Longrightarrow> sys_step im p U s {} U s'"
| cond_create: "syscall_cond_create s = Some s' \<Longrightarrow> sys_step im p U s {} U s'"
| thread_create: "length (regs (ctx junk)) = 16 \<Longrightarrow> syscall_thread_create im junk s = Some s' \<Longrightarrow> sys_step im p U s {} U s'"
| detach: "get_param 0 s = Some x \<Longrightarrow> x \<in> dom (thrs s) \<Longrightarrow> x \<noteq> kthread_main s \<Longrightarrow> queues s Q \<Longrightarrow> x \<notin> everyone s Q \<Longrightarrow>
    syscall_thread_detach s = Some s' \<Longrightarrow> sys_step im p U s {} U s'"
| mutex_destroy: "get_param 0 s = Some k \<Longrightarrow> k \<noteq> NULL \<Longrightarrow> k \<in> dom (mtxs s) \<Longrightarrow> k \<noteq> requests_mutex s \<Longrightarrow> queues s Q \<Longrightarrow>
    Q (QMutex k) = [] \<Longrightarrow> \<forall>d y. y \<in> set (Q (QCond d)) \<longrightarrow> info s y \<noteq> Some (BLOCKED, k) \<Longrightarrow>
    syscall_mutex_destroy s = Some s' \<Longrightarrow> sys_step im p U s {} U s'"
| cond_destroy: "get_param 0 s = Some d \<Longrightarrow> d \<noteq> NULL \<Longrightarrow> d \<in> dom (cnds s) \<Longrightarrow> d \<noteq> requests_cond s \<Longrightarrow> queues s Q \<Longrightarrow>
    Q (QCond d) = [] \<Longrightarrow> syscall_cond_destroy s = Some s' \<Longrightarrow> sys_step im p U s {} U s'"

text \<open>\<open>E\<close> are the threads that have exited or faulted and that still exist.\<close>

inductive sys_runs :: "image \<Rightarrow> addr \<Rightarrow> kernel \<Rightarrow> addr set \<Rightarrow> addr set \<Rightarrow> kernel \<Rightarrow> bool" for im p s0 where
  start: "sys_runs im p s0 {} {} s0"
| step: "sys_runs im p s0 U E s \<Longrightarrow> sys_step im p U s X U' s' \<Longrightarrow> sys_runs im p s0 U' ((E \<union> X) \<inter> dom (thrs s')) s'"

lemma sound_live: "sound HS N im p U E s Q L \<Longrightarrow> sound HS N im p U (E \<inter> dom (thrs s)) s Q L"
  by (auto simp: sound_def)

lemma sys_step_sound:
  assumes S: "sound HS N im p U E s Q L" and E: "E \<subseteq> dom (thrs s)" and st: "sys_step im p U s X U' s'"
  shows "\<exists>Q' L'. sound HS N im p U' ((E \<union> X) \<inter> dom (thrs s')) s' Q' L'"
proof -
  note V = soundD(1) [OF S]
  have only: "R = Q" if "queues s R" for R using queues_unique that kinvD(1) [OF soundD(5) [OF S]] by blast
  have K: ?thesis if "served p s' Q'" "same_objects s s'" "placed Q' = placed Q" "mem_frame s s'" "keeps s s'" "X = {}" "U' = U" for Q'
  proof -
    have "everyone s' Q' = everyone s Q - X" using that(2,3,6) by (simp add: same_objects_def everyone_def)
    from sound_step [OF S that(1) this that(4,5)] show ?thesis using that(7) by blast
  qed
  have D: ?thesis if "sound HS N im p U' E s' Q' L'" "X = {}" for Q' L'
    using sound_live [OF that(1)] unfolding that(2) Un_empty_right by blast
  from st show ?thesis
  proof (cases rule: sys_step.cases)
    case task
    obtain Q' where "served p s' Q'" "everyone s' Q' = everyone s Q - X" using task_served [OF V task(2)] by blast
    from sound_step [OF S this task_mem [OF task(2)] task_keeps [OF task(2)]] show ?thesis using task(1) by blast
  next
    case (take sig)
    have e: "thrs s' = thrs s" "mtxs s' = mtxs s" "cnds s' = cnds s" "kscheduler_head s' = kscheduler_head s"
      "kscheduler_tail s' = kscheduler_tail s" "kthread_main s' = kthread_main s" "kthread_current s' = kthread_current s"
      "requests_mutex s' = requests_mutex s" "requests_cond s' = requests_cond s"
      using take(4) by (auto simp: take_request_def split: if_splits)
    have k: "keeps s s'" using take_request_keeps [OF take(4)] by simp
    then have "ring_wf s'" using V by (simp add: keeps_def served_def)
    from served_upd [OF V e this] show ?thesis
      using e take(1,2) k take_request_mem [OF take(4)] by (intro K) (simp_all add: same_objects_def)
  next
    case raise
    then obtain sig s1 where r: "ksignal_send sig s = Some s1" "set_ret_value 0 s1 = Some s'"
      by (auto simp: syscall_sig_raise_def bind_eq_Some_conv)
    obtain Q1 where Q1: "served p s1 Q1" "same_objects s s1" "placed Q1 = placed Q" using send_served [OF V, of sig] r(1) by auto
    have "keeps s s'" using kernel_calls_good(2) [OF raise(3)] by (simp add: good_def)
    then show ?thesis using ret_served [OF Q1(1) r(2)] raise(1,2) Q1(2,3) kernel_calls_mem(1) [OF raise(3)]
      by (intro K [of Q1]) (simp_all add: same_objects_def)
  next
    case handler
    then obtain sig f g s1 where h: "ksignal_handle sig f s = Some (g, s1)" "set_ret_value g s1 = Some s'"
      by (auto simp: syscall_sig_set_handler_def bind_eq_Some_conv)
    have e: "thrs s1 = thrs s" "mtxs s1 = mtxs s" "cnds s1 = cnds s" "kscheduler_head s1 = kscheduler_head s"
      "kscheduler_tail s1 = kscheduler_tail s" "kthread_main s1 = kthread_main s" "kthread_current s1 = kthread_current s"
      "requests_mutex s1 = requests_mutex s" "requests_cond s1 = requests_cond s"
      using h(1) by (auto simp: ksignal_handle_def split: if_splits)
    have "ring_wf s1" using ksignal_handle_keeps [OF h(1)] V by (simp add: keeps_def served_def)
    moreover have "keeps s s'" using kernel_calls_good(1) [OF handler(3)] by (simp add: good_def)
    ultimately show ?thesis
      using ret_served [OF served_upd [OF V e] h(2)] e handler(1,2) kernel_calls_mem(2) [OF handler(3)]
      by (intro K [of Q]) (simp_all add: same_objects_def)
  next
    case (device d)
    have "served p s' Q" by (rule served_upd [OF V]) (use device V in \<open>simp_all add: served_def ring_wf_def\<close>)
    moreover have "keeps s s'" using device by (simp add: keeps_def same_static_def ring_wf_def regs_ok_def)
    ultimately show ?thesis using device by (intro K [of Q]) (simp_all add: same_objects_def mem_frame_same)
  next
    case interrupt
    then obtain Q1 where "served p s' Q1" "same_objects s s'" "placed Q1 = placed Q"
      using handle_ext_intr_served [OF V interrupt(3)] by auto
    then show ?thesis
      using handle_ext_intr_good [OF interrupt(4)] handle_ext_intr_mem [OF interrupt(4)] interrupt(1,2)
      by (intro K [of Q1]) (simp_all add: good_def)
  next
    case (fault sig)
    then obtain Q1 where Q1: "served p s' Q1" "everyone s' Q1 = everyone s Q - {kthread_current s}"
      using fault_served [OF V, of sig] by auto
    have "keeps s s'" using fault_good [OF fault(3)] by (simp add: good_def)
    from sound_step [OF S Q1 fault_mem [OF fault(3)] this] show ?thesis using fault(1,2) by blast
  next
    case (alloc n r)
    obtain s1 r1 L1 where a: "syscall_mem_alloc s = Some s1" "get_param 0 s1 = Some r1"
      "sound HS N im p (if r1 = NULL then U else insert r1 U) E s1 Q L1"
      using alloc_sound [OF S alloc(3,4)] by blast
    have e: "s1 = s'" "r1 = r" using a(1,2) alloc(5,6) by simp_all
    show ?thesis by (rule D [of Q L1]) (use a(3) alloc(1,2) in \<open>simp_all only: e\<close>)
  next
    case (free q)
    then obtain L1 where "sound HS N im p (U - {q}) E s' Q L1" using free_sound [OF S] by fastforce
    then show ?thesis using free(1,2) by (intro D [of Q L1]) simp_all
  next
    case mutex_create
    obtain l where "get_param 0 s = Some l" using sound_params [OF S] by blast
    then obtain L1 where "sound HS N im p U E s' Q L1"
      using mutex_create_sound [OF S] mutex_create(3) by blast
    then show ?thesis using mutex_create(1,2) by (intro D [of Q L1]) simp_all
  next
    case cond_create
    obtain l where "get_param 0 s = Some l" using sound_params [OF S] by blast
    then obtain L1 where "sound HS N im p U E s' Q L1"
      using cond_create_sound [OF S] cond_create(3) by blast
    then show ?thesis using cond_create(1,2) by (intro D [of Q L1]) simp_all
  next
    case (thread_create junk)
    obtain l where "get_param 0 s = Some l" using sound_params [OF S] by blast
    then obtain Q1 L1 where "sound HS N im p U E s' Q1 L1"
      using thread_create_sound [OF S thread_create(3) E] thread_create(4) by blast
    then show ?thesis using thread_create(1,2) by (intro D [of Q1 L1]) simp_all
  next
    case (detach x R)
    have "x \<in> E" using soundD(4) [OF S] detach only [OF detach(6)] by blast
    then obtain L1 where "sound HS N im p U (E \<inter> dom (thrs s')) s' Q L1"
      using thread_detach_sound [OF S detach(3) _ detach(4,5)] detach(8) by auto
    then show ?thesis using detach(1,2) by auto
  next
    case (mutex_destroy k R)
    then obtain L1 where "sound HS N im p U E s' Q L1"
      using mutex_destroy_sound [OF S mutex_destroy(3-6)] only [OF mutex_destroy(7)] by auto
    then show ?thesis using mutex_destroy(1,2) by (intro D [of Q L1]) simp_all
  next
    case (cond_destroy d R)
    then obtain L1 where "sound HS N im p U E s' Q L1"
      using cond_destroy_sound [OF S cond_destroy(3-6)] only [OF cond_destroy(7)] by auto
    then show ?thesis using cond_destroy(1,2) by (intro D [of Q L1]) simp_all
  qed
qed

lemma sys_runs_sound:
  assumes "sys_runs im p s0 U E s" and "sound HS N im p {} {} s0 Q0 L0"
  shows "(\<exists>Q L. sound HS N im p U E s Q L) \<and> E \<subseteq> dom (thrs s)"
  using assms
proof (induction rule: sys_runs.induct)
  case start
  then show ?case by blast
next
  case (step U E s X U' s')
  then obtain Q L where "sound HS N im p U E s Q L" "E \<subseteq> dom (thrs s)" by blast
  from sys_step_sound [OF this step.hyps(2)] show ?case by blast
qed

end
