(* ===== verification/System_Start.thy ===== *)
theory System_Start
  imports System_Runs Boot
begin

text \<open>
  \<open>init\<close> establishes the invariant of the whole kernel, and what the invariant says of memory and of the calls.
\<close>

section \<open>Initialisation\<close>

lemma create_enqueue_sound:
  assumes S: "sound HS N im p {} {} s Q L" and j: "length (regs (ctx junk)) = 16" and n: "thrs s NULL = None"
    and c: "kthread_create im junk f arg False s = Some (x, s1)" "kscheduler_enqueue x s1 = Some s2"
  shows "\<exists>L'. sound HS N im p {} {} s2 (Q(QReady := Q QReady @ [x])) L'"
proof -
  have im: "image_ok HS N im (kram s)" using soundD(2) [OF S] by (simp add: owned_def)
  from soundD(7) [OF S] im show ?thesis
  proof (cases rule: kthread_create_cases [where junk = junk and f = f and arg = arg and svm = False])
    case (none h)
    then have "x = NULL" "s1 = s\<lparr>kheap := h\<rparr>" using c(1) by simp_all
    then have False using c(2) n by (simp add: kscheduler_enqueue_def upd_thr_def)
    then show ?thesis ..
  next
    case (some y k d h m)
    have x: "x = y" "s1 = s\<lparr>kheap := h, kram := m, thrs := (thrs s)(y \<mapsto> new_thread im junk f arg False k d)\<rparr>"
      using some(1) c(1) by simp_all
    have m: "dom m = dom (kram s)" using some(12) by (simp add: tdata_ready_def)
    have dis: "distinct [y, k, d]" using some(5-7) by simp
    note N = new_thread_sound [OF S j some(8-10) dis some(2,11) m x(2)]
    have y: "y \<in> dom (thrs s1)" "y \<noteq> kthread_main s1" using N(3) by (simp_all add: x(2))
    show ?thesis using enqueue_sound [OF N(1) y] c(2) x(1) by auto
  qed
qed

lemma fresh_sound:
  assumes f: "fresh_kernel HS s" and im: "image_ok HS N im (kram s)" and h: "holds HS N Map.empty h0"
    and st: "unat (requests_mutex s) < unat HS" "unat (requests_cond s) < unat HS"
  shows "sound HS N im p {} {} (kcond_init (requests_cond s) (kmutex_init (requests_mutex s) False (s\<lparr>kheap := h0, dev := d\<rparr>)))
    no_threads Map.empty" (is "sound _ _ _ _ _ _ ?s _ _")
proof -
  note F = f [unfolded fresh_kernel_def]
  define t where "t = ?s"
  have e: "thrs t = [kthread_main s \<mapsto> initial_main]" "kthread_main t = kthread_main s" "kheap t = h0" "kram t = kram s"
    "mtxs t = [requests_mutex s \<mapsto> \<lparr>owner = NULL, mq_head = NULL, mq_tail = NULL, lock_count = 0, recursive = False\<rparr>]"
    "cnds t = [requests_cond s \<mapsto> \<lparr>cq_head = NULL, cq_tail = NULL\<rparr>]" "kthread_current t = kthread_main s"
    "requests_mutex t = requests_mutex s" "requests_cond t = requests_cond s" "kscheduler_head t = NULL" "kscheduler_tail t = NULL"
    using F by (simp_all add: t_def kcond_init_def kmutex_init_def)
  have I: "kinv t no_threads" "running t no_threads" using F e by (auto intro!: fresh_kinv split: if_splits)
  have L: "listens p (requests_mutex t) (requests_cond t) t no_threads"
    by (rule listensI [where x = "\<lparr>owner = NULL, mq_head = NULL, mq_tail = NULL, lock_count = 0, recursive = False\<rparr>"])
      (simp_all add: e no_threads_def)
  have W: "ring_wf t" using F by (simp add: ring_wf_def t_def kcond_init_def kmutex_init_def)
  have "covers im Map.empty (used_as {} t)"
  proof -
    have "\<not> used_as {} t q x" for q x by (cases x) (simp_all add: e kept_def)
    then show ?thesis by (simp add: covers_def)
  qed
  moreover have "\<forall>x k d l. kept t x = Some (k, d, l) \<longrightarrow> l = NULL" by (simp add: kept_def e(1) initial_main_def)
  ultimately have "owned HS N im {} t Map.empty" using h im st F by (simp add: owned_def e)
  moreover have "regs_ok t" by (simp add: regs_ok_def e(1) initial_main_def)
  moreover have "everyone t no_threads = dom (thrs t) - {kthread_main t} - {}"
    by (simp add: everyone_def placed_def queued_def no_threads_def e)
  ultimately show ?thesis using I L W unfolding t_def [symmetric] by (simp add: sound_def served_def)
qed

lemma kernel_init_sound:
  assumes geo: "RAM_START \<le> HS" "HE \<le> RAM_END" "unat HS + 64 \<le> unat HE" and N: "N = (unat HE - unat HS) div 64"
    and f: "fresh_kernel HS s" and im: "image_ok HS N im (kram s)"
    and st: "unat (requests_mutex s) < unat HS" "unat (requests_cond s) < unat HS"
    and j: "length (regs (ctx j1)) = 16" "length (regs (ctx j2)) = 16"
    and i: "kernel_init HS HE im j1 j2 sp mn s = Some s0"
  shows "\<exists>Q L. sound HS N im p {} {} s0 Q L"
proof -
  note F = f [unfolded fresh_kernel_def]
  let ?s1 = "\<lambda>h. kcond_init (requests_cond s) (kmutex_init (requests_mutex s) False
    (s\<lparr>kheap := h, dev := btns_enable_all (plic_allow_all (lcd_init (dev s)))\<rparr>))"
  obtain h0 where h0: "kheap_init HS HE (kheap s) = Some h0" "heap_inv HS N Map.empty h0"
    using kheap_init_heap_inv [OF geo] F N by blast
  have "holds HS N Map.empty h0" using h0(2) by (auto simp: holds_def)
  note S1 = fresh_sound [OF f im this st, where d = "btns_enable_all (plic_allow_all (lcd_init (dev s)))" and p = p]
  obtain x s2 s3 y s4 where c: "kthread_create im j1 sp 0 False (?s1 h0) = Some (x, s2)" "kscheduler_enqueue x s2 = Some s3"
    "kthread_create im j2 mn 0 False s3 = Some (y, s4)" "kscheduler_enqueue y s4 = Some s0"
    using i h0(1) by (auto simp: kernel_init_def ksignal_init_def kmutex_init_def Let_def bind_eq_Some_conv)
  have null: "thrs s1 NULL = None" if "sound HS N im p {} {} s1 Q L" for s1 Q L
    using queuesD(5) [OF kinvD(1) [OF soundD(5) [OF that]]] by auto
  obtain L1 where L1: "sound HS N im p {} {} s3 (no_threads(QReady := no_threads QReady @ [x])) L1"
    using create_enqueue_sound [OF S1 j(1) null [OF S1] c(1,2)] by blast
  from create_enqueue_sound [OF L1 j(2) null [OF L1] c(3,4)] show ?thesis by blast
qed

section \<open>How many threads fit\<close>

text \<open>Every thread but the static one has a stack of 65 blocks of its own.\<close>

lemma sound_threads_limit:
  assumes S: "sound HS N im p U E s Q L"
  shows "finite (dom (thrs s))" and "card (dom (thrs s)) \<le> 4"
proof -
  have C: "covers im L (used_as U s)" and H: "holds HS N L (kheap s)" using soundD(2) [OF S] by (simp_all add: owned_def)
  have few: "card T \<le> 3" if T: "finite T" "T \<subseteq> dom (thrs s) - {kthread_main s}" for T
  proof -
    let ?st = "\<lambda>x. stack (the (thrs s x))"
    have u: "used_as U s (?st x) (Stk x)" if "x \<in> T" for x using that T(2) by (auto simp: kept_def)
    have "inj_on ?st T"
    proof (rule inj_onI)
      fix x y assume "x \<in> T" "y \<in> T" "?st x = ?st y"
      then show "x = y" using coversD(3) [OF C, of "?st x" "Stk x" "Stk y"] u [of x] u [of y] by simp
    qed
    then have c: "card (?st ` T) = card T" by (rule card_image)
    have st: "\<forall>k\<in>?st ` T. L k = Some 65"
    proof
      fix k assume "k \<in> ?st ` T"
      then obtain x where x: "x \<in> T" "k = ?st x" by blast
      obtain n where n: "L k = Some n" using coversD(1) [OF C u [OF x(1)]] x(2) by auto
      then have "fits_piece im (Stk x) n" using coversD(4) [OF C u [OF x(1)]] x(2) by blast
      then show "L k = Some 65" using n by (simp add: blocks_of_sizes)
    qed
    from holds_sum [OF H finite_imageI [OF T(1)] st] holds_blocks [OF H] have "65 * card (?st ` T) \<le> 256" by linarith
    with c show ?thesis by simp
  qed
  define D where "D = dom (thrs s) - {kthread_main s}"
  have all: "dom (thrs s) \<subseteq> insert (kthread_main s) D" unfolding D_def by blast
  have fin: "finite D"
  proof (rule ccontr)
    assume "infinite D"
    then obtain T where "finite T" "card T = 4" "T \<subseteq> D" using infinite_arbitrarily_large by blast
    then show False using few [of T] by (simp add: D_def)
  qed
  then show "finite (dom (thrs s))" using finite_subset [OF all] by simp
  have "card D \<le> 3" using few [OF fin] by (simp add: D_def)
  then show "card (dom (thrs s)) \<le> 4" using card_mono [OF _ all] fin card_insert_if [OF fin, of "kthread_main s"] by (simp split: if_splits)
qed

end
