(* ===== verification/System_Calls.thy ===== *)
theory System_Calls
  imports System_Runs
begin

text \<open>
  Traps as steps of the whole kernel: which calls the runs cover, and that a trap for one of them returns to a state of the run.
\<close>

section \<open>Proper calls\<close>

text \<open>
  What the runs ask of a call with the parameters \<open>a\<close>, \<open>b\<close> and \<open>d\<close>, where \<open>U\<close> is the user's memory and \<open>p\<close> the processor of signals: a size
  that does not wrap around, an address handed out before, a location that is null or can be written, an object that is null or exists,
  for the processor's mutex and condition only what the processor does with them, no blocking of the main thread.
\<close>

fun call_ok :: "addr \<Rightarrow> addr set \<Rightarrow> (qid \<Rightarrow> addr list) \<Rightarrow> kernel \<Rightarrow> u32 \<Rightarrow> u32 \<Rightarrow> u32 \<Rightarrow> syscall \<Rightarrow> bool" where
  "call_ok p U Q s a b d SYSCALL_MEMORY_ALLOCATE = good_size a"
| "call_ok p U Q s a b d SYSCALL_MEMORY_FREE = (a \<in> U)"
| "call_ok p U Q s a b d SYSCALL_MEMORY_TRY_EXPAND = False"
| "call_ok p U Q s a b d SYSCALL_THREAD_CREATE = (a = NULL \<or> writable a (kram s))"
| "call_ok p U Q s a b d SYSCALL_THREAD_EXIT = (kthread_current s \<noteq> kthread_main s)"
| "call_ok p U Q s a b d SYSCALL_THREAD_DISPATCH = True"
| "call_ok p U Q s a b d SYSCALL_THREAD_JOIN = True"
| "call_ok p U Q s a b d SYSCALL_THREAD_DETACH = (a = NULL \<or> a \<in> dom (thrs s) \<and> a \<noteq> kthread_main s \<and> a \<notin> everyone s Q)"
| "call_ok p U Q s a b d SYSCALL_THREAD_GET_CURRENT = True"
| "call_ok p U Q s a b d SYSCALL_MUTEX_CREATE = (a = NULL \<or> writable a (kram s))"
| "call_ok p U Q s a b d SYSCALL_MUTEX_LOCK = (a = NULL \<or> kthread_current s \<noteq> kthread_main s \<and> a \<in> dom (mtxs s)
     \<and> (a = requests_mutex s \<longrightarrow> kthread_current s = p))"
| "call_ok p U Q s a b d SYSCALL_MUTEX_UNLOCK = (a = NULL \<or> a \<in> dom (mtxs s) \<and> (a = requests_mutex s \<longrightarrow> kthread_current s = p))"
| "call_ok p U Q s a b d SYSCALL_MUTEX_DESTROY = (a = NULL \<or> a \<in> dom (mtxs s) \<and> a \<noteq> requests_mutex s \<and> Q (QMutex a) = []
     \<and> (\<forall>c y. y \<in> set (Q (QCond c)) \<longrightarrow> info s y \<noteq> Some (BLOCKED, a)))"
| "call_ok p U Q s a b d SYSCALL_MUTEX_TRY_LOCK = (a = NULL \<or> a \<in> dom (mtxs s) \<and> a \<noteq> requests_mutex s)"
| "call_ok p U Q s a b d SYSCALL_CONDITION_CREATE = (a = NULL \<or> writable a (kram s))"
| "call_ok p U Q s a b d SYSCALL_CONDITION_WAIT = (a = NULL \<or> b = NULL \<or> kthread_current s \<noteq> kthread_main s \<and> a \<in> dom (cnds s) \<and> b \<in> dom (mtxs s)
     \<and> (a \<noteq> requests_cond s \<and> b \<noteq> requests_mutex s \<or> a = requests_cond s \<and> b = requests_mutex s \<and> kthread_current s = p))"
| "call_ok p U Q s a b d SYSCALL_CONDITION_SIGNAL = (a = NULL \<or> a \<in> dom (cnds s) \<and> a \<noteq> requests_cond s \<and> (\<exists>k. waiters_ok s Q a k)
     \<and> length (Q (QCond a)) \<le> 1)"
| "call_ok p U Q s a b d SYSCALL_CONDITION_SIGNAL_ALL = (a = NULL \<or> a \<in> dom (cnds s) \<and> a \<noteq> requests_cond s \<and> (\<exists>k. waiters_ok s Q a k))"
| "call_ok p U Q s a b d SYSCALL_CONDITION_DESTROY = (a = NULL \<or> a \<in> dom (cnds s) \<and> a \<noteq> requests_cond s \<and> Q (QCond a) = [])"
| "call_ok p U Q s a b d SYSCALL_THREAD_STORAGE_CREATE = False"
| "call_ok p U Q s a b d SYSCALL_THREAD_STORAGE_DESTROY = False"
| "call_ok p U Q s a b d SYSCALL_THREAD_STORAGE_GET = False"
| "call_ok p U Q s a b d SYSCALL_THREAD_STORAGE_SET = False"
| "call_ok p U Q s a b d SYSCALL_SIGNAL_SET_HANDLER = (a < 9)"
| "call_ok p U Q s a b d SYSCALL_SIGNAL_RAISE = True"
| "call_ok p U Q s a b d SYSCALL_FILE_WRITE = (a = 0 \<and> (\<forall>i<unat d. b + of_nat i \<in> dom (kram s)))"
| "call_ok p U Q s a b d SYSCALL_FILE_READ = False"

text \<open>The traps the runs cover.\<close>

definition trap_ok :: "addr \<Rightarrow> addr set \<Rightarrow> (qid \<Rightarrow> addr list) \<Rightarrow> kernel \<Rightarrow> u32 \<Rightarrow> bool" where
  "trap_ok p U Q s cause \<longleftrightarrow>
     cause \<in> exception_code ` {EXCEPTION_INST_ADDR_MISALIGNED, EXCEPTION_INST_ACCESS_FAULT, EXCEPTION_ILLEGAL_INST,
       EXCEPTION_LOAD_ADDR_MISALIGNED, EXCEPTION_LOAD_ACCESS_FAULT, EXCEPTION_STORE_ADDR_MISALIGNED, EXCEPTION_STORE_ACCESS_FAULT}
     \<or> cause = (EXCEPTION_INTERRUPT OR TIMER_INTERRUPT)
     \<or> cause = (EXCEPTION_INTERRUPT OR EXTERNAL_INTERRUPT) \<and> claims_ok (dev s)
     \<or> cause \<in> exception_code ` {EXCEPTION_USER_ECALL, EXCEPTION_SUPERVISOR_ECALL}
       \<and> (\<exists>call t. thrs s (kthread_current s) = Some t \<and> get_reg REG_A5 t = syscall_code call
            \<and> call_ok p U Q s (get_reg REG_A0 t) (get_reg (REG_A0 + 1) t) (get_reg (REG_A0 + 2) t) call)"

section \<open>Calls as steps\<close>

lemma ret_step:
  assumes "set_ret_value v s = Some s'" and "regs_ok s"
  shows "sys_step im p U s {} U s'"
proof -
  obtain t where t: "thrs s (kthread_current s) = Some t" "s' = s\<lparr>thrs := (thrs s)(kthread_current s \<mapsto> set_reg REG_A0 v t)\<rparr>"
    using assms(1) by (auto simp: set_ret_value_def upd_thr_def split: option.splits)
  let ?v = "(ctx t)\<lparr>regs := (regs (ctx t))[REG_A0 := v]\<rparr>"
  have e: "s' = s\<lparr>kram := kram s, thrs := (thrs s)(kthread_current s \<mapsto> t\<lparr>ctx := ?v\<rparr>)\<rparr>" using t(2) by (simp add: set_reg_def)
  have "length (regs ?v) = 16" using assms(2) t(1) by (simp add: regs_ok_def)
  then show ?thesis unfolding e by (intro sys_step.task task_step.user [OF t(1)]) simp_all
qed

lemma klcd_write_loop_some: "\<forall>i<n. b + of_nat i \<in> dom m \<Longrightarrow> \<exists>d'. klcd_write_loop n b m d = Some d'"
proof (induction n arbitrary: b d)
  case (Suc n)
  obtain ch where "m b = Some ch" using Suc.prems [rule_format, of 0] by auto
  moreover have "\<forall>i<n. b + 1 + of_nat i \<in> dom m" using Suc.prems [rule_format, of "Suc i" for i] by (simp add: ac_simps)
  ultimately show ?case using Suc.IH by simp
qed simp

lemma syscalls_table:
  "syscalls im junk (syscall_code SYSCALL_MEMORY_ALLOCATE) s = syscall_mem_alloc s"
  "syscalls im junk (syscall_code SYSCALL_MEMORY_FREE) s = syscall_mem_free s"
  "syscalls im junk (syscall_code SYSCALL_THREAD_CREATE) s = syscall_thread_create im junk s"
  "syscalls im junk (syscall_code SYSCALL_THREAD_EXIT) s = kthread_stop s"
  "syscalls im junk (syscall_code SYSCALL_THREAD_DISPATCH) s = kthread_dispatch s"
  "syscalls im junk (syscall_code SYSCALL_THREAD_JOIN) s = syscall_thread_join s"
  "syscalls im junk (syscall_code SYSCALL_THREAD_DETACH) s = syscall_thread_detach s"
  "syscalls im junk (syscall_code SYSCALL_THREAD_GET_CURRENT) s = syscall_thread_get_current s"
  "syscalls im junk (syscall_code SYSCALL_MUTEX_CREATE) s = syscall_mutex_create s"
  "syscalls im junk (syscall_code SYSCALL_MUTEX_LOCK) s = syscall_mutex_lock s"
  "syscalls im junk (syscall_code SYSCALL_MUTEX_UNLOCK) s = syscall_mutex_unlock s"
  "syscalls im junk (syscall_code SYSCALL_MUTEX_DESTROY) s = syscall_mutex_destroy s"
  "syscalls im junk (syscall_code SYSCALL_MUTEX_TRY_LOCK) s = syscall_mutex_try_lock s"
  "syscalls im junk (syscall_code SYSCALL_CONDITION_CREATE) s = syscall_cond_create s"
  "syscalls im junk (syscall_code SYSCALL_CONDITION_WAIT) s = syscall_cond_wait s"
  "syscalls im junk (syscall_code SYSCALL_CONDITION_SIGNAL) s = syscall_cond_signal s"
  "syscalls im junk (syscall_code SYSCALL_CONDITION_SIGNAL_ALL) s = syscall_cond_signal_all s"
  "syscalls im junk (syscall_code SYSCALL_CONDITION_DESTROY) s = syscall_cond_destroy s"
  "syscalls im junk (syscall_code SYSCALL_SIGNAL_SET_HANDLER) s = syscall_sig_set_handler s"
  "syscalls im junk (syscall_code SYSCALL_SIGNAL_RAISE) s = syscall_sig_raise s"
  "syscalls im junk (syscall_code SYSCALL_FILE_WRITE) s = syscall_file_write s"
  by (simp_all add: syscalls_def)

section \<open>A proper call returns\<close>

definition answered :: "image \<Rightarrow> addr \<Rightarrow> kernel \<Rightarrow> kernel option \<Rightarrow> bool" where
  "answered im p s0 c \<longleftrightarrow> (\<exists>s' U' E'. c = Some s' \<and> sys_runs im p s0 U' E' s')"

lemma answered_step:
  "sys_runs im p s0 U E s \<Longrightarrow> c = Some s' \<Longrightarrow> sys_step im p U s X U' s' \<Longrightarrow> answered im p s0 c"
  unfolding answered_def using sys_runs.step by blast

lemma answered_ret:
  assumes r: "sys_runs im p s0 U E s" and S: "sound HS N im p U E s Q L" and c: "c = set_ret_value v s"
  shows "answered im p s0 c"
proof -
  obtain s1 where s1: "set_ret_value v s = Some s1" using ret_sound [OF S] by blast
  show ?thesis by (rule answered_step [OF r c [unfolded s1] ret_step [OF s1 soundD(3) [OF S]]])
qed

lemma answered_sync:
  assumes r: "sys_runs im p s0 U E s" and c: "steps_ok s Q c"
    "\<And>s'. c = Some s' \<Longrightarrow> task_step p (requests_mutex s) (requests_cond s) s {} s'"
  shows "answered im p s0 c"
proof -
  obtain s' where s': "c = Some s'" using c(1) by (auto simp: steps_ok_def)
  show ?thesis by (rule answered_step [OF r s' sys_step.task [OF c(2) [OF s']]])
qed

lemma memory_calls_answered:
  assumes r: "sys_runs im p s0 U E s" and S: "sound HS N im p U E s Q L" and a: "get_param 0 s = Some a"
  shows "good_size a \<Longrightarrow> answered im p s0 (syscall_mem_alloc s)" and "a \<in> U \<Longrightarrow> answered im p s0 (syscall_mem_free s)"
proof -
  show "answered im p s0 (syscall_mem_alloc s)" if n: "good_size a"
  proof -
    obtain s' x where s': "syscall_mem_alloc s = Some s'" "get_param 0 s' = Some x" using alloc_sound [OF S a n] by blast
    show ?thesis by (rule answered_step [OF r s'(1) sys_step.alloc [OF a n s']])
  qed
  show "answered im p s0 (syscall_mem_free s)" if q: "a \<in> U"
  proof -
    obtain s' where s': "syscall_mem_free s = Some s'" using free_sound [OF S a q] by blast
    show ?thesis by (rule answered_step [OF r s' sys_step.free [OF a q s']])
  qed
qed

lemma create_calls_answered:
  assumes r: "sys_runs im p s0 U E s" and S: "sound HS N im p U E s Q L" and E: "E \<subseteq> dom (thrs s)"
    and j: "length (regs (ctx junk)) = 16" and a: "get_param 0 s = Some a" "a = NULL \<or> writable a (kram s)"
  shows "answered im p s0 (syscall_thread_create im junk s)" "answered im p s0 (syscall_mutex_create s)"
    "answered im p s0 (syscall_cond_create s)"
proof -
  obtain s1 s2 s3 where s: "syscall_thread_create im junk s = Some s1" "syscall_mutex_create s = Some s2" "syscall_cond_create s = Some s3"
    using thread_create_sound [OF S j E a(1)] mutex_create_sound [OF S a(1)] cond_create_sound [OF S a(1)] a(2) by blast
  show "answered im p s0 (syscall_thread_create im junk s)" by (rule answered_step [OF r s(1) sys_step.thread_create [OF j s(1)]])
  show "answered im p s0 (syscall_mutex_create s)" by (rule answered_step [OF r s(2) sys_step.mutex_create [OF s(2)]])
  show "answered im p s0 (syscall_cond_create s)" by (rule answered_step [OF r s(3) sys_step.cond_create [OF s(3)]])
qed

lemma destroy_calls_answered:
  assumes r: "sys_runs im p s0 U E s" and S: "sound HS N im p U E s Q L" and a: "get_param 0 s = Some a" "a \<noteq> NULL"
  shows "a \<in> dom (thrs s) \<Longrightarrow> a \<noteq> kthread_main s \<Longrightarrow> a \<notin> everyone s Q \<Longrightarrow> answered im p s0 (syscall_thread_detach s)"
    and "a \<in> dom (mtxs s) \<Longrightarrow> a \<noteq> requests_mutex s \<Longrightarrow> Q (QMutex a) = [] \<Longrightarrow>
      \<forall>c y. y \<in> set (Q (QCond c)) \<longrightarrow> info s y \<noteq> Some (BLOCKED, a) \<Longrightarrow> answered im p s0 (syscall_mutex_destroy s)"
    and "a \<in> dom (cnds s) \<Longrightarrow> a \<noteq> requests_cond s \<Longrightarrow> Q (QCond a) = [] \<Longrightarrow> answered im p s0 (syscall_cond_destroy s)"
proof -
  have q: "queues s Q" by (rule kinvD(1) [OF soundD(5) [OF S]])
  show "answered im p s0 (syscall_thread_detach s)" if x: "a \<in> dom (thrs s)" "a \<noteq> kthread_main s" "a \<notin> everyone s Q"
  proof -
    have "a \<in> E" using soundD(4) [OF S] x by blast
    then obtain s' where s': "syscall_thread_detach s = Some s'" using thread_detach_sound [OF S a(1) _ x(1,2)] by blast
    show ?thesis by (rule answered_step [OF r s' sys_step.detach [OF a(1) x(1,2) q x(3) s']])
  qed
  show "answered im p s0 (syscall_mutex_destroy s)" if x: "a \<in> dom (mtxs s)" "a \<noteq> requests_mutex s" "Q (QMutex a) = []"
    "\<forall>c y. y \<in> set (Q (QCond c)) \<longrightarrow> info s y \<noteq> Some (BLOCKED, a)"
  proof -
    obtain s' where s': "syscall_mutex_destroy s = Some s'" using mutex_destroy_sound [OF S a x] by blast
    show ?thesis by (rule answered_step [OF r s' sys_step.mutex_destroy [OF a x(1,2) q x(3,4) s']])
  qed
  show "answered im p s0 (syscall_cond_destroy s)" if x: "a \<in> dom (cnds s)" "a \<noteq> requests_cond s" "Q (QCond a) = []"
  proof -
    obtain s' where s': "syscall_cond_destroy s = Some s'" using cond_destroy_sound [OF S a x] by blast
    show ?thesis by (rule answered_step [OF r s' sys_step.cond_destroy [OF a x(1,2) q x(3) s']])
  qed
qed

lemma sync_calls_answered:
  assumes r: "sys_runs im p s0 U E s" and S: "sound HS N im p U E s Q L" and a: "get_param 0 s = Some a" "get_param 1 s = Some b" "a \<noteq> NULL"
  shows "call_ok p U Q s a b d SYSCALL_MUTEX_LOCK \<Longrightarrow> answered im p s0 (syscall_mutex_lock s)"
    and "call_ok p U Q s a b d SYSCALL_MUTEX_TRY_LOCK \<Longrightarrow> answered im p s0 (syscall_mutex_try_lock s)"
    and "call_ok p U Q s a b d SYSCALL_MUTEX_UNLOCK \<Longrightarrow> answered im p s0 (syscall_mutex_unlock s)"
    and "b \<noteq> NULL \<Longrightarrow> call_ok p U Q s a b d SYSCALL_CONDITION_WAIT \<Longrightarrow> answered im p s0 (syscall_cond_wait s)"
    and "call_ok p U Q s a b d SYSCALL_CONDITION_SIGNAL \<Longrightarrow> answered im p s0 (syscall_cond_signal s)"
    and "call_ok p U Q s a b d SYSCALL_CONDITION_SIGNAL_ALL \<Longrightarrow> answered im p s0 (syscall_cond_signal_all s)"
proof -
  note I = soundD(5,6) [OF S] and q = kinvD(1) [OF soundD(5) [OF S]] and k = a(1) a(3)
  show "answered im p s0 (syscall_mutex_lock s)" if ok: "call_ok p U Q s a b d SYSCALL_MUTEX_LOCK"
  proof -
    obtain x where x: "kthread_current s \<noteq> kthread_main s" "mtxs s a = Some x" "a = requests_mutex s \<longrightarrow> kthread_current s = p"
      using ok a(3) by auto
    show ?thesis by (rule answered_sync [OF r syscall_mutex_lock_steps [OF I x(1) k x(2)] task_step.lock [OF x(1) k x(2,3)]])
  qed
  show "answered im p s0 (syscall_mutex_try_lock s)" if ok: "call_ok p U Q s a b d SYSCALL_MUTEX_TRY_LOCK"
  proof -
    obtain x where x: "mtxs s a = Some x" "a \<noteq> requests_mutex s" using ok a(3) by auto
    show ?thesis by (rule answered_sync [OF r syscall_mutex_try_lock_steps [OF I k x(1)] task_step.try_lock [OF k x]])
  qed
  show "answered im p s0 (syscall_mutex_unlock s)" if ok: "call_ok p U Q s a b d SYSCALL_MUTEX_UNLOCK"
  proof -
    obtain x where x: "mtxs s a = Some x" "a = requests_mutex s \<longrightarrow> kthread_current s = p" using ok a(3) by auto
    show ?thesis by (rule answered_sync [OF r syscall_mutex_unlock_steps [OF I k x(1)] task_step.unlock [OF k x]])
  qed
  show "answered im p s0 (syscall_cond_wait s)" if n: "b \<noteq> NULL" and ok: "call_ok p U Q s a b d SYSCALL_CONDITION_WAIT"
  proof -
    obtain z x where x: "kthread_current s \<noteq> kthread_main s" "cnds s a = Some z" "mtxs s b = Some x"
      "a \<noteq> requests_cond s \<and> b \<noteq> requests_mutex s \<or> a = requests_cond s \<and> b = requests_mutex s \<and> kthread_current s = p"
      using ok a(3) n by auto
    show ?thesis
      by (rule answered_sync [OF r syscall_cond_wait_steps [OF I x(1) k a(2) n x(2,3)] task_step.wait [OF x(1) k a(2) n x(2-4)]])
  qed
  show "answered im p s0 (syscall_cond_signal s)" if ok: "call_ok p U Q s a b d SYSCALL_CONDITION_SIGNAL"
  proof -
    obtain z m where x: "cnds s a = Some z" "a \<noteq> requests_cond s" "waiters_ok s Q a m" "length (Q (QCond a)) \<le> 1" using ok a(3) by auto
    show ?thesis
      by (rule answered_sync [OF r syscall_cond_signal_steps [OF I k x(1,3,4)] task_step.signal [OF k x(1,2) q x(3,4)]])
  qed
  show "answered im p s0 (syscall_cond_signal_all s)" if ok: "call_ok p U Q s a b d SYSCALL_CONDITION_SIGNAL_ALL"
  proof -
    obtain z m where x: "cnds s a = Some z" "a \<noteq> requests_cond s" "waiters_ok s Q a m" using ok a(3) by auto
    show ?thesis by (rule answered_sync [OF r syscall_cond_signal_all_steps [OF I k x(1,3)] task_step.broadcast [OF k x(1,2) q x(3)]])
  qed
qed

lemma thread_calls_answered:
  assumes r: "sys_runs im p s0 U E s" and S: "sound HS N im p U E s Q L"
  shows "kthread_current s \<noteq> kthread_main s \<Longrightarrow> answered im p s0 (kthread_stop s)" and "answered im p s0 (kthread_dispatch s)"
    and "answered im p s0 (syscall_thread_join s)" and "answered im p s0 (syscall_thread_get_current s)"
proof -
  show "answered im p s0 (kthread_stop s)" if u: "kthread_current s \<noteq> kthread_main s"
  proof -
    obtain s' where s': "kthread_stop s = Some s'" using stop_served [OF soundD(1) [OF S]] by blast
    show ?thesis by (rule answered_step [OF r s' sys_step.task [OF task_step.exit [OF u s']]])
  qed
  obtain s' where s': "kthread_dispatch s = Some s'" using dispatch_running [OF soundD(5,6) [OF S]] by blast
  show "answered im p s0 (kthread_dispatch s)" by (rule answered_step [OF r s' sys_step.task [OF task_step.dispatch [OF s']]])
  show "answered im p s0 (syscall_thread_join s)" using r unfolding answered_def syscall_thread_join_def by blast
  show "answered im p s0 (syscall_thread_get_current s)" by (rule answered_ret [OF r S]) (rule syscall_thread_get_current_def)
qed

lemma kernel_calls_answered:
  assumes r: "sys_runs im p s0 U E s" and S: "sound HS N im p U E s Q L" and E: "E \<subseteq> dom (thrs s)"
    and a: "get_param 0 s = Some a" "get_param 1 s = Some b" "get_param 2 s = Some d"
  shows "a < 9 \<Longrightarrow> answered im p s0 (syscall_sig_set_handler s)" and "answered im p s0 (syscall_sig_raise s)"
    and "a = 0 \<Longrightarrow> \<forall>i<unat d. b + of_nat i \<in> dom (kram s) \<Longrightarrow> answered im p s0 (syscall_file_write s)"
proof -
  have live: "\<exists>s'. set_ret_value v s1 = Some s'" if "thrs s1 (kthread_current s1) \<noteq> None" for v and s1 :: kernel
    using that by (auto simp: set_ret_value_def upd_thr_def)
  show "answered im p s0 (syscall_sig_set_handler s)" if "a < 9"
  proof -
    have "unat a < length (sig_handlers s)" using that soundD(1) [OF S] by (simp add: served_def ring_wf_def word_less_nat_alt)
    then obtain g s1 where h: "ksignal_handle a b s = Some (g, s1)" by (simp add: ksignal_handle_def)
    then have "kthread_current s1 = kthread_current s" "thrs s1 = thrs s" by (auto simp: ksignal_handle_def split: if_splits)
    then obtain s' where "set_ret_value g s1 = Some s'" using running_live [OF soundD(6) [OF S]] live [of s1 g] by auto
    then have s': "syscall_sig_set_handler s = Some s'" using h a(1) a(2) [simplified] by (simp add: syscall_sig_set_handler_def)
    show ?thesis by (rule answered_step [OF r s' sys_step.handler [OF s']])
  qed
  obtain s1 Q1 where s1: "ksignal_send a s = Some s1" "served p s1 Q1" using send_served [OF soundD(1) [OF S]] by blast
  then obtain s' where "set_ret_value 0 s1 = Some s'" using running_live [of s1 Q1] live [of s1 0] by (auto simp: served_def)
  then have s': "syscall_sig_raise s = Some s'" using s1(1) a(1) by (simp add: syscall_sig_raise_def)
  show "answered im p s0 (syscall_sig_raise s)" by (rule answered_step [OF r s' sys_step.raise [OF s']])
  show "answered im p s0 (syscall_file_write s)" if w: "a = 0" "\<forall>i<unat d. b + of_nat i \<in> dom (kram s)"
  proof -
    obtain d' where d': "klcd_write_loop (unat d) b (kram s) (dev s) = Some d'" using klcd_write_loop_some [OF w(2)] by blast
    let ?s = "s\<lparr>dev := d'\<rparr>"
    have st: "sys_step im p U s {} U ?s" by (rule sys_step.device)
    have r': "sys_runs im p s0 U ((E \<union> {}) \<inter> dom (thrs ?s)) ?s" by (rule sys_runs.step [OF r st])
    obtain Q' L' where S': "sound HS N im p U ((E \<union> {}) \<inter> dom (thrs ?s)) ?s Q' L'" using sys_step_sound [OF S E st] by blast
    have "syscall_file_write s = set_ret_value d ?s"
      using w(1) d' a(1) a(2,3) [simplified] by (simp add: syscall_file_write_def kfile_write_def klcd_write_def)
    from answered_ret [OF r' S' this] show ?thesis .
  qed
qed

text \<open>A call for no object returns an error.\<close>

lemma null_calls_answered:
  assumes r: "sys_runs im p s0 U E s" and S: "sound HS N im p U E s Q L" and a: "get_param 0 s = Some a" "get_param 1 s = Some b"
  shows "a = NULL \<Longrightarrow> answered im p s0 (syscall_thread_detach s)" "a = NULL \<Longrightarrow> answered im p s0 (syscall_mutex_lock s)"
    "a = NULL \<Longrightarrow> answered im p s0 (syscall_mutex_try_lock s)" "a = NULL \<Longrightarrow> answered im p s0 (syscall_mutex_unlock s)"
    "a = NULL \<Longrightarrow> answered im p s0 (syscall_mutex_destroy s)" "a = NULL \<or> b = NULL \<Longrightarrow> answered im p s0 (syscall_cond_wait s)"
    "a = NULL \<Longrightarrow> answered im p s0 (syscall_cond_signal s)" "a = NULL \<Longrightarrow> answered im p s0 (syscall_cond_signal_all s)"
    "a = NULL \<Longrightarrow> answered im p s0 (syscall_cond_destroy s)"
  by (rule answered_ret [OF r S, of _ "status_code STATUS_ERROR"];
      auto simp: a(1) a(2) [simplified] syscall_thread_detach_def syscall_mutex_lock_def syscall_mutex_try_lock_def syscall_mutex_unlock_def
        syscall_mutex_destroy_def syscall_cond_wait_def syscall_cond_signal_def syscall_cond_signal_all_def syscall_cond_destroy_def)+

lemma call_answered:
  assumes r: "sys_runs im p s0 U E s" and S: "sound HS N im p U E s Q L" and E: "E \<subseteq> dom (thrs s)"
    and j: "length (regs (ctx junk)) = 16"
    and a: "get_param 0 s = Some a" "get_param 1 s = Some b" "get_param 2 s = Some d" and ok: "call_ok p U Q s a b d call"
  shows "answered im p s0 (syscalls im junk (syscall_code call) s)"
proof -
  note null = null_calls_answered [OF r S a(1,2)] and sync = sync_calls_answered [OF r S a(1,2), where d = d]
    and destroy = destroy_calls_answered [OF r S a(1)] and create = create_calls_answered [OF r S E j a(1)]
  from ok show ?thesis
  proof (induct call)
    case SYSCALL_MUTEX_LOCK
    then show ?case unfolding syscalls_table using null(2) sync(1) by blast
  next
    case SYSCALL_MUTEX_TRY_LOCK
    then show ?case unfolding syscalls_table using null(3) sync(2) by blast
  next
    case SYSCALL_MUTEX_UNLOCK
    then show ?case unfolding syscalls_table using null(4) sync(3) by blast
  next
    case SYSCALL_CONDITION_WAIT
    then show ?case unfolding syscalls_table using null(6) sync(4) by blast
  next
    case SYSCALL_CONDITION_SIGNAL
    then show ?case unfolding syscalls_table using null(7) sync(5) by blast
  next
    case SYSCALL_CONDITION_SIGNAL_ALL
    then show ?case unfolding syscalls_table using null(8) sync(6) by blast
  next
    case SYSCALL_THREAD_DETACH
    then show ?case unfolding syscalls_table call_ok.simps using null(1) destroy(1) by blast
  next
    case SYSCALL_MUTEX_DESTROY
    then show ?case unfolding syscalls_table call_ok.simps using null(5) destroy(2) by blast
  next
    case SYSCALL_CONDITION_DESTROY
    then show ?case unfolding syscalls_table call_ok.simps using null(9) destroy(3) by blast
  next
    case SYSCALL_THREAD_EXIT
    then show ?case unfolding syscalls_table call_ok.simps by (rule thread_calls_answered(1) [OF r S])
  next
    case SYSCALL_FILE_WRITE
    then show ?case unfolding syscalls_table call_ok.simps using kernel_calls_answered(3) [OF r S E a] by blast
  qed (simp_all only: syscalls_table call_ok.simps memory_calls_answered [OF r S a(1)] create thread_calls_answered [OF r S]
      kernel_calls_answered [OF r S E a])
qed

text \<open>The trap advances the program counter before the call; that is a step of the thread itself, and it changes nothing the call asks for.\<close>

lemma call_ok_frame:
  assumes "thrs s' = (thrs s)(kthread_current s \<mapsto> t\<lparr>ctx := v\<rparr>)" "thrs s (kthread_current s) = Some t"
    and "kthread_current s' = kthread_current s" "kthread_main s' = kthread_main s" "mtxs s' = mtxs s" "cnds s' = cnds s" "kram s' = kram s"
    and "requests_mutex s' = requests_mutex s" "requests_cond s' = requests_cond s"
  shows "call_ok p U Q s' a b d call = call_ok p U Q s a b d call"
proof -
  have i: "info s' = info s" using assms(1,2) by (auto simp: info_def fun_eq_iff)
  moreover have "dom (thrs s') = dom (thrs s)" unfolding assms(1) using assms(2) by (simp add: insert_absorb domI)
  moreover have "waiters_ok s' Q a = waiters_ok s Q a" by (simp add: waiters_ok_def assms(5) i fun_eq_iff)
  ultimately show ?thesis using assms(3-) by (cases call) (simp_all add: everyone_def)
qed

lemma ecall_runs:
  assumes r: "sys_runs im p s0 U E s" and S: "sound HS N im p U E s Q L" and E: "E \<subseteq> dom (thrs s)"
    and j: "length (regs (ctx junk)) = 16"
    and t: "thrs s (kthread_current s) = Some t" "get_reg REG_A5 t = syscall_code call"
    and ok: "call_ok p U Q s (get_reg REG_A0 t) (get_reg (REG_A0 + 1) t) (get_reg (REG_A0 + 2) t) call"
  shows "answered im p s0 (handle_syscall im junk s)"
proof -
  let ?v = "(ctx t)\<lparr>pc := pc (ctx t) + 4\<rparr>"
  let ?s = "s\<lparr>kram := kram s, thrs := (thrs s)(kthread_current s \<mapsto> t\<lparr>ctx := ?v\<rparr>)\<rparr>"
  have "length (regs ?v) = 16" using soundD(3) [OF S] t(1) by (simp add: regs_ok_def)
  then have st: "sys_step im p U s {} U ?s" by (intro sys_step.task task_step.user [OF t(1)]) simp_all
  let ?E = "(E \<union> {}) \<inter> dom (thrs ?s)"
  have r': "sys_runs im p s0 U ?E ?s" by (rule sys_runs.step [OF r st])
  obtain Q' L' where S': "sound HS N im p U ?E ?s Q' L'" using sys_step_sound [OF S E st] by blast
  have L0: "listens p (requests_mutex s) (requests_cond s) s Q" using soundD(1) [OF S] by (simp add: served_def)
  have "?s = s\<lparr>kheap := kheap s, kram := kram s, thrs := (thrs s)(kthread_current s \<mapsto> t\<lparr>ctx := ?v\<rparr>)\<rparr>" by simp
  from quiet_listens [OF soundD(5,6) [OF S] L0 t(1) this] have "kinv ?s Q" by blast
  then have "Q' = Q" using queues_unique kinvD(1) [OF soundD(5) [OF S']] kinvD(1) by blast
  note S'' = S' [unfolded this]
  have a: "get_param 0 ?s = Some (get_reg REG_A0 t)" "get_param 1 ?s = Some (get_reg (REG_A0 + 1) t)" "get_param 2 ?s = Some (get_reg (REG_A0 + 2) t)"
    by (simp_all add: get_param_def get_reg_def)
  have ok': "call_ok p U Q ?s (get_reg REG_A0 t) (get_reg (REG_A0 + 1) t) (get_reg (REG_A0 + 2) t) call"
    using ok call_ok_frame [of ?s s ?v t p U Q] t(1) by simp
  have "handle_syscall im junk s = syscalls im junk (syscall_code call) ?s"
    using t by (simp add: handle_syscall_def upd_thr_def get_reg_def)
  then show ?thesis using call_answered [OF r' S'' _ j a ok'] by simp
qed

text \<open>Every trap that the runs cover is handled to its end, in a state of the run.\<close>

lemma trap_runs_on:
  assumes r: "sys_runs im p s0 U E s" and S: "sound HS N im p U E s Q L" and E: "E \<subseteq> dom (thrs s)"
    and j: "length (regs (ctx junk)) = 16" and ok: "trap_ok p U Q s cause"
  shows "answered im p s0 (exception_handler im junk cause s)"
proof -
  note V = soundD(1) [OF S]
  have f: "answered im p s0 (fault sig s)" for sig
  proof -
    obtain s' where s': "fault sig s = Some s'" using fault_served [OF V, of sig] by blast
    show ?thesis by (rule answered_step [OF r s' sys_step.fault [OF s']])
  qed
  have x: "answered im p s0 (handle_ext_intr s)" if c: "claims_ok (dev s)"
  proof -
    obtain s' where s': "handle_ext_intr s = Some s'" using handle_ext_intr_served [OF V c] by blast
    show ?thesis by (rule answered_step [OF r s' sys_step.interrupt [OF c s']])
  qed
  have call: "answered im p s0 (handle_syscall im junk s)"
    if "\<exists>call t. thrs s (kthread_current s) = Some t \<and> get_reg REG_A5 t = syscall_code call
      \<and> call_ok p U Q s (get_reg REG_A0 t) (get_reg (REG_A0 + 1) t) (get_reg (REG_A0 + 2) t) call"
    using that ecall_runs [OF r S E j] by blast
  show ?thesis
    using ok unfolding trap_ok_def
  proof (elim disjE conjE)
    assume "cause = (EXCEPTION_INTERRUPT OR TIMER_INTERRUPT)"
    then show ?thesis using thread_calls_answered(2) [OF r S]
      by (simp add: exception_handler_def EXCEPTION_INTERRUPT_def EXTERNAL_INTERRUPT_def TIMER_INTERRUPT_def)
  next
    assume "cause = (EXCEPTION_INTERRUPT OR EXTERNAL_INTERRUPT)" "claims_ok (dev s)"
    then show ?thesis using x by (simp add: exception_handler_def EXCEPTION_INTERRUPT_def EXTERNAL_INTERRUPT_def)
  next
    assume "cause \<in> exception_code ` {EXCEPTION_USER_ECALL, EXCEPTION_SUPERVISOR_ECALL}"
    then show ?thesis if "\<exists>call t. thrs s (kthread_current s) = Some t \<and> get_reg REG_A5 t = syscall_code call
      \<and> call_ok p U Q s (get_reg REG_A0 t) (get_reg (REG_A0 + 1) t) (get_reg (REG_A0 + 2) t) call"
      using call [OF that] by (simp add: exception_handler_def)
  qed (use f in \<open>auto simp: exception_handler_def\<close>)
qed

end
