(* ===== verification/Boot_Properties.thy ===== *)
theory Boot_Properties
  imports Boot Kernel_Types Thread_Properties Device_Properties Kernel_Steps
begin

text \<open>
  The property of the kernel's start, with the run of the system calls after it.
\<close>

section \<open>Starting\<close>

lemma first_dispatch:
  assumes "kinv s (no_threads(QReady := p # ps))" and "running s (no_threads(QReady := p # ps))" and "kthread_current s = kthread_main s"
  shows "\<exists>s'. kthread_dispatch s = Some s' \<and> kthread_current s' = p"
proof -
  have R: "requeued s (no_threads(QReady := p # ps)) = p # ps" using assms(3) by (simp add: requeued_def)
  show ?thesis
    using kthread_dispatch_kinv [OF assms(1)] running_live [OF assms(2)] assms(2) unfolding R by (auto simp: running_def)
qed

text \<open>
  C18: The kernel starts. With static data as the C startup code leaves it and room for two threads in the heap, \<open>init\<close> does not
  fault and leaves a well-formed kernel: the idle thread runs, the signal processor and then \<open>main\<close> are ready, the ring of
  signals is empty, its mutex is free, and nobody waits for its condition. The first dispatch runs the signal processor. From
  then on, in every run of \<open>kruns\<close> (user code, timer interrupts and scheduling and memory calls, with signals and broadcasts only
  under \<open>waiters_ok\<close>), the kernel is well formed and neither thread is lost before it exits.
\<close>

theorem kernel_boots:
  assumes geo: "RAM_START \<le> HS" "HE \<le> RAM_END" "unat HS + 64 \<le> unat HE" and N: "N = (unat HE - unat HS) div 64"
    and f: "fresh_kernel HS s" and im: "image_ok HS N im (kram s)" and room: "2 * (67 + blocks_of (tdata_size im)) \<le> N"
  shows "\<exists>s' p q t u s1. kernel_init HS HE im j1 j2 sp mn s = Some s' \<and> kthread_current s' = kthread_main s
    \<and> dom (thrs s') = {kthread_main s, p, q} \<and> distinct [kthread_main s, p, q]
    \<and> thrs s' p = Some t \<and> pc (ctx t) = sp \<and> thrs s' q = Some u \<and> pc (ctx u) = mn
    \<and> kinv s' (no_threads(QReady := [p, q])) \<and> running s' (no_threads(QReady := [p, q]))
    \<and> (\<exists>x. mtxs s' (requests_mutex s) = Some x \<and> owner x = NULL) \<and> pending s' = []
    \<and> kthread_dispatch s' = Some s1 \<and> kthread_current s1 = p
    \<and> (\<forall>s'' E. kruns s' s'' E \<longrightarrow> (\<exists>Q. kinv s'' Q \<and> running s'' Q
        \<and> (\<forall>x\<in>{p, q}. x \<in> E \<or> x = kthread_current s'' \<or> (\<exists>r. x \<in> set (Q r)))))"
proof -
  obtain s' p q L t u where b: "kernel_init HS HE im j1 j2 sp mn s = Some s'" "kinv s' (no_threads(QReady := [p, q]))"
    "running s' (no_threads(QReady := [p, q]))" "kthread_current s' = kthread_main s" "kthread_main s' = kthread_main s"
    "dom (thrs s') = {kthread_main s, p, q}" "distinct [kthread_main s, p, q]"
    "thrs s' p = Some t" "pc (ctx t) = sp" "thrs s' q = Some u" "pc (ctx u) = mn"
    "mtxs s' = [requests_mutex s \<mapsto> \<lparr>owner = NULL, mq_head = NULL, mq_tail = NULL, lock_count = 0, recursive = False\<rparr>]"
    "req_head s' = 0" "req_tail s' = 0"
  proof -
    from kernel_init_boots [OF geo N f im room, of j1 j2 sp mn] show thesis by (elim exE conjE) (rule that)
  qed
  let ?Q = "no_threads(QReady := [p, q])"
  obtain s1 where s1: "kthread_dispatch s' = Some s1" "kthread_current s1 = p"
    using first_dispatch [OF b(2,3)] b(4,5) by auto
  have ev: "dom (thrs s') - {kthread_main s'} \<subseteq> everyone s' ?Q"
    using b(4-7) by (auto simp: everyone_def placed_def queued_def)
  have runs: "\<exists>Q. kinv s'' Q \<and> running s'' Q \<and> (\<forall>x\<in>{p, q}. x \<in> E \<or> x = kthread_current s'' \<or> (\<exists>r. x \<in> set (Q r)))"
    if k: "kruns s' s'' E" for s'' E
  proof -
    obtain Q where Q: "kinv s'' Q" "running s'' Q" "dom (thrs s'') - {kthread_main s''} \<subseteq> everyone s'' Q \<union> E"
      "dom (thrs s'') = dom (thrs s')" "kthread_main s'' = kthread_main s'"
      using kruns_inv [OF k b(2,3) ev] by blast
    have "{p, q} \<subseteq> everyone s'' Q \<union> E" using Q(3) b(5,6,7) unfolding Q(4,5) by auto
    then show ?thesis using Q(1,2) by (intro exI [of _ Q]) (auto simp: everyone_def placed_def queued_def)
  qed
  have "pending s' = []" using b(13,14) by (simp add: pending_def)
  then show ?thesis using b(1-11) s1 runs
    by (intro exI [of _ s'] exI [of _ p] exI [of _ q] exI [of _ t] exI [of _ u] exI [of _ s1]) (simp add: b(12))
qed

text \<open>The kernel before \<open>init\<close>, for a heap of 192 blocks.\<close>

definition unbooted :: kernel where
  "unbooted = demo_kernel (boot_state\<lparr>thrs := [IDLE \<mapsto> initial_main], mtxs := Map.empty, cnds := Map.empty, kthread_current := IDLE\<rparr>)
     mapped_ram []"

lemma unbooted_fresh: "fresh_kernel 0x50001000 unbooted" "kram unbooted = kram boot_state"
  by (simp_all add: unbooted_def fresh_kernel_def demo_kernel_def kernel.defs kstate.defs boot_state_def demo_state_def
      boot_heap_def IDLE_def)

lemma unbooted_room:
  "RAM_START \<le> (0x50001000 :: addr)" "(0x50004000 :: addr) \<le> RAM_END" "unat (0x50001000 :: addr) + 64 \<le> unat (0x50004000 :: addr)"
  "192 = (unat (0x50004000 :: addr) - unat (0x50001000 :: addr)) div 64"
  "fresh_kernel 0x50001000 unbooted" "image_ok 0x50001000 192 demo_image (kram unbooted)"
  "2 * (67 + blocks_of (tdata_size demo_image)) \<le> 192"
  using unbooted_fresh boot_image
  by (simp_all add: RAM_START_def RAM_END_def calculate_blocks_def tdata_size_def demo_image_def sizeof_mem_segment_def
      KMEM_BLOCK_SIZE_def)

theorem kernel_boots_witness:
  "\<exists>s'. kernel_init 0x50001000 0x50004000 demo_image demo_junk demo_junk 0x40000300 0x40000200 unbooted = Some s'
     \<and> card (dom (thrs s')) = 3 \<and> pending s' = []"
  using kernel_boots [OF unbooted_room, of demo_junk demo_junk "0x40000300" "0x40000200"]
  by (elim exE conjE) (intro exI conjI, assumption, simp_all)

section \<open>Types\<close>

text \<open>
  C17: The kernel's state stays well typed. After \<open>init\<close>, in every run of traps of any cause (system calls, faults, the timer,
  interrupts) and of user code between them, the running thread exists, every saved register file has its 16 words, the ring has its
  ten entries with both indices in range, there are nine handlers, no address becomes or stops being memory, and the kernel's static
  objects stay where they are. So the accesses of the kernel to these arrays are in bounds: no signal sent or taken and no parameter
  read faults.
\<close>

theorem kernel_stays_typed:
  assumes f: "fresh_kernel HS s" and j: "length (regs (ctx j1)) = 16" "length (regs (ctx j2)) = 16"
    and i: "kernel_init HS HE im j1 j2 sp mn s = Some s0" and r: "trap_runs im s0 s'"
  shows "kernel_wf s' \<and> same_static s s' \<and> ring_put sig s' \<noteq> None \<and> take_request s' \<noteq> None
    \<and> (\<exists>t. thrs s' (kthread_current s') = Some t \<and> REG_A5 < length (regs (ctx t)) \<and> get_param 0 s' = Some (regs (ctx t) ! REG_A0))"
proof -
  have "kernel_wf s"
    using f by (auto simp: fresh_kernel_def kernel_wf_def regs_ok_def live_def ring_wf_def initial_main_def)
  moreover have g: "good s s'" using kernel_init_good [OF i j] trap_runs_good [OF r] good_trans by blast
  ultimately have wf: "kernel_wf s'" by (simp add: kernel_wf_def good_def keeps_def)
  then obtain t where t: "thrs s' (kthread_current s') = Some t" "length (regs (ctx t)) = 16"
    by (auto simp: kernel_wf_def live_def regs_ok_def)
  have "unat (req_head s') < 10" "unat (req_tail s') < 10"
    using wf by (auto simp: kernel_wf_def ring_wf_def word_less_nat_alt)
  then have "ring_put sig s' \<noteq> None" "take_request s' \<noteq> None"
    using wf by (simp_all add: kernel_wf_def ring_wf_def ring_put_def take_request_def)
  then show ?thesis using wf g t by (simp add: good_def keeps_def get_param_def get_reg_def REG_A5_def)
qed

theorem kernel_stays_typed_witness:
  "\<exists>s0 s1. kernel_init 0x50001000 0x50004000 demo_image demo_junk demo_junk 0x40000300 0x40000200 unbooted = Some s0
     \<and> exception_handler demo_image demo_junk (EXCEPTION_INTERRUPT OR TIMER_INTERRUPT) s0 = Some s1
     \<and> kthread_current s1 \<noteq> kthread_current s0 \<and> kernel_wf s1 \<and> ring_put 5 s1 \<noteq> None"
proof -
  obtain s0 p q where b: "kernel_init 0x50001000 0x50004000 demo_image demo_junk demo_junk 0x40000300 0x40000200 unbooted = Some s0"
    "kinv s0 (no_threads(QReady := [p, q]))" "running s0 (no_threads(QReady := [p, q]))"
    "kthread_current s0 = kthread_main unbooted" "kthread_main s0 = kthread_main unbooted" "distinct [kthread_main unbooted, p, q]"
  proof -
    from kernel_init_boots [OF unbooted_room, of demo_junk demo_junk "0x40000300" "0x40000200"]
    show thesis by (elim exE conjE) (rule that)
  qed
  obtain s1 where s1: "kthread_dispatch s0 = Some s1" "kthread_current s1 = p"
    using first_dispatch [OF b(2,3)] b(4,5) by auto
  have e: "exception_handler demo_image demo_junk (EXCEPTION_INTERRUPT OR TIMER_INTERRUPT) s0 = Some s1"
    using s1(1) by (simp add: exception_handler_def EXCEPTION_INTERRUPT_def TIMER_INTERRUPT_def EXTERNAL_INTERRUPT_def)
  note r = trap_runs.trap [OF trap_runs.start demo_junk_regs e]
  show ?thesis
    using kernel_stays_typed [OF unbooted_room(5) demo_junk_regs demo_junk_regs b(1) r, of 5] b(1,4,6) e s1(2) by auto
qed

end
