(* ===== verification/Signal_Properties.thy ===== *)
theory Signal_Properties
  imports Signal_Delivery
begin

text \<open>
  A signal from the interrupt that raises it to its handler, and the wake-up the processor misses.
\<close>

section \<open>Delivery\<close>

text \<open>
  C23: Delivery. When the processor waits and an interrupt sends a signal while at most eight are pending, then after one round of
  timer interrupts the processor runs; it takes the oldest pending signal, releases its mutex and calls the handler of this signal.
\<close>

theorem signal_reaches_handler:
  assumes I: "kinv s Q" and run: "running s Q" and ring: "ring_ok s" "length (pending s) < 9"
    and p: "Q (QCond (requests_cond s)) = [p]" "info s p = Some (BLOCKED, requests_mutex s)" "thrs s p = Some t" "length (regs (ctx t)) = 16"
    and c: "cnds s (requests_cond s) = Some z"
    and m: "requests_mutex s \<noteq> NULL" "mtxs s (requests_mutex s) = Some x" "owner x = NULL"
    and oldest: "pending s @ [sig] = oldest # later" and h: "handler_of oldest s = Some h" "h \<noteq> NULL"
  shows "\<exists>s1 s2 s3. ksignal_send sig s = Some s1 \<and> dispatch_times (Suc (length (Q QReady))) s1 = Some s2 \<and> kthread_current s2 = p
    \<and> processor_steps im junk call 3 At_Test s2 = Some (At_Handle oldest, s3) \<and> pending s3 = later
    \<and> (\<exists>x'. mtxs s3 (requests_mutex s) = Some x' \<and> owner x' = NULL)
    \<and> signal_processor im junk call (At_Handle oldest) s3 = map_option (Pair At_Lock) (call h oldest s3)"
proof -
  let ?m = "requests_mutex s" and ?Q = "Q(QCond (requests_cond s) := [], QReady := Q QReady @ [p])"
  obtain s1 where s1: "ksignal_send sig s = Some s1" "kinv s1 ?Q" "running s1 ?Q"
    "mtxs s1 ?m = Some (x\<lparr>owner := p, lock_count := 1\<rparr>)" "ring_ok s1" "pending s1 = oldest # later"
    "sig_handlers s1 = sig_handlers s" "requests_mutex s1 = ?m"
    "\<forall>y t. thrs s y = Some t \<longrightarrow> (\<exists>t'. thrs s1 y = Some t' \<and> ctx t' = ctx t)"
    using send_wakes [OF I run ring p(1,2) c m(2,3), of sig] unfolding oldest by blast
  obtain s2 Q2 where s2: "dispatch_times (Suc (length (Q QReady))) s1 = Some s2" "kinv s2 Q2" "running s2 Q2" "kthread_current s2 = p"
    "sched_frame s1 s2" "\<forall>r. r \<noteq> QReady \<longrightarrow> Q2 r = ?Q r"
    using last_ready_runs [OF s1(2,3), of "Q QReady" p] by auto
  note F = sync_frame_sched [OF s2(5)]
  note f = sync_frame_ring [OF F]
  obtain t2 where t2: "thrs s2 p = Some t2" "length (regs (ctx t2)) = 16"
    using s1(9) p(3,4) sync_frame_regs [OF F, of p] by fastforce
  have m2: "mtxs s2 (requests_mutex s2) = Some (x\<lparr>owner := p, lock_count := 1\<rparr>)" "Q2 (QMutex (requests_mutex s2)) = []"
    "unlocked (x\<lparr>owner := p, lock_count := 1\<rparr>)"
    using s2(6) kinvD(3) [OF I m(2)] m(3) sched_frameD [OF s2(5)] s1(4,8) f(5) by (simp_all add: mutex_ok_def unlocked_def)
  have r2: "ring_ok s2" "pending s2 = oldest # later" using ring_same [OF f(1-3)] s1(5,6) by simp_all
  have h2: "handler_of oldest s2 = Some h" "requests_mutex s2 \<noteq> NULL" using h(1) m(1) s1(7,8) f(4,5) by (simp_all add: handler_of_def split: if_splits)
  show ?thesis
    using processor_handles [OF s2(2,3,4) t2 r2 h2(2) m2(1) _ m2(3,2) h2(1) h(2), of im junk call] s1(1,8) s2(1,4) f(5) by auto
qed

lemma demo_kernel_fields:
  "thrs (demo_kernel k m cs) = thrs k" "mtxs (demo_kernel k m cs) = mtxs k" "cnds (demo_kernel k m cs) = cnds k"
  "kscheduler_head (demo_kernel k m cs) = kscheduler_head k" "kscheduler_tail (demo_kernel k m cs) = kscheduler_tail k"
  "kthread_main (demo_kernel k m cs) = kthread_main k" "kthread_current (demo_kernel k m cs) = kthread_current k"
  "requests_mutex (demo_kernel k m cs) = MTX" "requests_cond (demo_kernel k m cs) = CND" "sig_handlers (demo_kernel k m cs) = replicate 9 0"
  "ring_ok (demo_kernel k m cs)" "pending (demo_kernel k m cs) = []"
  by (simp_all add: demo_kernel_def kernel.defs kstate.defs ring_ok_def pending_def)

lemma demo_kernel_kinv:
  assumes "kinv k Q" and "running k Q"
  shows "kinv (demo_kernel k m cs) Q" "running (demo_kernel k m cs) Q"
proof -
  have n: "nxt (demo_kernel k m cs) = nxt k" "info (demo_kernel k m cs) = info k"
    by (simp_all add: nxt_def info_def fun_eq_iff demo_kernel_fields)
  show "kinv (demo_kernel k m cs) Q" by (rule kinv_frame [OF assms(1) n]) (simp_all add: demo_kernel_fields)
  show "running (demo_kernel k m cs) Q" using assms(2) n by (simp add: running_def demo_kernel_fields)
qed

text \<open>\<open>T1\<close> runs, \<open>T3\<close> is ready, the processor \<open>T2\<close> waits, every signal has a handler.\<close>

lemma waiting_demo:
  fixes s defines "s \<equiv> (demo_kernel (demo_cond1 NULL) Map.empty [])\<lparr>sig_handlers := replicate 9 0x400\<rparr>"
  shows "kinv s (demo_queues [T3] [] [T2])" "running s (demo_queues [T3] [] [T2])" "ring_ok s" "pending s = []"
    "demo_queues [T3] [] [T2] (QCond (requests_cond s)) = [T2]" "info s T2 = Some (BLOCKED, requests_mutex s)"
    "thrs s T2 = Some (demo_thread BLOCKED MTX 0 MTX)" "length (regs (ctx (demo_thread BLOCKED MTX 0 MTX))) = 16"
    "cnds s (requests_cond s) = Some \<lparr>cq_head = T2, cq_tail = T2\<rparr>"
    "requests_mutex s \<noteq> NULL" "mtxs s (requests_mutex s) = Some (demo_mutex NULL 0 0)" "owner (demo_mutex NULL 0 0) = NULL"
proof -
  let ?k = "demo_kernel (demo_cond1 NULL) Map.empty []" and ?Q = "demo_queues [T3] [] [T2]"
  note K = demo_kernel_kinv [OF demo_cond1_ok, of NULL Map.empty "[]"]
  have n: "nxt s = nxt ?k" "info s = info ?k" by (simp_all add: s_def nxt_def info_def fun_eq_iff)
  show "kinv s ?Q" by (rule kinv_frame [OF K(1) n]) (simp_all add: s_def)
  show "running s ?Q" using K(2) n by (simp add: running_def s_def)
  show "ring_ok s" "pending s = []"
    using demo_kernel_fields(11,12) [of "demo_cond1 NULL" Map.empty "[]"] by (simp_all add: s_def ring_ok_def pending_def)
  show "?Q (QCond (requests_cond s)) = [T2]" by (simp add: s_def demo_kernel_fields)
  show "info s T2 = Some (BLOCKED, requests_mutex s)" by (simp add: s_def info_def demo_kernel_fields demo_eval)
  show "thrs s T2 = Some (demo_thread BLOCKED MTX 0 MTX)" by (simp add: s_def demo_kernel_fields demo_defs demo_addr)
  show "length (regs (ctx (demo_thread BLOCKED MTX 0 MTX))) = 16" by (simp add: demo_thread_def demo_regs_def)
  show "cnds s (requests_cond s) = Some \<lparr>cq_head = T2, cq_tail = T2\<rparr>" by (simp add: s_def demo_kernel_fields demo_defs)
  show "requests_mutex s \<noteq> NULL" "mtxs s (requests_mutex s) = Some (demo_mutex NULL 0 0)" "owner (demo_mutex NULL 0 0) = NULL"
    by (simp_all add: s_def demo_kernel_fields demo_defs demo_addr)
qed

theorem signal_reaches_handler_witness:
  "\<forall>im junk call. \<exists>s1 s2 s3. let s = (demo_kernel (demo_cond1 NULL) Map.empty [])\<lparr>sig_handlers := replicate 9 0x400\<rparr> in
     ksignal_send 5 s = Some s1 \<and> dispatch_times 2 s1 = Some s2 \<and> kthread_current s2 = T2
     \<and> processor_steps im junk call 3 At_Test s2 = Some (At_Handle 5, s3) \<and> pending s3 = []"
proof (intro allI)
  fix im junk and call :: "addr \<Rightarrow> u32 \<Rightarrow> kernel \<Rightarrow> kernel option"
  let ?s = "(demo_kernel (demo_cond1 NULL) Map.empty [])\<lparr>sig_handlers := replicate 9 0x400\<rparr>" and ?Q = "demo_queues [T3] [] [T2]"
  note D = waiting_demo
  have h: "handler_of 5 ?s = Some 0x400" "(0x400 :: addr) \<noteq> NULL" by (simp_all add: handler_of_def)
  have "\<exists>s1 s2 s3. ksignal_send 5 ?s = Some s1 \<and> dispatch_times (Suc (length (?Q QReady))) s1 = Some s2 \<and> kthread_current s2 = T2
    \<and> processor_steps im junk call 3 At_Test s2 = Some (At_Handle 5, s3) \<and> pending s3 = []
    \<and> (\<exists>x'. mtxs s3 (requests_mutex ?s) = Some x' \<and> owner x' = NULL)
    \<and> signal_processor im junk call (At_Handle 5) s3 = map_option (Pair At_Lock) (call 0x400 5 s3)"
    by (rule signal_reaches_handler [OF D(1,2,3) _ D(5-12) _ h]) (simp_all add: D(4))
  then show "\<exists>s1 s2 s3. let s = ?s in ksignal_send 5 s = Some s1 \<and> dispatch_times 2 s1 = Some s2 \<and> kthread_current s2 = T2
     \<and> processor_steps im junk call 3 At_Test s2 = Some (At_Handle 5, s3) \<and> pending s3 = []"
    unfolding Let_def by (elim exE conjE, intro exI conjI) (simp_all add: eval_nat_numeral)
qed

section \<open>Faults\<close>

text \<open>
  C19: A fault stops its thread and nothing else. When a thread executes an illegal instruction or accesses memory it must not while the
  processor waits and no signal is pending, the trap leaves a well-formed kernel with the address of the instruction recorded. The
  thread never runs again, in no run of the scheduling system calls. After one round of the threads that are ready the processor
  runs, takes the signal of the fault and calls its handler.
\<close>

theorem fault_stops_thread:
  assumes I: "kinv s Q" and run: "running s Q" and ring: "ring_ok s" "pending s = []"
    and t: "thrs s (kthread_current s) = Some t" "kthread_current s \<noteq> kthread_main s"
    and p: "Q (QCond (requests_cond s)) = [p]" "info s p = Some (BLOCKED, requests_mutex s)" "thrs s p = Some u" "length (regs (ctx u)) = 16"
    and c: "cnds s (requests_cond s) = Some z"
    and m: "requests_mutex s \<noteq> NULL" "mtxs s (requests_mutex s) = Some x" "owner x = NULL"
    and cause: "cause \<in> {0, 1, 2, 4, 5, 6, 7}" "sig = signal_code (if cause \<le> 2 then ILLEGAL else MEM_ACCESS)"
    and h: "handler_of sig s = Some h" "h \<noteq> NULL"
  shows "\<exists>s1 Q1 s2 s3. exception_handler im junk cause s = Some s1 \<and> kinv s1 Q1 \<and> running s1 Q1 \<and> ksig_addr s1 = pc (ctx t)
    \<and> (\<forall>s' E. kruns s1 s' E \<longrightarrow> kthread_current s' \<noteq> kthread_current s)
    \<and> dispatch_times (length (Q QReady)) s1 = Some s2 \<and> kthread_current s2 = p
    \<and> processor_steps im junk call 3 At_Test s2 = Some (At_Handle sig, s3) \<and> pending s3 = []
    \<and> signal_processor im junk call (At_Handle sig) s3 = map_option (Pair At_Lock) (call h sig s3)"
proof -
  let ?m = "requests_mutex s" and ?Q = "Q(QCond (requests_cond s) := [], QReady := Q QReady @ [p])"
  let ?s = "s\<lparr>ksig_addr := pc (ctx t)\<rparr>"
  have n: "nxt ?s = nxt s" "info ?s = info s" by (simp_all add: nxt_def info_def fun_eq_iff)
  have I0: "kinv ?s Q" by (rule kinv_frame [OF I n]) simp_all
  have run0: "running ?s Q" using run n by (simp add: running_def)
  have ring0: "ring_ok ?s" "pending ?s = []" using ring ring_same [of ?s s] by simp_all
  have len: "length (pending ?s) < 9" using ring0(2) by simp
  have p0: "Q (QCond (requests_cond ?s)) = [p]" "info ?s p = Some (BLOCKED, requests_mutex ?s)" using p n by simp_all
  have x0: "cnds ?s (requests_cond ?s) = Some z" "mtxs ?s (requests_mutex ?s) = Some x" using c m by simp_all
  obtain s1 where s1: "ksignal_send sig ?s = Some s1" "kinv s1 ?Q" "running s1 ?Q"
    "kthread_main s1 = kthread_main s" "mtxs s1 ?m = Some (x\<lparr>owner := p, lock_count := 1\<rparr>)" "ring_ok s1" "pending s1 = [sig]"
    "sig_handlers s1 = sig_handlers s" "requests_mutex s1 = ?m" "ksig_addr s1 = pc (ctx t)"
    "\<forall>y t. thrs s y = Some t \<longrightarrow> (\<exists>t'. thrs s1 y = Some t' \<and> ctx t' = ctx t)"
    using send_wakes [OF I0 run0 ring0(1) len p0 x0 m(3), of sig] ring0(2) by auto
  obtain s2 Q2 where s2: "kthread_stop s1 = Some s2" "kinv s2 Q2" "running s2 Q2" "everyone s2 Q2 = placed ?Q - {kthread_main s1}"
    "kthread_main s2 = kthread_main s1" "kthread_current s2 # Q2 QReady = Q QReady @ [p]" "\<forall>r. r \<noteq> QReady \<longrightarrow> Q2 r = ?Q r"
    "kthread_current s2 \<noteq> kthread_main s2" "mtxs s2 = mtxs s1" "sync_frame s1 s2"
    using stop_runs_next [OF s1(2)] by fastforce
  obtain s3 Q3 where s3: "dispatch_times (length (Q QReady)) s2 = Some s3" "kinv s3 Q3" "running s3 Q3"
    "kthread_current s3 # Q3 QReady = rotate (length (Q QReady)) (Q QReady @ [p])" "\<forall>r. r \<noteq> QReady \<longrightarrow> Q3 r = Q2 r"
    using dispatch_times_rotates [OF s2(2,3,8), of "length (Q QReady)"] unfolding s2(6) by blast
  have p3: "kthread_current s3 = p" using s3(4) unfolding rotate_append by simp
  note D = dispatch_times_frame [OF s3(1) s2(2,3)]
  note F = sync_frame_trans [OF s2(10) sync_frame_sched [OF D]]
  note f = sync_frame_ring [OF F]
  obtain u3 where u3: "thrs s3 p = Some u3" "length (regs (ctx u3)) = 16"
    using s1(11) p(3,4) sync_frame_regs [OF F, of p] by fastforce
  have m3: "mtxs s3 (requests_mutex s3) = Some (x\<lparr>owner := p, lock_count := 1\<rparr>)" "Q3 (QMutex (requests_mutex s3)) = []"
    "unlocked (x\<lparr>owner := p, lock_count := 1\<rparr>)" "requests_mutex s3 \<noteq> NULL"
    using s3(5) s2(7,9) kinvD(3) [OF I m(2)] m(1,3) sched_frameD [OF D] s1(5,9) f(5) by (simp_all add: mutex_ok_def unlocked_def)
  have r3: "ring_ok s3" "pending s3 = [sig]" using ring_same [OF f(1-3)] s1(6,7) by simp_all
  have h3: "handler_of sig s3 = Some h" using h(1) s1(8) f(4) by (simp add: handler_of_def split: if_splits)
  have gone: "kthread_current s' \<noteq> kthread_current s" if r: "kruns s2 s' E" for s' E
  proof (rule gone_for_good [OF r s2(2,3)])
    have nq: "\<not> queued Q (kthread_current s)" using run by (simp add: running_def)
    have "kthread_current s \<noteq> p" using nq p(1) unfolding queued_def by (metis list.set_intros(1))
    then have "\<not> queued ?Q (kthread_current s)" using nq by (auto simp: queued_def split: if_splits)
    then show "kthread_current s \<notin> everyone s2 Q2" unfolding s2(4) by (simp add: placed_def)
  qed (use t(2) s1(4) s2(5) in simp)
  have e: "exception_handler im junk cause s = Some s2"
    using cause t(1) s1(1) s2(1)
    by (auto simp: exception_handler_def fault_def EXCEPTION_INTERRUPT_def EXTERNAL_INTERRUPT_def TIMER_INTERRUPT_def)
  have k: "ksig_addr s2 = pc (ctx t)" using sync_frame_ring(10) [OF s2(10)] s1(10) by simp
  obtain s4 where "processor_steps im junk call 3 At_Test s3 = Some (At_Handle sig, s4)" "pending s4 = []"
    "signal_processor im junk call (At_Handle sig) s4 = map_option (Pair At_Lock) (call h sig s4)"
    using processor_handles [OF s3(2,3) p3 u3 r3 m3(4,1) _ m3(3,2) h3 h(2), of im junk call] by auto
  then show ?thesis using e s2(2,3) k gone s3(1) p3
    by (intro exI [of _ s2] exI [of _ Q2] exI [of _ s3] exI [of _ s4]) simp
qed

theorem fault_stops_thread_witness:
  "\<forall>im junk call. \<exists>s1 s2 s3. let s = (demo_kernel (demo_cond1 NULL) Map.empty [])\<lparr>sig_handlers := replicate 9 0x400\<rparr> in
     exception_handler im junk 2 s = Some s1 \<and> dispatch_times 1 s1 = Some s2 \<and> kthread_current s2 = T2
     \<and> processor_steps im junk call 3 At_Test s2 = Some (At_Handle 1, s3) \<and> (\<forall>s' E. kruns s1 s' E \<longrightarrow> kthread_current s' \<noteq> T1)"
proof (intro allI)
  fix im junk and call :: "addr \<Rightarrow> u32 \<Rightarrow> kernel \<Rightarrow> kernel option"
  let ?s = "(demo_kernel (demo_cond1 NULL) Map.empty [])\<lparr>sig_handlers := replicate 9 0x400\<rparr>" and ?Q = "demo_queues [T3] [] [T2]"
  note D = waiting_demo
  have t: "thrs ?s (kthread_current ?s) = Some (demo_thread RUNNING 0 0 CND)" "kthread_current ?s \<noteq> kthread_main ?s"
    by (simp_all add: demo_kernel_fields demo_defs demo_addr)
  have h: "handler_of 1 ?s = Some 0x400" "(0x400 :: addr) \<noteq> NULL" by (simp_all add: handler_of_def)
  have c: "kthread_current ?s = T1" by (simp add: demo_kernel_fields demo_defs)
  have l: "length (?Q QReady) = 1" by simp
  have "\<exists>s1 Q1 s2 s3. exception_handler im junk 2 ?s = Some s1 \<and> kinv s1 Q1 \<and> running s1 Q1 \<and> ksig_addr s1 = pc (ctx (demo_thread RUNNING 0 0 CND))
    \<and> (\<forall>s' E. kruns s1 s' E \<longrightarrow> kthread_current s' \<noteq> kthread_current ?s)
    \<and> dispatch_times (length (?Q QReady)) s1 = Some s2 \<and> kthread_current s2 = T2
    \<and> processor_steps im junk call 3 At_Test s2 = Some (At_Handle 1, s3) \<and> pending s3 = []
    \<and> signal_processor im junk call (At_Handle 1) s3 = map_option (Pair At_Lock) (call 0x400 1 s3)"
    by (rule fault_stops_thread [OF D(1,2,3,4) t D(5-12) _ _ h]) simp_all
  then show "\<exists>s1 s2 s3. let s = ?s in exception_handler im junk 2 s = Some s1 \<and> dispatch_times 1 s1 = Some s2 \<and> kthread_current s2 = T2
     \<and> processor_steps im junk call 3 At_Test s2 = Some (At_Handle 1, s3) \<and> (\<forall>s' E. kruns s1 s' E \<longrightarrow> kthread_current s' \<noteq> T1)"
    unfolding Let_def l c by blast
qed

section \<open>The missed wake-up\<close>

text \<open>
  C24: The interrupt that sends a signal does not take the mutex. When it comes after the processor has found the ring empty and
  before it waits, the signal is in the ring, but nobody waits yet; the processor then goes to sleep although a signal is pending.
\<close>

theorem processor_misses_signal:
  assumes I: "kinv s Q" and run: "running s Q" and user: "kthread_current s \<noteq> kthread_main s"
    and t: "thrs s (kthread_current s) = Some t" "length (regs (ctx t)) = 16"
    and ring: "ring_ok s" "pending s = []"
    and c: "requests_cond s \<noteq> NULL" "cnds s (requests_cond s) = Some z" "Q (QCond (requests_cond s)) = []"
    and m: "requests_mutex s \<noteq> NULL" "mtxs s (requests_mutex s) = Some x" "owner x = kthread_current s" "unlocked x"
      "Q (QMutex (requests_mutex s)) = []"
  shows "\<exists>s1 s2 Q2. signal_processor im junk call At_Test s = Some (At_Wait, s) \<and> ksignal_send sig s = Some s1
    \<and> signal_processor im junk call At_Wait s1 = Some (At_Test, s2) \<and> pending s2 = [sig]
    \<and> kinv s2 Q2 \<and> running s2 Q2 \<and> Q2 (QCond (requests_cond s)) = [kthread_current s]"
proof -
  have "ring_take s = Some (None, s)" using ring_take_pending [OF ring(1)] ring(2) by simp
  then have "req_head s = req_tail s" by (auto simp: ring_take_def bind_eq_Some_conv split: if_splits)
  then have test: "signal_processor im junk call At_Test s = Some (At_Wait, s)" by simp
  obtain s1 where s1: "ring_put sig s = Some s1" "pending s1 = [sig]"
    using ring_put_pending [OF ring(1), of sig] ring(2) by auto
  have same: "thrs s1 = thrs s" "mtxs s1 = mtxs s" "cnds s1 = cnds s" "kscheduler_head s1 = kscheduler_head s"
    "kscheduler_tail s1 = kscheduler_tail s" "kthread_main s1 = kthread_main s" "kthread_current s1 = kthread_current s"
    "requests_mutex s1 = requests_mutex s" "requests_cond s1 = requests_cond s"
    using s1(1) by (auto simp: ring_put_def split: if_splits)
  have n: "nxt s1 = nxt s" "info s1 = info s" using same(1) by (simp_all add: nxt_def info_def fun_eq_iff)
  have I1: "kinv s1 Q" by (rule kinv_frame [OF I n]) (use same in simp_all)
  have r1: "running s1 Q" using run n same by (simp add: running_def)
  have "kcond_signal (requests_cond s) True s1 = Some s1"
    by (rule kcond_signal_empty [OF I1 _ c(3)]) (use c(2) same in simp)
  then have send: "ksignal_send sig s = Some s1" using s1(1) same(9) by (simp add: ksignal_send_def)
  have "\<exists>s' Q'. ecall im junk 0x32 [requests_cond s1, requests_mutex s1] s1 = Some s' \<and> kinv s' Q' \<and> running s' Q'
    \<and> Q' (QCond (requests_cond s1)) = [kthread_current s1] \<and> requests s' = requests s1 \<and> req_head s' = req_head s1
    \<and> req_tail s' = req_tail s1 \<and> requests_cond s' = requests_cond s1"
    by (rule ecall_wait [OF I1 r1]) (use user t c m same in simp_all)
  then obtain s2 Q2 where s2: "ecall im junk 0x32 [requests_cond s1, requests_mutex s1] s1 = Some s2" "kinv s2 Q2" "running s2 Q2"
    "Q2 (QCond (requests_cond s)) = [kthread_current s]" "requests s2 = requests s1" "req_head s2 = req_head s1" "req_tail s2 = req_tail s1"
    unfolding same by blast
  have "pending s2 = [sig]" using ring_same [OF s2(5-7)] s1(2) by simp
  then show ?thesis using test send s2(1-4) by (intro exI [of _ s1] exI [of _ s2] exI [of _ Q2]) simp
qed

text \<open>\<open>T1\<close> runs and owns the mutex, \<open>T2\<close> is ready, nobody waits.\<close>

definition demo_alone :: kstate where
  "demo_alone = demo_state [IDLE \<mapsto> demo_thread RUNNING 0 0 MTX, T1 \<mapsto> demo_thread RUNNING 0 0 MTX, T2 \<mapsto> demo_thread READY 0 0 MTX]
     (demo_mutex T1 0 0) \<lparr>cq_head = 0, cq_tail = 0\<rparr> T2 T2"

lemma demo_alone_ok:
  "kinv demo_alone (demo_queues [T2] [] [])" "running demo_alone (demo_queues [T2] [] [])"
  by (rule kinvI [of _ _ "demo_mutex T1 0 0" _ "\<lparr>cq_head = 0, cq_tail = 0\<rparr>"]) (simp_all add: demo_eval demo_alone_def)

theorem processor_misses_signal_witness:
  "\<forall>im junk call. \<exists>s1 s2. signal_processor im junk call At_Test (demo_kernel demo_alone Map.empty []) = Some (At_Wait, demo_kernel demo_alone Map.empty [])
    \<and> ksignal_send 5 (demo_kernel demo_alone Map.empty []) = Some s1 \<and> signal_processor im junk call At_Wait s1 = Some (At_Test, s2) \<and> pending s2 = [5]"
proof (intro allI)
  fix im junk and call :: "addr \<Rightarrow> u32 \<Rightarrow> kernel \<Rightarrow> kernel option"
  let ?s = "demo_kernel demo_alone Map.empty []" and ?Q = "demo_queues [T2] [] []"
  note K = demo_kernel_kinv [OF demo_alone_ok, of Map.empty "[]"]
  note F = demo_kernel_fields [of demo_alone Map.empty "[]"]
  have t: "thrs ?s (kthread_current ?s) = Some (demo_thread RUNNING 0 0 MTX)" "length (regs (ctx (demo_thread RUNNING 0 0 MTX))) = 16"
    unfolding F by (simp_all add: demo_alone_def demo_defs demo_addr demo_regs_def)
  have x: "mtxs ?s (requests_mutex ?s) = Some (demo_mutex T1 0 0)" "cnds ?s (requests_cond ?s) = Some \<lparr>cq_head = 0, cq_tail = 0\<rparr>"
    unfolding F by (simp_all add: demo_alone_def demo_state_def)
  have "\<exists>s1 s2 Q2. signal_processor im junk call At_Test ?s = Some (At_Wait, ?s) \<and> ksignal_send 5 ?s = Some s1
    \<and> signal_processor im junk call At_Wait s1 = Some (At_Test, s2) \<and> pending s2 = [5]
    \<and> kinv s2 Q2 \<and> running s2 Q2 \<and> Q2 (QCond (requests_cond ?s)) = [kthread_current ?s]"
    by (rule processor_misses_signal [OF K _ t F(11,12) _ x(2) _ _ x(1)],
      unfold F) (simp_all add: demo_alone_def demo_state_def demo_addr demo_mutex_def unlocked_def)
  then show "\<exists>s1 s2. signal_processor im junk call At_Test ?s = Some (At_Wait, ?s)
    \<and> ksignal_send 5 ?s = Some s1 \<and> signal_processor im junk call At_Wait s1 = Some (At_Test, s2) \<and> pending s2 = [5]" by blast
qed

end
