(* ===== verification/System_Properties.thy ===== *)
theory System_Properties
  imports System_Start System_Calls Boot_Properties Signal_Properties
begin

text \<open>
  The kernel with its signal processor as a whole: the interrupt routine returns, and after \<open>init\<close> no run of threads, object
  creation and destruction, signals, interrupts and faults breaks the queues or the ownership of memory, and the kernel serves every
  trap of these kinds.
\<close>

section \<open>The interrupt routine\<close>

text \<open>
  C22: The interrupt routine returns. It takes every claim of the controller, in their order, and sends the signal of each button, while
  sources without a handler are ignored. The interrupted thread goes on, the queues stay well formed with everyone in them, and if a
  signal came, the processor does not wait any more.
\<close>

theorem handle_ext_intr_drains:
  assumes S: "served p s Q" and c: "claims_ok (dev s)"
    and fits: "length (pending s) + length (intr_signals (plic_claims (dev s))) \<le> 9"
  shows "\<exists>s' Q'. handle_ext_intr s = Some s' \<and> plic_claims (dev s') = []
    \<and> pending s' = pending s @ intr_signals (plic_claims (dev s))
    \<and> kthread_current s' = kthread_current s \<and> kinv s' Q' \<and> running s' Q' \<and> everyone s' Q' = everyone s Q
    \<and> (intr_signals (plic_claims (dev s)) \<noteq> [] \<longrightarrow> Q' (QCond (requests_cond s')) = [])"
proof -
  obtain s1 Q1 where s1: "handle_ext_intr s = Some s1" "served p s1 Q1" "same_objects s s1" "placed Q1 = placed Q"
    "plic_claims (dev s1) = []" "intr_signals (plic_claims (dev s)) \<noteq> [] \<longrightarrow> Q1 (QCond (requests_cond s1)) = []"
    "pending s1 = pending s @ intr_signals (plic_claims (dev s))"
    using handle_ext_intr_served [OF S c] fits by blast
  then show ?thesis by (intro exI [of _ s1] exI [of _ Q1]) (simp add: served_def same_objects_def everyone_def)
qed

text \<open>\<open>T1\<close> runs, \<open>T3\<close> is ready, the processor \<open>T2\<close> waits.\<close>

lemma waiting_served:
  "served T2 ((demo_kernel (demo_cond1 NULL) Map.empty [])\<lparr>sig_handlers := replicate 9 0x400\<rparr>) (demo_queues [T3] [] [T2])"
  unfolding served_def
proof (intro conjI)
  let ?s = "(demo_kernel (demo_cond1 NULL) Map.empty [])\<lparr>sig_handlers := replicate 9 0x400\<rparr>"
  note D = waiting_demo
  show "listens T2 (requests_mutex ?s) (requests_cond ?s) ?s (demo_queues [T3] [] [T2])"
    by (rule listensI [OF D(11) _ _ _ _ _]) (use D(5,6,9) in \<open>auto simp: demo_mutex_def demo_kernel_fields split: if_splits\<close>)
  show "ring_wf ?s" by (simp add: ring_wf_def demo_kernel_def kernel.defs kstate.defs)
qed (rule waiting_demo(1,2))+

theorem handle_ext_intr_drains_witness:
  "\<exists>s'. handle_ext_intr ((demo_kernel (demo_cond1 NULL) Map.empty [])\<lparr>sig_handlers := replicate 9 0x400,
       dev := demo_devices\<lparr>plic_claims := [4, 1, 7]\<rparr>\<rparr>) = Some s' \<and> pending s' = [5, 8] \<and> kthread_current s' = T1"
proof -
  let ?k = "(demo_kernel (demo_cond1 NULL) Map.empty [])\<lparr>sig_handlers := replicate 9 0x400\<rparr>"
  let ?s = "?k\<lparr>dev := demo_devices\<lparr>plic_claims := [4, 1, 7]\<rparr>\<rparr>"
  have S: "served T2 ?s (demo_queues [T3] [] [T2])"
    by (rule served_upd [OF waiting_served]) (use waiting_served in \<open>simp_all add: served_def ring_wf_def\<close>)
  have c: "claims_ok (dev ?s)" by (simp add: claims_ok_def)
  have i: "intr_signals (plic_claims (dev ?s)) = [5, 8]" by (simp add: intr_signals_simps ext_intr_signal_def)
  have p: "pending ?s = []" using ring_dev(2) [of _ ?k] waiting_demo(4) by simp
  have "kthread_current ?s = T1" by (simp add: demo_kernel_fields demo_defs)
  then show ?thesis using handle_ext_intr_drains [OF S c] unfolding p i by auto
qed

section \<open>The system serves its traps\<close>

text \<open>
  C2: The kernel serves its traps in every run of \<open>sys_runs\<close>. These runs start after \<open>init\<close> and consist of the user's code, the scheduling calls, the
  calls that create and destroy threads, mutexes, conditions and memory, timer and external interrupts, faults and the steps of the signal
  processor, under restrictions the code does not check: only the processor uses its mutex and its condition; calls name objects that exist;
  the main thread does not block or exit; a user signals a condition only if at most one thread waits for it, with a mutex another thread
  holds, and broadcasts only if all waiters came with one mutex, which another thread holds (\<open>waiters_ok\<close>; without this the queues break or
  a waiter is lost); it destroys only mutexes and conditions nobody waits for, detaches only threads that have exited, frees only what it was
  given and asks for no size that wraps around; it neither expands a block nor uses thread-specific storage.
  In every state of such a run the queues are well formed, every thread that exists and has not exited or faulted runs or is in one of
  them, and at most the processor waits for its condition, while the mutex is free. A signal can be sent, and every trap under the same
  restrictions (\<open>trap_ok\<close>: a fault, a timer or external interrupt, or a system call as \<open>call_ok\<close> asks for it) is handled to its end, in a
  state that is again one of these runs.
\<close>

theorem kernel_serves_traps:
  assumes geo: "RAM_START \<le> HS" "HE \<le> RAM_END" "unat HS + 64 \<le> unat HE" and N: "N = (unat HE - unat HS) div 64"
    and f: "fresh_kernel HS s" and im: "image_ok HS N im (kram s)" and room: "2 * (67 + blocks_of (tdata_size im)) \<le> N"
    and st: "unat (requests_mutex s) < unat HS" "unat (requests_cond s) < unat HS"
    and j: "length (regs (ctx j1)) = 16" "length (regs (ctx j2)) = 16" "length (regs (ctx junk)) = 16"
  shows "\<exists>s0 p t. kernel_init HS HE im j1 j2 sp mn s = Some s0 \<and> thrs s0 p = Some t \<and> pc (ctx t) = sp
    \<and> (\<forall>U E s'. sys_runs im p s0 U E s' \<longrightarrow>
         (\<exists>Q. kinv s' Q \<and> running s' Q \<and> everyone s' Q = dom (thrs s') - {kthread_main s'} - E
            \<and> (Q (QCond (requests_cond s')) = []
               \<or> Q (QCond (requests_cond s')) = [p] \<and> (\<exists>x. mtxs s' (requests_mutex s') = Some x \<and> owner x = NULL))
            \<and> (\<forall>cause. trap_ok p U Q s' cause \<longrightarrow>
                 (\<exists>s'' U' E'. exception_handler im junk cause s' = Some s'' \<and> sys_runs im p s0 U' E' s'')))
       \<and> (\<forall>sig. ksignal_send sig s' \<noteq> None))"
proof -
  obtain s0 p t where b: "kernel_init HS HE im j1 j2 sp mn s = Some s0" "thrs s0 p = Some t" "pc (ctx t) = sp"
    using kernel_init_boots [OF geo N f im room, of j1 j2 sp mn] by blast
  obtain Q0 L0 where S0: "sound HS N im p {} {} s0 Q0 L0" using kernel_init_sound [OF geo N f im st j(1,2) b(1)] by blast
  show ?thesis
  proof (intro exI [of _ s0] exI [of _ p] exI [of _ t] conjI allI impI b)
    fix U E s' assume r: "sys_runs im p s0 U E s'"
    obtain Q L where S: "sound HS N im p U E s' Q L" "E \<subseteq> dom (thrs s')" using sys_runs_sound [OF r S0] by blast
    note V = soundD(1) [OF S(1)]
    show "ksignal_send sig s' \<noteq> None" for sig using send_served [OF V, of sig] by auto
    have "Q (QCond (requests_cond s')) = []
               \<or> Q (QCond (requests_cond s')) = [p] \<and> (\<exists>x. mtxs s' (requests_mutex s') = Some x \<and> owner x = NULL)"
      using V by (auto simp: served_def listens_def)
    then show "\<exists>Q. kinv s' Q \<and> running s' Q \<and> everyone s' Q = dom (thrs s') - {kthread_main s'} - E
            \<and> (Q (QCond (requests_cond s')) = []
               \<or> Q (QCond (requests_cond s')) = [p] \<and> (\<exists>x. mtxs s' (requests_mutex s') = Some x \<and> owner x = NULL))
            \<and> (\<forall>cause. trap_ok p U Q s' cause \<longrightarrow>
                 (\<exists>s'' U' E'. exception_handler im junk cause s' = Some s'' \<and> sys_runs im p s0 U' E' s''))"
      using soundD(4,5,6) [OF S(1)] trap_runs_on [OF r S j(3)] unfolding answered_def by blast
  qed
qed

text \<open>\<open>unbooted\<close>'s mutex and condition lie below its heap.\<close>

lemma unbooted_static:
  "unat (requests_mutex unbooted) < unat (0x50001000 :: addr)" "unat (requests_cond unbooted) < unat (0x50001000 :: addr)"
  by (simp_all add: unbooted_def demo_kernel_def kernel.defs kstate.defs demo_defs demo_addr)

theorem kernel_serves_traps_witness:
  "\<exists>s0 s1 p U E. kernel_init 0x50001000 0x50004000 demo_image demo_junk demo_junk 0x40000300 0x40000200 unbooted = Some s0
     \<and> exception_handler demo_image demo_junk (EXCEPTION_INTERRUPT OR EXTERNAL_INTERRUPT) (s0\<lparr>dev := demo_devices\<lparr>plic_claims := [4, 1]\<rparr>\<rparr>)
        = Some s1 \<and> sys_runs demo_image p s0 U E s1"
proof -
  let ?d = "demo_devices\<lparr>plic_claims := [4, 1]\<rparr>" and ?int = "EXCEPTION_INTERRUPT OR EXTERNAL_INTERRUPT"
  have ok: "trap_ok p U Q (s\<lparr>dev := ?d\<rparr>) ?int" for p U Q s by (simp add: trap_ok_def claims_ok_def)
  have run: "sys_runs im p s {} (({} \<union> {}) \<inter> dom (thrs (s\<lparr>dev := ?d\<rparr>))) (s\<lparr>dev := ?d\<rparr>)" for im p s
    by (rule sys_runs.step [OF sys_runs.start sys_step.device])
  from kernel_serves_traps [OF unbooted_room unbooted_static demo_junk_regs demo_junk_regs demo_junk_regs, of "0x40000300" "0x40000200"]
  obtain s0 p where s0: "kernel_init 0x50001000 0x50004000 demo_image demo_junk demo_junk 0x40000300 0x40000200 unbooted = Some s0"
    "\<And>U E s'. sys_runs demo_image p s0 U E s' \<Longrightarrow> \<exists>Q. \<forall>cause. trap_ok p U Q s' cause \<longrightarrow>
       (\<exists>s'' U' E'. exception_handler demo_image demo_junk cause s' = Some s'' \<and> sys_runs demo_image p s0 U' E' s'')"
    by (elim exE conjE) (rule that, assumption, blast)
  show ?thesis using s0(1) s0(2) [OF run] ok by blast
qed

section \<open>Who owns the memory\<close>

text \<open>
  Every live segment has one owner and the size it was created with, every owner has its segments, and no two segments overlap. A segment
  begins 12 bytes before the address handed out.
\<close>

definition one_owner :: "addr \<Rightarrow> nat \<Rightarrow> image \<Rightarrow> addr set \<Rightarrow> kernel \<Rightarrow> bool" where
  "one_owner HS N im U s \<longleftrightarrow> (\<exists>L. holds HS N L (kheap s)
     \<and> (\<forall>q. q \<in> dom L \<longleftrightarrow> (\<exists>x. used_as U s q x))
     \<and> (\<forall>q x y. used_as U s q x \<longrightarrow> used_as U s q y \<longrightarrow> x = y)
     \<and> (\<forall>q x n. used_as U s q x \<longrightarrow> L q = Some n \<longrightarrow> fits_piece im x n)
     \<and> (\<forall>q r a b. L q = Some a \<longrightarrow> L r = Some b \<longrightarrow> q \<noteq> r \<longrightarrow>
          {unat q - 12..<unat q - 12 + 64 * a} \<inter> {unat r - 12..<unat r - 12 + 64 * b} = {}))"

text \<open>The calls for memory and objects return; memory that is handed out was nobody's.\<close>

definition calls_answered :: "image \<Rightarrow> addr set \<Rightarrow> kernel \<Rightarrow> bool" where
  "calls_answered im U s \<longleftrightarrow>
     (\<forall>n. get_param 0 s = Some n \<longrightarrow> good_size n \<longrightarrow> (\<exists>s' r. syscall_mem_alloc s = Some s' \<and> get_param 0 s' = Some r
        \<and> (r = NULL \<or> (\<forall>x. \<not> used_as U s r x))))
     \<and> (\<forall>q\<in>U. get_param 0 s = Some q \<longrightarrow> syscall_mem_free s \<noteq> None)
     \<and> (\<forall>l junk. get_param 0 s = Some l \<longrightarrow> l = NULL \<or> writable l (kram s) \<longrightarrow> length (regs (ctx junk)) = 16 \<longrightarrow>
          syscall_mutex_create s \<noteq> None \<and> syscall_cond_create s \<noteq> None \<and> syscall_thread_create im junk s \<noteq> None)"

lemma sound_one_owner:
  assumes S: "sound HS N im p U E s Q L"
  shows "one_owner HS N im U s"
proof -
  have C: "covers im L (used_as U s)" using soundD(2) [OF S] by (simp add: owned_def)
  show ?thesis
    unfolding one_owner_def using C holds_disjoint [OF soundD(7) [OF S]]
    by (intro exI [of _ L] conjI soundD(7) [OF S]) (auto simp: covers_def)
qed

lemma sound_calls:
  assumes S: "sound HS N im p U E s Q L" and E: "E \<subseteq> dom (thrs s)"
  shows "calls_answered im U s"
  unfolding calls_answered_def
proof (intro conjI allI ballI impI)
  show "\<exists>s' r. syscall_mem_alloc s = Some s' \<and> get_param 0 s' = Some r \<and> (r = NULL \<or> (\<forall>x. \<not> used_as U s r x))"
    if "get_param 0 s = Some n" "good_size n" for n using alloc_sound [OF S that] by blast
  show "syscall_mem_free s \<noteq> None" if "q \<in> U" "get_param 0 s = Some q" for q using free_sound [OF S that(2,1)] by blast
  show "syscall_mutex_create s \<noteq> None" "syscall_cond_create s \<noteq> None" "syscall_thread_create im junk s \<noteq> None"
    if "get_param 0 s = Some l" "l = NULL \<or> writable l (kram s)" "length (regs (ctx junk)) = 16" for l junk
    using mutex_create_sound [OF S that(1)] cond_create_sound [OF S that(1)] thread_create_sound [OF S that(3) E that(1)] that(2)
    by blast+
qed

text \<open>
  C3: In every run of \<open>sys_runs\<close> every block of the heap that is in use has one owner. The restrictions of these runs are those named above:
  in particular they expand no block (which corrupts the heap), do not use thread-specific storage (whose records are not accounted for here),
  signal and broadcast only under \<open>waiters_ok\<close>, ask for no size that wraps around, free only what was given, and destroy no object somebody
  waits for. In their states the live segments are exactly the records, stacks and thread-local data of the threads that exist (the static
  main thread apart), the mutexes and conditions created and not destroyed, and what the user has allocated and not given back: nothing
  leaks, no two of them share a segment or overlap, and each has the size it was created with. So a request for memory returns null or an
  address nothing else uses, giving back what one has does not fault, and neither does creating an object, whether memory is left for it or
  not. With stacks of 65 of the at most 256 blocks, never more than three threads exist beside the main thread.
\<close>

theorem kernel_owns_memory:
  assumes geo: "RAM_START \<le> HS" "HE \<le> RAM_END" "unat HS + 64 \<le> unat HE" and N: "N = (unat HE - unat HS) div 64"
    and f: "fresh_kernel HS s" and im: "image_ok HS N im (kram s)" and room: "2 * (67 + blocks_of (tdata_size im)) \<le> N"
    and st: "unat (requests_mutex s) < unat HS" "unat (requests_cond s) < unat HS"
    and j: "length (regs (ctx j1)) = 16" "length (regs (ctx j2)) = 16"
  shows "\<exists>s0 p t. kernel_init HS HE im j1 j2 sp mn s = Some s0 \<and> thrs s0 p = Some t \<and> pc (ctx t) = sp
    \<and> (\<forall>U E s'. sys_runs im p s0 U E s' \<longrightarrow>
         one_owner HS N im U s' \<and> calls_answered im U s' \<and> card (dom (thrs s')) \<le> 4)"
proof -
  obtain s0 p t where b: "kernel_init HS HE im j1 j2 sp mn s = Some s0" "thrs s0 p = Some t" "pc (ctx t) = sp"
    using kernel_init_boots [OF geo N f im room, of j1 j2 sp mn] by blast
  obtain Q0 L0 where S0: "sound HS N im p {} {} s0 Q0 L0" using kernel_init_sound [OF geo N f im st j b(1)] by blast
  have all: "one_owner HS N im U s' \<and> calls_answered im U s' \<and> card (dom (thrs s')) \<le> 4" if r: "sys_runs im p s0 U E s'" for U E s'
  proof -
    obtain Q L where S: "sound HS N im p U E s' Q L" "E \<subseteq> dom (thrs s')" using sys_runs_sound [OF r S0] by blast
    show ?thesis using sound_one_owner [OF S(1)] sound_calls [OF S] sound_threads_limit(2) [OF S(1)] by blast
  qed
  from b show ?thesis
    by (intro exI [of _ s0] exI [of _ p] exI [of _ t] conjI allI [OF allI [OF allI [OF impI [OF all]]]])
qed

text \<open>The idle thread asks for 100 bytes.\<close>

theorem kernel_owns_memory_witness:
  "\<exists>s0 p s1 r. kernel_init 0x50001000 0x50004000 demo_image demo_junk demo_junk 0x40000300 0x40000200 unbooted = Some s0
     \<and> sys_runs demo_image p s0 (if r = NULL then {} else {r}) {} s1 \<and> get_param 0 s1 = Some r
     \<and> one_owner 0x50001000 192 demo_image (if r = NULL then {} else {r}) s1"
proof -
  obtain s0 p where s0: "kernel_init 0x50001000 0x50004000 demo_image demo_junk demo_junk 0x40000300 0x40000200 unbooted = Some s0"
    "\<And>U E s'. sys_runs demo_image p s0 U E s' \<Longrightarrow> one_owner 0x50001000 192 demo_image U s' \<and> calls_answered demo_image U s'"
  proof -
    from kernel_owns_memory [OF unbooted_room unbooted_static demo_junk_regs demo_junk_regs, of "0x40000300" "0x40000200"]
    show thesis by (elim exE conjE) (rule that, assumption, blast)
  qed
  obtain Q L where "sound 0x50001000 192 demo_image p {} {} s0 Q L"
    using kernel_init_sound [OF unbooted_room(1-6) unbooted_static demo_junk_regs demo_junk_regs s0(1)] by blast
  then obtain t where t: "thrs s0 (kthread_current s0) = Some t" using running_live soundD(6) by blast
  let ?v = "\<lparr>regs = (replicate 16 0)[REG_A0 := 100], status = 0, pc = 0\<rparr>"
  let ?s = "s0\<lparr>kram := kram s0, thrs := (thrs s0)(kthread_current s0 \<mapsto> t\<lparr>ctx := ?v\<rparr>)\<rparr>"
  have "task_step p (requests_mutex s0) (requests_cond s0) s0 {} ?s" by (rule task_step.user [OF t]) simp_all
  from sys_runs.step [OF sys_runs.start sys_step.task [OF this]]
  have r: "sys_runs demo_image p s0 {} {} ?s" by simp
  have n: "get_param 0 ?s = Some 100" "good_size 100"
    by (simp_all add: get_param_def get_reg_def REG_A0_def good_size_def)
  obtain s1 r where s1: "syscall_mem_alloc ?s = Some s1" "get_param 0 s1 = Some r"
    using s0(2) [OF r] n unfolding calls_answered_def by blast
  have "sys_runs demo_image p s0 (if r = NULL then {} else {r}) {} s1"
    using sys_runs.step [OF r sys_step.alloc [OF n s1]] by simp
  then show ?thesis using s0(1) s1(2) s0(2) by blast
qed

end
