(* ===== verification/Spec2Isabelle.thy ===== *)
theory Spec2Isabelle
  imports Heap_Properties Sync_Properties Device_Properties Thread_Properties Storage_Properties
    String_Properties Conv_Properties Search_Properties Pool_Properties User_Properties System_Properties
begin

text \<open>
  Niski is a computer on an FPGA: a 32-bit RISC-V processor (RV32E, 16 registers) with its devices, a small kernel and a
  C standard library. This development models the C code under \<^verbatim>\<open>Software/src\<close> and \<^verbatim>\<open>Software/h\<close>.

  \<^bold>\<open>How the program works.\<close> \<^verbatim>\<open>kernel/init.c\<close> sets up the heap, the devices and two threads: the processor of signals and \<open>main\<close>. User
  threads enter the kernel by system calls (\<^verbatim>\<open>kernel/exceptions/syscalls.c\<close>) and are preempted by timer interrupts; external interrupts
  become signals in a ring, which the processor of signals takes out and handles as an ordinary thread. Threads block on mutexes and
  conditions, whose queues, like the ready queue, are singly linked through the threads themselves. All kernel objects come from one
  first-fit heap. The C library sits on top of the system calls; its memory functions use the DMA engine.

  \<^bold>\<open>Values and states.\<close> A machine word is a \<open>32 word\<close> (\<open>u32\<close>, \<open>addr\<close>), so sizes and addresses wrap around as they do on the machine; a C
  \<open>int\<close> whose overflow C leaves undefined is an \<open>int\<close>, with the range written out where it matters. \<open>None\<close> is an access the
  machine traps on (a null or dangling pointer, an address outside the RAM, an index past the end of an array), or a loop that does not
  return. Every kernel object has a typed store, a partial map from its address to a record with the fields of its struct
  (\<open>Kernel_State\<close>); memory used as plain bytes is a partial map from addresses to bytes (\<open>Bytes\<close>). The state grows by record extension:
  \<open>heap\<close> (the segments' headers and the head of the free list), \<open>kstate\<close> (heap, bytes, objects, the scheduler's variables) and \<open>kernel\<close>
  (devices, ring and handlers of signals). Operations on an inner state are polymorphic in what extends it.

  \<^bold>\<open>The models, and the source they follow\<close> (paths below \<^verbatim>\<open>Software/src\<close>):
  \<^item> \<open>Heap_Allocator\<close>: \<^verbatim>\<open>kernel/mem_alloc/heap_allocator.c\<close>. \<open>Buddy\<close>, \<open>Slab\<close>: \<^verbatim>\<open>buddy_allocator.c\<close>, \<^verbatim>\<open>slab_allocator.c\<close> and
    \<^verbatim>\<open>cache_allocator.c\<close>, which the kernel does not use yet.
  \<^item> \<open>Scheduler\<close>, \<open>Dispatch\<close>, \<open>Mutex\<close>, \<open>Condition\<close>, \<open>Thread\<close>, \<open>Thread_Local\<close>: the files of \<^verbatim>\<open>kernel/sync\<close>.
  \<^item> \<open>Signals\<close>, \<open>Signal_Thread\<close>, \<open>Default_Handler\<close>: \<^verbatim>\<open>kernel/signals.c\<close>: ring and handlers, the loop of the processor step by step, the
    default handler; the last theory also has \<^verbatim>\<open>main.c\<close>.
  \<^item> \<open>Syscalls\<close>, \<open>Exceptions\<close>: \<^verbatim>\<open>kernel/exceptions\<close> and \<^verbatim>\<open>kernel/init.c\<close>. \<open>Kernel_Io\<close>: \<^verbatim>\<open>kernel/io\<close>.
  \<^item> \<open>Dma\<close>, \<open>Devices\<close>: \<^verbatim>\<open>devices\<close>; the engine behind the DMA driver follows \<^verbatim>\<open>Hardware/Devices/DMA/DMA.sv\<close>.
  \<^item> \<open>Memory\<close>, \<open>Strings\<close>, \<open>Conv\<close>, \<open>Stdlib\<close>, \<open>Ctype\<close>: \<^verbatim>\<open>std\<close> and the inline functions of the headers. \<open>User_Api\<close>: the wrappers of system
    calls in \<^verbatim>\<open>Software/h/threads.h\<close>, \<^verbatim>\<open>signal.h\<close>, \<^verbatim>\<open>stdio.h\<close>, each as the trap its stub causes.

  \<^bold>\<open>Interfaces\<close> (\<open>Interfaces\<close>). \<open>segment_allocator\<close> is what thread creation needs of a heap, interpreted on \<open>kheap_alloc\<close> and
  \<open>kheap_dealloc\<close> in \<open>Heap_Ledger\<close>; \<open>fifo\<close> is what dispatching needs of a scheduler, interpreted in \<open>Round_Robin\<close>; \<open>slot_pool\<close> is
  what a cache needs of a slab, interpreted in \<open>Slab_Correct\<close>.

  \<^bold>\<open>The lemmas.\<close>
  \<^item> Heap (\<open>Heap_List\<close>, \<open>Heap_Correct\<close>, \<open>Heap_Runs\<close>, \<open>Heap_Ledger\<close>): \<open>heap_inv HS N A h\<close> says that the free list is the sorted, fully
    coalesced list of the blocks that the map \<open>A\<close> of live segments leaves free. The operations refine their effect on \<open>A\<close>.
  \<^item> Queues and synchronisation (\<open>Queues\<close>, \<open>Kernel_Inv\<close>, \<open>Sync_Inv\<close>, \<open>Sync_Spec\<close>, \<open>Round_Robin\<close>, \<open>Kernel_Steps\<close>): \<open>kinv s Q\<close> says that the links
    of the threads spell the lists \<open>Q\<close> of all queues, that these are disjoint, that every thread is marked as its place demands and
    that a mutex with waiters has an owner. Each operation refines its effect on \<open>Q\<close>; \<open>kruns\<close> are the runs of user code, timer interrupts,
    scheduling calls and memory calls in which conditions are signalled only under \<open>waiters_ok\<close>, which the code does not check. \<open>Mutual_Exclusion\<close> follows one thread's claim to a mutex through them.
    \<open>Sync_Frame\<close> says what all of them leave alone. \<open>Signal_Delivery\<close>: a signal wakes the processor, which calls its handler.
    \<open>Kernel_System\<close> adds to \<open>kinv\<close> what holds of the processor's mutex and condition (\<open>listens\<close>), which its own calls and all calls of the
    others keep.
  \<^item> The whole kernel. \<open>System_Invariant\<close> joins these invariants with the ring (\<open>served\<close>). \<open>Memory_Owners\<close> says which object owns which
    segment of the heap (\<open>owned\<close>); \<open>Memory_Frame\<close> says which operations leave owners alone, \<open>Kernel_Objects\<close> what a change of objects
    leaves of the queues. \<open>System_Steps\<close> shows that every call that creates or destroys an object keeps \<open>sound\<close>, the conjunction of
    all of this, \<open>System_Runs\<close> that every step of the kernel (\<open>sys_step\<close>, \<open>sys_runs\<close>) does, \<open>System_Start\<close> that \<open>init\<close> establishes it,
    and \<open>System_Calls\<close> that every trap of the kinds they cover (\<open>trap_ok\<close>, \<open>call_ok\<close>) returns and is a step of them. The
    runs leave out \<open>kheap_try_expand\<close>, which corrupts the heap, thread-specific storage, and what the code does not guard against: signals on
    a condition with two waiters or whose waiter's mutex is free, broadcasts to waiters of several mutexes or of a free one, the destruction of
    objects with waiters and of threads that still run, sizes that wrap around, calls on objects that do not exist.
  \<^item> Types (\<open>Kernel_Shape\<close>, \<open>Kernel_Types\<close>): \<open>kernel_wf s\<close> says that register files, ring and handlers have their sizes and the ring's
    indices are in range. Every trap keeps it; \<open>trap_runs\<close> are the runs of traps of any cause with user code between them.
  \<^item> Start (\<open>Boot\<close>): the first allocations lie side by side, so \<open>init\<close> gets its two threads, and the state it leaves satisfies \<open>kinv\<close>.
  \<^item> Threads (\<open>Thread_Ledger\<close>, \<open>Thread_Create\<close>) over the ledger of the heap; thread-specific storage (\<open>Thread_Storage\<close>) as a map.
  \<^item> The C library (\<open>String_Lemmas\<close> and the lemmas beside the models): \<open>cstr m p xs\<close> says that a zero-terminated string \<open>xs\<close> is at \<open>p\<close>.
  \<^item> The theories that end in \<open>Properties\<close> hold the properties, with instances on the states of \<open>Examples\<close>.

  \<^bold>\<open>Loops.\<close> Loops over a structure the code merely trusts (free list, queues, strings, claims of interrupts) are
  \<open>partial_function (option)\<close>; that they return is part of the theorems. The DMA engine terminates by its counter. No loop has fuel;
  \<open>processor_steps\<close>, \<open>dispatch_times\<close> and \<open>slab_alloc_times\<close> count steps of the environment.

  \<^bold>\<open>Parameters.\<close> The linker's and compiler's choices: the heap's bounds, code and literal addresses, the image of thread-local data, the
  addresses of locals that the DMA engine or a system call reads. What code cannot know: the contents of fresh memory (\<open>junk\<close>). Code
  outside the repository: comparison functions of the user (\<open>cmp\<close>), handlers (\<open>call\<close>), destructors (recorded calls), \<^verbatim>\<open>__try_realloc\<close>, which is
  declared and never defined. The time counters that \<open>time\<close> and \<open>clock\<close> read.

  \<^bold>\<open>Not modelled.\<close> Assembly: start-up, saving and restoring registers in the trap, \<open>setjmp\<close>; a system call is modelled from the registers the
  trap saves. The processor and the devices in SystemVerilog, but for the DMA engine, whose transfer is one step here: bus
  arbitration and the last byte, which may still be moving when the driver reads a counter of zero, are left out. Interrupts arrive between system calls
  and, for the processor of signals, between any two of its steps. Nothing protects the
  kernel's objects from the threads, which run in the same memory; that a stray write of a thread destroys one is outside the typed stores. The endless loops \<open>while(true)\<close> of \<^verbatim>\<open>main.c\<close> and of an unknown trap cause. Reading from a
  file, which no file implements.
\<close>

end
